(* ===== verification/Agloom_Prelude.thy ===== *)
theory Agloom_Prelude
  imports Complex_Main "HOL-Library.AList" "HOL-Library.Sublist" "HOL-Library.Multiset"
begin

text \<open>
  Shared vocabulary of the development.

  \<^item> Python values that reach the model as data (\<open>pyval\<close>), with the truth test of
    \<open>if x:\<close> and the string helpers the code calls (\<open>str.strip\<close>, \<open>str.lower\<close>,
    \<open>str.startswith\<close>). A string is its UTF-8 byte sequence: concatenation, comparison,
    prefix and substring tests agree with Python's code-point strings, \<open>strip\<close> and
    \<open>lower\<close> are exact on ASCII, and a slice counts bytes. Floats are exact rationals plus
    the three non-finite values, so IEEE rounding is not modelled.
  \<^item> Python dictionaries keep insertion order. They are association lists with distinct
    keys: lookup is \<open>map_of\<close>, assignment is \<open>AList.update\<close> (overwrite in place, else
    append), \<open>pop\<close> is \<open>AList.delete\<close>.
  \<^item> Errors are values of \<open>pyerror\<close>; a fallible operation returns \<open>pyerror + 'a\<close>.
    \<open>OutOfFuel\<close> is not an error of the program: it marks a loop cut off by its fuel.
  \<^item> Generic lemmas on association lists, stable sorting and list search, collected in
    \<open>dict_simps\<close> and \<open>seq_simps\<close>.
\<close>

named_theorems dict_simps \<open>insertion-ordered dictionaries\<close>
named_theorems seq_simps \<open>lists ordered by sequence number\<close>

section \<open>Python values\<close>

datatype pyfloat = Fin rat | NaN | PosInf | NegInf

datatype pyval =
    PyNone
  | PyBool bool
  | PyInt int
  | PyFloat pyfloat
  | PyStr string
  | PyList "pyval list"
  | PyDict "(string \<times> pyval) list"

type_synonym 'v pydict = "(string \<times> 'v) list"

text \<open>The truth value Python gives an object in a condition.\<close>

fun truthy :: "pyval \<Rightarrow> bool" where
  "truthy PyNone = False"
| "truthy (PyBool b) = b"
| "truthy (PyInt i) = (i \<noteq> 0)"
| "truthy (PyFloat (Fin r)) = (r \<noteq> 0)"
| "truthy (PyFloat _) = True"
| "truthy (PyStr s) = (s \<noteq> [])"
| "truthy (PyList xs) = (xs \<noteq> [])"
| "truthy (PyDict d) = (d \<noteq> [])"

text \<open>\<open>isinstance(v, int)\<close>: \<open>bool\<close> is a subclass of \<open>int\<close>.\<close>

fun as_int :: "pyval \<Rightarrow> int option" where
  "as_int (PyInt i) = Some i"
| "as_int (PyBool b) = Some (if b then 1 else 0)"
| "as_int _ = None"

fun as_str :: "pyval \<Rightarrow> string option" where
  "as_str (PyStr s) = Some s"
| "as_str _ = None"

fun opt_str :: "string option \<Rightarrow> pyval" where
  "opt_str None = PyNone"
| "opt_str (Some s) = PyStr s"

fun opt_int :: "int option \<Rightarrow> pyval" where
  "opt_int None = PyNone"
| "opt_int (Some i) = PyInt i"

section \<open>Errors\<close>

datatype pyerror =
    ValueError string
  | TypeError string
  | AttributeError string
  | KeyError string
  | OverflowError string
  | SchedulerFullError nat nat
  | QueueFull
  | ValidationError string
  | VersionConflict int int
  | BudgetExceeded string
  | CycleDetected string
  | OutOfFuel

section \<open>Strings\<close>

text \<open>A character outside ASCII in a message of the code, as its UTF-8 bytes.\<close>

definition em_dash :: string where
  "em_dash = [CHR 0xE2, CHR 0x80, CHR 0x94]"

definition py_isspace :: "char \<Rightarrow> bool" where
  "py_isspace c \<longleftrightarrow>
     c \<in> {CHR 0x09, CHR 0x0A, CHR 0x0B, CHR 0x0C, CHR 0x0D, CHR 0x1C, CHR 0x1D, CHR 0x1E,
          CHR 0x1F, CHR '' ''}"

definition py_strip :: "string \<Rightarrow> string" where
  "py_strip s = rev (dropWhile py_isspace (rev (dropWhile py_isspace s)))"

definition py_lower_char :: "char \<Rightarrow> char" where
  "py_lower_char c =
     (let n = (of_char c :: nat)
      in if 65 \<le> n \<and> n \<le> 90 then char_of (n + 32) else c)"

definition py_lower :: "string \<Rightarrow> string" where
  "py_lower s = map py_lower_char s"

definition startswith :: "string \<Rightarrow> string \<Rightarrow> bool" where
  "startswith s p \<longleftrightarrow> take (length p) s = p"

text \<open>\<open>str\<close> of an integer.\<close>

fun digits :: "nat \<Rightarrow> string" where
  "digits n = (if n < 10 then [char_of (48 + n)] else digits (n div 10) @ [char_of (48 + n mod 10)])"

declare digits.simps [simp del]

definition py_str_int :: "int \<Rightarrow> string" where
  "py_str_int i = (if i < 0 then ''-'' @ digits (nat (- i)) else digits (nat i))"

definition py_upper_char :: "char \<Rightarrow> char" where
  "py_upper_char c =
     (let n = (of_char c :: nat)
      in if 97 \<le> n \<and> n \<le> 122 then char_of (n - 32) else c)"

text \<open>\<open>s.split()\<close>: the words between white space.\<close>

function py_split :: "string \<Rightarrow> string list" where
  "py_split s =
     (let r = dropWhile py_isspace s
      in if r = [] then []
         else takeWhile (\<lambda>c. \<not> py_isspace c) r # py_split (dropWhile (\<lambda>c. \<not> py_isspace c) r))"
  by pat_completeness auto
termination
proof (relation "measure length")
  fix s x assume x: "x = dropWhile py_isspace s" "x \<noteq> []"
  then have "\<not> py_isspace (hd x)" using hd_dropWhile by metis
  then have "length (dropWhile (\<lambda>c. \<not> py_isspace c) x) < length x"
    using x(2) length_dropWhile_le [of "\<lambda>c. \<not> py_isspace c" "List.tl x"] by (cases x) (auto simp: le_imp_less_Suc)
  also have "\<dots> \<le> length s" using x(1) by (simp add: length_dropWhile_le)
  finally show "(dropWhile (\<lambda>c. \<not> py_isspace c) x, s) \<in> measure length" by simp
qed simp

declare py_split.simps [simp del]

text \<open>\<open>s.replace(old, new)\<close>: from the left, without overlap; an empty \<open>old\<close> is found everywhere.\<close>

function replace_from :: "string \<Rightarrow> string \<Rightarrow> string \<Rightarrow> string" where
  "replace_from old new [] = []"
| "replace_from old new (c # s) =
     (if old \<noteq> [] \<and> startswith (c # s) old then new @ replace_from old new (drop (length old) (c # s))
      else c # replace_from old new s)"
  by pat_completeness auto

termination
  by (relation "measure (\<lambda>(old, new, s). length s)") auto

definition py_replace :: "string \<Rightarrow> string \<Rightarrow> string \<Rightarrow> string" where
  "py_replace old new s =
     (if old = [] then new @ concat (map (\<lambda>c. c # new) s) else replace_from old new s)"

text \<open>\<open>needle in s\<close> on strings.\<close>

fun contains_sub :: "string \<Rightarrow> string \<Rightarrow> bool" where
  "contains_sub [] n = (n = [])"
| "contains_sub (c # s) n = (startswith (c # s) n \<or> contains_sub s n)"

fun join_with :: "string \<Rightarrow> string list \<Rightarrow> string" where
  "join_with sep [] = []"
| "join_with sep [x] = x"
| "join_with sep (x # y # xs) = x @ sep @ join_with sep (y # xs)"

text \<open>\<open>repr\<close> of a string (without its escapes) and of a list of strings.\<close>

definition py_quote :: "string \<Rightarrow> string" where
  "py_quote s = [CHR 0x27] @ s @ [CHR 0x27]"

definition py_repr_strs :: "string list \<Rightarrow> string" where
  "py_repr_strs xs = ''['' @ join_with '', '' (map py_quote xs) @ '']''"

definition blank :: "string \<Rightarrow> bool" where
  "blank s \<longleftrightarrow> py_strip s = []"

text \<open>Occurrences of a text.\<close>

lemma contains_sub_iff: "contains_sub s n \<longleftrightarrow> (\<exists>a b. s = a @ n @ b)"
proof (induction s)
  case (Cons c s)
  have "startswith (c # s) n \<longleftrightarrow> (\<exists>b. c # s = n @ b)"
    by (metis append_eq_conv_conj append_take_drop_id startswith_def)
  moreover have "(\<exists>a b. c # s = a @ n @ b) \<longleftrightarrow> (\<exists>b. c # s = n @ b) \<or> (\<exists>a b. s = a @ n @ b)"
    by (metis append_Cons append_Nil list.inject neq_Nil_conv)
  ultimately show ?case using Cons by simp
qed simp

text \<open>A character that a text lacks separates its occurrences.\<close>

lemma contains_sub_split:
  assumes "d \<notin> set n" and "n \<noteq> []"
  shows "contains_sub (a @ d # b) n \<longleftrightarrow> contains_sub a n \<or> contains_sub b n"
proof
  assume "contains_sub (a @ d # b) n"
  then obtain x y where eq: "a @ d # b = x @ n @ y" by (auto simp: contains_sub_iff)
  show "contains_sub a n \<or> contains_sub b n"
  proof (cases "length x \<le> length a")
    case True
    then obtain z where z: "a = x @ z" "z @ d # b = n @ y"
      using eq by (metis append_eq_append_conv_if append_take_drop_id)
    then obtain u where u: "(z = n @ u \<and> u @ d # b = y) \<or> (z @ u = n \<and> d # b = u @ y)"
      by (metis append_eq_append_conv2)
    then show ?thesis
    proof
      assume "z = n @ u \<and> u @ d # b = y"
      then show ?thesis using z by (auto simp: contains_sub_iff)
    next
      assume zu: "z @ u = n \<and> d # b = u @ y"
      then have "u = []" using assms(1) by (cases u) auto
      then show ?thesis using zu z by (auto simp: contains_sub_iff intro: exI [of _ x])
    qed
  next
    case False
    then obtain z where "x = a @ d # z" "b = z @ n @ y"
      using eq by (auto simp: append_eq_append_conv2 append_eq_Cons_conv Cons_eq_append_conv)
    then show ?thesis by (auto simp: contains_sub_iff)
  qed
next
  assume "contains_sub a n \<or> contains_sub b n"
  then show "contains_sub (a @ d # b) n"
    by (auto simp: contains_sub_iff) (metis append_assoc append_Cons)+
qed

text \<open>
  A replacement that starts and ends with characters the replaced text lacks, and does not
  hold it, leaves no occurrence of it.
\<close>

lemma replace_from_start:
  assumes "x \<notin> set f" and "startswith (replace_from old (x # new) s) f"
  shows "startswith s f"
  using assms
proof (induction s arbitrary: f rule: measure_induct_rule [of length])
  case (less s)
  show ?case
  proof (cases f)
    case f: (Cons z g)
    then obtain c t where s: "s = c # t" using less.prems by (cases s) (auto simp: startswith_def)
    then have "\<not> (old \<noteq> [] \<and> startswith s old)" using less.prems f by (auto simp: startswith_def)
    then have "c = z" "startswith (replace_from old (x # new) t) g"
      using less.prems(2) f s by (auto simp: startswith_def split: if_splits)
    then show ?thesis using less.IH [of t g] less.prems(1) f s by (auto simp: startswith_def)
  qed (simp add: startswith_def)
qed

lemma replace_from_clears:
  assumes old: "old \<noteq> []" "x \<notin> set old" "y \<notin> set old" and new: "\<not> contains_sub (x # new) old"
  shows "\<not> contains_sub (replace_from old (x # new @ [y]) s) old"
proof (induction s rule: measure_induct_rule [of length])
  case (less s)
  show ?case
  proof (cases s)
    case (Cons c t)
    show ?thesis
    proof (cases "startswith s old")
      case True
      let ?R = "replace_from old (x # new @ [y]) (drop (length old) s)"
      have "\<not> contains_sub ?R old" using less.IH old(1) Cons by simp
      then have "\<not> contains_sub ((x # new) @ y # ?R) old"
        using new by (simp only: contains_sub_split [OF old(3,1)] simp_thms)
      then show ?thesis using True Cons old(1) by simp
    next
      case False
      then have "replace_from old (x # new @ [y]) s = c # replace_from old (x # new @ [y]) t" using Cons by simp
      then show ?thesis
        using replace_from_start [OF old(2), of old "new @ [y]" s] False less.IH [of t] Cons by auto
    qed
  qed (use old(1) in simp)
qed

lemma replace_from_none: "\<not> contains_sub s old \<Longrightarrow> replace_from old new s = s"
  by (induction s) auto

lemma startswith_prefix: "startswith s p \<longleftrightarrow> prefix p s"
  by (metis startswith_def append_eq_conv_conj prefix_def)

lemma startswith_Nil [simp]: "startswith s []"
  by (simp add: startswith_def)

lemma startswith_append [simp]: "startswith (p @ s) p"
  by (simp add: startswith_def)

lemma strip_all_space: "py_strip s = [] \<longleftrightarrow> list_all py_isspace s"
proof
  assume "py_strip s = []"
  then have "\<forall>c \<in> set (dropWhile py_isspace s). py_isspace c"
    by (simp add: py_strip_def dropWhile_eq_Nil_conv)
  then have "dropWhile py_isspace s = []"
    by (metis hd_dropWhile hd_in_set)
  then show "list_all py_isspace s"
    by (simp add: list_all_iff dropWhile_eq_Nil_conv)
next
  assume "list_all py_isspace s"
  then have "dropWhile py_isspace s = []"
    by (simp add: list_all_iff dropWhile_eq_Nil_conv)
  then show "py_strip s = []"
    by (simp only: py_strip_def) simp
qed

lemma strip_Nil [simp]: "py_strip [] = []"
  by (simp add: py_strip_def)

section \<open>Lists\<close>

lemma subseq_subset: "subseq xs ys \<Longrightarrow> set xs \<subseteq> set ys"
  by (induction rule: list_emb.induct) auto

lemma subseq_distinct: "subseq xs ys \<Longrightarrow> distinct ys \<Longrightarrow> distinct xs"
  by (induction rule: list_emb.induct) (auto dest: subseq_subset)

lemma subseq_map_distinct: "subseq xs ys \<Longrightarrow> distinct (map f ys) \<Longrightarrow> distinct (map f xs)"
  using subseq_map subseq_distinct by blast

text \<open>Distributing a list over numbered buckets loses nothing.\<close>

lemma mset_buckets:
  assumes "\<forall>x\<in>set xs. f x < n"
  shows "mset (concat (map (\<lambda>i. filter (\<lambda>x. f x = i) xs) [0..<n])) = mset xs"
  using assms
proof (induction xs)
  case Nil
  then show ?case by (induction n) simp_all
next
  case (Cons x xs)
  have split: "(\<lambda>i. filter (\<lambda>y. f y = i) (x # xs))
      = (\<lambda>i. (if i = f x then [x] else []) @ filter (\<lambda>y. f y = i) xs)" by auto
  have ind: "mset (concat (map (\<lambda>i. (if i = f x then [x] else []) @ g i) [0..<m]))
      = (if f x < m then {#x#} else {#}) + mset (concat (map g [0..<m]))" for m g
    by (induction m) auto
  show ?case using Cons unfolding split ind by simp
qed

text \<open>Stable sorting by sequence number.\<close>

lemma insort_key_snoc [seq_simps]:
  "f x \<le> f e \<Longrightarrow> insort_key f x (ys @ [e]) = insort_key f x ys @ [e]"
  by (induction ys) auto

lemma sort_key_snoc [seq_simps]:
  "\<forall>x\<in>set xs. f x \<le> f e \<Longrightarrow> sort_key f (xs @ [e]) = sort_key f xs @ [e]"
  by (induction xs) (auto simp: insort_key_snoc)

lemma sort_key_sorted [seq_simps]: "sorted (map f xs) \<Longrightarrow> sort_key f xs = xs"
  by (induction xs rule: rev_induct) (auto simp: sorted_append sort_key_snoc)

lemma strictly_sorted_key:
  assumes "distinct (map f xs)"
  shows "sorted_wrt (<) (map f (sort_key f xs))"
proof -
  have "distinct (map f (sort_key f xs))"
    using assms by (metis distinct_map distinct_sort set_sort)
  then show ?thesis by (simp add: strict_sorted_iff)
qed

lemma sort_key_Nil_iff [simp]: "sort_key f xs = [] \<longleftrightarrow> xs = []"
  by (metis length_0_conv length_sort)

lemma filter_le_nth_drop:
  fixes f :: "'a \<Rightarrow> 'b :: linorder"
  assumes "sorted_wrt (<) (map f xs)" and "n < length xs"
  shows "filter (\<lambda>e. f (xs ! n) < f e) xs = drop (Suc n) xs"
  using assms
proof (induction xs arbitrary: n)
  case (Cons x xs)
  show ?case
  proof (cases n)
    case 0
    then show ?thesis using Cons.prems by (auto simp: filter_id_conv)
  next
    case (Suc m)
    then have "f x < f (xs ! m)" using Cons.prems by auto
    then have "\<not> f (xs ! m) < f x" by simp
    then show ?thesis using Suc Cons by auto
  qed
qed simp

lemma sorted_wrt_subseq: "subseq xs ys \<Longrightarrow> sorted_wrt P ys \<Longrightarrow> sorted_wrt P xs"
  by (induction rule: list_emb.induct) (auto dest: list_emb_set)

end
