(* ===== verification/Worker_Registry.thy ===== *)
theory Worker_Registry
  imports Agloom_Prelude
begin

text \<open>
  Workers of the runtime and their registry (\<open>src/agloom/runtime/workers/types.py\<close>,
  \<open>workers/__init__.py\<close>, \<open>workers/local.py\<close>, \<open>registry/__init__.py\<close>): the task and health
  records, the status changes of a worker, the execution of a task by the local AI worker,
  and the lookup and reservation of workers by capability.

  The registry's contract is the locale \<open>worker_registry\<close>, interpreted on the in-memory
  registry; a booking protocol over it (reserve, execute, release) shows that a worker never
  runs two tasks at once. Times are rational seconds; a worker is named by its id.
\<close>

section \<open>Data\<close>

datatype worker_type =
    LOCAL_AI | TOOL | SUBPROCESS | REMOTE_HTTP | REMOTE_WS | RAY | GPU_INFERENCE | EMBEDDING
  | BROWSER | CUSTOM

datatype task_status =
    Task_QUEUED | Task_RUNNING | Task_COMPLETED | Task_FAILED | Task_CANCELLED | Task_TIMED_OUT

datatype worker_status = STARTING | IDLE | BUSY | DRAINING | STOPPED | UNHEALTHY

record retry_policy =
  max_retries :: int
  backoff_ms :: int
  backoff_multiplier :: rat
  retryable_codes :: "string list"

definition default_retry :: retry_policy where
  "default_retry = \<lparr>max_retries = 3, backoff_ms = 1000, backoff_multiplier = 2,
     retryable_codes = [''timeout'', ''transient'', ''resource_unavailable'']\<rparr>"

text \<open>Seconds before retry \<open>attempt\<close>, counted from 1 (\<open>multiplier ** (attempt - 1)\<close>).\<close>

definition delay_for_attempt :: "retry_policy \<Rightarrow> nat \<Rightarrow> rat" where
  "delay_for_attempt p attempt =
     of_int (backoff_ms p) * backoff_multiplier p ^ (attempt - 1) / 1000"

record worker_task =
  task_id :: string
  task_type :: string
  task_payload :: "pyval pydict"
  task_session :: string
  task_thread :: string
  task_priority :: int
  task_timeout_ms :: "int option"
  task_required :: "string list"
  task_policy :: retry_policy
  task_state :: task_status
  task_attempt :: nat
  task_worker :: "string option"
  task_created :: rat
  task_started :: "rat option"
  task_finished :: "rat option"

text \<open>\<open>int(\<dots>.total_seconds() * 1000)\<close> of a non-negative or negative difference.\<close>

definition task_duration_ms :: "worker_task \<Rightarrow> int option" where
  "task_duration_ms t =
     (case (task_started t, task_finished t) of
        (Some s, Some f) \<Rightarrow>
          (let ms = (f - s) * 1000 in Some (if 0 \<le> ms then \<lfloor>ms\<rfloor> else \<lceil>ms\<rceil>))
      | _ \<Rightarrow> None)"

record worker_health =
  wh_worker_id :: string
  wh_status :: worker_status
  wh_active :: nat
  wh_completed :: nat
  wh_failed :: nat
  wh_uptime_s :: rat
  wh_last_error :: "string option"

definition is_healthy :: "worker_health \<Rightarrow> bool" where
  "is_healthy h \<longleftrightarrow> wh_status h \<notin> {UNHEALTHY, STOPPED}"

definition health_available :: "worker_health \<Rightarrow> bool" where
  "health_available h \<longleftrightarrow> wh_status h = IDLE"

section \<open>The base worker\<close>

record worker =
  w_id :: string
  w_capabilities :: "string list"
  w_max_concurrency :: int
  w_status :: worker_status
  w_active :: "string list"
  w_completed :: nat
  w_failed :: nat
  w_started_at :: "rat option"
  w_last_error :: "string option"

definition worker_init :: "string \<Rightarrow> string list \<Rightarrow> int \<Rightarrow> worker" where
  "worker_init wid caps max_concurrency =
     \<lparr>w_id = wid, w_capabilities = caps, w_max_concurrency = max_concurrency,
      w_status = STARTING, w_active = [], w_completed = 0, w_failed = 0, w_started_at = None,
      w_last_error = None\<rparr>"

definition worker_start :: "rat \<Rightarrow> worker \<Rightarrow> worker" where
  "worker_start now w = w\<lparr>w_status := IDLE, w_started_at := Some now\<rparr>"

text \<open>\<open>stop\<close> awaits the running tasks between these two steps.\<close>

definition worker_stop_begin :: "worker \<Rightarrow> worker" where
  "worker_stop_begin w = w\<lparr>w_status := DRAINING\<rparr>"

definition worker_stop_end :: "worker \<Rightarrow> worker" where
  "worker_stop_end w = w\<lparr>w_status := STOPPED\<rparr>"

definition worker_available :: "worker \<Rightarrow> bool" where
  "worker_available w \<longleftrightarrow>
     w_status w = IDLE \<and> int (length (w_active w)) < w_max_concurrency w"

text \<open>\<open>r.split(":")[0] + ":"\<close>.\<close>

definition capability_prefix :: "string \<Rightarrow> string" where
  "capability_prefix r = takeWhile (\<lambda>c. c \<noteq> CHR '':'') r @ '':''"

definition has_capabilities :: "worker \<Rightarrow> string list \<Rightarrow> bool" where
  "has_capabilities w required \<longleftrightarrow>
     required = [] \<or>
     list_all (\<lambda>r. r \<in> set (w_capabilities w)
                 \<or> list_ex (\<lambda>c. startswith c (capability_prefix r)) (w_capabilities w)) required"

definition mark_busy :: "worker \<Rightarrow> worker" where
  "mark_busy w =
     (if w_max_concurrency w \<le> int (length (w_active w)) then w\<lparr>w_status := BUSY\<rparr> else w)"

definition mark_idle_if_free :: "worker \<Rightarrow> worker" where
  "mark_idle_if_free w =
     (if int (length (w_active w)) < w_max_concurrency w then w\<lparr>w_status := IDLE\<rparr> else w)"

definition worker_uptime :: "rat \<Rightarrow> worker \<Rightarrow> rat" where
  "worker_uptime now w = (case w_started_at w of None \<Rightarrow> 0 | Some s \<Rightarrow> now - s)"

definition health_check :: "rat \<Rightarrow> worker \<Rightarrow> worker_health" where
  "health_check now w =
     \<lparr>wh_worker_id = w_id w, wh_status = w_status w, wh_active = length (w_active w),
      wh_completed = w_completed w, wh_failed = w_failed w, wh_uptime_s = worker_uptime now w,
      wh_last_error = w_last_error w\<rparr>"

section \<open>The local AI worker\<close>

definition default_ai_caps :: "string list" where
  "default_ai_caps = [''agent:local'', ''agent:react'', ''agent:cot'']"

definition local_worker_init :: "string \<Rightarrow> string list option \<Rightarrow> int \<Rightarrow> worker" where
  "local_worker_init wid extra max_concurrency =
     worker_init wid (default_ai_caps @ (case extra of None \<Rightarrow> [] | Some xs \<Rightarrow> xs)) max_concurrency"

text \<open>Up to the first await of \<open>execute\<close>: the worker takes the task.\<close>

definition set_insert :: "string \<Rightarrow> string list \<Rightarrow> string list" where
  "set_insert k ks = (if k \<in> set ks then ks else ks @ [k])"

definition local_begin :: "rat \<Rightarrow> worker_task \<Rightarrow> worker \<Rightarrow> worker_task \<times> worker" where
  "local_begin now t w =
     (t\<lparr>task_state := Task_RUNNING, task_started := Some now, task_attempt := task_attempt t + 1\<rparr>,
      mark_busy (w\<lparr>w_active := set_insert (task_id t) (w_active w)\<rparr>))"

record agent_event =
  ae_type :: string
  ae_data :: "pyval pydict"

text \<open>Bytes of answer text: a string is its UTF-8 bytes, so \<open>length\<close> is the encoded length.\<close>

fun first_str :: "string list \<Rightarrow> pyval pydict \<Rightarrow> string option" where
  "first_str [] d = None"
| "first_str (k # ks) d =
     (case map_of d k of Some (PyStr s) \<Rightarrow> Some s | _ \<Rightarrow> first_str ks d)"

definition count_output_bytes :: "nat \<Rightarrow> agent_event \<Rightarrow> nat" where
  "count_output_bytes n e =
     (if ae_type e \<in> {''token'', ''done'', ''answer'', ''message_assistant''} then
        let n1 = (case first_str [''output'', ''text'', ''content''] (ae_data e) of
                    None \<Rightarrow> n | Some s \<Rightarrow> n + length s)
        in if ae_type e = ''done'' then
             (case map_of (ae_data e) ''result'' of
                Some (PyDict r) \<Rightarrow>
                  (case map_of r ''output'' of
                     Some (PyStr s) \<Rightarrow> (if s \<noteq> [] then max n1 (length s) else n1)
                   | _ \<Rightarrow> n1)
              | _ \<Rightarrow> n1)
           else n1
      else n)"

text \<open>How the agent's event stream ended, and the AGP worker event it leads to.\<close>

datatype stream_end = Stream_done | Stream_cancelled | Stream_raised string

datatype worker_event =
    Worker_spawned string "string option"
  | Worker_completed string nat int
  | Worker_failed string string int

definition local_spawned :: "worker_task \<Rightarrow> worker \<Rightarrow> worker_event" where
  "local_spawned t w =
     (let prompt = (case map_of (task_payload t) ''prompt'' of Some (PyStr s) \<Rightarrow> s | _ \<Rightarrow> [])
      in Worker_spawned (w_id w) (if prompt \<noteq> [] then Some (take 80 prompt) else None))"

definition local_finish ::
    "rat \<Rightarrow> agent_event list \<Rightarrow> stream_end \<Rightarrow> worker_task \<Rightarrow> worker
       \<Rightarrow> worker_task \<times> worker \<times> worker_event list" where
  "local_finish now events how t w =
     (let free = (\<lambda>w'. mark_idle_if_free
                        (w'\<lparr>w_active := filter (\<lambda>k. k \<noteq> task_id t) (w_active w')\<rparr>));
          t' = (\<lambda>st. t\<lparr>task_state := st, task_finished := Some now\<rparr>)
      in case how of
           Stream_done \<Rightarrow>
             (t' Task_COMPLETED, free (w\<lparr>w_completed := w_completed w + 1\<rparr>),
              [Worker_completed (w_id w) (foldl count_output_bytes 0 events)
                 (case task_duration_ms (t' Task_COMPLETED) of None \<Rightarrow> 0 | Some d \<Rightarrow> d)])
         | Stream_cancelled \<Rightarrow>
             (t' Task_CANCELLED, free (w\<lparr>w_last_error := Some ''cancelled''\<rparr>), [])
         | Stream_raised e \<Rightarrow>
             (t' Task_FAILED, free (w\<lparr>w_failed := w_failed w + 1, w_last_error := Some e\<rparr>),
              [Worker_failed (w_id w) e
                 (case task_duration_ms (t' Task_FAILED) of None \<Rightarrow> 0 | Some d \<Rightarrow> d)]))"

section \<open>The in-memory registry\<close>

record registry =
  reg_workers :: "worker pydict"
  reg_reserved :: "string list"

definition registry_init :: registry where
  "registry_init = \<lparr>reg_workers = [], reg_reserved = []\<rparr>"

definition reg_register :: "worker \<Rightarrow> registry \<Rightarrow> registry" where
  "reg_register w r = r\<lparr>reg_workers := AList.update (w_id w) w (reg_workers r)\<rparr>"

definition reg_deregister :: "string \<Rightarrow> registry \<Rightarrow> registry" where
  "reg_deregister wid r = r\<lparr>reg_workers := AList.delete wid (reg_workers r)\<rparr>"

definition reg_get :: "string \<Rightarrow> registry \<Rightarrow> worker option" where
  "reg_get wid r = map_of (reg_workers r) wid"

definition eligible :: "string list \<Rightarrow> registry \<Rightarrow> worker \<Rightarrow> bool" where
  "eligible required r w \<longleftrightarrow>
     w_id w \<notin> set (reg_reserved r) \<and> worker_available w \<and> has_capabilities w required"

definition find_available :: "string list \<Rightarrow> registry \<Rightarrow> worker option" where
  "find_available required r = List.find (eligible required r) (map snd (reg_workers r))"

definition find_and_reserve :: "string list \<Rightarrow> registry \<Rightarrow> worker option \<times> registry" where
  "find_and_reserve required r =
     (case List.find (eligible required r) (map snd (reg_workers r)) of
        None \<Rightarrow> (None, r)
      | Some w \<Rightarrow> (Some w, r\<lparr>reg_reserved := set_insert (w_id w) (reg_reserved r)\<rparr>))"

definition reg_release :: "string \<Rightarrow> registry \<Rightarrow> registry" where
  "reg_release wid r = r\<lparr>reg_reserved := filter (\<lambda>k. k \<noteq> wid) (reg_reserved r)\<rparr>"

text \<open>A probe that raises is reported as unhealthy.\<close>

definition get_health_snapshot ::
    "(worker \<Rightarrow> string + worker_health) \<Rightarrow> registry \<Rightarrow> worker_health list" where
  "get_health_snapshot probe r =
     map (\<lambda>w. case probe w of
                Inr h \<Rightarrow> h
              | Inl e \<Rightarrow> \<lparr>wh_worker_id = w_id w, wh_status = UNHEALTHY, wh_active = 0,
                          wh_completed = 0, wh_failed = 0, wh_uptime_s = 0,
                          wh_last_error = Some e\<rparr>)
         (map snd (reg_workers r))"

definition reg_update_worker :: "string \<Rightarrow> (worker \<Rightarrow> worker) \<Rightarrow> registry \<Rightarrow> registry" where
  "reg_update_worker wid f r =
     (case reg_get wid r of
        None \<Rightarrow> r
      | Some w \<Rightarrow> r\<lparr>reg_workers := AList.update wid (f w) (reg_workers r)\<rparr>)"

section \<open>The contract of a registry with reservations\<close>

datatype 'o booking_event = Book string "string list" | Finish string | Other 'o

locale worker_registry =
  fixes reserved :: "'r \<Rightarrow> string set"
    and reserve :: "string list \<Rightarrow> 'r \<Rightarrow> worker option \<times> 'r"
    and release :: "string \<Rightarrow> 'r \<Rightarrow> 'r"
    and change :: "'o \<Rightarrow> 'r \<Rightarrow> 'r"
  assumes reserve_fresh: "reserve req r = (Some w, r') \<Longrightarrow>
        w_id w \<notin> reserved r \<and> reserved r' = insert (w_id w) (reserved r)"
    and reserve_capable: "reserve req r = (Some w, r') \<Longrightarrow>
        worker_available w \<and> has_capabilities w req"
    and reserve_none: "reserve req r = (None, r') \<Longrightarrow> r' = r"
    and release_reserved: "reserved (release k r) = reserved r - {k}"
    and change_reserved: "reserved (change x r) = reserved r"
begin

text \<open>Tasks being executed, each with the worker it was given.\<close>

fun book_step :: "'o booking_event \<Rightarrow> 'r \<times> (string \<times> string) list \<Rightarrow> 'r \<times> (string \<times> string) list"
  where
  "book_step (Book t req) (r, running) =
     (case reserve req r of
        (Some w, r') \<Rightarrow> (r', running @ [(t, w_id w)])
      | (None, r') \<Rightarrow> (r', running))"
| "book_step (Finish t) (r, running) =
     (case map_of running t of
        None \<Rightarrow> (r, running)
      | Some wid \<Rightarrow> (release wid r, remove1 (t, wid) running))"
| "book_step (Other x) (r, running) = (change x r, running)"

definition book_run where
  "book_run es s = fold book_step es s"

lemma book_step_exclusive:
  assumes "book_step e (r, running) = (r', running')"
    and "distinct (map snd running)" and "set (map snd running) \<subseteq> reserved r"
  shows "distinct (map snd running') \<and> set (map snd running') \<subseteq> reserved r'"
proof (cases e)
  case (Book t req)
  obtain got r1 where res: "reserve req r = (got, r1)" by fastforce
  show ?thesis
  proof (cases got)
    case None
    then show ?thesis using assms Book res reserve_none [of req r r1] by simp
  next
    case (Some w)
    note fresh = reserve_fresh [of req r w r1]
    have "w_id w \<notin> snd ` set running" using fresh res Some assms(3) by auto
    moreover have "running' = running @ [(t, w_id w)]" "r' = r1"
      using assms(1) Book res Some by auto
    ultimately show ?thesis
      using assms(2,3) fresh res Some by (simp add: subset_insertI2)
  qed
next
  case (Finish t)
  show ?thesis
  proof (cases "map_of running t")
    case None
    then show ?thesis using assms Finish by simp
  next
    case (Some wid)
    then have inr: "(t, wid) \<in> set running" by (rule map_of_SomeD)
    have "distinct (map snd (remove1 (t, wid) running))"
      using assms(2) by (metis distinct_map distinct_remove1 inj_on_subset set_remove1_subset)
    moreover have "snd x \<in> reserved r - {wid}" if x: "x \<in> set (remove1 (t, wid) running)" for x
    proof -
      have "distinct running" using assms(2) by (simp add: distinct_map)
      then have "x \<in> set running" "x \<noteq> (t, wid)" using x by auto
      then have "snd x \<noteq> wid" using assms(2) inr by (metis distinct_map inj_onD snd_conv)
      then show ?thesis using \<open>x \<in> set running\<close> assms(3) by auto
    qed
    moreover have "running' = remove1 (t, wid) running" "r' = release wid r"
      using assms(1) Finish Some by auto
    ultimately show ?thesis by (simp add: release_reserved image_subset_iff)
  qed
next
  case (Other x)
  then show ?thesis using assms change_reserved [of x r] by auto
qed

lemma book_run_exclusive:
  "\<lbrakk>distinct (map snd running); set (map snd running) \<subseteq> reserved r\<rbrakk> \<Longrightarrow>
     distinct (map snd (snd (book_run es (r, running))))
     \<and> set (map snd (snd (book_run es (r, running)))) \<subseteq> reserved (fst (book_run es (r, running)))"
proof (induction es arbitrary: r running)
  case (Cons e es)
  obtain r1 run1 where s: "book_step e (r, running) = (r1, run1)" by fastforce
  show ?case
    using Cons.IH [of run1 r1] book_step_exclusive [OF s Cons.prems] s
    by (simp add: book_run_def)
qed (simp add: book_run_def)

end

text \<open>What else happens to a registry between bookings.\<close>

datatype registry_change =
    Register worker
  | Deregister string
  | Update_worker string "worker \<Rightarrow> worker"

fun apply_change :: "registry_change \<Rightarrow> registry \<Rightarrow> registry" where
  "apply_change (Register w) r = reg_register w r"
| "apply_change (Deregister wid) r = reg_deregister wid r"
| "apply_change (Update_worker wid f) r = reg_update_worker wid f r"

lemma find_eligible:
  "List.find (eligible req r) ws = Some w \<Longrightarrow> w \<in> set ws \<and> eligible req r w"
  by (auto simp: find_Some_iff in_set_conv_nth)

lemma set_set_insert [simp]: "set (set_insert k ks) = insert k (set ks)"
  by (auto simp: set_insert_def)

interpretation reg: worker_registry "\<lambda>r. set (reg_reserved r)" find_and_reserve reg_release
  apply_change
proof (unfold_locales, goal_cases)
  case (1 req r w r')
  then show ?case
    by (auto simp: find_and_reserve_def eligible_def split: option.splits dest!: find_eligible)
next
  case (2 req r w r')
  then show ?case
    by (auto simp: find_and_reserve_def eligible_def split: option.splits dest!: find_eligible)
next
  case (3 req r r')
  then show ?case by (auto simp: find_and_reserve_def split: option.splits)
next
  case (4 k r)
  then show ?case by (auto simp: reg_release_def)
next
  case (5 x r)
  then show ?case
    by (cases x) (auto simp: reg_register_def reg_deregister_def reg_update_worker_def
        split: option.splits)
qed


text \<open>
  \<open>find_and_reserve\<close> gives the first registered worker that is idle, below its
  concurrency, not reserved and satisfies every required tag, and reserves exactly that
  worker; it gives none only when no registered worker qualifies, and then changes nothing.
\<close>

theorem find_and_reserve_first:
  shows "case find_and_reserve req r of
      (Some w, r') \<Rightarrow>
        (\<exists>before after. map snd (reg_workers r) = before @ w # after
           \<and> list_all (\<lambda>v. \<not> eligible req r v) before)
        \<and> eligible req r w \<and> reg_workers r' = reg_workers r
        \<and> set (reg_reserved r') = insert (w_id w) (set (reg_reserved r))
        \<and> find_available req r = Some w
    | (None, r') \<Rightarrow> r' = r \<and> list_all (\<lambda>v. \<not> eligible req r v) (map snd (reg_workers r))
        \<and> find_available req r = None"
proof (cases "List.find (eligible req r) (map snd (reg_workers r))")
  case None
  then show ?thesis
    by (simp add: find_and_reserve_def find_available_def) (simp add: find_None_iff list_all_iff)
next
  case (Some w)
  then obtain i where i: "i < length (map snd (reg_workers r))" "eligible req r (map snd (reg_workers r) ! i)"
      "w = map snd (reg_workers r) ! i" "\<forall>j<i. \<not> eligible req r (map snd (reg_workers r) ! j)"
    by (auto simp: find_Some_iff)
  have "map snd (reg_workers r)
      = take i (map snd (reg_workers r)) @ w # drop (Suc i) (map snd (reg_workers r))"
    using id_take_nth_drop [OF i(1)] i(3) by simp
  moreover have "list_all (\<lambda>v. \<not> eligible req r v) (take i (map snd (reg_workers r)))"
    using i(1,4) by (auto simp: list_all_length)
  ultimately show ?thesis
    using Some i(2,3) by (simp add: find_and_reserve_def find_available_def) blast
qed

text \<open>
  A required tag is satisfied by any tag of the same namespace: a local AI worker, whose
  tags are all of the form \<open>agent:x\<close>, is taken to have every capability that starts with
  \<open>agent:\<close>, whatever follows.
\<close>

theorem namespace_satisfies:
  shows "has_capabilities (local_worker_init wid extra n) (map (\<lambda>x. ''agent:'' @ x) xs)"
proof -
  have "capability_prefix (''agent:'' @ x) = ''agent:''" for x
    by (simp add: capability_prefix_def)
  then show ?thesis
    by (simp add: has_capabilities_def local_worker_init_def worker_init_def default_ai_caps_def
        list_all_iff startswith_def)
qed

text \<open>
  A task that finishes on a worker that is draining puts it back into service: whatever
  the outcome of the task, the worker is idle and available again before \<open>stop\<close> has ended.
\<close>

theorem finishing_reopens_draining_worker:
  assumes "w_status w = DRAINING" and "w_active w = [task_id t]" and "1 \<le> w_max_concurrency w"
  shows "worker_available (fst (snd (local_finish now events how t w)))
    \<and> w_active (fst (snd (local_finish now events how t w))) = []"
  using assms
  by (cases how) (auto simp: local_finish_def mark_idle_if_free_def worker_available_def Let_def)

definition demo_task :: worker_task where
  "demo_task = \<lparr>task_id = ''t1'', task_type = ''agent.invoke'', task_payload = [],
     task_session = ''s'', task_thread = ''th'', task_priority = 0, task_timeout_ms = None,
     task_required = [], task_policy = default_retry, task_state = Task_QUEUED,
     task_attempt = 0, task_worker = None, task_created = 0, task_started = None,
     task_finished = None\<rparr>"

lemma finishing_reopens_draining_worker_witness:
  "worker_available (fst (snd (local_finish 9 [] Stream_done demo_task
     (worker_stop_begin (snd (local_begin 1 demo_task
        (worker_start 0 (local_worker_init ''w1'' None 1))))))))"
  using finishing_reopens_draining_worker
    [of "worker_stop_begin (snd (local_begin 1 demo_task (worker_start 0 (local_worker_init ''w1'' None 1))))"
        demo_task 9 "[]" Stream_done]
  by (simp add: worker_stop_begin_def local_begin_def worker_start_def local_worker_init_def
      worker_init_def mark_busy_def set_insert_def)

end
