(* ===== verification/Worker_Pool.thy ===== *)
theory Worker_Pool
  imports Worker_Registry
begin

text \<open>
  The priority scheduler (\<open>src/agloom/runtime/scheduler/__init__.py\<close>) and the worker pool
  (\<open>src/agloom/runtime/pool.py\<close>): submission with back-pressure, cancellation and the
  dispatcher's order; execution of a task with timeout and retries; the restart of unhealthy
  workers.

  Tasks are mutable objects that the queue and the \<open>pending\<close> dictionary share, so the
  scheduler keeps them in a store and names them by handles. The queue pops a least task
  under \<open>WorkerTask.__lt__\<close>, here the first submitted of those that compare equal. The pool's
  surroundings (the registry over time, the worker's execution) are arguments.
\<close>

section \<open>Scheduling order\<close>

text \<open>\<open>WorkerTask.__lt__\<close>: higher priority first, then earlier creation.\<close>

datatype sched_key = Sched_key (key_priority: int) (key_created: rat)

instantiation sched_key :: linorder
begin

definition less_sched_key :: "sched_key \<Rightarrow> sched_key \<Rightarrow> bool" where
  "less_sched_key a b =
     (if key_priority a \<noteq> key_priority b then key_priority b < key_priority a
      else key_created a < key_created b)"

definition less_eq_sched_key :: "sched_key \<Rightarrow> sched_key \<Rightarrow> bool" where
  "less_eq_sched_key a b = (a = b \<or> a < b)"

instance
proof (intro_classes, goal_cases)
  case (1 a b)
  then show ?case by (auto simp: less_eq_sched_key_def less_sched_key_def)
next
  case (3 a b c)
  then show ?case by (auto simp: less_eq_sched_key_def less_sched_key_def split: if_splits)
next
  case (4 a b)
  then show ?case by (auto simp: less_eq_sched_key_def less_sched_key_def split: if_splits)
next
  case (5 a b)
  then show ?case
    by (cases a; cases b) (auto simp: less_eq_sched_key_def less_sched_key_def)
qed (simp add: less_eq_sched_key_def)

end

definition sched_key :: "worker_task \<Rightarrow> sched_key" where
  "sched_key t = Sched_key (task_priority t) (task_created t)"

definition task_lt :: "worker_task \<Rightarrow> worker_task \<Rightarrow> bool" where
  "task_lt t u =
     (if task_priority t \<noteq> task_priority u then task_priority u < task_priority t
      else task_created t < task_created u)"

lemma task_lt_key: "task_lt t u \<longleftrightarrow> sched_key t < sched_key u"
  by (simp add: task_lt_def sched_key_def less_sched_key_def)

section \<open>The scheduler\<close>

record scheduler =
  sc_max_depth :: int
  sc_tasks :: "(nat \<times> worker_task) list"
  sc_queue :: "nat list"
  sc_pending :: "nat pydict"
  sc_running :: bool

definition scheduler_init :: "int \<Rightarrow> scheduler" where
  "scheduler_init max_queue_depth =
     \<lparr>sc_max_depth = max_queue_depth, sc_tasks = [], sc_queue = [], sc_pending = [],
      sc_running = False\<rparr>"

definition sched_start :: "scheduler \<Rightarrow> scheduler" where
  "sched_start s = s\<lparr>sc_running := True\<rparr>"

definition sched_stop :: "scheduler \<Rightarrow> scheduler" where
  "sched_stop s = s\<lparr>sc_running := False\<rparr>"

definition task_of :: "scheduler \<Rightarrow> nat \<Rightarrow> worker_task" where
  "task_of s h = the (map_of (sc_tasks s) h)"

text \<open>The new object takes the next handle.\<close>

definition sched_submit :: "worker_task \<Rightarrow> scheduler \<Rightarrow> pyerror + scheduler" where
  "sched_submit t s =
     (if 0 < sc_max_depth s \<and> sc_max_depth s \<le> int (length (sc_queue s))
      then Inl (SchedulerFullError (length (sc_queue s)) (nat (sc_max_depth s)))
      else let h = length (sc_tasks s)
           in Inr (s\<lparr>sc_tasks := sc_tasks s @ [(h, t\<lparr>task_state := Task_QUEUED\<rparr>)],
                     sc_pending := AList.update (task_id t) h (sc_pending s),
                     sc_queue := sc_queue s @ [h]\<rparr>))"

definition sched_cancel :: "string \<Rightarrow> scheduler \<Rightarrow> bool \<times> scheduler" where
  "sched_cancel tid s =
     (case map_of (sc_pending s) tid of
        None \<Rightarrow> (False, s)
      | Some h \<Rightarrow>
          if task_state (task_of s h) = Task_QUEUED
          then (True, s\<lparr>sc_tasks := AList.update h ((task_of s h)\<lparr>task_state := Task_CANCELLED\<rparr>)
                                     (sc_tasks s),
                        sc_pending := AList.delete tid (sc_pending s)\<rparr>)
          else (False, s))"

definition queue_depth :: "scheduler \<Rightarrow> nat" where
  "queue_depth s = length (sc_queue s)"

definition heap_pop :: "scheduler \<Rightarrow> (nat \<times> nat list) option" where
  "heap_pop s =
     (case sort_key (\<lambda>h. sched_key (task_of s h)) (sc_queue s) of
        [] \<Rightarrow> None
      | h # _ \<Rightarrow> Some (h, remove1 h (sc_queue s)))"

text \<open>
  One turn of the dispatcher loop: the task handed to \<open>dispatch_fn\<close>, if any. Whether
  \<open>dispatch_fn\<close> raises makes no difference to the scheduler.
\<close>

definition sched_dispatch :: "scheduler \<Rightarrow> nat option \<times> scheduler" where
  "sched_dispatch s =
     (if \<not> sc_running s then (None, s)
      else case heap_pop s of
             None \<Rightarrow> (None, s)
           | Some (h, q) \<Rightarrow>
               let s' = s\<lparr>sc_queue := q,
                          sc_pending := AList.delete (task_id (task_of s h)) (sc_pending s)\<rparr>
               in if task_state (task_of s h) = Task_CANCELLED then (None, s') else (Some h, s'))"

datatype sched_op = Submit worker_task | Cancel string | Dispatch

text \<open>A run collects the handles dispatched and those cancelled.\<close>

record sched_log =
  lg_state :: scheduler
  lg_dispatched :: "nat list"
  lg_cancelled :: "nat list"

fun sched_step :: "sched_op \<Rightarrow> sched_log \<Rightarrow> sched_log" where
  "sched_step (Submit t) l =
     (case sched_submit t (lg_state l) of Inl _ \<Rightarrow> l | Inr s \<Rightarrow> l\<lparr>lg_state := s\<rparr>)"
| "sched_step (Cancel tid) l =
     (case sched_cancel tid (lg_state l) of
        (True, s) \<Rightarrow> l\<lparr>lg_state := s,
             lg_cancelled := lg_cancelled l @ [the (map_of (sc_pending (lg_state l)) tid)]\<rparr>
      | (False, s) \<Rightarrow> l\<lparr>lg_state := s\<rparr>)"
| "sched_step Dispatch l =
     (case sched_dispatch (lg_state l) of
        (Some h, s) \<Rightarrow> l\<lparr>lg_state := s, lg_dispatched := lg_dispatched l @ [h]\<rparr>
      | (None, s) \<Rightarrow> l\<lparr>lg_state := s\<rparr>)"

definition sched_run :: "int \<Rightarrow> sched_op list \<Rightarrow> sched_log" where
  "sched_run depth ops =
     fold sched_step ops \<lparr>lg_state = sched_start (scheduler_init depth), lg_dispatched = [],
        lg_cancelled = []\<rparr>"

text \<open>
  The invariant: handles are numbered in order of submission, each is queued or gone, the
  cancelled ones are marked and are never dispatched, and \<open>pending\<close> names queued handles
  that are not cancelled.
\<close>

definition sched_inv :: "sched_log \<Rightarrow> bool" where
  "sched_inv l \<longleftrightarrow>
     (let s = lg_state l
      in map fst (sc_tasks s) = [0..<length (sc_tasks s)]
         \<and> distinct (sc_queue s) \<and> set (sc_queue s) \<subseteq> {..<length (sc_tasks s)}
         \<and> distinct (lg_dispatched l @ lg_cancelled l)
         \<and> set (lg_dispatched l) \<inter> set (sc_queue s) = {}
         \<and> set (lg_dispatched l) \<union> set (lg_cancelled l) \<union> set (sc_queue s) = {..<length (sc_tasks s)}
         \<and> (\<forall>h<length (sc_tasks s). task_state (task_of s h)
               = (if h \<in> set (lg_cancelled l) then Task_CANCELLED else Task_QUEUED))
         \<and> (\<forall>k h. map_of (sc_pending s) k = Some h \<longrightarrow>
               h \<in> set (sc_queue s) \<and> h \<notin> set (lg_cancelled l) \<and> task_id (task_of s h) = k))"

lemma task_of_append [simp]:
  assumes "map fst (sc_tasks s) = [0..<length (sc_tasks s)]"
  shows "h < length (sc_tasks s) \<Longrightarrow> map_of (sc_tasks s @ [(length (sc_tasks s), t)]) h = map_of (sc_tasks s) h"
    and "map_of (sc_tasks s @ [(length (sc_tasks s), t)]) (length (sc_tasks s)) = Some t"
proof -
  have "map_of (sc_tasks s) (length (sc_tasks s)) = None"
    using assms by (simp add: map_of_eq_None_iff image_set [symmetric] del: image_set set_map)
      (metis atLeastLessThan_iff less_irrefl_nat list.set_map set_upt)
  then show "map_of (sc_tasks s @ [(length (sc_tasks s), t)]) (length (sc_tasks s)) = Some t"
    by (simp add: map_add_def)
  show "h < length (sc_tasks s) \<Longrightarrow> map_of (sc_tasks s @ [(length (sc_tasks s), t)]) h = map_of (sc_tasks s) h"
    by (auto simp: map_add_def split: option.split)
qed

lemma submit_inv:
  assumes "sched_inv l" and "sched_submit t (lg_state l) = Inr s"
  shows "sched_inv (l\<lparr>lg_state := s\<rparr>)"
proof -
  define s0 where "s0 = lg_state l"
  let ?n = "length (sc_tasks s0)"
  let ?t = "t\<lparr>task_state := Task_QUEUED\<rparr>"
  have s: "s = s0\<lparr>sc_tasks := sc_tasks s0 @ [(?n, ?t)],
      sc_pending := AList.update (task_id t) ?n (sc_pending s0), sc_queue := sc_queue s0 @ [?n]\<rparr>"
    using assms(2) by (auto simp: sched_submit_def s0_def Let_def split: if_splits)
  have inv: "map fst (sc_tasks s0) = [0..<?n]" "distinct (sc_queue s0)"
      "set (sc_queue s0) \<subseteq> {..<?n}" "distinct (lg_dispatched l @ lg_cancelled l)"
      "set (lg_dispatched l) \<inter> set (sc_queue s0) = {}"
      "set (lg_dispatched l) \<union> set (lg_cancelled l) \<union> set (sc_queue s0) = {..<?n}"
      "\<forall>h<?n. task_state (task_of s0 h)
               = (if h \<in> set (lg_cancelled l) then Task_CANCELLED else Task_QUEUED)"
      "\<forall>k h. map_of (sc_pending s0) k = Some h \<longrightarrow>
               h \<in> set (sc_queue s0) \<and> h \<notin> set (lg_cancelled l) \<and> task_id (task_of s0 h) = k"
    using assms(1) by (auto simp: sched_inv_def s0_def Let_def)
  have old: "h < ?n \<Longrightarrow> task_of s h = task_of s0 h" for h
    using task_of_append(1) [OF inv(1)] by (simp add: task_of_def s)
  have new: "task_of s ?n = ?t"
    using task_of_append(2) [OF inv(1)] by (simp add: task_of_def s)
  have nc: "?n \<notin> set (lg_cancelled l)" "?n \<notin> set (sc_queue s0)" "?n \<notin> set (lg_dispatched l)"
    using inv(6) by auto
  have "\<forall>h<Suc ?n. task_state (task_of s h)
               = (if h \<in> set (lg_cancelled l) then Task_CANCELLED else Task_QUEUED)"
    using inv(7) old new nc by (auto simp: less_Suc_eq)
  moreover have "\<forall>k h. map_of (sc_pending s) k = Some h \<longrightarrow>
      h \<in> set (sc_queue s) \<and> h \<notin> set (lg_cancelled l) \<and> task_id (task_of s h) = k"
  proof -
    have "map_of (sc_pending s) = (map_of (sc_pending s0))(task_id t \<mapsto> ?n)"
      "sc_queue s = sc_queue s0 @ [?n]" by (simp_all add: s update_conv')
    moreover have "h < ?n" if "map_of (sc_pending s0) k = Some h" for h k
      using that inv(3,8) by auto
    ultimately show ?thesis using inv(8) old new nc by auto
  qed
  ultimately show ?thesis
    using inv nc by (auto simp: sched_inv_def Let_def s)
qed

lemma task_of_update:
  "task_of (s\<lparr>sc_tasks := AList.update h t (sc_tasks s)\<rparr>) k = (if k = h then t else task_of s k)"
  by (simp add: task_of_def update_conv')

lemma keys_update: "h \<in> set (map fst al) \<Longrightarrow> map fst (AList.update h t al) = map fst al"
  by (induction al) auto

lemma cancel_inv:
  assumes "sched_inv l" and "sched_cancel tid (lg_state l) = (b, s)"
  shows "sched_inv (sched_step (Cancel tid) l)"
proof (cases b)
  case False
  then have "s = lg_state l" using assms(2) by (auto simp: sched_cancel_def split: option.splits if_splits)
  then show ?thesis using False assms by simp
next
  case True
  define s0 where "s0 = lg_state l"
  let ?n = "length (sc_tasks s0)"
  obtain h where h: "map_of (sc_pending s0) tid = Some h" "task_state (task_of s0 h) = Task_QUEUED"
    and s: "s = s0\<lparr>sc_tasks := AList.update h ((task_of s0 h)\<lparr>task_state := Task_CANCELLED\<rparr>) (sc_tasks s0),
         sc_pending := AList.delete tid (sc_pending s0)\<rparr>"
    using assms(2) True by (auto simp: sched_cancel_def s0_def split: option.splits if_splits)
  have inv: "map fst (sc_tasks s0) = [0..<?n]" "distinct (sc_queue s0)"
      "set (sc_queue s0) \<subseteq> {..<?n}" "distinct (lg_dispatched l @ lg_cancelled l)"
      "set (lg_dispatched l) \<inter> set (sc_queue s0) = {}"
      "set (lg_dispatched l) \<union> set (lg_cancelled l) \<union> set (sc_queue s0) = {..<?n}"
      "\<forall>h<?n. task_state (task_of s0 h)
               = (if h \<in> set (lg_cancelled l) then Task_CANCELLED else Task_QUEUED)"
      "\<forall>k h. map_of (sc_pending s0) k = Some h \<longrightarrow>
               h \<in> set (sc_queue s0) \<and> h \<notin> set (lg_cancelled l) \<and> task_id (task_of s0 h) = k"
    using assms(1) by (auto simp: sched_inv_def s0_def Let_def)
  have hq: "h \<in> set (sc_queue s0)" "h \<notin> set (lg_cancelled l)" "task_id (task_of s0 h) = tid"
    using inv(8) h(1) by auto
  have hn: "h < ?n" "h \<notin> set (lg_dispatched l)" using hq(1) inv(3,5) by auto
  have keys: "map fst (sc_tasks s) = [0..<?n]"
    using inv(1) hn(1) keys_update [of h "sc_tasks s0"] by (simp add: s)
  then have len: "length (sc_tasks s) = ?n" by (metis length_map length_upt diff_zero)
  have tasks: "task_of s k = (if k = h then (task_of s0 h)\<lparr>task_state := Task_CANCELLED\<rparr> else task_of s0 k)" for k
    by (simp add: task_of_def s update_conv')
  have pend: "\<forall>k j. map_of (sc_pending s) k = Some j \<longrightarrow>
      j \<in> set (sc_queue s) \<and> j \<notin> set (lg_cancelled l @ [h]) \<and> task_id (task_of s j) = k"
  proof -
    have "map_of (sc_pending s) = (map_of (sc_pending s0))(tid := None)" "sc_queue s = sc_queue s0"
      by (simp_all add: s delete_conv')
    then show ?thesis using inv(8) hq tasks by auto
  qed
  have st: "\<forall>k<?n. task_state (task_of s k)
      = (if k \<in> set (lg_cancelled l @ [h]) then Task_CANCELLED else Task_QUEUED)"
    using inv(7) tasks by auto
  have sets: "set (lg_dispatched l) \<union> set (lg_cancelled l @ [h]) \<union> set (sc_queue s) = {..<?n}"
    using inv(6) hn(1) by (auto simp: s)
  have "sched_step (Cancel tid) l = l\<lparr>lg_state := s, lg_cancelled := lg_cancelled l @ [h]\<rparr>"
    using assms(2) True h(1) by (simp add: s0_def)
  then show ?thesis
    using inv(2-5) keys len st pend sets hq(2) hn(2)
    by (simp add: sched_inv_def Let_def s)
qed

lemma heap_pop_props:
  assumes "heap_pop s = Some (h, q)"
  shows "h \<in> set (sc_queue s) \<and> q = remove1 h (sc_queue s)
    \<and> (\<forall>k\<in>set (sc_queue s). \<not> task_lt (task_of s k) (task_of s h))"
proof -
  let ?f = "\<lambda>h. sched_key (task_of s h)"
  obtain r where r: "sort_key ?f (sc_queue s) = h # r" "q = remove1 h (sc_queue s)"
    using assms by (auto simp: heap_pop_def split: list.splits)
  have "sorted (map ?f (h # r))" using r(1) sorted_sort_key [of ?f "sc_queue s"] by simp
  then have "\<forall>k\<in>set (h # r). ?f h \<le> ?f k" by auto
  moreover have "set (h # r) = set (sc_queue s)" using r(1) by (metis set_sort)
  ultimately show ?thesis using r(2) by (force simp: task_lt_key leD)
qed

lemma dispatch_inv:
  assumes "sched_inv l"
  shows "sched_inv (sched_step Dispatch l)"
proof -
  define s0 where "s0 = lg_state l"
  let ?n = "length (sc_tasks s0)"
  have inv: "map fst (sc_tasks s0) = [0..<?n]" "distinct (sc_queue s0)"
      "set (sc_queue s0) \<subseteq> {..<?n}" "distinct (lg_dispatched l @ lg_cancelled l)"
      "set (lg_dispatched l) \<inter> set (sc_queue s0) = {}"
      "set (lg_dispatched l) \<union> set (lg_cancelled l) \<union> set (sc_queue s0) = {..<?n}"
      "\<forall>h<?n. task_state (task_of s0 h)
               = (if h \<in> set (lg_cancelled l) then Task_CANCELLED else Task_QUEUED)"
      "\<forall>k h. map_of (sc_pending s0) k = Some h \<longrightarrow>
               h \<in> set (sc_queue s0) \<and> h \<notin> set (lg_cancelled l) \<and> task_id (task_of s0 h) = k"
    using assms by (auto simp: sched_inv_def s0_def Let_def)
  show ?thesis
  proof (cases "sc_running s0 \<and> heap_pop s0 \<noteq> None")
    case False
    then have "sched_dispatch (lg_state l) = (None, lg_state l)"
      by (cases "heap_pop s0") (auto simp: sched_dispatch_def s0_def)
    then show ?thesis using assms by simp
  next
    case True
    then obtain h q where pop: "heap_pop s0 = Some (h, q)" by auto
    let ?s = "s0\<lparr>sc_queue := q, sc_pending := AList.delete (task_id (task_of s0 h)) (sc_pending s0)\<rparr>"
    have hq: "h \<in> set (sc_queue s0)" "q = remove1 h (sc_queue s0)"
      using heap_pop_props [OF pop] by auto
    have setq: "set q = set (sc_queue s0) - {h}" using hq(2) inv(2) by simp
    have task: "task_of ?s = task_of s0" by (simp add: task_of_def fun_eq_iff)
    have pend: "\<forall>k j. map_of (sc_pending ?s) k = Some j \<longrightarrow>
        j \<in> set (sc_queue ?s) \<and> j \<notin> set (lg_cancelled l) \<and> task_id (task_of ?s j) = k"
    proof -
      have "map_of (sc_pending ?s) = (map_of (sc_pending s0))(task_id (task_of s0 h) := None)"
        by (simp add: delete_conv')
      then show ?thesis using inv(8) setq task by auto
    qed
    have hn: "h < ?n" "h \<notin> set (lg_dispatched l)" using hq(1) inv(3,5) by auto
    have q: "distinct (sc_queue ?s)" "set (sc_queue ?s) \<subseteq> {..<?n}"
        "set (lg_dispatched l) \<inter> set (sc_queue ?s) = {}"
      using inv(2,3,5) setq hq(2) by auto
    have st: "\<forall>h<length (sc_tasks ?s). task_state (task_of ?s h)
        = (if h \<in> set (lg_cancelled l) then Task_CANCELLED else Task_QUEUED)"
      using inv(7) task by simp
    have run: "sched_dispatch (lg_state l)
        = (if task_state (task_of s0 h) = Task_CANCELLED then None else Some h, ?s)"
      using True pop by (simp add: sched_dispatch_def s0_def Let_def)
    show ?thesis
    proof (cases "h \<in> set (lg_cancelled l)")
      case True
      then have "task_state (task_of s0 h) = Task_CANCELLED" using inv(7) hn(1) by simp
      then have step: "sched_step Dispatch l = l\<lparr>lg_state := ?s\<rparr>" using run by simp
      have "set (lg_dispatched l) \<union> set (lg_cancelled l) \<union> set (sc_queue ?s) = {..<?n}"
        using inv(6) setq True by auto
      then show ?thesis
        unfolding step sched_inv_def Let_def using inv(1,4) q st pend by simp
    next
      case False
      then have "task_state (task_of s0 h) \<noteq> Task_CANCELLED" using inv(7) hn(1) by simp
      then have step: "sched_step Dispatch l
          = l\<lparr>lg_state := ?s, lg_dispatched := lg_dispatched l @ [h]\<rparr>" using run by simp
      have sets: "set (lg_dispatched l @ [h]) \<union> set (lg_cancelled l) \<union> set (sc_queue ?s) = {..<?n}"
        using inv(6) setq hn(1) by auto
      have "distinct ((lg_dispatched l @ [h]) @ lg_cancelled l)"
        "set (lg_dispatched l @ [h]) \<inter> set (sc_queue ?s) = {}"
        using inv(4,5) hn(2) False setq by auto
      then show ?thesis
        unfolding step sched_inv_def Let_def using inv(1) q st pend sets by simp
    qed
  qed
qed

lemma sched_run_inv: "sched_inv (sched_run depth ops)"
proof -
  have step: "sched_inv l \<Longrightarrow> sched_inv (sched_step op l)" for op l
  proof (cases op)
    case (Submit t)
    assume "sched_inv l"
    then show ?thesis
      using Submit submit_inv [of l t] by (cases "sched_submit t (lg_state l)") auto
  next
    case (Cancel tid)
    assume inv: "sched_inv l"
    obtain b s where "sched_cancel tid (lg_state l) = (b, s)" by fastforce
    then show ?thesis using inv Cancel cancel_inv by blast
  next
    case Dispatch
    assume "sched_inv l"
    then show ?thesis using Dispatch dispatch_inv by simp
  qed
  have "sched_inv l \<Longrightarrow> sched_inv (fold sched_step ops l)" for l
    by (induction ops arbitrary: l) (simp_all add: step)
  moreover have "sched_inv \<lparr>lg_state = sched_start (scheduler_init depth), lg_dispatched = [],
      lg_cancelled = []\<rparr>"
    by (simp add: sched_inv_def sched_start_def scheduler_init_def Let_def)
  ultimately show ?thesis by (simp add: sched_run_def)
qed

text \<open>
  C40. Over every sequence of submissions, cancellations and dispatcher turns, no task is
  dispatched twice, no cancelled task is dispatched, and no task is lost: every accepted
  submission is either dispatched, cancelled or still queued.
\<close>

theorem scheduler_conserves_tasks:
  shows "distinct (lg_dispatched (sched_run depth ops) @ lg_cancelled (sched_run depth ops))
    \<and> set (lg_dispatched (sched_run depth ops)) \<union> set (lg_cancelled (sched_run depth ops))
        \<union> set (sc_queue (lg_state (sched_run depth ops)))
      = {..<length (sc_tasks (lg_state (sched_run depth ops)))}
    \<and> set (lg_dispatched (sched_run depth ops)) \<inter> set (sc_queue (lg_state (sched_run depth ops))) = {}"
  using sched_run_inv [of depth ops] by (simp add: sched_inv_def Let_def)

text \<open>
  The dispatcher hands out a task of the highest priority among those queued, and among
  equal priorities one of the earliest created.
\<close>

theorem dispatch_highest_priority:
  assumes "sched_dispatch s = (Some h, s')"
  shows "h \<in> set (sc_queue s) \<and> task_state (task_of s h) \<noteq> Task_CANCELLED
    \<and> (\<forall>k\<in>set (sc_queue s). task_priority (task_of s k) \<le> task_priority (task_of s h)
        \<and> (task_priority (task_of s k) = task_priority (task_of s h)
             \<longrightarrow> task_created (task_of s h) \<le> task_created (task_of s k)))"
proof -
  obtain q where pop: "heap_pop s = Some (h, q)" and nc: "task_state (task_of s h) \<noteq> Task_CANCELLED"
    using assms by (auto simp: sched_dispatch_def Let_def split: option.splits if_splits)
  have "\<forall>k\<in>set (sc_queue s). \<not> task_lt (task_of s k) (task_of s h)" "h \<in> set (sc_queue s)"
    using heap_pop_props [OF pop] by auto
  then show ?thesis using nc by (force simp: task_lt_def split: if_splits)
qed

definition demo_queue :: scheduler where
  "demo_queue = lg_state (sched_run 0
     [Submit (demo_task\<lparr>task_id := ''a''\<rparr>), Submit (demo_task\<lparr>task_id := ''b'', task_priority := 1\<rparr>)])"

lemma dispatch_highest_priority_witness:
  "task_priority (task_of demo_queue 1) = 1 \<and> task_priority (task_of demo_queue 0) \<le> 1"
proof -
  obtain s' where "sched_dispatch demo_queue = (Some 1, s')"
    by (simp add: demo_queue_def sched_run_def sched_start_def scheduler_init_def sched_submit_def
        sched_dispatch_def heap_pop_def task_of_def sched_key_def less_eq_sched_key_def
        less_sched_key_def demo_task_def Let_def)
  from dispatch_highest_priority [OF this] show ?thesis
    by (auto simp: demo_queue_def sched_run_def sched_start_def scheduler_init_def sched_submit_def
        task_of_def demo_task_def Let_def)
qed

section \<open>Execution with retries\<close>

text \<open>
  The surroundings of one task: what a poll of the registry gives, and how the worker's
  execution ends (an exception other than a timeout or a cancellation is \<open>Exec_raised\<close>; a
  worker that catches its own failure, like the local AI worker, returns normally).
\<close>

datatype exec_end = Exec_returned | Exec_timeout | Exec_cancelled | Exec_raised string

record 'w pool_env =
  poll_registry :: "string list \<Rightarrow> 'w \<Rightarrow> string option \<times> 'w"
  run_worker :: "string \<Rightarrow> worker_task \<Rightarrow> 'w \<Rightarrow> exec_end \<times> worker_task \<times> rat \<times> 'w"
  pass_time :: "rat \<Rightarrow> 'w \<Rightarrow> 'w"

text \<open>\<open>_wait_for_worker\<close>: the loop, with the time waited and the pause before the next poll.\<close>

fun wait_for_worker ::
    "'w pool_env \<Rightarrow> string list \<Rightarrow> nat \<Rightarrow> rat \<Rightarrow> rat \<Rightarrow> 'w \<Rightarrow> (string option \<times> 'w) option" where
  "wait_for_worker env req 0 waited poll w = None"
| "wait_for_worker env req (Suc n) waited poll w =
     (if \<not> waited < 60 then Some (None, w)
      else case poll_registry env req w of
             (Some wid, w1) \<Rightarrow> Some (Some wid, w1)
           | (None, w1) \<Rightarrow>
               wait_for_worker env req n (waited + poll) (min (poll * (3 / 2)) 2)
                 (pass_time env poll w1))"

definition wait_polls :: nat where
  "wait_polls = 601"

lemma wait_for_worker_ends:
  assumes "1 / 10 \<le> poll" and "60 - waited \<le> of_nat (n - 1) * (1 / 10)" and "0 < n"
  shows "wait_for_worker env req n waited poll w \<noteq> None"
  using assms
proof (induction n arbitrary: waited poll w)
  case (Suc n)
  show ?case
  proof (cases "waited < 60")
    case True
    have p: "1 / 10 \<le> min (poll * (3 / 2)) (2 :: rat)" using Suc.prems(1) by simp
    have n: "0 < n" using True Suc.prems(2) by (cases n) auto
    have "60 - (waited + poll) \<le> of_nat n * (1 / 10) - 1 / 10"
      using Suc.prems(1,2) by simp
    also have "\<dots> = of_nat (n - 1) * (1 / 10 :: rat)" using n by (cases n) (auto simp: field_simps)
    finally show ?thesis
      using True Suc.IH [OF p _ n] by (auto split: prod.split option.split)
  qed simp
qed simp

text \<open>What an execution leaves behind: calls, pauses, releases and the last error event.\<close>

datatype task_error = No_worker | Retries_exhausted string nat

record 'w exec_log =
  xl_env :: 'w
  xl_task :: worker_task
  xl_calls :: "string list"
  xl_released :: "string list"
  xl_pauses :: "rat list"
  xl_error :: "task_error option"
  xl_cancelled :: bool

definition finish_attempt ::
    "rat \<Rightarrow> task_status \<Rightarrow> 'w exec_log \<Rightarrow> 'w exec_log" where
  "finish_attempt now st x =
     x\<lparr>xl_task := (xl_task x)\<lparr>task_state := st, task_finished := Some now\<rparr>\<rparr>"

text \<open>
  \<open>_execute_with_retry\<close>, with \<open>policy\<close> the retry policy read from the task at the start:
  \<open>attempt\<close> counts the failed executions. The reservation is released
  on every way out of an execution.
\<close>

function execute_with_retry ::
    "'w pool_env \<Rightarrow> retry_policy \<Rightarrow> nat \<Rightarrow> 'w exec_log \<Rightarrow> 'w exec_log" where
  "execute_with_retry env policy attempt x =
     (let t = xl_task x in
      case wait_for_worker env (task_required t) wait_polls 0 (1 / 10) (xl_env x) of
        None \<Rightarrow> x
      | Some (None, w) \<Rightarrow>
          x\<lparr>xl_env := w, xl_task := t\<lparr>task_state := Task_FAILED\<rparr>, xl_error := Some No_worker\<rparr>
      | Some (Some wid, w) \<Rightarrow>
          (let (how, t1, now, w1) = run_worker env wid t w;
               x1 = x\<lparr>xl_env := w1, xl_task := t1, xl_calls := xl_calls x @ [wid],
                      xl_released := xl_released x @ [wid]\<rparr>;
               retry = (\<lambda>st code.
                 let x2 = finish_attempt now st x1; attempt' = attempt + 1
                 in if max_retries policy < int attempt' \<or> code \<notin> set (retryable_codes policy)
                    then Inl (x2\<lparr>xl_error := Some (Retries_exhausted code attempt')\<rparr>)
                    else let d = delay_for_attempt policy attempt'
                         in Inr (x2\<lparr>xl_pauses := xl_pauses x @ [d], xl_env := pass_time env d w1\<rparr>))
           in case how of
                Exec_returned \<Rightarrow> x1
              | Exec_cancelled \<Rightarrow> (finish_attempt now Task_CANCELLED x1)\<lparr>xl_cancelled := True\<rparr>
              | Exec_timeout \<Rightarrow>
                  (case retry Task_TIMED_OUT ''timeout'' of
                     Inl y \<Rightarrow> y | Inr y \<Rightarrow> execute_with_retry env policy (attempt + 1) y)
              | Exec_raised e \<Rightarrow>
                  (case retry Task_FAILED ''transient'' of
                     Inl y \<Rightarrow> y | Inr y \<Rightarrow> execute_with_retry env policy (attempt + 1) y)))"
  by pat_completeness auto
termination
  by (relation "measure (\<lambda>(env, policy, attempt, x). nat (max_retries policy + 1 - int attempt))")
     (auto simp: Let_def split: if_splits)

declare execute_with_retry.simps [simp del]

text \<open>One execution ends the task or leads to another one.\<close>

lemma execute_step:
  obtains (stop) cs where "xl_calls (execute_with_retry env policy attempt x) = xl_calls x @ cs"
      "xl_released (execute_with_retry env policy attempt x) = xl_released x @ cs"
      "xl_pauses (execute_with_retry env policy attempt x) = xl_pauses x" "length cs \<le> 1"
  | (again) wid y code where "execute_with_retry env policy attempt x
        = execute_with_retry env policy (attempt + 1) y"
      "xl_calls y = xl_calls x @ [wid]" "xl_released y = xl_released x @ [wid]"
      "xl_pauses y = xl_pauses x @ [delay_for_attempt policy (attempt + 1)]"
      "int (attempt + 1) \<le> max_retries policy" "code \<in> set (retryable_codes policy)"
      "code \<in> {''timeout'', ''transient''}"
proof (cases "wait_for_worker env (task_required (xl_task x)) wait_polls 0 (1 / 10) (xl_env x)")
  case None
  then show ?thesis by (intro stop [of "[]"]) (simp_all add: execute_with_retry.simps Let_def)
next
  case (Some r)
  obtain got w where r: "r = (got, w)" by fastforce
  show ?thesis
  proof (cases got)
    case None
    then show ?thesis using Some r
      by (intro stop [of "[]"]) (simp_all add: execute_with_retry.simps Let_def)
  next
    case got: (Some wid)
    obtain how t1 now w1 where run: "run_worker env wid (xl_task x) w = (how, t1, now, w1)"
      by (metis prod_cases4)
    define x1 where "x1 = x\<lparr>xl_env := w1, xl_task := t1, xl_calls := xl_calls x @ [wid],
        xl_released := xl_released x @ [wid]\<rparr>"
    let ?d = "delay_for_attempt policy (attempt + 1)"
    let ?ok = "\<lambda>code. int (attempt + 1) \<le> max_retries policy \<and> code \<in> set (retryable_codes policy)"
    have fail: "execute_with_retry env policy attempt x =
        (if ?ok code
         then execute_with_retry env policy (attempt + 1)
            ((finish_attempt now st x1)\<lparr>xl_pauses := xl_pauses x @ [?d], xl_env := pass_time env ?d w1\<rparr>)
         else (finish_attempt now st x1)\<lparr>xl_error := Some (Retries_exhausted code (attempt + 1))\<rparr>)"
      if "how = Exec_timeout \<and> st = Task_TIMED_OUT \<and> code = ''timeout''
          \<or> (\<exists>e. how = Exec_raised e) \<and> st = Task_FAILED \<and> code = ''transient''" for st code
      using that Some r got run
      by (subst execute_with_retry.simps) (auto simp: Let_def x1_def not_less)
    have fields: "xl_calls (finish_attempt now st x1) = xl_calls x @ [wid]"
      "xl_released (finish_attempt now st x1) = xl_released x @ [wid]"
      "xl_pauses (finish_attempt now st x1) = xl_pauses x" for st
      by (simp_all add: finish_attempt_def x1_def)
    have failing: ?thesis
      if h: "how = Exec_timeout \<and> st = Task_TIMED_OUT \<and> code = ''timeout''
          \<or> (\<exists>e. how = Exec_raised e) \<and> st = Task_FAILED \<and> code = ''transient''" for st code
    proof (cases "?ok code")
      case True
      then show ?thesis
        using fail [OF h] fields [of st] h
        by (intro again [where code = code and y = "(finish_attempt now st x1)
              \<lparr>xl_pauses := xl_pauses x @ [?d], xl_env := pass_time env ?d w1\<rparr>"]) auto
    next
      case False
      then show ?thesis
        using fail [OF h] fields [of st] by (intro stop [of "[wid]"]) auto
    qed
    show ?thesis
    proof (cases how)
      case Exec_returned
      then show ?thesis using Some r got run
        by (intro stop [of "[wid]"]) (simp_all add: execute_with_retry.simps Let_def)
    next
      case Exec_cancelled
      then show ?thesis using Some r got run
        by (intro stop [of "[wid]"]) (simp_all add: execute_with_retry.simps Let_def finish_attempt_def)
    qed (use failing in blast)+
  qed
qed

lemma execute_log:
  "\<exists>cs k. xl_calls (execute_with_retry env policy attempt x) = xl_calls x @ cs
     \<and> xl_released (execute_with_retry env policy attempt x) = xl_released x @ cs
     \<and> length cs \<le> nat (max_retries policy - int attempt) + 1 \<and> k \<le> length cs
     \<and> xl_pauses (execute_with_retry env policy attempt x)
         = xl_pauses x @ map (delay_for_attempt policy) [Suc attempt..<Suc attempt + k]
     \<and> (set (retryable_codes policy) \<inter> {''timeout'', ''transient''} = {} \<longrightarrow> length cs \<le> 1)"
proof (induction "nat (max_retries policy + 1 - int attempt)" arbitrary: attempt x rule: less_induct)
  case less
  show ?case
  proof (cases rule: execute_step [of env policy attempt x])
    case (stop cs)
    then show ?thesis by (intro exI [of _ cs] exI [of _ 0]) auto
  next
    case (again wid y code)
    from less [of "attempt + 1" y] again(5) obtain cs k where IH:
      "xl_calls (execute_with_retry env policy (attempt + 1) y) = xl_calls y @ cs"
      "xl_released (execute_with_retry env policy (attempt + 1) y) = xl_released y @ cs"
      "length cs \<le> nat (max_retries policy - int (attempt + 1)) + 1" "k \<le> length cs"
      "xl_pauses (execute_with_retry env policy (attempt + 1) y)
         = xl_pauses y @ map (delay_for_attempt policy) [Suc (attempt + 1)..<Suc (attempt + 1) + k]"
      by auto
    have "[Suc attempt..<Suc attempt + Suc k] = Suc attempt # [Suc (attempt + 1)..<Suc (attempt + 1) + k]"
      by (simp add: upt_conv_Cons)
    then show ?thesis
      using IH again by (intro exI [of _ "wid # cs"] exI [of _ "Suc k"]) auto
  qed
qed

definition exec_start :: "worker_task \<Rightarrow> 'w \<Rightarrow> 'w exec_log" where
  "exec_start t w = \<lparr>xl_env = w, xl_task = t, xl_calls = [], xl_released = [], xl_pauses = [],
     xl_error = None, xl_cancelled = False\<rparr>"

text \<open>
  Whatever the registry and the workers do, a task is executed at most
  \<open>max_retries + 1\<close> times (at least one execution is allowed), every worker it was given is
  released exactly once per execution, and the pauses between executions are the policy's
  backoff delays in order.
\<close>

theorem pool_execution_bounds:
  shows "\<exists>cs k. xl_calls (execute_with_retry env policy 0 (exec_start t w)) = cs
    \<and> xl_released (execute_with_retry env policy 0 (exec_start t w)) = cs
    \<and> length cs \<le> nat (max_retries policy) + 1 \<and> k \<le> length cs
    \<and> xl_pauses (execute_with_retry env policy 0 (exec_start t w))
        = map (delay_for_attempt policy) [1..<k + 1]"
proof -
  obtain cs k where
    "xl_calls (execute_with_retry env policy 0 (exec_start t w)) = cs"
    "xl_released (execute_with_retry env policy 0 (exec_start t w)) = cs"
    "length cs \<le> nat (max_retries policy) + 1" "k \<le> length cs"
    "xl_pauses (execute_with_retry env policy 0 (exec_start t w))
        = map (delay_for_attempt policy) [Suc 0..<Suc 0 + k]"
    using execute_log [of env policy 0 "exec_start t w"]
    by (simp add: exec_start_def del: upt_Suc) metis
  moreover have "[Suc 0..<Suc 0 + k] = [1..<k + 1]" by simp
  ultimately show ?thesis by metis
qed

text \<open>
  The retry policy that is documented to retry on any error, \<open>{"*"}\<close>, retries on none:
  the pool only compares the error code with the listed codes, so a task with this policy is
  executed at most once.
\<close>

theorem wildcard_policy_never_retries:
  shows "length (xl_calls (execute_with_retry env (policy\<lparr>retryable_codes := [''*'']\<rparr>) 0
                   (exec_start t w))) \<le> 1
    \<and> xl_pauses (execute_with_retry env (policy\<lparr>retryable_codes := [''*'']\<rparr>) 0
                   (exec_start t w)) = []"
proof -
  let ?p = "policy\<lparr>retryable_codes := [''*'']\<rparr>"
  show ?thesis
  proof (cases rule: execute_step [of env ?p 0 "exec_start t w"])
    case (stop cs)
    then show ?thesis by (simp add: exec_start_def)
  next
    case (again wid y code)
    then show ?thesis by auto
  qed
qed

section \<open>Restarting workers\<close>

record pool =
  pl_registry :: registry
  pl_max_restarts :: int
  pl_restarts :: "int pydict"

definition restart_count :: "string \<Rightarrow> pool \<Rightarrow> int" where
  "restart_count wid p = (case map_of (pl_restarts p) wid of None \<Rightarrow> 0 | Some n \<Rightarrow> n)"

text \<open>\<open>stops\<close> and \<open>starts\<close> say whether the worker's hooks return or raise.\<close>

definition pool_deregister :: "bool \<Rightarrow> string \<Rightarrow> pool \<Rightarrow> bool \<times> pool" where
  "pool_deregister stops wid p =
     (case reg_get wid (pl_registry p) of
        None \<Rightarrow> (True, p)
      | Some w \<Rightarrow> if stops then (True, p\<lparr>pl_registry := reg_deregister wid (pl_registry p)\<rparr>)
                  else (False, p))"

definition pool_register :: "rat \<Rightarrow> worker \<Rightarrow> pool \<Rightarrow> pool" where
  "pool_register now w p = p\<lparr>pl_registry := reg_register (worker_start now w) (pl_registry p)\<rparr>"

text \<open>The first result is false when an exception escapes to the health monitor.\<close>

definition restart_worker :: "bool \<Rightarrow> bool \<Rightarrow> rat \<Rightarrow> string \<Rightarrow> pool \<Rightarrow> bool \<times> pool" where
  "restart_worker stops starts now wid p =
     (let consecutive = restart_count wid p in
      if pl_max_restarts p \<le> consecutive then
        (case pool_deregister stops wid p of
           (False, p1) \<Rightarrow> (False, p1)
         | (True, p1) \<Rightarrow> (True, p1\<lparr>pl_restarts := AList.delete wid (pl_restarts p1)\<rparr>))
      else case reg_get wid (pl_registry p) of
             None \<Rightarrow> (True, p)
           | Some w \<Rightarrow>
               let p1 = p\<lparr>pl_restarts := AList.update wid (consecutive + 1) (pl_restarts p)\<rparr>
               in if stops \<and> starts
                  then (True, p1\<lparr>pl_restarts := AList.update wid 0 (pl_restarts p1),
                       pl_registry := reg_update_worker wid
                         (\<lambda>w. worker_start now (worker_stop_end (worker_stop_begin w)))
                         (pl_registry p1)\<rparr>)
                  else (True, p1))"

text \<open>One round of the health monitor over the snapshot it took.\<close>

fun health_round ::
    "(string \<Rightarrow> bool \<times> bool) \<Rightarrow> rat \<Rightarrow> worker_health list \<Rightarrow> pool \<Rightarrow> bool \<times> pool" where
  "health_round hooks now [] p = (True, p)"
| "health_round hooks now (h # hs) p =
     (if is_healthy h then health_round hooks now hs p
      else case restart_worker (fst (hooks (wh_worker_id h))) (snd (hooks (wh_worker_id h))) now
                  (wh_worker_id h) p of
             (False, p1) \<Rightarrow> (False, p1)
           | (True, p1) \<Rightarrow> health_round hooks now hs p1)"

lemma restart_bounded:
  assumes "restart_count wid p \<le> pl_max_restarts p" and "0 \<le> pl_max_restarts p"
  shows "restart_count k (snd (restart_worker stops starts now wid p)) \<le> pl_max_restarts p
     \<or> k \<noteq> wid"
  using assms
  by (auto simp: restart_worker_def restart_count_def pool_deregister_def Let_def update_conv'
      delete_conv' split: option.splits)

end
