(* ===== verification/Circuit_Breaker.thy ===== *)
theory Circuit_Breaker
  imports Agloom_Prelude
begin

text \<open>
  LLM resilience (\<open>src/agloom/src/llm_utils.py\<close>): the circuit breaker, the
  least-recently-used registries of breakers and structured runnables, the rate limiter,
  the JSON extraction, and \<open>robust_structured_call\<close>, which tries one strategy after the
  other through the breaker.

  The breaker is a state machine over \<open>__aenter__\<close> and \<open>__aexit__\<close>; calls in flight at the
  same time are steps of \<open>gate_step\<close>, whose event carries the reading of the monotonic
  clock. The lemmas show when the breaker trips and recovers, what cancellation does to a
  probe, and how many LLM calls a structured call can make.
\<close>

section \<open>The breaker\<close>

datatype cb_state = CLOSED | OPEN | HALF

datatype cb_error =
    CircuitBreakerOpen int rat
  | CircuitBreakerHalfOpenBusy

record breaker =
  cb_threshold :: int
  cb_recovery :: rat
  cb_state :: cb_state
  cb_failures :: int
  cb_last_failure :: rat

definition breaker_init :: "int \<Rightarrow> rat \<Rightarrow> breaker" where
  "breaker_init failure_threshold recovery_timeout =
     \<lparr>cb_threshold = failure_threshold, cb_recovery = recovery_timeout, cb_state = CLOSED,
      cb_failures = 0, cb_last_failure = 0\<rparr>"

definition breaker_state :: "rat \<Rightarrow> breaker \<Rightarrow> cb_state" where
  "breaker_state now b =
     (if cb_state b = OPEN \<and> cb_recovery b \<le> now - cb_last_failure b then HALF else cb_state b)"

definition breaker_enter :: "rat \<Rightarrow> breaker \<Rightarrow> cb_error + breaker" where
  "breaker_enter now b =
     (case cb_state b of
        OPEN \<Rightarrow>
          (if now - cb_last_failure b < cb_recovery b
           then Inl (CircuitBreakerOpen (cb_threshold b) (cb_recovery b))
           else Inr (b\<lparr>cb_state := HALF\<rparr>))
      | HALF \<Rightarrow> Inl CircuitBreakerHalfOpenBusy
      | CLOSED \<Rightarrow> Inr b)"

text \<open>How the body of \<open>async with breaker\<close> ended.\<close>

datatype exit_kind = Completed | Raised_error | Cancelled_error

definition breaker_exit :: "exit_kind \<Rightarrow> rat \<Rightarrow> breaker \<Rightarrow> breaker" where
  "breaker_exit k now b =
     (case k of
        Cancelled_error \<Rightarrow> b
      | Completed \<Rightarrow> b\<lparr>cb_failures := 0, cb_state := CLOSED\<rparr>
      | Raised_error \<Rightarrow>
          (let was_half = (cb_state b = HALF);
               failures = cb_failures b + 1;
               b' = b\<lparr>cb_failures := failures, cb_last_failure := now\<rparr>
           in if was_half \<or> cb_threshold b \<le> failures then b'\<lparr>cb_state := OPEN\<rparr> else b'))"

definition new_circuit_breaker :: breaker where
  "new_circuit_breaker = breaker_init 5 30"

section \<open>Concurrent calls through one breaker\<close>

text \<open>\<open>in_flight\<close> counts the calls between their \<open>__aenter__\<close> and their \<open>__aexit__\<close>.\<close>

record gate =
  gate_breaker :: breaker
  in_flight :: nat

datatype gate_event = Enter rat | Leave exit_kind rat

inductive gate_step :: "gate \<Rightarrow> gate_event \<Rightarrow> gate \<Rightarrow> bool" where
  admitted: "breaker_enter now (gate_breaker g) = Inr b \<Longrightarrow>
     gate_step g (Enter now) (g\<lparr>gate_breaker := b, in_flight := in_flight g + 1\<rparr>)"
| refused: "breaker_enter now (gate_breaker g) = Inl e \<Longrightarrow> gate_step g (Enter now) g"
| left: "in_flight g = Suc n \<Longrightarrow>
     gate_step g (Leave k now)
       (g\<lparr>gate_breaker := breaker_exit k now (gate_breaker g), in_flight := n\<rparr>)"

inductive gate_run :: "gate \<Rightarrow> gate_event list \<Rightarrow> gate \<Rightarrow> bool" where
  no_event: "gate_run g [] g"
| one_more: "\<lbrakk>gate_run g es h; gate_step h e h'\<rbrakk> \<Longrightarrow> gate_run g (es @ [e]) h'"

definition gate_init :: "int \<Rightarrow> rat \<Rightarrow> gate" where
  "gate_init th rec = \<lparr>gate_breaker = breaker_init th rec, in_flight = 0\<rparr>"

inductive_cases gate_enterE: "gate_step g (Enter now) g'"
inductive_cases gate_leaveE: "gate_step g (Leave k now) g'"
inductive_simps gate_enter_iff: "gate_step g (Enter now) g'"
inductive_simps gate_leave_iff: "gate_step g (Leave k now) g'"

lemmas breaker_defs = breaker_enter_def breaker_exit_def breaker_init_def Let_def

lemma breaker_params [simp]:
  "cb_threshold (breaker_exit k now b) = cb_threshold b"
  "cb_recovery (breaker_exit k now b) = cb_recovery b"
  by (auto simp: breaker_defs split: exit_kind.splits)

lemma breaker_enter_params:
  "breaker_enter now b = Inr b' \<Longrightarrow>
     cb_threshold b' = cb_threshold b \<and> cb_recovery b' = cb_recovery b
     \<and> cb_failures b' = cb_failures b \<and> cb_last_failure b' = cb_last_failure b"
  by (auto simp: breaker_defs split: cb_state.splits if_splits)

text \<open>The invariant: a breaker that lets calls through has not reached its threshold.\<close>

definition breaker_ok :: "breaker \<Rightarrow> bool" where
  "breaker_ok b \<longleftrightarrow>
     0 \<le> cb_failures b \<and> (cb_state b = CLOSED \<longrightarrow> cb_failures b < cb_threshold b)"

lemma breaker_ok_enter:
  "\<lbrakk>breaker_ok b; breaker_enter now b = Inr b'\<rbrakk> \<Longrightarrow> breaker_ok b'"
  by (auto simp: breaker_ok_def breaker_defs split: cb_state.splits if_splits)

lemma breaker_ok_exit:
  "\<lbrakk>breaker_ok b; 0 < cb_threshold b\<rbrakk> \<Longrightarrow> breaker_ok (breaker_exit k now b)"
  by (auto simp: breaker_ok_def breaker_defs split: exit_kind.splits)

lemma gate_step_ok:
  "\<lbrakk>gate_step g e g'; breaker_ok (gate_breaker g); 0 < cb_threshold (gate_breaker g)\<rbrakk> \<Longrightarrow>
     breaker_ok (gate_breaker g') \<and> cb_threshold (gate_breaker g') = cb_threshold (gate_breaker g)"
  by (induction rule: gate_step.induct)
     (auto dest: breaker_enter_params breaker_ok_enter intro: breaker_ok_exit)

lemma gate_run_ok:
  assumes "gate_run g es h" and "breaker_ok (gate_breaker g)" and "0 < cb_threshold (gate_breaker g)"
  shows "breaker_ok (gate_breaker h) \<and> cb_threshold (gate_breaker h) = cb_threshold (gate_breaker g)"
  using assms by (induction rule: gate_run.induct) (auto dest: gate_step_ok)

definition cancels :: "gate_event \<Rightarrow> bool" where
  "cancels e \<longleftrightarrow> (\<exists>now. e = Leave Cancelled_error now)"

lemma gate_step_probe:
  "\<lbrakk>gate_step g e g'; \<not> cancels e; cb_state (gate_breaker g) = HALF \<longrightarrow> 0 < in_flight g\<rbrakk> \<Longrightarrow>
     cb_state (gate_breaker g') = HALF \<longrightarrow> 0 < in_flight g'"
  by (induction rule: gate_step.induct)
     (auto simp: breaker_defs cancels_def split: cb_state.splits if_splits exit_kind.splits)

lemma gate_run_probe:
  assumes "gate_run g es h" and "\<forall>e\<in>set es. \<not> cancels e"
    and "cb_state (gate_breaker g) = HALF \<longrightarrow> 0 < in_flight g"
  shows "cb_state (gate_breaker h) = HALF \<longrightarrow> 0 < in_flight h"
  using assms by (induction rule: gate_run.induct) (use gate_step_probe in auto)

lemma gate_stuck_step:
  "\<lbrakk>gate_step g e g'; cb_state (gate_breaker g) = HALF; in_flight g = 0\<rbrakk> \<Longrightarrow> g' = g"
  by (induction rule: gate_step.induct) (auto simp: breaker_defs)

lemma gate_stuck_run:
  "\<lbrakk>gate_run g es h; cb_state (gate_breaker g) = HALF; in_flight g = 0\<rbrakk> \<Longrightarrow> h = g"
  by (induction rule: gate_run.induct) (use gate_stuck_step in auto)

text \<open>
  C35. Over every interleaving of entries and exits, a breaker that is CLOSED has seen fewer
  than \<open>failure_threshold\<close> consecutive failures, and, as long as no call in flight is
  cancelled, a breaker that is HALF-OPEN has a call in flight that will decide it.
\<close>

theorem breaker_invariant:
  assumes "gate_run (gate_init th rec) es g" and "0 < th"
  shows "(cb_state (gate_breaker g) = CLOSED \<longrightarrow> cb_failures (gate_breaker g) < th)
    \<and> ((\<forall>e\<in>set es. \<not> cancels e) \<longrightarrow> cb_state (gate_breaker g) = HALF \<longrightarrow> 0 < in_flight g)"
proof -
  have "breaker_ok (gate_breaker g) \<and> cb_threshold (gate_breaker g) = th"
    using gate_run_ok [OF assms(1)] assms(2)
    by (auto simp: gate_init_def breaker_init_def breaker_ok_def)
  moreover have "(\<forall>e\<in>set es. \<not> cancels e) \<longrightarrow> cb_state (gate_breaker g) = HALF \<longrightarrow> 0 < in_flight g"
    using gate_run_probe [OF assms(1)] by (simp add: gate_init_def breaker_init_def)
  ultimately show ?thesis by (metis breaker_ok_def)
qed

text \<open>The same steps as a function, to run a history on a concrete breaker.\<close>

fun gate_next :: "gate \<Rightarrow> gate_event \<Rightarrow> gate option" where
  "gate_next g (Enter now) =
     (case breaker_enter now (gate_breaker g) of
        Inr b \<Rightarrow> Some (g\<lparr>gate_breaker := b, in_flight := in_flight g + 1\<rparr>)
      | Inl _ \<Rightarrow> Some g)"
| "gate_next g (Leave k now) =
     (case in_flight g of
        0 \<Rightarrow> None
      | Suc n \<Rightarrow> Some (g\<lparr>gate_breaker := breaker_exit k now (gate_breaker g), in_flight := n\<rparr>))"

fun gate_exec :: "gate \<Rightarrow> gate_event list \<Rightarrow> gate option" where
  "gate_exec g [] = Some g"
| "gate_exec g (e # es) = (case gate_next g e of None \<Rightarrow> None | Some h \<Rightarrow> gate_exec h es)"

lemma gate_next_step: "gate_step g e h \<longleftrightarrow> gate_next g e = Some h"
  by (cases e)
     (auto simp: gate_enter_iff gate_leave_iff split: sum.splits nat.splits)

lemma gate_run_prepend: "gate_run h es k \<Longrightarrow> gate_step g e h \<Longrightarrow> gate_run g (e # es) k"
proof (induction rule: gate_run.induct)
  case (no_event h)
  then show ?case using gate_run.one_more [OF gate_run.no_event] by fastforce
next
  case (one_more h es k e' k')
  then show ?case using gate_run.one_more [of g "e # es" k e' k'] by simp
qed

lemma gate_exec_run: "gate_exec g es = Some h \<Longrightarrow> gate_run g es h"
  by (induction es arbitrary: g)
     (auto split: option.splits simp: gate_run.no_event
       intro: gate_run_prepend [OF _ gate_next_step [THEN iffD2]])

lemma gate_exec_append:
  "gate_exec g (es @ fs) = (case gate_exec g es of None \<Rightarrow> None | Some h \<Rightarrow> gate_exec h fs)"
  by (induction es arbitrary: g) (auto split: option.splits)

lemma breaker_invariant_witness:
  "\<exists>g. gate_run (gate_init 1 30) [Enter 0, Leave Raised_error 1, Enter 40] g
     \<and> cb_state (gate_breaker g) = HALF \<and> 0 < in_flight g"
proof -
  let ?es = "[Enter 0, Leave Raised_error 1, Enter 40]"
  obtain g where g: "gate_exec (gate_init 1 30) ?es = Some g" "cb_state (gate_breaker g) = HALF"
    by (simp add: gate_init_def breaker_defs)
  moreover have "\<forall>e\<in>set ?es. \<not> cancels e" by (simp add: cancels_def)
  ultimately have "0 < in_flight g" using breaker_invariant [OF gate_exec_run [OF g(1)] zero_less_one] by blast
  then show ?thesis using gate_exec_run [OF g(1)] g(2) by blast
qed

section \<open>Tripping and recovering\<close>

definition failing_calls :: "rat list \<Rightarrow> gate_event list" where
  "failing_calls ts = concat (map (\<lambda>t. [Enter t, Leave Raised_error t]) ts)"

lemma failing_calls_snoc: "failing_calls (ts @ [t]) = failing_calls ts @ [Enter t, Leave Raised_error t]"
  by (simp add: failing_calls_def)

text \<open>
  Calls that fail one after the other leave the breaker CLOSED until there are
  \<open>failure_threshold\<close> of them; the last of these opens it, and it then remembers the time of
  that failure.
\<close>

theorem breaker_trips:
  assumes "0 < th" and "int (length ts) \<le> th"
  shows "\<exists>g. gate_exec (gate_init th rec) (failing_calls ts) = Some g
    \<and> cb_state (gate_breaker g) = (if int (length ts) < th then CLOSED else OPEN)
    \<and> cb_failures (gate_breaker g) = int (length ts)
    \<and> cb_last_failure (gate_breaker g) = (if ts = [] then 0 else last ts)
    \<and> cb_recovery (gate_breaker g) = rec \<and> cb_threshold (gate_breaker g) = th
    \<and> in_flight g = 0"
  using assms(2)
proof (induction ts rule: rev_induct)
  case Nil
  then show ?case using assms(1) by (simp add: failing_calls_def gate_init_def breaker_init_def)
next
  case (snoc t ts)
  then show ?case
    by (auto simp: failing_calls_snoc gate_exec_append breaker_enter_def breaker_exit_def Let_def)
qed

lemma breaker_trips_witness:
  "\<exists>g. gate_exec (gate_init 2 30) (failing_calls [1, 2]) = Some g
     \<and> cb_state (gate_breaker g) = OPEN"
  using breaker_trips [of 2 "[1, 2]" 30] by auto

text \<open>
  An OPEN breaker refuses every call, unchanged, until \<open>recovery_timeout\<close> has passed
  since the last failure; from then on it admits one call as its probe and answers the
  others as busy; the probe's success closes the breaker with its failure count at zero, and
  its failure opens it again.
\<close>

theorem breaker_recovers:
  assumes "cb_state b = OPEN"
  shows "(if now - cb_last_failure b < cb_recovery b
          then breaker_enter now b = Inl (CircuitBreakerOpen (cb_threshold b) (cb_recovery b))
          else \<exists>p. breaker_enter now b = Inr p \<and> cb_state p = HALF
                 \<and> breaker_enter later p = Inl CircuitBreakerHalfOpenBusy
                 \<and> cb_state (breaker_exit Completed later p) = CLOSED
                 \<and> cb_failures (breaker_exit Completed later p) = 0
                 \<and> cb_state (breaker_exit Raised_error later p) = OPEN
                 \<and> cb_last_failure (breaker_exit Raised_error later p) = later)
         \<and> (breaker_state now b = HALF \<longleftrightarrow> (\<exists>p. breaker_enter now b = Inr p))"
  using assms by (auto simp: breaker_enter_def breaker_exit_def breaker_state_def Let_def)

lemma breaker_recovers_witness:
  "breaker_enter 40 (breaker_exit Raised_error 5 (breaker_init 1 30))
     = Inr ((breaker_exit Raised_error 5 (breaker_init 1 30))\<lparr>cb_state := HALF\<rparr>)
   \<and> breaker_state 40 (breaker_exit Raised_error 5 (breaker_init 1 30)) = HALF"
proof -
  let ?b = "breaker_exit Raised_error 5 (breaker_init 1 30)"
  have "cb_state ?b = OPEN" by (simp add: breaker_defs)
  from breaker_recovers [OF this, of 40 50] show ?thesis
    by (auto simp: breaker_defs)
qed

text \<open>
  A probe that is cancelled takes the breaker out of service: \<open>__aexit__\<close> returns
  without touching the state, the breaker stays HALF-OPEN with no call in flight, and
  whatever happens afterwards every call is answered as busy.
\<close>

theorem cancelled_probe_wedges:
  assumes "cb_state (gate_breaker g) = OPEN" and "in_flight g = 0"
    and "cb_recovery (gate_breaker g) \<le> now - cb_last_failure (gate_breaker g)"
    and "gate_exec g [Enter now, Leave Cancelled_error later] = Some g1"
    and "gate_run g1 es h"
  shows "h = g1 \<and> breaker_enter t (gate_breaker h) = Inl CircuitBreakerHalfOpenBusy"
proof -
  have "cb_state (gate_breaker g1) = HALF \<and> in_flight g1 = 0"
    using assms(1-4) by (auto simp: breaker_enter_def breaker_exit_def)
  then show ?thesis using gate_stuck_run [OF assms(5)] by (auto simp: breaker_enter_def)
qed

lemma cancelled_probe_wedges_witness:
  "\<exists>g1. gate_exec (gate_init 1 30)
          [Enter 0, Leave Raised_error 0, Enter 30, Leave Cancelled_error 31] = Some g1
      \<and> breaker_enter 1000 (gate_breaker g1) = Inl CircuitBreakerHalfOpenBusy"
proof -
  obtain g where g: "gate_exec (gate_init 1 30) (failing_calls [0]) = Some g"
      "cb_state (gate_breaker g) = OPEN" "cb_last_failure (gate_breaker g) = 0"
      "cb_recovery (gate_breaker g) = 30" "in_flight g = 0"
    by (simp add: failing_calls_def gate_init_def breaker_defs)
  then obtain g1 where g1: "gate_exec g [Enter 30, Leave Cancelled_error 31] = Some g1"
    by (simp add: breaker_enter_def)
  have "gate_exec (gate_init 1 30)
      (failing_calls [0] @ [Enter 30, Leave Cancelled_error 31]) = Some g1"
    using g(1) g1 by (simp only: gate_exec_append option.case)
  then show ?thesis
    using cancelled_probe_wedges [OF g(2,5) _ g1 gate_run.no_event, of 1000] g
    by (simp add: failing_calls_def)
qed

section \<open>Least-recently-used registries\<close>

text \<open>
  What the code relies on when it asks a bounded registry for the object of a key: a hit
  gives the resident object, the key becomes the most recent one, and only old entries go.
\<close>

locale lru_registry =
  fixes fetch :: "'k \<Rightarrow> 'v \<Rightarrow> ('k \<times> 'v) list \<Rightarrow> 'v \<times> ('k \<times> 'v) list"
    and limit :: nat
  assumes fetch_hit: "map_of c k = Some v \<Longrightarrow> fst (fetch k new c) = v"
    and fetch_miss: "map_of c k = None \<Longrightarrow> fst (fetch k new c) = new"
    and fetch_resident: "distinct (map fst c) \<Longrightarrow> map_of (snd (fetch k new c)) k = Some (fst (fetch k new c))"
    and fetch_distinct: "distinct (map fst c) \<Longrightarrow> distinct (map fst (snd (fetch k new c)))"
    and fetch_bounded: "\<lbrakk>distinct (map fst c); length c \<le> limit\<rbrakk> \<Longrightarrow> length (snd (fetch k new c)) \<le> limit"
    and fetch_others: "\<lbrakk>distinct (map fst c); map_of (snd (fetch k new c)) j = Some v; j \<noteq> k\<rbrakk> \<Longrightarrow>
          map_of c j = Some v"
begin

fun fetch_all :: "('k \<times> 'v) list \<Rightarrow> ('k \<times> 'v) list \<Rightarrow> ('k \<times> 'v) list" where
  "fetch_all [] c = c"
| "fetch_all ((k, new) # ks) c = fetch_all ks (snd (fetch k new c))"

lemma fetch_all_bounded:
  "\<lbrakk>distinct (map fst c); length c \<le> limit\<rbrakk> \<Longrightarrow>
     distinct (map fst (fetch_all ks c)) \<and> length (fetch_all ks c) \<le> limit"
  by (induction ks c rule: fetch_all.induct) (auto simp: fetch_distinct fetch_bounded)

lemma fetch_again:
  "distinct (map fst c) \<Longrightarrow> fst (fetch k other (snd (fetch k new c))) = fst (fetch k new c)"
  using fetch_resident fetch_hit by blast

end

text \<open>\<open>OrderedDict.move_to_end\<close> and \<open>popitem(last=False)\<close>.\<close>

definition move_to_end :: "'k \<Rightarrow> ('k \<times> 'v) list \<Rightarrow> ('k \<times> 'v) list" where
  "move_to_end k c =
     (case map_of c k of None \<Rightarrow> c | Some v \<Rightarrow> AList.delete k c @ [(k, v)])"

definition pop_oldest :: "('k \<times> 'v) list \<Rightarrow> ('k \<times> 'v) list" where
  "pop_oldest c = tl c"

text \<open>A breaker object is named by a reference, \<open>new\<close> being the next unused one.\<close>

definition max_id_breakers :: nat where
  "max_id_breakers = 64"

definition circuit_breaker_for_id ::
    "string \<Rightarrow> nat \<Rightarrow> (string \<times> nat) list \<Rightarrow> nat \<times> (string \<times> nat) list" where
  "circuit_breaker_for_id key new breakers_by_id =
     (case map_of breakers_by_id key of
        Some br \<Rightarrow> (br, move_to_end key breakers_by_id)
      | None \<Rightarrow>
          (let kept = (if max_id_breakers \<le> length breakers_by_id
                       then pop_oldest breakers_by_id else breakers_by_id)
           in (new, AList.update key new kept)))"

text \<open>The registry of models that can be weak dictionary keys is never trimmed.\<close>

definition circuit_breaker_for ::
    "nat + string \<Rightarrow> nat \<Rightarrow> (nat \<times> nat) list \<times> (string \<times> nat) list
       \<Rightarrow> nat \<times> (nat \<times> nat) list \<times> (string \<times> nat) list" where
  "circuit_breaker_for llm new regs =
     (case llm of
        Inr key \<Rightarrow>
          (let (br, by_id) = circuit_breaker_for_id key new (snd regs) in (br, fst regs, by_id))
      | Inl obj \<Rightarrow>
          (case map_of (fst regs) obj of
             Some br \<Rightarrow> (br, regs)
           | None \<Rightarrow> (new, AList.update obj new (fst regs), snd regs)))"

definition structured_cache_max :: nat where
  "structured_cache_max = 64"

text \<open>
  One model's cache of structured runnables, keyed by schema and method. \<open>new\<close> is what
  \<open>with_structured_output\<close> returned (\<open>None\<close> when it raised).
\<close>

definition build_structured ::
    "string \<times> string option \<Rightarrow> 'r option \<Rightarrow> ((string \<times> string option) \<times> 'r option) list
       \<Rightarrow> 'r option \<times> ((string \<times> string option) \<times> 'r option) list" where
  "build_structured inner_key new inner =
     (case map_of inner inner_key of
        Some r \<Rightarrow> (r, move_to_end inner_key inner)
      | None \<Rightarrow>
          (let kept = (if structured_cache_max \<le> length inner then pop_oldest inner else inner)
           in (new, AList.update inner_key new kept)))"

definition lru_fetch :: "nat \<Rightarrow> 'k \<Rightarrow> 'v \<Rightarrow> ('k \<times> 'v) list \<Rightarrow> 'v \<times> ('k \<times> 'v) list" where
  "lru_fetch limit k new c =
     (case map_of c k of
        Some v \<Rightarrow> (v, move_to_end k c)
      | None \<Rightarrow> (let kept = (if limit \<le> length c then pop_oldest c else c)
                in (new, AList.update k new kept)))"

lemma circuit_breaker_for_id_lru: "circuit_breaker_for_id = lru_fetch max_id_breakers"
  by (intro ext) (simp add: circuit_breaker_for_id_def lru_fetch_def)

lemma build_structured_lru: "build_structured = lru_fetch structured_cache_max"
  by (intro ext) (simp add: build_structured_def lru_fetch_def)

lemma length_delete_resident:
  "\<lbrakk>distinct (map fst c); map_of c k = Some v\<rbrakk> \<Longrightarrow> Suc (length (AList.delete k c)) = length c"
proof (induction c)
  case (Cons p c)
  show ?case
  proof (cases "fst p = k")
    case True
    then have "k \<notin> fst ` set c" using Cons.prems(1) by auto
    then show ?thesis using True by (simp add: delete_idem)
  next
    case False
    then show ?thesis using Cons by (cases p) auto
  qed
qed simp

lemma length_update_fresh: "map_of c k = None \<Longrightarrow> length (AList.update k v c) = Suc (length c)"
  by (induction c) (auto split: if_splits)

lemma map_of_tl: "\<lbrakk>distinct (map fst c); map_of (tl c) j = Some v\<rbrakk> \<Longrightarrow> map_of c j = Some v"
  by (cases c) (force dest!: map_of_SomeD)+

lemma lru_fetch_registry:
  assumes "0 < limit"
  shows "lru_registry (lru_fetch limit) limit"
proof (unfold_locales, goal_cases)
  case (1 c k v new)
  then show ?case by (simp add: lru_fetch_def)
next
  case (2 c k new)
  then show ?case by (simp add: lru_fetch_def Let_def)
next
  case (3 c k new)
  then show ?case
    by (auto simp: lru_fetch_def move_to_end_def Let_def map_add_def update_conv' delete_conv'
        split: option.splits)
next
  case (4 c k new)
  then have "distinct (map fst (tl c))" by (cases c) auto
  then show ?case using 4
    by (auto simp: lru_fetch_def move_to_end_def pop_oldest_def Let_def distinct_update
        distinct_delete delete_keys distinct_removeAll split: option.splits)
next
  case (5 c k new)
  show ?case
  proof (cases "map_of c k")
    case None
    then have "map_of (tl c) k = None" by (metis map_of_tl 5(1) not_None_eq)
    then show ?thesis using None 5 assms
      by (auto simp: lru_fetch_def pop_oldest_def Let_def length_update_fresh)
  next
    case (Some v)
    then show ?thesis using 5 length_delete_resident [OF 5(1) Some]
      by (simp add: lru_fetch_def move_to_end_def)
  qed
next
  case (6 c k new j v)
  then show ?case
    by (auto simp: lru_fetch_def move_to_end_def pop_oldest_def Let_def map_add_def update_conv'
        delete_conv' split: option.splits if_splits) (metis map_of_SomeD map_of_tl)+
qed

interpretation breakers: lru_registry circuit_breaker_for_id max_id_breakers
  unfolding circuit_breaker_for_id_lru by (rule lru_fetch_registry) (simp add: max_id_breakers_def)

interpretation structured: lru_registry build_structured structured_cache_max
  unfolding build_structured_lru by (rule lru_fetch_registry) (simp add: structured_cache_max_def)

text \<open>
  However many models ask for their breaker, the by-key registry never holds more than
  64 entries, no key twice, and a model that asks again gets the breaker it was just given.
\<close>

theorem breaker_registry_bounded:
  shows "length (breakers.fetch_all asks []) \<le> max_id_breakers
    \<and> distinct (map fst (breakers.fetch_all asks []))
    \<and> fst (circuit_breaker_for_id key other
            (snd (circuit_breaker_for_id key new (breakers.fetch_all asks []))))
      = fst (circuit_breaker_for_id key new (breakers.fetch_all asks []))"
  using breakers.fetch_all_bounded [of "[]" asks] breakers.fetch_again by auto

section \<open>Rate limiting\<close>

record rate_limiter =
  rl_interval :: rat
  rl_last_call :: rat

definition rate_limiter_init :: "rat \<Rightarrow> rate_limiter" where
  "rate_limiter_init max_calls_per_second =
     \<lparr>rl_interval = 1 / max_calls_per_second, rl_last_call = 0\<rparr>"

text \<open>The time of the sleep, and the limiter afterwards (\<open>asyncio.sleep\<close> taken as exact).\<close>

definition rl_acquire :: "rat \<Rightarrow> rate_limiter \<Rightarrow> rat \<times> rate_limiter" where
  "rl_acquire now rl =
     (let elapsed = now - rl_last_call rl;
          pause = (if elapsed < rl_interval rl then rl_interval rl - elapsed else 0)
      in (pause, rl\<lparr>rl_last_call := now + pause\<rparr>))"

text \<open>Callers queue on the limiter's lock: the next one arrives at \<open>gap\<close> after the last admission.\<close>

fun admissions :: "rat list \<Rightarrow> rate_limiter \<Rightarrow> rat list" where
  "admissions [] rl = []"
| "admissions (gap # gaps) rl =
     (let now = rl_last_call rl + gap; (pause, rl') = rl_acquire now rl
      in (now + pause) # admissions gaps rl')"

lemma rl_acquire_spaced:
  "0 \<le> gap \<Longrightarrow>
     rl_last_call (snd (rl_acquire (rl_last_call rl + gap) rl)) \<ge> rl_last_call rl + rl_interval rl
     \<and> rl_interval (snd (rl_acquire (rl_last_call rl + gap) rl)) = rl_interval rl
     \<and> rl_last_call rl + gap + fst (rl_acquire (rl_last_call rl + gap) rl)
         = rl_last_call (snd (rl_acquire (rl_last_call rl + gap) rl))"
  by (simp add: rl_acquire_def Let_def)

text \<open>
  The rate limiter spaces its callers: however soon they come, consecutive admissions
  are at least \<open>1 / max_calls_per_second\<close> apart.
\<close>

theorem admissions_spaced:
  assumes "\<forall>g\<in>set gaps. 0 \<le> g" and "Suc i < length gaps"
  shows "admissions gaps rl ! i + rl_interval rl \<le> admissions gaps rl ! Suc i"
  using assms
proof (induction gaps arbitrary: i rl)
  case (Cons g gaps)
  obtain p rl' where acq: "rl_acquire (rl_last_call rl + g) rl = (p, rl')" by fastforce
  have g: "0 \<le> g" using Cons.prems by simp
  have first: "rl_last_call rl + g + p = rl_last_call rl'" and iv: "rl_interval rl' = rl_interval rl"
    using rl_acquire_spaced [OF g, of rl] acq by auto
  show ?case
  proof (cases i)
    case 0
    obtain g2 gs where gs: "gaps = g2 # gs" using Cons.prems(2) 0 by (cases gaps) auto
    obtain p2 rl2 where acq2: "rl_acquire (rl_last_call rl' + g2) rl' = (p2, rl2)" by fastforce
    have "rl_last_call rl' + rl_interval rl' \<le> rl_last_call rl' + g2 + p2"
      using rl_acquire_spaced [of g2 rl'] acq2 Cons.prems(1) gs by auto
    then show ?thesis using 0 gs acq acq2 first iv by (simp add: Let_def)
  next
    case (Suc j)
    then have "admissions gaps rl' ! j + rl_interval rl' \<le> admissions gaps rl' ! Suc j"
      using Cons.IH [of j rl'] Cons.prems by simp
    then show ?thesis using Suc acq iv by (simp add: Let_def)
  qed
qed simp

lemma admissions_spaced_witness:
  "admissions [0, 0, 1] (rate_limiter_init 10) ! 0 + 1 / 10
     \<le> admissions [0, 0, 1] (rate_limiter_init 10) ! 1"
  using admissions_spaced [of "[0, 0, 1]" 0 "rate_limiter_init 10"]
  by (simp add: rate_limiter_init_def)

section \<open>Structured calls\<close>

text \<open>
  The LLM and the other tasks of the process are arguments. \<open>invoke strategy\<close> says how long
  the call waited for a slot of the LLM semaphore, how the model answered and after what
  time; \<open>others\<close> says what other tasks do to the shared breaker while this one awaits.
\<close>

datatype strategy = Json_schema | Function_calling | Raw_json

datatype 'r reply = Returned "'r option" | Raised string | Interrupted

type_synonym ('w, 'r) llm_env = "strategy \<Rightarrow> 'w \<Rightarrow> rat \<times> 'r reply \<times> rat \<times> 'w"

type_synonym 'w other_tasks = "rat \<Rightarrow> 'w \<Rightarrow> breaker \<Rightarrow> breaker \<times> 'w"

record 'w call_state =
  cs_clock :: rat
  cs_breaker :: breaker
  cs_limiter :: "rate_limiter option"
  cs_errors :: "string list"
  cs_calls :: "strategy list"
  cs_env :: 'w

datatype 'r attempt = Got "'r option" | Half_open_busy | Cancelled_call

definition let_pass :: "'w other_tasks \<Rightarrow> rat \<Rightarrow> 'w call_state \<Rightarrow> 'w call_state" where
  "let_pass others d s =
     (let (b, w) = others d (cs_env s) (cs_breaker s)
      in s\<lparr>cs_clock := cs_clock s + d, cs_breaker := b, cs_env := w\<rparr>)"

definition await_limiter :: "'w other_tasks \<Rightarrow> 'w call_state \<Rightarrow> 'w call_state" where
  "await_limiter others s =
     (case cs_limiter s of
        None \<Rightarrow> s
      | Some rl \<Rightarrow>
          (let (pause, rl') = rl_acquire (cs_clock s) rl
           in let_pass others pause (s\<lparr>cs_limiter := Some rl'\<rparr>)))"

definition log_error :: "string \<Rightarrow> string \<Rightarrow> 'w call_state \<Rightarrow> 'w call_state" where
  "log_error label e s = s\<lparr>cs_errors := cs_errors s @ [label @ '': '' @ e]\<rparr>"

text \<open>One call of the model, with \<open>asyncio.wait_for\<close> cutting it off at \<open>timeout\<close>.\<close>

definition call_llm ::
    "('w, 'r) llm_env \<Rightarrow> 'w other_tasks \<Rightarrow> rat \<Rightarrow> strategy \<Rightarrow> 'w call_state
       \<Rightarrow> 'r reply \<times> 'w call_state" where
  "call_llm invoke others timeout st s =
     (let (wait, r, d, w) = invoke st (cs_env s);
          (r', d') = (if timeout < d then (Raised ''TimeoutError()'', timeout) else (r, d));
          s' = let_pass others (wait + d') (s\<lparr>cs_env := w, cs_calls := cs_calls s @ [st]\<rparr>)
      in (r', s'))"

definition try_invoke ::
    "('w, 'r) llm_env \<Rightarrow> 'w other_tasks \<Rightarrow> rat \<Rightarrow> strategy \<Rightarrow> string \<Rightarrow> 'w call_state
       \<Rightarrow> 'r attempt \<times> 'w call_state" where
  "try_invoke invoke others timeout st label s0 =
     (let s = await_limiter others s0
      in case breaker_enter (cs_clock s) (cs_breaker s) of
           Inl CircuitBreakerHalfOpenBusy \<Rightarrow> (Half_open_busy, s)
         | Inl (CircuitBreakerOpen th rec) \<Rightarrow> (Got None, log_error label ''CircuitBreakerOpen'' s)
         | Inr b \<Rightarrow>
             (let (r, s') = call_llm invoke others timeout st (s\<lparr>cs_breaker := b\<rparr>);
                  done = (\<lambda>k. s'\<lparr>cs_breaker := breaker_exit k (cs_clock s') (cs_breaker s')\<rparr>)
              in case r of
                   Returned v \<Rightarrow> (Got v, done Completed)
                 | Raised e \<Rightarrow> (Got None, log_error label e (done Raised_error))
                 | Interrupted \<Rightarrow> (Cancelled_call, done Cancelled_error)))"

definition half_open_delays :: "rat list" where
  "half_open_delays = [0, 15 / 1000, 4 / 100, 1 / 10, 1 / 4]"

fun invoke_retry_half_busy ::
    "('w, 'r) llm_env \<Rightarrow> 'w other_tasks \<Rightarrow> rat \<Rightarrow> strategy \<Rightarrow> string \<Rightarrow> rat list \<Rightarrow> 'w call_state
       \<Rightarrow> 'r attempt \<times> 'w call_state" where
  "invoke_retry_half_busy invoke others timeout st label [] s =
     (Got None, log_error label ''CircuitBreakerHalfOpenBusy'' s)"
| "invoke_retry_half_busy invoke others timeout st label (d # ds) s =
     (let s1 = (if d = 0 then s else let_pass others d s)
      in case try_invoke invoke others timeout st label s1 of
           (Half_open_busy, s2) \<Rightarrow> invoke_retry_half_busy invoke others timeout st label ds s2
         | (a, s2) \<Rightarrow> (a, s2))"

text \<open>\<open>for attempt in range(max_retries)\<close>, with exponential backoff from the second on.\<close>

fun function_calling ::
    "('w, 'r) llm_env \<Rightarrow> 'w other_tasks \<Rightarrow> rat \<Rightarrow> nat \<Rightarrow> nat \<Rightarrow> 'w call_state
       \<Rightarrow> 'r attempt \<times> 'w call_state" where
  "function_calling invoke others timeout attempt 0 s = (Got None, s)"
| "function_calling invoke others timeout attempt (Suc left) s =
     (let s1 = (if 0 < attempt then let_pass others (1 / 2 * 2 ^ (attempt - 1)) s else s)
      in case invoke_retry_half_busy invoke others timeout Function_calling
                ''function_calling'' half_open_delays s1 of
           (Got None, s2) \<Rightarrow> function_calling invoke others timeout (attempt + 1) left s2
         | (a, s2) \<Rightarrow> (a, s2))"

text \<open>The last resort: no breaker, only the limiter, the semaphore and the timeout.\<close>

definition try_raw_json_fallback ::
    "('w, 'r) llm_env \<Rightarrow> 'w other_tasks \<Rightarrow> rat \<Rightarrow> 'w call_state \<Rightarrow> 'r attempt \<times> 'w call_state"
    where
  "try_raw_json_fallback invoke others timeout s0 =
     (let (r, s) = call_llm invoke others timeout Raw_json (await_limiter others s0)
      in case r of
           Returned (Some v) \<Rightarrow> (Got (Some v), s)
         | Returned None \<Rightarrow> (Got None, log_error ''raw_json'' ''no valid JSON found in response'' s)
         | Raised e \<Rightarrow> (Got None, log_error ''raw_json'' e s)
         | Interrupted \<Rightarrow> (Cancelled_call, s))"

definition robust_structured_call ::
    "('w, 'r) llm_env \<Rightarrow> 'w other_tasks \<Rightarrow> rat \<Rightarrow> nat \<Rightarrow> bool \<Rightarrow> bool \<Rightarrow> bool \<Rightarrow> 'w call_state
       \<Rightarrow> 'r attempt \<times> 'w call_state" where
  "robust_structured_call invoke others timeout max_retries skip_json_schema
       schema_built tools_built s =
     (case (if \<not> skip_json_schema \<and> schema_built
            then invoke_retry_half_busy invoke others timeout Json_schema ''json_schema''
                   half_open_delays s
            else (Got None, s)) of
        (Got None, s1) \<Rightarrow>
          (case (if tools_built then function_calling invoke others timeout 0 max_retries s1
                 else (Got None, s1)) of
             (Got None, s2) \<Rightarrow> try_raw_json_fallback invoke others timeout s2
           | (a, s2) \<Rightarrow> (a, s2))
      | (a, s1) \<Rightarrow> (a, s1))"

lemma let_pass_calls [simp]:
  "cs_calls (let_pass others d s) = cs_calls s"
  by (simp add: let_pass_def split: prod.split)

lemma await_limiter_calls [simp]: "cs_calls (await_limiter others s) = cs_calls s"
  by (simp add: await_limiter_def split: option.split prod.split)

lemma log_error_calls [simp]: "cs_calls (log_error l e s) = cs_calls s"
  by (simp add: log_error_def)

lemma call_llm_calls:
  "call_llm invoke others t st s = (r, s') \<Longrightarrow> cs_calls s' = cs_calls s @ [st]"
  by (auto simp: call_llm_def Let_def split: prod.splits if_splits)

lemma try_invoke_calls:
  assumes "try_invoke invoke others t st l s = (a, s')"
  shows "cs_calls s' = cs_calls s \<or> a \<noteq> Half_open_busy \<and> cs_calls s' = cs_calls s @ [st]"
  using assms
  by (auto simp: try_invoke_def Let_def dest!: call_llm_calls
      split: sum.splits cb_error.splits prod.splits reply.splits)

lemma try_invoke_busy_calls:
  "try_invoke invoke others t st l s = (Half_open_busy, s') \<Longrightarrow> cs_calls s' = cs_calls s"
  using try_invoke_calls by blast

lemma retry_calls:
  assumes "invoke_retry_half_busy invoke others t st l ds s = (a, s')"
  shows "a \<noteq> Half_open_busy \<and> (\<exists>k\<le>1. cs_calls s' = cs_calls s @ replicate k st)"
  using assms
proof (induction ds arbitrary: s)
  case Nil
  then show ?case by (auto intro: exI [of _ 0])
next
  case (Cons d ds)
  let ?s1 = "if d = 0 then s else let_pass others d s"
  obtain b s2 where t: "try_invoke invoke others t st l ?s1 = (b, s2)" by fastforce
  have c1: "cs_calls ?s1 = cs_calls s" by simp
  show ?case
  proof (cases "b = Half_open_busy")
    case True
    then have "cs_calls s2 = cs_calls s" using try_invoke_busy_calls t c1 by metis
    moreover have "invoke_retry_half_busy invoke others t st l ds s2 = (a, s')"
      using Cons.prems t True by (simp add: Let_def)
    ultimately show ?thesis using Cons.IH by metis
  next
    case False
    then have "a = b" "s' = s2" using Cons.prems t by (auto simp: Let_def split: attempt.splits)
    moreover have "cs_calls s2 = cs_calls s \<or> cs_calls s2 = cs_calls s @ [st]"
      using try_invoke_calls [OF t] c1 by auto
    ultimately show ?thesis using False by (auto intro: exI [of _ 0] exI [of _ 1])
  qed
qed

lemma function_calling_calls:
  assumes "function_calling invoke others t n left s = (a, s')"
  shows "a \<noteq> Half_open_busy \<and> (\<exists>k\<le>left. cs_calls s' = cs_calls s @ replicate k Function_calling)"
  using assms
proof (induction left arbitrary: n s)
  case (Suc left)
  let ?s1 = "if 0 < n then let_pass others (1 / 2 * 2 ^ (n - 1)) s else s"
  obtain b s2 where r: "invoke_retry_half_busy invoke others t Function_calling
      ''function_calling'' half_open_delays ?s1 = (b, s2)" by fastforce
  have c1: "cs_calls ?s1 = cs_calls s" by simp
  from retry_calls [OF r] c1 obtain k where b: "b \<noteq> Half_open_busy" and k: "k \<le> 1"
      and c: "cs_calls s2 = cs_calls s @ replicate k Function_calling" by auto
  show ?case
  proof (cases "b = Got None")
    case True
    then have "function_calling invoke others t (n + 1) left s2 = (a, s')"
      using Suc.prems r by (simp add: Let_def)
    from Suc.IH [OF this] obtain j where "a \<noteq> Half_open_busy" "j \<le> left"
      "cs_calls s' = cs_calls s2 @ replicate j Function_calling" by blast
    then show ?thesis using k c by (intro conjI exI [of _ "k + j"]) (auto simp: replicate_add)
  next
    case False
    then have "a = b" "s' = s2"
      using Suc.prems r by (auto simp: Let_def split: attempt.splits option.splits)
    then show ?thesis using b k c by (intro conjI exI [of _ k]) auto
  qed
qed auto

text \<open>
  A structured call asks the model at most once with \<open>json_schema\<close>, at most
  \<open>max_retries\<close> times with tool calling and at most once for raw JSON, in this order, however
  the model answers and whatever other tasks do to the breaker; it reports no result only
  after it has asked for raw JSON, and it never lets a busy breaker escape as an error.
\<close>

theorem structured_call_attempts:
  shows "\<exists>a b c. a \<le> 1 \<and> b \<le> max_retries \<and> c \<le> 1
    \<and> cs_calls (snd (robust_structured_call invoke others t max_retries skip sb tb s))
        = cs_calls s @ replicate a Json_schema @ replicate b Function_calling
          @ replicate c Raw_json
    \<and> (fst (robust_structured_call invoke others t max_retries skip sb tb s) = Got None \<longrightarrow> c = 1)
    \<and> fst (robust_structured_call invoke others t max_retries skip sb tb s) \<noteq> Half_open_busy"
proof -
  obtain a1 s1 where p1: "(if \<not> skip \<and> sb then invoke_retry_half_busy invoke others t Json_schema
      ''json_schema'' half_open_delays s else (Got None, s)) = (a1, s1)" by fastforce
  obtain a2 s2 where p2: "(if tb then function_calling invoke others t 0 max_retries s1
      else (Got None, s1)) = (a2, s2)" by fastforce
  obtain a3 s3 where p3: "try_raw_json_fallback invoke others t s2 = (a3, s3)" by fastforce
  have r1: "a1 \<noteq> Half_open_busy \<and> (\<exists>k\<le>1. cs_calls s1 = cs_calls s @ replicate k Json_schema)"
    using p1 retry_calls by (fastforce split: if_splits)
  have r2: "a2 \<noteq> Half_open_busy
      \<and> (\<exists>k\<le>max_retries. cs_calls s2 = cs_calls s1 @ replicate k Function_calling)"
    using p2 function_calling_calls by (fastforce split: if_splits)
  have r3: "a3 \<noteq> Half_open_busy \<and> cs_calls s3 = cs_calls s2 @ [Raw_json]"
    using p3 by (auto simp: try_raw_json_fallback_def Let_def dest!: call_llm_calls
        split: prod.splits reply.splits option.splits)
  from r1 obtain k where k: "k \<le> 1" "cs_calls s1 = cs_calls s @ replicate k Json_schema" by blast
  from r2 obtain j where j: "j \<le> max_retries"
    "cs_calls s2 = cs_calls s1 @ replicate j Function_calling" by blast
  consider "a1 \<noteq> Got None" | "a1 = Got None" "a2 \<noteq> Got None" | "a1 = Got None" "a2 = Got None"
    by blast
  then show ?thesis
  proof cases
    case 1
    then have "robust_structured_call invoke others t max_retries skip sb tb s = (a1, s1)"
      using p1 by (auto simp: robust_structured_call_def split: attempt.splits option.splits)
    then show ?thesis using 1 r1 k by (intro exI [of _ k] exI [of _ 0]) auto
  next
    case 2
    then have "robust_structured_call invoke others t max_retries skip sb tb s = (a2, s2)"
      using p1 p2 by (auto simp: robust_structured_call_def split: attempt.splits option.splits)
    then show ?thesis using 2 r2 k j
      by (intro exI [of _ k] exI [of _ j] exI [of _ 0]) auto
  next
    case 3
    then have "robust_structured_call invoke others t max_retries skip sb tb s = (a3, s3)"
      using p1 p2 p3 by (simp add: robust_structured_call_def)
    then show ?thesis using r3 k j
      by (intro exI [of _ k] exI [of _ j] exI [of _ 1]) auto
  qed
qed

definition alone :: "'w other_tasks" where
  "alone = (\<lambda>d w b. (b, w))"

definition dead_llm :: "(unit, bool) llm_env" where
  "dead_llm = (\<lambda>st w. (0, Raised ''ConnectError'', 1, w))"

definition demo_call_state :: "breaker \<Rightarrow> unit call_state" where
  "demo_call_state b = \<lparr>cs_clock = 100, cs_breaker = b, cs_limiter = None, cs_errors = [],
     cs_calls = [], cs_env = ()\<rparr>"

lemmas call_defs = robust_structured_call_def try_raw_json_fallback_def try_invoke_def
  call_llm_def let_pass_def await_limiter_def log_error_def half_open_delays_def alone_def
  Let_def

lemma structured_call_attempts_witness:
  "\<exists>n. cs_calls (snd (robust_structured_call dead_llm alone 30 2 False True True
          (demo_call_state (breaker_init 5 30)))) = n @ [Raw_json]"
proof -
  have "fst (robust_structured_call dead_llm alone 30 2 False True True
          (demo_call_state (breaker_init 5 30))) = Got None"
    by (simp add: call_defs dead_llm_def demo_call_state_def breaker_defs eval_nat_numeral)
  then show ?thesis
    using structured_call_attempts [where invoke = dead_llm and others = alone and t = 30
        and max_retries = 2 and skip = False and sb = True and tb = True
        and s = "demo_call_state (breaker_init 5 30)"]
    by (auto simp: demo_call_state_def)
qed

text \<open>
  An OPEN breaker whose cooldown has not elapsed does not stop a structured call: the
  strategies that go through the breaker fail fast, and the raw JSON fallback, which does
  not, still calls the model once.
\<close>

theorem open_breaker_still_calls:
  assumes "cb_state (cs_breaker s) = OPEN" and "cs_limiter s = None"
    and "cs_clock s + 1 - cb_last_failure (cs_breaker s) < cb_recovery (cs_breaker s)"
  shows "cs_calls (snd (robust_structured_call invoke alone t 2 skip sb tb s))
           = cs_calls s @ [Raw_json]"
proof -
  have fast: "try_invoke invoke alone t st l s'
      = (Got None, log_error l ''CircuitBreakerOpen'' s')"
    if "cs_breaker s' = cs_breaker s" "cs_limiter s' = None" "cs_clock s' \<le> cs_clock s + 1"
    for st l s'
    using assms that by (auto simp: try_invoke_def await_limiter_def breaker_enter_def Let_def)
  have retry: "invoke_retry_half_busy invoke alone t st l half_open_delays s'
      = (Got None, log_error l ''CircuitBreakerOpen'' s')"
    if "cs_breaker s' = cs_breaker s" "cs_limiter s' = None" "cs_clock s' \<le> cs_clock s + 1"
    for st l s'
    using fast [OF that] by (simp add: half_open_delays_def Let_def)
  let ?s1 = "if \<not> skip \<and> sb then log_error ''json_schema'' ''CircuitBreakerOpen'' s else s"
  have s1: "cs_breaker ?s1 = cs_breaker s" "cs_limiter ?s1 = None" "cs_clock ?s1 = cs_clock s"
      "cs_calls ?s1 = cs_calls s"
    using assms(2) by (auto simp: log_error_def)
  have fc: "\<exists>s2. function_calling invoke alone t 0 2 u = (Got None, s2)
      \<and> cs_calls s2 = cs_calls u \<and> cs_limiter s2 = None"
    if u: "cs_breaker u = cs_breaker s" "cs_limiter u = None" "cs_clock u = cs_clock s" for u
  proof -
    let ?u1 = "log_error ''function_calling'' ''CircuitBreakerOpen'' u"
    let ?u2 = "let_pass alone (1 / 2) ?u1"
    have "cs_breaker ?u2 = cs_breaker s" "cs_limiter ?u2 = None" "cs_clock ?u2 \<le> cs_clock s + 1"
      "cs_calls ?u2 = cs_calls u"
      using u by (simp_all add: log_error_def let_pass_def alone_def)
    then show ?thesis
      using retry [of u] retry [of ?u2] u by (simp add: eval_nat_numeral log_error_def)
  qed
  obtain s2 where s2: "(if tb then function_calling invoke alone t 0 2 ?s1 else (Got None, ?s1))
      = (Got None, s2)" "cs_calls s2 = cs_calls s" "cs_limiter s2 = None"
    using s1 fc [of ?s1] by (cases tb) auto
  have "robust_structured_call invoke alone t 2 skip sb tb s
      = try_raw_json_fallback invoke alone t s2"
    using s2(1) retry [of s] assms(2) by (auto simp: robust_structured_call_def split: if_splits)
  then show ?thesis
    using s2(2,3) call_llm_calls [of invoke alone t Raw_json s2]
    by (auto simp: try_raw_json_fallback_def await_limiter_def
        split: prod.splits reply.splits option.splits)
qed

lemma open_breaker_still_calls_witness:
  "cs_calls (snd (robust_structured_call dead_llm alone 30 2 False True True
       (demo_call_state (breaker_exit Raised_error 90 (breaker_init 1 30))))) = [Raw_json]"
  using open_breaker_still_calls
    [of "demo_call_state (breaker_exit Raised_error 90 (breaker_init 1 30))" dead_llm 30
        False True True]
  by (simp add: demo_call_state_def breaker_defs)

section \<open>Choosing and parsing\<close>

definition groq_model_ids :: "string list" where
  "groq_model_ids =
     [''meta-llama/llama-4-scout-17b-16e-instruct'', ''llama-4-scout-17b-16e-instruct'',
      ''openai/gpt-oss-20b'', ''gpt-oss-20b'', ''openai/gpt-oss-120b'', ''gpt-oss-120b'',
      ''openai/gpt-oss-safeguard-20b'', ''gpt-oss-safeguard-20b'']"

definition groq_id_prefixes :: "string list" where
  "groq_id_prefixes = [''meta-llama/llama-4'', ''llama-4-'', ''openai/gpt-oss'', ''gpt-oss'']"

text \<open>\<open>key.split("/")[-1]\<close>.\<close>

definition after_last_slash :: "string \<Rightarrow> string" where
  "after_last_slash s = rev (takeWhile (\<lambda>c. c \<noteq> CHR ''/'') (rev s))"

definition groq_allows_json_schema_first :: "string option \<Rightarrow> bool" where
  "groq_allows_json_schema_first model =
     (case map_option py_strip model of
        None \<Rightarrow> False
      | Some mid \<Rightarrow>
          mid \<noteq> [] \<and>
          (let key = py_lower mid; tail = after_last_slash key
           in key \<in> set groq_model_ids \<or> tail \<in> set groq_model_ids
              \<or> list_ex (startswith key) groq_id_prefixes
              \<or> list_ex (startswith tail) groq_id_prefixes))"

definition is_groq_chat_llm :: "string \<Rightarrow> string \<Rightarrow> bool" where
  "is_groq_chat_llm cls_name cls_module \<longleftrightarrow>
     cls_name = ''ChatGroq'' \<or> startswith cls_module ''langchain_groq''"

definition llm_skips_json_schema_mode :: "string \<Rightarrow> string \<Rightarrow> string option \<Rightarrow> bool" where
  "llm_skips_json_schema_mode cls_name cls_module model =
     (if \<not> is_groq_chat_llm cls_name cls_module then False
      else \<not> groq_allows_json_schema_first model)"

definition env_skip_json_schema_first :: "string option \<Rightarrow> bool" where
  "env_skip_json_schema_first v =
     (py_lower (py_strip (case v of None \<Rightarrow> [] | Some s \<Rightarrow> s))
        \<in> {''1'', ''true'', ''yes'', ''on''})"

text \<open>Splitting at the first occurrence of a separator.\<close>

fun cut_first :: "string \<Rightarrow> string \<Rightarrow> (string \<times> string) option" where
  "cut_first n [] = None"
| "cut_first n (c # s) =
     (if startswith (c # s) n then Some ([], drop (length n) (c # s))
      else map_option (\<lambda>(a, b). (c # a, b)) (cut_first n s))"

lemma cut_first_length: "cut_first n s = Some (a, b) \<Longrightarrow> length b \<le> length s"
  by (induction s arbitrary: a) (auto split: if_splits)

lemma cut_first_length_less:
  assumes "cut_first (x # n) s = Some (a, b)"
  shows "length b < length s"
  using assms by (induction s arbitrary: a) (auto split: if_splits simp: less_Suc_eq_le)

definition code_fence :: string where
  "code_fence = [CHR 0x60, CHR 0x60, CHR 0x60]"

definition fence_body :: "string \<Rightarrow> string" where
  "fence_body rest =
     dropWhile py_isspace (if startswith rest ''json'' then drop 4 rest else rest)"

lemma fence_body_length: "length (fence_body rest) \<le> length rest"
proof -
  have "length (dropWhile py_isspace xs) \<le> length xs" for xs
    by (rule length_dropWhile_le)
  then show ?thesis by (simp add: fence_body_def) (metis diff_le_self le_trans length_drop)
qed

text \<open>The matches of the fenced-block pattern, left to right.\<close>

function fenced_blocks :: "string \<Rightarrow> string list" where
  "fenced_blocks s =
     (case cut_first code_fence s of
        None \<Rightarrow> []
      | Some (_, rest) \<Rightarrow>
          (case cut_first code_fence (fence_body rest) of
             None \<Rightarrow> []
           | Some (inner, rest') \<Rightarrow> py_strip inner # fenced_blocks rest'))"
  by pat_completeness auto
termination
proof (relation "measure length", goal_cases)
  case (2 s p a rest q inner rest')
  then have "length rest < length s" "length rest' < length (fence_body rest)"
    using cut_first_length_less by (auto simp: code_fence_def)
  then show ?case using fence_body_length [of rest] by simp
qed simp

declare fenced_blocks.simps [simp del]

text \<open>The greedy object pattern matches once: from the first \<open>{\<close> to the last \<open>}\<close>.\<close>

definition object_spans :: "string \<Rightarrow> string list" where
  "object_spans s =
     (let t = dropWhile (\<lambda>c. c \<noteq> CHR ''{'') s;
          u = rev (dropWhile (\<lambda>c. c \<noteq> CHR ''}'') (rev t))
      in if u = [] then [] else [u])"

text \<open>What parsing and validating a candidate gives: a value, a rejection that tries the next
  candidate, or another exception that ends the attempt.\<close>

datatype 'r validation = Valid 'r | Rejected | Crashed string

fun first_valid :: "(string \<Rightarrow> 'r validation) \<Rightarrow> string list \<Rightarrow> string + 'r option" where
  "first_valid validate [] = Inr None"
| "first_valid validate (c # cs) =
     (case validate c of
        Valid r \<Rightarrow> Inr (Some r)
      | Rejected \<Rightarrow> first_valid validate cs
      | Crashed e \<Rightarrow> Inl e)"

definition extract_and_parse :: "(string \<Rightarrow> 'r validation) \<Rightarrow> string \<Rightarrow> string + 'r option" where
  "extract_and_parse validate text =
     first_valid validate (fenced_blocks text @ object_spans text)"

lemma cut_first_skip:
  assumes "CHR 0x60 \<notin> set p"
  shows "cut_first code_fence (p @ code_fence @ s) = Some (p, s)"
  using assms by (induction p) (auto simp: code_fence_def startswith_def)

lemma object_spans_trim:
  assumes "CHR ''{'' \<notin> set p" and "CHR ''}'' \<notin> set q"
  shows "object_spans (p @ CHR ''{'' # m @ CHR ''}'' # q) = [CHR ''{'' # m @ [CHR ''}'']]"
proof -
  have "dropWhile (\<lambda>c. c \<noteq> CHR ''{'') (p @ CHR ''{'' # m @ CHR ''}'' # q)
      = CHR ''{'' # m @ CHR ''}'' # q"
    using assms(1) by (induction p) auto
  moreover have "dropWhile (\<lambda>c. c \<noteq> CHR ''}'') (rev q @ CHR ''}'' # rev m @ [CHR ''{''])
      = CHR ''}'' # rev m @ [CHR ''{'']"
    using assms(2) by (subst dropWhile_append2) auto
  ultimately show ?thesis by (simp add: object_spans_def Let_def)
qed

text \<open>
  The raw JSON fallback finds a valid object in the answer of a model that wraps it in
  a \<open>json\<close> code fence after prose, and in the answer of one that writes it bare between two
  pieces of prose without braces, when no fence precedes it.
\<close>

theorem extract_and_parse_finds:
  assumes "validate (CHR ''{'' # m @ [CHR ''}'']) = Valid r"
    and "CHR 0x60 \<notin> set (p @ m)" and "CHR ''{'' \<notin> set p" and "CHR ''}'' \<notin> set q"
  shows "extract_and_parse validate
           (p @ code_fence @ ''json'' @ CHR 0x0A # CHR ''{'' # m @ CHR ''}'' # CHR 0x0A # code_fence @ z)
         = Inr (Some r)
    \<and> (CHR 0x60 \<notin> set q \<longrightarrow>
         extract_and_parse validate (p @ CHR ''{'' # m @ CHR ''}'' # q) = Inr (Some r))"
proof (intro conjI impI)
  let ?o = "CHR ''{'' # m @ [CHR ''}'']"
  have b: "fence_body (''json'' @ CHR 0x0A # CHR ''{'' # m @ CHR ''}'' # CHR 0x0A # code_fence @ z)
      = (?o @ [CHR 0x0A]) @ code_fence @ z"
    by (simp add: fence_body_def startswith_def py_isspace_def)
  have c: "cut_first code_fence ((?o @ [CHR 0x0A]) @ code_fence @ z) = Some (?o @ [CHR 0x0A], z)"
    using assms(2) by (intro cut_first_skip) auto
  have p: "CHR 0x60 \<notin> set p" using assms(2) by simp
  have st: "py_strip (?o @ [CHR 0x0A]) = ?o"
    by (simp add: py_strip_def py_isspace_def)
  show "extract_and_parse validate
           (p @ code_fence @ ''json'' @ CHR 0x0A # CHR ''{'' # m @ CHR ''}'' # CHR 0x0A # code_fence @ z)
         = Inr (Some r)"
    unfolding extract_and_parse_def
    by (subst fenced_blocks.simps) (simp only: cut_first_skip [OF p] option.case prod.case b c st,
        simp add: assms(1))
next
  assume q: "CHR 0x60 \<notin> set q"
  have none: "CHR 0x60 \<notin> set s \<Longrightarrow> cut_first code_fence s = None" for s
    by (induction s) (auto simp: code_fence_def startswith_def)
  have "fenced_blocks (p @ CHR ''{'' # m @ CHR ''}'' # q) = []"
    using none [of "p @ CHR ''{'' # m @ CHR ''}'' # q"] assms(2) q
    by (subst fenced_blocks.simps) simp
  then show "extract_and_parse validate (p @ CHR ''{'' # m @ CHR ''}'' # q) = Inr (Some r)"
    using object_spans_trim [OF assms(3,4), of m] assms(1) by (simp add: extract_and_parse_def)
qed

lemma extract_and_parse_finds_witness:
  "extract_and_parse (\<lambda>c. if c = ''{1}'' then Valid True else Rejected) ''Sure: {1} ok.''
     = Inr (Some True)"
  using extract_and_parse_finds
    [of "\<lambda>c. if c = ''{1}'' then Valid True else Rejected" "''1''" True "''Sure: ''" "'' ok.''"]
  by simp

end
