(* ===== verification/Budget_Tracker.thy ===== *)
theory Budget_Tracker
  imports Agloom_Prelude
begin

text \<open>
  The session budget (\<open>src/agloom/runtime/budget_tracker.py\<close>): cumulative token and cost
  counters against optional limits, with the \<open>metric.budget.approaching\<close> event at 80 percent
  and \<open>metric.budget.exhausted\<close> at the limit. Every operation runs under the tracker's lock,
  so it is one step; it returns the tracker and the events it emits.

  The lemmas show that the exhausted event is emitted exactly once and exactly when the
  limit is reached, that the approaching event is emitted at most once, and that a blocked
  session stays blocked.
\<close>

section \<open>Coercions\<close>

text \<open>\<open>int(value)\<close>; the text form is \<open>parse_int\<close>, the text form of \<open>float\<close> \<open>parse_float\<close>.\<close>

fun py_int :: "(string \<Rightarrow> int option) \<Rightarrow> pyval \<Rightarrow> pyerror + int" where
  "py_int parse_int (PyInt i) = Inr i"
| "py_int parse_int (PyBool b) = Inr (if b then 1 else 0)"
| "py_int parse_int (PyFloat (Fin r)) = Inr (if 0 \<le> r then \<lfloor>r\<rfloor> else \<lceil>r\<rceil>)"
| "py_int parse_int (PyFloat NaN) = Inl (ValueError ''cannot convert float NaN to integer'')"
| "py_int parse_int (PyFloat PosInf) = Inl (OverflowError ''cannot convert float infinity to integer'')"
| "py_int parse_int (PyFloat NegInf) = Inl (OverflowError ''cannot convert float infinity to integer'')"
| "py_int parse_int (PyStr s) =
     (case parse_int s of Some i \<Rightarrow> Inr i | None \<Rightarrow> Inl (ValueError ''invalid literal for int()''))"
| "py_int parse_int _ = Inl (TypeError ''int() argument must be a string or a number'')"

fun py_float :: "(string \<Rightarrow> pyfloat option) \<Rightarrow> pyval \<Rightarrow> pyerror + pyfloat" where
  "py_float parse_float (PyInt i) = Inr (Fin (of_int i))"
| "py_float parse_float (PyBool b) = Inr (Fin (if b then 1 else 0))"
| "py_float parse_float (PyFloat f) = Inr f"
| "py_float parse_float (PyStr s) =
     (case parse_float s of Some f \<Rightarrow> Inr f | None \<Rightarrow> Inl (ValueError ''could not convert string to float''))"
| "py_float parse_float _ = Inl (TypeError ''float() argument must be a string or a number'')"

text \<open>Comparisons with 0 and between floats; every comparison with NaN is false.\<close>

fun float_le :: "pyfloat \<Rightarrow> pyfloat \<Rightarrow> bool" where
  "float_le NaN _ = False"
| "float_le _ NaN = False"
| "float_le NegInf _ = True"
| "float_le _ PosInf = True"
| "float_le (Fin a) (Fin b) = (a \<le> b)"
| "float_le _ _ = False"

fun float_pos :: "pyfloat \<Rightarrow> bool" where
  "float_pos (Fin r) = (0 < r)"
| "float_pos PosInf = True"
| "float_pos _ = False"

definition positive_int_or_none :: "(string \<Rightarrow> int option) \<Rightarrow> pyval \<Rightarrow> pyerror + int option" where
  "positive_int_or_none parse_int v =
     (if v = PyNone then Inr None
      else case py_int parse_int v of
             Inr n \<Rightarrow> Inr (if 0 < n then Some n else None)
           | Inl (TypeError _) \<Rightarrow> Inr None
           | Inl (ValueError _) \<Rightarrow> Inr None
           | Inl e \<Rightarrow> Inl e)"

definition positive_float_or_none ::
    "(string \<Rightarrow> pyfloat option) \<Rightarrow> pyval \<Rightarrow> pyerror + pyfloat option" where
  "positive_float_or_none parse_float v =
     (if v = PyNone then Inr None
      else case py_float parse_float v of
             Inr n \<Rightarrow> Inr (if float_pos n then Some n else None)
           | Inl (TypeError _) \<Rightarrow> Inr None
           | Inl (ValueError _) \<Rightarrow> Inr None
           | Inl e \<Rightarrow> Inl e)"

section \<open>The tracker\<close>

record budget =
  token_limit :: "int option"
  cost_limit :: "pyfloat option"
  cum_tokens :: int
  cum_cost :: rat
  tok_80 :: bool
  tok_100 :: bool
  cost_80 :: bool
  cost_100 :: bool

datatype dimension = Tokens | Cost_usd

datatype budget_event =
    Approaching dimension rat pyfloat
  | Exhausted dimension rat pyfloat

definition budget_init :: "int option \<Rightarrow> pyfloat option \<Rightarrow> budget" where
  "budget_init tlim clim =
     \<lparr>token_limit = (case tlim of Some n \<Rightarrow> if 0 < n then Some n else None | None \<Rightarrow> None),
      cost_limit = (case clim of Some c \<Rightarrow> if float_pos c then Some c else None | None \<Rightarrow> None),
      cum_tokens = 0, cum_cost = 0, tok_80 = False, tok_100 = False,
      cost_80 = False, cost_100 = False\<rparr>"

text \<open>An omitted keyword (\<open>_UNSET\<close>) is \<open>None\<close> here, a passed one \<open>Some\<close> of its value.\<close>

definition patch_limits ::
    "(string \<Rightarrow> int option) \<Rightarrow> (string \<Rightarrow> pyfloat option) \<Rightarrow> pyval option \<Rightarrow> pyval option
       \<Rightarrow> budget \<Rightarrow> pyerror + budget" where
  "patch_limits parse_int parse_float tlim clim b =
     (case (case tlim of
              None \<Rightarrow> Inr b
            | Some v \<Rightarrow>
                (case positive_int_or_none parse_int v of
                   Inl e \<Rightarrow> Inl e
                 | Inr n \<Rightarrow> Inr (b\<lparr>token_limit := n, tok_80 := False, tok_100 := False\<rparr>))) of
        Inl e \<Rightarrow> Inl e
      | Inr b1 \<Rightarrow>
          (case clim of
             None \<Rightarrow> Inr b1
           | Some v \<Rightarrow>
               (case positive_float_or_none parse_float v of
                  Inl e \<Rightarrow> Inl e
                | Inr c \<Rightarrow> Inr (b1\<lparr>cost_limit := c, cost_80 := False, cost_100 := False\<rparr>))))"

definition record_tokens_delta :: "int \<Rightarrow> int \<Rightarrow> budget \<Rightarrow> budget \<times> budget_event list" where
  "record_tokens_delta input_tokens output_tokens b0 =
     (if input_tokens = 0 \<and> output_tokens = 0 then (b0, [])
      else let b = b0\<lparr>cum_tokens := cum_tokens b0 + (input_tokens + output_tokens)\<rparr>
           in case token_limit b of
                None \<Rightarrow> (b, [])
              | Some cap \<Rightarrow>
                  if cap \<le> 0 then (b, [])
                  else let ratio = (of_int (cum_tokens b) :: rat) / of_int cap in
                    if 1 \<le> ratio \<and> \<not> tok_100 b then
                      (b\<lparr>tok_100 := True\<rparr>,
                       [Exhausted Tokens (of_int (cum_tokens b)) (Fin (of_int cap))])
                    else if 8 / 10 \<le> ratio \<and> \<not> tok_80 b then
                      (b\<lparr>tok_80 := True\<rparr>,
                       [Approaching Tokens (of_int (cum_tokens b)) (Fin (of_int cap))])
                    else (b, []))"

text \<open>\<open>x / cap\<close> for a positive limit: an infinite limit gives ratio 0.\<close>

fun cost_ratio :: "rat \<Rightarrow> pyfloat \<Rightarrow> rat" where
  "cost_ratio x (Fin l) = x / l"
| "cost_ratio x _ = 0"

definition record_cost_delta :: "rat \<Rightarrow> budget \<Rightarrow> budget \<times> budget_event list" where
  "record_cost_delta cost b0 =
     (if cost \<le> 0 then (b0, [])
      else let b = b0\<lparr>cum_cost := cum_cost b0 + cost\<rparr>
           in case cost_limit b of
                None \<Rightarrow> (b, [])
              | Some cap \<Rightarrow>
                  if \<not> float_pos cap then (b, [])
                  else let ratio = cost_ratio (cum_cost b) cap in
                    if 1 \<le> ratio \<and> \<not> cost_100 b then
                      (b\<lparr>cost_100 := True\<rparr>, [Exhausted Cost_usd (cum_cost b) cap])
                    else if 8 / 10 \<le> ratio \<and> \<not> cost_80 b then
                      (b\<lparr>cost_80 := True\<rparr>, [Approaching Cost_usd (cum_cost b) cap])
                    else (b, []))"

definition is_invoke_blocked :: "budget \<Rightarrow> bool" where
  "is_invoke_blocked b \<longleftrightarrow>
     (case token_limit b of
        Some l \<Rightarrow> l \<noteq> 0 \<and> 0 < l \<and> l \<le> cum_tokens b
      | None \<Rightarrow> False)
     \<or> (case cost_limit b of
          Some c \<Rightarrow> float_pos c \<and> float_le c (Fin (cum_cost b))
        | None \<Rightarrow> False)"

definition reserve_invoke_slot :: "budget \<Rightarrow> bool" where
  "reserve_invoke_slot b = (\<not> is_invoke_blocked b)"

definition budget_snapshot :: "budget \<Rightarrow> pyval pydict" where
  "budget_snapshot b =
     [(''token_limit'', opt_int (token_limit b)),
      (''cost_limit_usd'', case cost_limit b of None \<Rightarrow> PyNone | Some c \<Rightarrow> PyFloat c),
      (''cumulative_tokens'', PyInt (cum_tokens b)),
      (''cumulative_cost_usd'', PyFloat (Fin (cum_cost b))),
      (''blocked'', PyBool (is_invoke_blocked b))]"

section \<open>Runs of recordings\<close>

datatype budget_op = Record_tokens int int | Record_cost rat

fun budget_step :: "budget_op \<Rightarrow> budget \<Rightarrow> budget \<times> budget_event list" where
  "budget_step (Record_tokens i out) b = record_tokens_delta i out b"
| "budget_step (Record_cost c) b = record_cost_delta c b"

fun budget_run :: "budget_op list \<Rightarrow> budget \<Rightarrow> budget \<times> budget_event list" where
  "budget_run [] b = (b, [])"
| "budget_run (p # ps) b =
     (let (b1, es) = budget_step p b; (b2, fs) = budget_run ps b1 in (b2, es @ fs))"

definition op_nonneg :: "budget_op \<Rightarrow> bool" where
  "op_nonneg p = (case p of Record_tokens i out \<Rightarrow> 0 \<le> i \<and> 0 \<le> out | Record_cost c \<Rightarrow> True)"

fun is_exhausted :: "dimension \<Rightarrow> budget_event \<Rightarrow> bool" where
  "is_exhausted d (Exhausted d' _ _) = (d = d')"
| "is_exhausted d _ = False"

fun is_approaching :: "dimension \<Rightarrow> budget_event \<Rightarrow> bool" where
  "is_approaching d (Approaching d' _ _) = (d = d')"
| "is_approaching d _ = False"

definition tokens_spent :: "budget \<Rightarrow> bool" where
  "tokens_spent b = (case token_limit b of Some l \<Rightarrow> 0 < l \<and> l \<le> cum_tokens b | None \<Rightarrow> False)"

definition cost_spent :: "budget \<Rightarrow> bool" where
  "cost_spent b =
     (case cost_limit b of Some c \<Rightarrow> float_pos c \<and> float_le c (Fin (cum_cost b)) | None \<Rightarrow> False)"

lemma blocked_iff: "is_invoke_blocked b \<longleftrightarrow> tokens_spent b \<or> cost_spent b"
  by (auto simp: is_invoke_blocked_def tokens_spent_def cost_spent_def split: option.splits)

text \<open>The flags say what has been announced.\<close>

definition budget_inv :: "budget \<Rightarrow> bool" where
  "budget_inv b \<longleftrightarrow> tok_100 b = tokens_spent b \<and> cost_100 b = cost_spent b"

lemma ratio_ge_one: "0 < l \<Longrightarrow> 1 \<le> (of_int c :: rat) / of_int l \<longleftrightarrow> l \<le> c"
  by (simp add: le_divide_eq)

lemma cost_ratio_ge_one:
  "float_pos l \<Longrightarrow> 1 \<le> cost_ratio c l \<longleftrightarrow> float_le l (Fin c)"
  by (cases l) (auto simp: le_divide_eq)

lemma float_le_mono: "\<lbrakk>float_le l (Fin c); c \<le> d\<rbrakk> \<Longrightarrow> float_le l (Fin d)"
  by (cases l) auto

lemma spent_other_fields [simp]:
  "tokens_spent (b\<lparr>cum_cost := c\<rparr>) = tokens_spent b"
  "tokens_spent (b\<lparr>tok_80 := x\<rparr>) = tokens_spent b"
  "tokens_spent (b\<lparr>tok_100 := x\<rparr>) = tokens_spent b"
  "tokens_spent (b\<lparr>cost_80 := x\<rparr>) = tokens_spent b"
  "tokens_spent (b\<lparr>cost_100 := x\<rparr>) = tokens_spent b"
  "cost_spent (b\<lparr>cum_tokens := n\<rparr>) = cost_spent b"
  "cost_spent (b\<lparr>tok_80 := x\<rparr>) = cost_spent b"
  "cost_spent (b\<lparr>tok_100 := x\<rparr>) = cost_spent b"
  "cost_spent (b\<lparr>cost_80 := x\<rparr>) = cost_spent b"
  "cost_spent (b\<lparr>cost_100 := x\<rparr>) = cost_spent b"
  by (simp_all add: tokens_spent_def cost_spent_def split: option.split)

lemma record_tokens_limited:
  assumes "token_limit b = Some n" and "0 < n" and "\<not> (i = 0 \<and> out = 0)"
    and "t = cum_tokens b + (i + out)"
  shows "record_tokens_delta i out b =
    (if n \<le> t \<and> \<not> tok_100 b
     then (b\<lparr>cum_tokens := t, tok_100 := True\<rparr>, [Exhausted Tokens (of_int t) (Fin (of_int n))])
     else if 8 / 10 \<le> (of_int t :: rat) / of_int n \<and> \<not> tok_80 b
     then (b\<lparr>cum_tokens := t, tok_80 := True\<rparr>, [Approaching Tokens (of_int t) (Fin (of_int n))])
     else (b\<lparr>cum_tokens := t\<rparr>, []))"
  unfolding record_tokens_delta_def if_not_P [OF assms(3)] Let_def
  using assms(1,2) by (simp add: assms(4) [symmetric] ratio_ge_one del: of_int_add)

lemma tokens_cases:
  assumes "record_tokens_delta i out b = (b', es)"
  obtains (idle) "b' = b" "es = []"
  | (counted) b1 where "b1 = b\<lparr>cum_tokens := cum_tokens b + (i + out)\<rparr>" "b' = b1" "es = []"
      "tokens_spent b1 \<longrightarrow> tok_100 b"
  | (reached) b1 x y where "b1 = b\<lparr>cum_tokens := cum_tokens b + (i + out)\<rparr>"
      "b' = b1\<lparr>tok_100 := True\<rparr>" "es = [Exhausted Tokens x y]" "tokens_spent b1" "\<not> tok_100 b"
  | (near) b1 x y where "b1 = b\<lparr>cum_tokens := cum_tokens b + (i + out)\<rparr>"
      "b' = b1\<lparr>tok_80 := True\<rparr>" "es = [Approaching Tokens x y]"
      "tokens_spent b1 \<longrightarrow> tok_100 b" "\<not> tok_80 b"
proof (cases "i = 0 \<and> out = 0")
  case True
  then show ?thesis using assms idle by (simp add: record_tokens_delta_def)
next
  case False
  let ?b1 = "b\<lparr>cum_tokens := cum_tokens b + (i + out)\<rparr>"
  consider "token_limit b = None" | n where "token_limit b = Some n" "n \<le> 0"
    | n where "token_limit b = Some n" "0 < n" by (cases "token_limit b") force+
  then show ?thesis
  proof cases
    case 1
    then have no: "\<not> tokens_spent ?b1" by (simp add: tokens_spent_def)
    have eq: "record_tokens_delta i out b = (?b1, [])"
      using False 1 by (auto simp: record_tokens_delta_def Let_def)
    show ?thesis by (rule counted [of ?b1]) (use assms eq no False in auto)
  next
    case 2
    then have no: "\<not> tokens_spent ?b1" by (simp add: tokens_spent_def)
    have eq: "record_tokens_delta i out b = (?b1, [])"
      using False 2 by (auto simp: record_tokens_delta_def Let_def)
    show ?thesis by (rule counted [of ?b1]) (use assms eq no False in auto)
  next
    case (3 n)
    then have sp: "tokens_spent ?b1 \<longleftrightarrow> n \<le> cum_tokens b + (i + out)"
      by (simp add: tokens_spent_def)
    define t where t: "t = cum_tokens b + (i + out)"
    have eq: "record_tokens_delta i out b =
        (if tokens_spent ?b1 \<and> \<not> tok_100 b
         then (?b1\<lparr>tok_100 := True\<rparr>, [Exhausted Tokens (of_int t) (Fin (of_int n))])
         else if 8 / 10 \<le> (of_int t :: rat) / of_int n \<and> \<not> tok_80 b
         then (?b1\<lparr>tok_80 := True\<rparr>, [Approaching Tokens (of_int t) (Fin (of_int n))])
         else (?b1, []))"
      using record_tokens_limited [OF 3 False t] by (simp only: sp t)
    show ?thesis
    proof (cases "tokens_spent ?b1 \<and> \<not> tok_100 b")
      case True
      show ?thesis by (rule reached [of ?b1]) (use True False assms eq in auto)
    next
      case no: False
      show ?thesis
      proof (cases "8 / 10 \<le> (of_int t :: rat) / of_int n \<and> \<not> tok_80 b")
        case True
        show ?thesis by (rule near [of ?b1]) (use True no \<open>\<not> (i = 0 \<and> out = 0)\<close> assms eq in auto)
      next
        case False
        show ?thesis by (rule counted [of ?b1]) (use False no \<open>\<not> (i = 0 \<and> out = 0)\<close> assms eq in auto)
      qed
    qed
  qed
qed

lemma cost_cases:
  assumes "record_cost_delta c b = (b', es)"
  obtains (idle) "b' = b" "es = []"
  | (counted) b1 where "b1 = b\<lparr>cum_cost := cum_cost b + c\<rparr>" "0 < c" "b' = b1" "es = []"
      "cost_spent b1 \<longrightarrow> cost_100 b"
  | (reached) b1 x y where "b1 = b\<lparr>cum_cost := cum_cost b + c\<rparr>" "0 < c"
      "b' = b1\<lparr>cost_100 := True\<rparr>" "es = [Exhausted Cost_usd x y]" "cost_spent b1" "\<not> cost_100 b"
  | (near) b1 x y where "b1 = b\<lparr>cum_cost := cum_cost b + c\<rparr>" "0 < c"
      "b' = b1\<lparr>cost_80 := True\<rparr>" "es = [Approaching Cost_usd x y]"
      "cost_spent b1 \<longrightarrow> cost_100 b" "\<not> cost_80 b"
proof (cases "c \<le> 0")
  case True
  then show ?thesis using assms idle by (simp add: record_cost_delta_def)
next
  case False
  let ?b1 = "b\<lparr>cum_cost := cum_cost b + c\<rparr>"
  consider "cost_limit b = None" | n where "cost_limit b = Some n" "\<not> float_pos n"
    | n where "cost_limit b = Some n" "float_pos n" by (cases "cost_limit b") auto
  then show ?thesis
  proof cases
    case 1
    then have no: "\<not> cost_spent ?b1" by (simp add: cost_spent_def)
    have eq: "record_cost_delta c b = (?b1, [])"
      using False 1 by (auto simp: record_cost_delta_def Let_def)
    show ?thesis by (rule counted [of ?b1]) (use assms eq no False in auto)
  next
    case 2
    then have no: "\<not> cost_spent ?b1" by (simp add: cost_spent_def)
    have eq: "record_cost_delta c b = (?b1, [])"
      using False 2 by (auto simp: record_cost_delta_def Let_def)
    show ?thesis by (rule counted [of ?b1]) (use assms eq no False in auto)
  next
    case (3 n)
    then have sp: "cost_spent ?b1 \<longleftrightarrow> float_le n (Fin (cum_cost b + c))"
      by (simp add: cost_spent_def)
    have eq: "record_cost_delta c b =
        (if cost_spent ?b1 \<and> \<not> cost_100 b
         then (?b1\<lparr>cost_100 := True\<rparr>, [Exhausted Cost_usd (cum_cost b + c) n])
         else if 8 / 10 \<le> cost_ratio (cum_cost b + c) n \<and> \<not> cost_80 b
         then (?b1\<lparr>cost_80 := True\<rparr>, [Approaching Cost_usd (cum_cost b + c) n])
         else (?b1, []))"
      using False 3 by (simp only: sp) (simp add: record_cost_delta_def Let_def cost_ratio_ge_one [OF 3(2), of "cum_cost b + c"])
    show ?thesis
    proof (cases "cost_spent ?b1 \<and> \<not> cost_100 b")
      case True
      show ?thesis by (rule reached [of ?b1]) (use True False assms eq in auto)
    next
      case no: False
      show ?thesis
      proof (cases "8 / 10 \<le> cost_ratio (cum_cost b + c) n \<and> \<not> cost_80 b")
        case True
        show ?thesis by (rule near [of ?b1]) (use True no \<open>\<not> c \<le> 0\<close> assms eq in auto)
      next
        case False
        show ?thesis by (rule counted [of ?b1]) (use False no \<open>\<not> c \<le> 0\<close> assms eq in auto)
      qed
    qed
  qed
qed

text \<open>Announcements so far plus those of a step are the announcements afterwards.\<close>

definition announced :: "budget \<Rightarrow> budget_event list \<Rightarrow> budget \<Rightarrow> bool" where
  "announced b es b' \<longleftrightarrow>
     of_bool (tok_100 b) + length (filter (is_exhausted Tokens) es) = (of_bool (tok_100 b') :: nat)
     \<and> of_bool (cost_100 b) + length (filter (is_exhausted Cost_usd) es) = (of_bool (cost_100 b') :: nat)
     \<and> of_bool (tok_80 b) + length (filter (is_approaching Tokens) es) = (of_bool (tok_80 b') :: nat)
     \<and> of_bool (cost_80 b) + length (filter (is_approaching Cost_usd) es) = (of_bool (cost_80 b') :: nat)"

lemma announced_tokens: "record_tokens_delta i out b = (b', es) \<Longrightarrow> announced b es b'"
  by (erule tokens_cases) (simp_all add: announced_def)

lemma announced_cost: "record_cost_delta c b = (b', es) \<Longrightarrow> announced b es b'"
  by (erule cost_cases) (simp_all add: announced_def)

lemma announced_step: "budget_step p b = (b', es) \<Longrightarrow> announced b es b'"
  by (cases p) (simp_all add: announced_tokens announced_cost)

lemma limits_tokens:
  "record_tokens_delta i out b = (b', es) \<Longrightarrow>
     token_limit b' = token_limit b \<and> cost_limit b' = cost_limit b"
  by (erule tokens_cases) simp_all

lemma limits_cost:
  "record_cost_delta c b = (b', es) \<Longrightarrow>
     token_limit b' = token_limit b \<and> cost_limit b' = cost_limit b"
  by (erule cost_cases) simp_all

lemma budget_step_limits:
  "budget_step p b = (b', es) \<Longrightarrow> token_limit b' = token_limit b \<and> cost_limit b' = cost_limit b"
  by (cases p) (simp_all add: limits_tokens limits_cost)

lemma budget_step_inv:
  assumes "budget_step p b = (b', es)" and "op_nonneg p" and "budget_inv b"
  shows "budget_inv b'"
proof (cases p)
  case (Record_tokens i out)
  have spent: "tokens_spent b \<Longrightarrow> tokens_spent (b\<lparr>cum_tokens := cum_tokens b + (i + out)\<rparr>)"
    using assms(2) Record_tokens by (auto simp: tokens_spent_def op_nonneg_def split: option.splits)
  from assms(1) Record_tokens have "record_tokens_delta i out b = (b', es)" by simp
  then show ?thesis
    by (cases rule: tokens_cases)
       (use assms(3) spent in \<open>auto simp: budget_inv_def\<close>)
next
  case (Record_cost c)
  have spent: "0 < c \<Longrightarrow> cost_spent b \<Longrightarrow> cost_spent (b\<lparr>cum_cost := cum_cost b + c\<rparr>)"
    by (auto simp: cost_spent_def float_le_mono split: option.splits)
  from assms(1) Record_cost have "record_cost_delta c b = (b', es)" by simp
  then show ?thesis
    by (cases rule: cost_cases)
       (use assms(3) spent in \<open>auto simp: budget_inv_def\<close>)
qed

lemma announced_trans: "\<lbrakk>announced a es b; announced b fs c\<rbrakk> \<Longrightarrow> announced a (es @ fs) c"
  by (simp add: announced_def)

lemma announced_refl: "announced b [] b"
  by (simp add: announced_def)

lemma budget_run_props:
  assumes "budget_run ps b = (b', es)" and "list_all op_nonneg ps" and "budget_inv b"
  shows "announced b es b' \<and> budget_inv b'
         \<and> token_limit b' = token_limit b \<and> cost_limit b' = cost_limit b"
  using assms
proof (induction ps arbitrary: b b' es)
  case Nil
  then show ?case by (simp add: announced_refl)
next
  case (Cons p ps)
  obtain b1 es1 where s: "budget_step p b = (b1, es1)" by fastforce
  obtain b2 es2 where r: "budget_run ps b1 = (b2, es2)" by fastforce
  have "budget_inv b1" using budget_step_inv [OF s] Cons.prems by simp
  then have "announced b1 es2 b2 \<and> budget_inv b2
      \<and> token_limit b2 = token_limit b1 \<and> cost_limit b2 = cost_limit b1"
    using Cons.IH [OF r] Cons.prems by simp
  moreover have "b' = b2" "es = es1 @ es2" using Cons.prems(1) s r by auto
  ultimately show ?case
    using announced_step [OF s] budget_step_limits [OF s] announced_trans by metis
qed

text \<open>
  C36. From a fresh tracker, however tokens (in non-negative amounts) and costs are recorded,
  an exhausted event is emitted for a dimension exactly once if its limit has been reached
  and never otherwise, an approaching event at most once, and a new invocation is refused
  exactly when one of the two exhausted events has been emitted.
\<close>

theorem budget_exhausted_once:
  assumes "list_all op_nonneg ps" and "budget_run ps (budget_init tlim clim) = (b, es)"
  shows "length (filter (is_exhausted Tokens) es) = of_bool (tokens_spent b)
    \<and> length (filter (is_exhausted Cost_usd) es) = of_bool (cost_spent b)
    \<and> length (filter (is_approaching Tokens) es) \<le> 1
    \<and> length (filter (is_approaching Cost_usd) es) \<le> 1
    \<and> (reserve_invoke_slot b \<longleftrightarrow> list_all (\<lambda>e. \<not> is_exhausted Tokens e \<and> \<not> is_exhausted Cost_usd e) es)"
proof -
  have "budget_inv (budget_init tlim clim)"
    by (auto simp: budget_inv_def budget_init_def tokens_spent_def cost_spent_def
        split: option.splits pyfloat.splits elim: float_pos.elims float_le.elims)
  from budget_run_props [OF assms(2,1) this]
  have a: "announced (budget_init tlim clim) es b" and i: "budget_inv b" by auto
  have n: "length (filter (is_exhausted Tokens) es) = of_bool (tokens_spent b)"
      "length (filter (is_exhausted Cost_usd) es) = of_bool (cost_spent b)"
      "length (filter (is_approaching Tokens) es) = of_bool (tok_80 b)"
      "length (filter (is_approaching Cost_usd) es) = of_bool (cost_80 b)"
    using a i by (auto simp: announced_def budget_inv_def budget_init_def)
  have none: "length (filter P es) = 0 \<longleftrightarrow> list_all (\<lambda>e. \<not> P e) es" for P
    by (auto simp: filter_empty_conv list_all_iff)
  have "reserve_invoke_slot b \<longleftrightarrow> list_all (\<lambda>e. \<not> is_exhausted Tokens e) es
      \<and> list_all (\<lambda>e. \<not> is_exhausted Cost_usd e) es"
    using n(1,2) none [of "is_exhausted Tokens"] none [of "is_exhausted Cost_usd"]
    by (auto simp: reserve_invoke_slot_def blocked_iff)
  then show ?thesis using n by (auto simp: list_all_iff)
qed

lemma budget_exhausted_once_witness:
  "\<exists>b es. budget_run [Record_tokens 60 25, Record_tokens 20 0, Record_tokens 1 1]
       (budget_init (Some 100) None) = (b, es) \<and> length (filter (is_exhausted Tokens) es) = 1"
proof -
  let ?ps = "[Record_tokens 60 25, Record_tokens 20 0, Record_tokens 1 1]"
  obtain b es where r: "budget_run ?ps (budget_init (Some 100) None) = (b, es)" by fastforce
  moreover have "tokens_spent b"
    using r by (auto simp: budget_init_def record_tokens_delta_def tokens_spent_def Let_def)
  moreover have "list_all op_nonneg ?ps" by (simp add: op_nonneg_def)
  ultimately show ?thesis using budget_exhausted_once [of ?ps "Some 100" None b es] by auto
qed

text \<open>
  A single recording that takes the total from below 80 percent to the limit announces
  exhaustion and leaves the 80 percent flag clear, so the next recording announces that the
  limit is being approached, after it has been reached.
\<close>

theorem approaching_after_exhausted:
  assumes "token_limit b = Some n" and "0 < n" and "\<not> tok_80 b" and "\<not> tok_100 b"
    and "n \<le> cum_tokens b + i" and "0 < i" and "0 < j"
  shows "snd (budget_run [Record_tokens i 0, Record_tokens j 0] b)
    = [Exhausted Tokens (of_int (cum_tokens b + i)) (Fin (of_int n)),
       Approaching Tokens (of_int (cum_tokens b + i + j)) (Fin (of_int n))]"
proof -
  let ?t = "cum_tokens b + (i + 0)" and ?u = "cum_tokens b + (i + 0) + (j + 0)"
  let ?b1 = "b\<lparr>cum_tokens := ?t, tok_100 := True\<rparr>"
  have one: "record_tokens_delta i 0 b = (?b1, [Exhausted Tokens (of_int ?t) (Fin (of_int n))])"
    using record_tokens_limited [OF assms(1,2) _ refl, of i 0] assms(4-6) by simp
  have "(1 :: rat) \<le> of_int ?u / of_int n"
    using assms(5,7) by (subst ratio_ge_one [OF assms(2)]) simp
  then have "(8 / 10 :: rat) \<le> of_int ?u / of_int n" by linarith
  then have two: "record_tokens_delta j 0 ?b1
      = (?b1\<lparr>cum_tokens := ?u, tok_80 := True\<rparr>, [Approaching Tokens (of_int ?u) (Fin (of_int n))])"
    using record_tokens_limited [of ?b1 n j 0 ?u] assms by simp
  show ?thesis using one two by simp
qed

lemma approaching_after_exhausted_witness:
  "snd (budget_run [Record_tokens 120 0, Record_tokens 1 0] (budget_init (Some 100) None))
     = [Exhausted Tokens 120 (Fin 100), Approaching Tokens 121 (Fin 100)]"
  using approaching_after_exhausted [of "budget_init (Some 100) None" 100 120 1]
  by (simp add: budget_init_def)

end
