(* ===== verification/Event_Store.thy ===== *)
theory Event_Store
  imports Agloom_Prelude "HOL-Library.Char_ord" "HOL-Library.List_Lexorder"
begin

text \<open>
  The replayable event log (\<open>src/agloom/protocol/store.py\<close>): the interface \<open>EventStore\<close> as
  the locale \<open>event_log\<close>, and its two implementations, the in-memory dictionary of lists and
  the SQLite table with batched commits and paged replay, both interpreted in it.

  An event is the dictionary form of an envelope. A row of the SQLite table keeps the event
  it was written from: the JSON text of an event without NaN or infinity parses back to it,
  and a row whose text does not parse is \<open>Corrupt\<close>. \<open>ORDER BY seq\<close> is taken as stable in
  the rowid, the order of the index on \<open>(session, seq)\<close>.
\<close>

type_synonym event = "pyval pydict"

section \<open>Validation\<close>

definition normalize_from_seq :: "int \<Rightarrow> int" where
  "normalize_from_seq from_seq = max 0 from_seq"

definition valid_session_id :: "string \<Rightarrow> bool" where
  "valid_session_id session_id \<longleftrightarrow> \<not> blank session_id"

definition event_seq_opt :: "event \<Rightarrow> int option" where
  "event_seq_opt e = (case map_of e ''seq'' of None \<Rightarrow> None | Some v \<Rightarrow> as_int v)"

definition event_seq :: "event \<Rightarrow> int" where
  "event_seq e = (case event_seq_opt e of None \<Rightarrow> 0 | Some n \<Rightarrow> n)"

definition event_type_opt :: "event \<Rightarrow> string option" where
  "event_type_opt e = (case map_of e ''type'' of None \<Rightarrow> None | Some v \<Rightarrow> as_str v)"

definition validate_store_event :: "event \<Rightarrow> pyerror + unit" where
  "validate_store_event e =
     (case event_seq_opt e of
        None \<Rightarrow> Inl (ValueError ''EventStore append: invalid seq'')
      | Some n \<Rightarrow>
          if n < 1 then Inl (ValueError ''EventStore append: invalid seq'')
          else (case event_type_opt e of
                  None \<Rightarrow> Inl (ValueError ''EventStore append: invalid type'')
                | Some t \<Rightarrow>
                    if blank t then Inl (ValueError ''EventStore append: invalid type'')
                    else Inr ()))"

definition check_session_id :: "string \<Rightarrow> pyerror + unit" where
  "check_session_id sid =
     (if valid_session_id sid then Inr () else Inl (ValueError ''EventStore: invalid session_id''))"

text \<open>\<open>json.dumps(\<dots>, allow_nan=False)\<close> succeeds.\<close>

fun json_ok :: "pyval \<Rightarrow> bool" where
  "json_ok (PyFloat f) = (case f of Fin _ \<Rightarrow> True | _ \<Rightarrow> False)"
| "json_ok (PyList xs) = list_all json_ok xs"
| "json_ok (PyDict d) = list_all (\<lambda>(k, v). json_ok v) d"
| "json_ok _ = True"

definition event_json_ok :: "event \<Rightarrow> bool" where
  "event_json_ok e = json_ok (PyDict e)"

lemma validate_pos: "validate_store_event e = Inr () \<Longrightarrow> 0 < event_seq e"
  by (auto simp: validate_store_event_def event_seq_def split: option.splits if_splits)

section \<open>The interface\<close>

text \<open>
  What a session's log promises to the emitter and to a reconnecting client. \<open>ok\<close> is the
  provider's own invariant, \<open>log s sid\<close> the session's events in sequence order.
\<close>

locale event_log =
  fixes ok :: "'s \<Rightarrow> bool"
    and log :: "'s \<Rightarrow> string \<Rightarrow> event list"
    and append_event :: "string \<Rightarrow> event \<Rightarrow> 's \<Rightarrow> pyerror + 's"
    and replay :: "string \<Rightarrow> int \<Rightarrow> 's \<Rightarrow> pyerror + event list"
    and count :: "string \<Rightarrow> 's \<Rightarrow> nat"
    and max_seq :: "string \<Rightarrow> 's \<Rightarrow> pyerror + int"
    and clear :: "string \<Rightarrow> 's \<Rightarrow> 's"
  assumes append_ok: "\<lbrakk>ok s; valid_session_id sid; validate_store_event e = Inr ();
        event_json_ok e; \<forall>f\<in>set (log s sid). event_seq f < event_seq e\<rbrakk> \<Longrightarrow>
        \<exists>s'. append_event sid e s = Inr s' \<and> ok s' \<and> log s' sid = log s sid @ [e]
             \<and> (\<forall>other. other \<noteq> sid \<longrightarrow> log s' other = log s other)"
    and append_rejects: "append_event sid e s = Inr s' \<Longrightarrow>
        valid_session_id sid \<and> validate_store_event e = Inr ()"
    and replay_log: "\<lbrakk>ok s; valid_session_id sid\<rbrakk> \<Longrightarrow>
        replay sid k s = Inr (filter (\<lambda>e. normalize_from_seq k \<le> event_seq e) (log s sid))"
    and count_log: "ok s \<Longrightarrow> count sid s = length (log s sid)"
    and max_seq_log: "\<lbrakk>ok s; valid_session_id sid\<rbrakk> \<Longrightarrow>
        max_seq sid s = Inr (if log s sid = [] then 0 else Max (set (map event_seq (log s sid))))"
    and clear_log: "ok s \<Longrightarrow> ok (clear sid s) \<and> log (clear sid s) sid = []
        \<and> (\<forall>other. other \<noteq> sid \<longrightarrow> log (clear sid s) other = log s other)"
begin

fun append_all :: "string \<Rightarrow> event list \<Rightarrow> 's \<Rightarrow> pyerror + 's" where
  "append_all sid [] s = Inr s"
| "append_all sid (e # es) s =
     (case append_event sid e s of Inl err \<Rightarrow> Inl err | Inr s' \<Rightarrow> append_all sid es s')"

text \<open>A session that appends its events in sequence order keeps all of them.\<close>

lemma append_all_log:
  assumes "ok s" and "valid_session_id sid"
    and "\<forall>e\<in>set es. validate_store_event e = Inr () \<and> event_json_ok e"
    and "sorted_wrt (<) (map event_seq (log s sid @ es))"
  shows "\<exists>s'. append_all sid es s = Inr s' \<and> ok s' \<and> log s' sid = log s sid @ es
          \<and> (\<forall>other. other \<noteq> sid \<longrightarrow> log s' other = log s other)"
  using assms
proof (induction es arbitrary: s)
  case (Cons e es)
  then obtain s1 where s1: "append_event sid e s = Inr s1" "ok s1" "log s1 sid = log s sid @ [e]"
      "\<forall>other. other \<noteq> sid \<longrightarrow> log s1 other = log s other"
    using append_ok [of s sid e] by (auto simp: sorted_wrt_append)
  have "sorted_wrt (<) (map event_seq (log s1 sid @ es))" using Cons.prems(4) s1(3) by simp
  then obtain s2 where "append_all sid es s1 = Inr s2" "ok s2" "log s2 sid = log s1 sid @ es"
      "\<forall>other. other \<noteq> sid \<longrightarrow> log s2 other = log s1 other"
    using Cons.IH [OF s1(2)] Cons.prems(2,3) by auto
  then show ?case using s1 by auto
qed simp

text \<open>Reconnecting after the first \<open>n + 1\<close> events brings exactly the events not yet seen.\<close>

lemma reconnect:
  assumes "ok s" and "valid_session_id sid" and "log s sid = []"
    and "\<forall>e\<in>set es. validate_store_event e = Inr () \<and> event_json_ok e"
    and "sorted_wrt (<) (map event_seq es)" and "n < length es"
  shows "\<exists>s'. append_all sid es s = Inr s'
     \<and> replay sid (event_seq (es ! n) + 1) s' = Inr (drop (Suc n) es)
     \<and> replay sid 0 s' = Inr es \<and> count sid s' = length es"
proof -
  have "sorted_wrt (<) (map event_seq (log s sid @ es))" using assms(3,5) by simp
  from append_all_log [OF assms(1,2,4) this] obtain s' where
    s': "append_all sid es s = Inr s'" "ok s'" "log s' sid = es" using assms(3) by auto
  have pos: "0 < event_seq e" if "e \<in> set es" for e
    using that assms(4) validate_pos by blast
  have "(\<lambda>e. normalize_from_seq (event_seq (es ! n) + 1) \<le> event_seq e)
      = (\<lambda>e. event_seq (es ! n) < event_seq e)"
    using pos [of "es ! n"] assms(6) by (auto simp: normalize_from_seq_def fun_eq_iff)
  then have "replay sid (event_seq (es ! n) + 1) s' = Inr (drop (Suc n) es)"
    using replay_log [OF s'(2) assms(2)] filter_le_nth_drop [OF assms(5,6)] s'(3) by simp
  moreover have "replay sid 0 s' = Inr es"
    using replay_log [OF s'(2) assms(2), of 0] s'(3) pos
    by (auto simp: normalize_from_seq_def filter_id_conv less_imp_le)
  ultimately show ?thesis using s' count_log [OF s'(2)] by auto
qed

end

section \<open>The in-memory store\<close>

type_synonym mem_store = "event list pydict"

definition mem_get :: "string \<Rightarrow> mem_store \<Rightarrow> event list" where
  "mem_get sid st = (case map_of st sid of None \<Rightarrow> [] | Some es \<Rightarrow> es)"

definition mem_append :: "string \<Rightarrow> event \<Rightarrow> mem_store \<Rightarrow> pyerror + mem_store" where
  "mem_append sid e st =
     (case check_session_id sid of
        Inl err \<Rightarrow> Inl err
      | Inr _ \<Rightarrow>
          (case validate_store_event e of
             Inl err \<Rightarrow> Inl err
           | Inr _ \<Rightarrow> Inr (AList.update sid (mem_get sid st @ [e]) st)))"

definition mem_replay :: "string \<Rightarrow> int \<Rightarrow> mem_store \<Rightarrow> pyerror + event list" where
  "mem_replay sid from_seq st =
     (case check_session_id sid of
        Inl err \<Rightarrow> Inl err
      | Inr _ \<Rightarrow> Inr (filter (\<lambda>e. normalize_from_seq from_seq \<le> event_seq e)
                            (sort_key event_seq (mem_get sid st))))"

definition mem_count :: "string \<Rightarrow> mem_store \<Rightarrow> nat" where
  "mem_count sid st = length (mem_get sid st)"

definition mem_clear :: "string \<Rightarrow> mem_store \<Rightarrow> mem_store" where
  "mem_clear sid st = AList.delete sid st"

definition mem_list_session_ids :: "mem_store \<Rightarrow> string list" where
  "mem_list_session_ids st = sort (map fst st)"

definition mem_max_seq :: "string \<Rightarrow> mem_store \<Rightarrow> pyerror + int" where
  "mem_max_seq sid st =
     (case check_session_id sid of
        Inl err \<Rightarrow> Inl err
      | Inr _ \<Rightarrow> Inr (if mem_get sid st = [] then 0 else Max (set (map event_seq (mem_get sid st)))))"

definition mem_rename :: "string \<Rightarrow> string \<Rightarrow> mem_store \<Rightarrow> pyerror + mem_store" where
  "mem_rename old new st =
     (case check_session_id old of
        Inl err \<Rightarrow> Inl err
      | Inr _ \<Rightarrow>
          (case check_session_id new of
             Inl err \<Rightarrow> Inl err
           | Inr _ \<Rightarrow>
               if old = new then Inr st
               else let moved = mem_get old st; st' = AList.delete old st
                    in if moved = [] then Inr st'
                       else Inr (AList.update new
                              (sort_key event_seq (mem_get new st' @ moved)) st')))"

definition mem_ok :: "mem_store \<Rightarrow> bool" where
  "mem_ok st \<longleftrightarrow> distinct (map fst st) \<and> list_all (\<lambda>(k, es). es \<noteq> []) st"

definition mem_log :: "mem_store \<Rightarrow> string \<Rightarrow> event list" where
  "mem_log st sid = sort_key event_seq (mem_get sid st)"

lemma mem_get_update: "mem_get k (AList.update sid es st) = (if k = sid then es else mem_get k st)"
  by (simp add: mem_get_def update_conv')

lemma mem_get_delete:
  "mem_get k (AList.delete sid st) = (if k = sid then [] else mem_get k st)"
  by (simp add: mem_get_def delete_conv')

lemma list_all_update:
  "\<lbrakk>list_all (\<lambda>(k, v). P v) al; P v\<rbrakk> \<Longrightarrow> list_all (\<lambda>(k, v). P v) (AList.update k v al)"
  by (induction al) auto

lemma list_all_delete:
  "list_all (\<lambda>(k, v). P v) al \<Longrightarrow> list_all (\<lambda>(k, v). P v) (AList.delete k al)"
  by (induction al) auto

lemmas mem_defs = mem_append_def mem_replay_def mem_count_def mem_clear_def mem_max_seq_def
  mem_log_def mem_get_update mem_get_delete check_session_id_def

interpretation mem: event_log mem_ok mem_log mem_append mem_replay mem_count mem_max_seq mem_clear
proof (unfold_locales, goal_cases)
  case (1 s sid e)
  then have "sort_key event_seq (mem_get sid s @ [e]) = sort_key event_seq (mem_get sid s) @ [e]"
    by (intro sort_key_snoc) (auto simp: mem_log_def intro: less_imp_le)
  then show ?case using 1
    by (auto simp: mem_defs mem_ok_def distinct_update list_all_update)
next
  case (2 sid e s s')
  then show ?case by (auto simp: mem_defs split: sum.splits if_splits)
next
  case (3 s sid k)
  then show ?case by (simp add: mem_defs)
next
  case (4 s sid)
  then show ?case by (simp add: mem_defs)
next
  case (5 s sid)
  then show ?case by (auto simp: mem_defs)
next
  case (6 s sid)
  then show ?case
    by (auto simp: mem_defs mem_ok_def distinct_delete list_all_delete)
qed

section \<open>The SQLite store\<close>

datatype payload = Json event | Corrupt string

record row =
  row_session :: string
  row_seq :: int
  row_type :: string
  row_payload :: payload

text \<open>
  \<open>sq_rows\<close> is what the connection reads, \<open>sq_durable\<close> what the file holds: a commit copies
  the former to the latter, and closing the connection loses the difference.
\<close>

record sqlite =
  sq_rows :: "row list"
  sq_durable :: "row list"
  sq_batch :: bool
  sq_batch_size :: nat
  sq_pending :: nat

definition sqlite_init :: "bool \<Rightarrow> int \<Rightarrow> sqlite" where
  "sqlite_init batch_commits batch_commit_size =
     \<lparr>sq_rows = [], sq_durable = [], sq_batch = batch_commits,
      sq_batch_size = nat (max 1 batch_commit_size), sq_pending = 0\<rparr>"

definition sq_commit :: "sqlite \<Rightarrow> sqlite" where
  "sq_commit s = s\<lparr>sq_durable := sq_rows s\<rparr>"

definition sq_maybe_commit :: "sqlite \<Rightarrow> sqlite" where
  "sq_maybe_commit s =
     (if \<not> sq_batch s then sq_commit s
      else let s1 = s\<lparr>sq_pending := sq_pending s + 1\<rparr>
           in if sq_batch_size s1 \<le> sq_pending s1 then (sq_commit s1)\<lparr>sq_pending := 0\<rparr> else s1)"

definition sq_flush :: "sqlite \<Rightarrow> sqlite" where
  "sq_flush s = (if \<not> sq_batch s then s else (sq_commit s)\<lparr>sq_pending := 0\<rparr>)"

definition event_row :: "string \<Rightarrow> event \<Rightarrow> row" where
  "event_row sid e = \<lparr>row_session = sid, row_seq = event_seq e,
     row_type = (case event_type_opt e of Some t \<Rightarrow> t | None \<Rightarrow> []), row_payload = Json e\<rparr>"

definition sq_append :: "string \<Rightarrow> event \<Rightarrow> sqlite \<Rightarrow> pyerror + sqlite" where
  "sq_append sid e s =
     (case check_session_id sid of
        Inl err \<Rightarrow> Inl err
      | Inr _ \<Rightarrow>
          (case validate_store_event e of
             Inl err \<Rightarrow> Inl err
           | Inr _ \<Rightarrow>
               if \<not> event_json_ok e
               then Inl (ValueError ''EventStore append: JSON serialization failed'')
               else Inr (sq_maybe_commit (s\<lparr>sq_rows := sq_rows s @ [event_row sid e]\<rparr>))))"

text \<open>One page of rows, in sequence order.\<close>

definition select_page :: "string \<Rightarrow> int \<Rightarrow> int \<Rightarrow> nat \<Rightarrow> row list \<Rightarrow> row list" where
  "select_page sid low last_seq limit rows =
     take limit (sort_key row_seq
       (filter (\<lambda>r. row_session r = sid
                  \<and> (if 0 < last_seq then last_seq < row_seq r else low \<le> row_seq r)) rows))"

definition readable :: "row \<Rightarrow> event list" where
  "readable r = (case row_payload r of Json e \<Rightarrow> [e] | Corrupt _ \<Rightarrow> [])"

definition replay_chunk ::
    "string \<Rightarrow> int \<Rightarrow> int \<Rightarrow> nat \<Rightarrow> row list \<Rightarrow> event list \<times> int option" where
  "replay_chunk sid low last_seq limit rows =
     (let page = select_page sid low last_seq limit rows
      in (concat (map readable page),
          if page = [] then None else Some (row_seq (last page))))"

text \<open>The page loop of \<open>replay\<close>; \<open>None\<close> when the fuel runs out.\<close>

fun replay_pages :: "nat \<Rightarrow> nat \<Rightarrow> string \<Rightarrow> int \<Rightarrow> int \<Rightarrow> row list \<Rightarrow> event list option" where
  "replay_pages 0 page_size sid low last_seq rows = None"
| "replay_pages (Suc n) page_size sid low last_seq rows =
     (let (chunk, next_cursor) = replay_chunk sid low last_seq page_size rows
      in if chunk = [] then Some []
         else let last' = (case next_cursor of Some c \<Rightarrow> c | None \<Rightarrow> last_seq)
              in if length chunk < page_size then Some chunk
                 else map_option (append chunk) (replay_pages n page_size sid low last' rows))"

definition replay_page_size :: nat where
  "replay_page_size = 256"

definition sq_replay :: "string \<Rightarrow> int \<Rightarrow> sqlite \<Rightarrow> pyerror + event list" where
  "sq_replay sid from_seq s =
     (case check_session_id sid of
        Inl err \<Rightarrow> Inl err
      | Inr _ \<Rightarrow>
          (case replay_pages (length (sq_rows s) + 1) replay_page_size sid
                  (normalize_from_seq from_seq) 0 (sq_rows s) of
             None \<Rightarrow> Inl OutOfFuel
           | Some es \<Rightarrow> Inr es))"

definition sq_count :: "string \<Rightarrow> sqlite \<Rightarrow> nat" where
  "sq_count sid s = length (filter (\<lambda>r. row_session r = sid) (sq_rows s))"

definition sq_clear :: "string \<Rightarrow> sqlite \<Rightarrow> sqlite" where
  "sq_clear sid s =
     (sq_commit (s\<lparr>sq_rows := filter (\<lambda>r. row_session r \<noteq> sid) (sq_rows s)\<rparr>))\<lparr>sq_pending := 0\<rparr>"

definition sq_max_seq :: "string \<Rightarrow> sqlite \<Rightarrow> pyerror + int" where
  "sq_max_seq sid s =
     (case check_session_id sid of
        Inl err \<Rightarrow> Inl err
      | Inr _ \<Rightarrow>
          (let seqs = map row_seq (filter (\<lambda>r. row_session r = sid) (sq_rows s))
           in Inr (if seqs = [] then 0 else Max (set seqs))))"

definition sq_list_session_ids :: "sqlite \<Rightarrow> string list" where
  "sq_list_session_ids s = sort (remdups (map row_session (sq_rows s)))"

definition sq_rename :: "string \<Rightarrow> string \<Rightarrow> sqlite \<Rightarrow> pyerror + sqlite" where
  "sq_rename old new s =
     (case check_session_id old of
        Inl err \<Rightarrow> Inl err
      | Inr _ \<Rightarrow>
          (case check_session_id new of
             Inl err \<Rightarrow> Inl err
           | Inr _ \<Rightarrow>
               if old = new then Inr s
               else Inr ((sq_commit (s\<lparr>sq_rows :=
                       map (\<lambda>r. if row_session r = old then r\<lparr>row_session := new\<rparr> else r)
                           (sq_rows s)\<rparr>))\<lparr>sq_pending := 0\<rparr>)))"

text \<open>Closing drops what was not committed; the next use reopens the file.\<close>

definition sq_close :: "sqlite \<Rightarrow> sqlite" where
  "sq_close s = s\<lparr>sq_rows := sq_durable s\<rparr>"

section \<open>Paged replay\<close>

definition session_rows :: "string \<Rightarrow> row list \<Rightarrow> row list" where
  "session_rows sid rows = sort_key row_seq (filter (\<lambda>r. row_session r = sid) rows)"

definition row_event :: "row \<Rightarrow> event" where
  "row_event r = (case row_payload r of Json e \<Rightarrow> e | Corrupt _ \<Rightarrow> [])"

definition row_ok :: "row \<Rightarrow> bool" where
  "row_ok r \<longleftrightarrow> (case row_payload r of
     Json e \<Rightarrow> row_seq r = event_seq e \<and> 0 < event_seq e | Corrupt _ \<Rightarrow> False)"

definition rows_ok :: "row list \<Rightarrow> bool" where
  "rows_ok rows \<longleftrightarrow> list_all row_ok rows \<and> distinct (map (\<lambda>r. (row_session r, row_seq r)) rows)"

definition sq_ok :: "sqlite \<Rightarrow> bool" where
  "sq_ok s \<longleftrightarrow> rows_ok (sq_rows s)"

definition sq_log :: "sqlite \<Rightarrow> string \<Rightarrow> event list" where
  "sq_log s sid = map row_event (session_rows sid (sq_rows s))"

lemma select_page_filter:
  "select_page sid low last_seq limit rows =
     take limit (filter (\<lambda>r. if 0 < last_seq then last_seq < row_seq r else low \<le> row_seq r)
                   (session_rows sid rows))"
proof -
  have "filter (\<lambda>r. row_session r = sid
            \<and> (if 0 < last_seq then last_seq < row_seq r else low \<le> row_seq r)) rows
      = filter (\<lambda>r. if 0 < last_seq then last_seq < row_seq r else low \<le> row_seq r)
          (filter (\<lambda>r. row_session r = sid) rows)"
    by (simp add: conj_commute)
  then show ?thesis by (simp only: select_page_def session_rows_def filter_sort)
qed

lemma session_rows_strict:
  assumes "rows_ok rows"
  shows "sorted_wrt (<) (map row_seq (session_rows sid rows))"
proof -
  have "distinct (map row_seq (filter (\<lambda>r. row_session r = sid) rows))"
    using assms by (auto simp: rows_ok_def distinct_map inj_on_def)
  then show ?thesis unfolding session_rows_def by (rule strictly_sorted_key)
qed

lemma session_rows_good:
  "rows_ok rows \<Longrightarrow> r \<in> set (session_rows sid rows) \<Longrightarrow> row_ok r \<and> row_session r = sid"
  by (auto simp: session_rows_def rows_ok_def list_all_iff)

lemma row_ok_event: "row_ok r \<Longrightarrow> row_seq r = event_seq (row_event r)"
  by (auto simp: row_ok_def row_event_def split: payload.splits)

lemma session_rows_event:
  "rows_ok rows \<Longrightarrow> r \<in> set (session_rows sid rows) \<Longrightarrow> row_seq r = event_seq (row_event r)"
  using session_rows_good row_ok_event by blast

lemma session_rows_pos:
  "rows_ok rows \<Longrightarrow> \<forall>r\<in>set (session_rows sid rows). 0 < row_seq r"
  using session_rows_good by (fastforce simp: row_ok_def split: payload.splits)

lemma readable_good: "\<forall>r\<in>set rs. row_ok r \<Longrightarrow> concat (map readable rs) = map row_event rs"
  by (induction rs) (auto simp: readable_def row_ok_def row_event_def split: payload.splits)

text \<open>The part of the session a replay still has to yield.\<close>

definition pending_rows :: "int \<Rightarrow> int \<Rightarrow> row list \<Rightarrow> row list" where
  "pending_rows low last_seq S =
     filter (\<lambda>r. if 0 < last_seq then last_seq < row_seq r else low \<le> row_seq r) S"

lemma pending_rows_next:
  assumes "sorted_wrt (<) (map row_seq S)" and "\<forall>r\<in>set S. 0 < row_seq r"
    and "k < length (pending_rows low last_seq S)"
  shows "pending_rows low (row_seq (pending_rows low last_seq S ! k)) S
         = drop (Suc k) (pending_rows low last_seq S)"
proof -
  let ?T = "pending_rows low last_seq S"
  have inT: "?T ! k \<in> set ?T" using assms(3) by simp
  then have pos: "0 < row_seq (?T ! k)" using assms(2) by (simp add: pending_rows_def)
  have strict: "sorted_wrt (<) (map row_seq ?T)"
    using assms(1) by (simp add: pending_rows_def sorted_wrt_map sorted_wrt_filter)
  have "filter (\<lambda>r. row_seq (?T ! k) < row_seq r) S = filter (\<lambda>r. row_seq (?T ! k) < row_seq r) ?T"
    using inT by (auto simp: pending_rows_def intro!: filter_cong split: if_splits)
  then show ?thesis
    using filter_le_nth_drop [OF strict assms(3)] pos by (simp add: pending_rows_def)
qed

lemma replay_pages_all:
  assumes "rows_ok rows" and "0 < p"
    and "length (pending_rows low last_seq (session_rows sid rows)) < n"
  shows "replay_pages n p sid low last_seq rows
    = Some (map row_event (pending_rows low last_seq (session_rows sid rows)))"
  using assms(3)
proof (induction n arbitrary: last_seq)
  case (Suc n)
  let ?S = "session_rows sid rows"
  let ?T = "pending_rows low last_seq ?S"
  have good: "\<forall>r\<in>set ?T. row_ok r"
    using session_rows_good [OF assms(1)] by (auto simp: pending_rows_def)
  have page: "select_page sid low last_seq p rows = take p ?T"
    by (simp add: select_page_filter pending_rows_def)
  have chunk: "replay_chunk sid low last_seq p rows
      = (map row_event (take p ?T), if take p ?T = [] then None else Some (row_seq (last (take p ?T))))"
    using readable_good [of "take p ?T"] good
    by (auto simp: replay_chunk_def page Let_def dest: in_set_takeD)
  consider (none) "?T = []" | (part) "?T \<noteq> []" "length ?T < p" | (full) "p \<le> length ?T" "?T \<noteq> []"
    by force
  then show ?case
  proof cases
    case none
    then show ?thesis using chunk by simp
  next
    case part
    then show ?thesis using chunk by simp
  next
    case full
    have k: "p - 1 < length ?T" using full assms(2) by simp
    have lst: "last (take p ?T) = ?T ! (p - 1)"
      using full assms(2) by (simp add: last_conv_nth)
    have "pending_rows low (row_seq (?T ! (p - 1))) ?S = drop (Suc (p - 1)) ?T"
      by (rule pending_rows_next [OF session_rows_strict [OF assms(1)] session_rows_pos [OF assms(1)] k])
    then have nxt: "pending_rows low (row_seq (?T ! (p - 1))) ?S = drop p ?T"
      using assms(2) by simp
    have "length (drop p ?T) < n" using Suc.prems assms(2) full by simp
    then have "replay_pages n p sid low (row_seq (?T ! (p - 1))) rows
        = Some (map row_event (drop p ?T))"
      using Suc.IH [of "row_seq (?T ! (p - 1))"] nxt by simp
    then have "replay_pages (Suc n) p sid low last_seq rows
        = Some (map row_event (take p ?T) @ map row_event (drop p ?T))"
      using chunk full assms(2) lst by (simp add: Let_def)
    then show ?thesis by (metis append_take_drop_id map_append)
  qed
qed simp

lemma length_session_rows: "length (session_rows sid rows) \<le> length rows"
  by (simp add: session_rows_def)

lemma sq_replay_log:
  assumes "sq_ok s" and "valid_session_id sid"
  shows "sq_replay sid k s
    = Inr (filter (\<lambda>e. normalize_from_seq k \<le> event_seq e) (sq_log s sid))"
proof -
  let ?S = "session_rows sid (sq_rows s)"
  have ok: "rows_ok (sq_rows s)" using assms(1) by (simp add: sq_ok_def)
  have "length (pending_rows (normalize_from_seq k) 0 ?S) < length (sq_rows s) + 1"
    using order_trans [OF length_filter_le length_session_rows]
    by (simp add: pending_rows_def less_Suc_eq_le)
  from replay_pages_all [OF ok _ this, of replay_page_size]
  have r: "sq_replay sid k s = Inr (map row_event (pending_rows (normalize_from_seq k) 0 ?S))"
    using assms(2) by (simp add: sq_replay_def check_session_id_def replay_page_size_def)
  have "filter (\<lambda>r. normalize_from_seq k \<le> row_seq r) ?S
      = filter ((\<lambda>e. normalize_from_seq k \<le> event_seq e) \<circ> row_event) ?S"
    using session_rows_event [OF ok] by (auto intro!: filter_cong)
  then show ?thesis
    using r by (simp add: sq_log_def filter_map pending_rows_def)
qed

lemma sq_maybe_commit_rows [simp]: "sq_rows (sq_maybe_commit s) = sq_rows s"
  by (simp add: sq_maybe_commit_def sq_commit_def Let_def)

lemma sq_commit_rows [simp]: "sq_rows (sq_commit s) = sq_rows s"
  by (simp add: sq_commit_def)

lemmas sq_defs = sq_append_def sq_count_def sq_clear_def sq_max_seq_def sq_log_def sq_ok_def
  check_session_id_def

lemma session_rows_append:
  "\<forall>r\<in>set (session_rows sid rows). row_seq r < event_seq e \<Longrightarrow>
     session_rows k (rows @ [event_row sid e])
       = session_rows k rows @ (if k = sid then [event_row sid e] else [])"
  unfolding session_rows_def
  by (auto simp: event_row_def intro!: sort_key_snoc less_imp_le)

interpretation sq: event_log sq_ok sq_log sq_append sq_replay sq_count sq_max_seq sq_clear
proof (unfold_locales, goal_cases)
  case (1 s sid e)
  let ?s1 = "sq_maybe_commit (s\<lparr>sq_rows := sq_rows s @ [event_row sid e]\<rparr>)"
  have ok: "rows_ok (sq_rows s)" using 1(1) by (simp add: sq_ok_def)
  have pos: "0 < event_seq e" using validate_pos [OF 1(3)] .
  have below: "\<forall>r\<in>set (session_rows sid (sq_rows s)). row_seq r < event_seq e"
    using 1(5) session_rows_event [OF ok] by (auto simp: sq_log_def)
  have "(sid, event_seq e) \<notin> (\<lambda>r. (row_session r, row_seq r)) ` set (sq_rows s)"
    using below by (auto simp: session_rows_def)
  then have "rows_ok (sq_rows s @ [event_row sid e])"
    using ok pos by (simp add: rows_ok_def row_ok_def event_row_def)
  moreover have "sq_append sid e s = Inr ?s1"
    using 1 by (simp add: sq_append_def check_session_id_def)
  moreover have "row_event (event_row sid e) = e" by (simp add: row_event_def event_row_def)
  ultimately show ?case
    using session_rows_append [OF below] by (simp add: sq_ok_def sq_log_def)
next
  case (2 sid e s s')
  then show ?case by (auto simp: sq_append_def check_session_id_def split: sum.splits if_splits)
next
  case (3 s sid k)
  then show ?case by (rule sq_replay_log)
next
  case (4 s sid)
  then show ?case by (simp add: sq_count_def sq_log_def session_rows_def)
next
  case (5 s sid)
  have ok: "rows_ok (sq_rows s)" using 5(1) by (simp add: sq_ok_def)
  have "event_seq ` row_event ` set (session_rows sid (sq_rows s))
      = row_seq ` set (session_rows sid (sq_rows s))"
    using session_rows_event [OF ok] by (force simp: image_iff)
  then show ?case
    using 5 by (auto simp: sq_max_seq_def check_session_id_def sq_log_def session_rows_def Let_def
        image_image)
next
  case (6 s sid)
  have "session_rows other (filter (\<lambda>r. row_session r \<noteq> sid) rows)
      = (if other = sid then [] else session_rows other rows)" for other rows
    by (auto simp: session_rows_def intro!: arg_cong [of _ _ "sort_key row_seq"] filter_cong)
  moreover have "rows_ok (filter P (sq_rows s))" for P
    using 6 by (auto simp: sq_ok_def rows_ok_def list_all_iff distinct_map_filter)
  ultimately show ?case by (simp add: sq_clear_def sq_ok_def sq_log_def)
qed

text \<open>
  C37. Both stores keep the events of a session that are appended in increasing sequence
  order: a client that reconnects after having seen the first \<open>n + 1\<close> of them, and asks for
  the next sequence number, receives exactly the remaining ones, in order; a replay from 0
  yields all of them; with SQLite this holds across pages and whatever the commit batching.
\<close>

theorem reconnect_replays_rest:
  assumes "valid_session_id sid" and "n < length es"
    and "\<forall>e\<in>set es. validate_store_event e = Inr () \<and> event_json_ok e"
    and "sorted_wrt (<) (map event_seq es)"
  shows "(\<exists>m. mem.append_all sid es [] = Inr m
          \<and> mem_replay sid (event_seq (es ! n) + 1) m = Inr (drop (Suc n) es)
          \<and> mem_replay sid 0 m = Inr es \<and> mem_count sid m = length es)
       \<and> (\<exists>q. sq.append_all sid es (sqlite_init batch bsize) = Inr q
          \<and> sq_replay sid (event_seq (es ! n) + 1) q = Inr (drop (Suc n) es)
          \<and> sq_replay sid 0 q = Inr es \<and> sq_count sid q = length es)"
proof -
  have "mem_ok []" "mem_log [] sid = []" "sq_ok (sqlite_init batch bsize)"
    "sq_log (sqlite_init batch bsize) sid = []"
    by (simp_all add: mem_ok_def mem_log_def mem_get_def sq_ok_def rows_ok_def sq_log_def
        session_rows_def sqlite_init_def)
  then show ?thesis
    using mem.reconnect [OF _ assms(1) _ assms(3,4,2)] sq.reconnect [OF _ assms(1) _ assms(3,4,2)]
    by blast
qed

definition demo_event :: "int \<Rightarrow> event" where
  "demo_event n = [(''seq'', PyInt n), (''type'', PyStr ''turn.started'')]"

lemma demo_event_ok:
  "0 < n \<Longrightarrow> validate_store_event (demo_event n) = Inr () \<and> event_json_ok (demo_event n)"
  by (simp add: demo_event_def validate_store_event_def event_seq_opt_def event_type_opt_def
      event_json_ok_def blank_def py_strip_def py_isspace_def)

lemma demo_event_seq [simp]: "event_seq (demo_event n) = n"
  by (simp add: demo_event_def event_seq_def event_seq_opt_def)

definition demo_events :: "event list" where
  "demo_events = [demo_event 1, demo_event 2, demo_event 5]"

lemma demo_events_ok:
  "valid_session_id ''s1''" "0 < length demo_events"
  "\<forall>e\<in>set demo_events. validate_store_event e = Inr () \<and> event_json_ok e"
  "sorted_wrt (<) (map event_seq demo_events)"
  using demo_event_ok
  by (auto simp: demo_events_def valid_session_id_def blank_def py_strip_def py_isspace_def)

lemma reconnect_replays_rest_witness:
  "\<exists>q. sq.append_all ''s1'' demo_events (sqlite_init True 2) = Inr q
     \<and> sq_replay ''s1'' (event_seq (demo_events ! 0) + 1) q = Inr (drop (Suc 0) demo_events)"
  using reconnect_replays_rest [OF demo_events_ok, of True 2] by blast



section \<open>Where replay stops early\<close>

lemma readable_le: "length (readable r) \<le> 1"
  by (auto simp: readable_def split: payload.splits)

lemma readable_all_le: "length (concat (map readable rs)) \<le> length rs"
proof (induction rs)
  case (Cons r rs)
  then show ?case using readable_le [of r] by simp
qed simp

lemma readable_short:
  "\<exists>r\<in>set rs. readable r = [] \<Longrightarrow> length (concat (map readable rs)) < length rs"
proof (induction rs)
  case (Cons r rs)
  show ?case
  proof (cases "readable r = []")
    case True
    then show ?thesis using readable_all_le [of rs] by simp
  next
    case False
    then have "length (concat (map readable rs)) < length rs" using Cons by simp
    then show ?thesis using readable_le [of r] by simp
  qed
qed simp

text \<open>
  A row that does not parse among the first 256 of a session ends the replay with that
  page: the page then yields fewer than 256 events, which the loop takes for the last page,
  so no event of a later page is ever delivered.
\<close>

theorem corrupt_row_truncates_replay:
  assumes "valid_session_id sid" and "\<forall>r\<in>set (sq_rows s). 0 < row_seq r"
    and "\<exists>r\<in>set (take 256 (session_rows sid (sq_rows s))). readable r = []"
  shows "sq_replay sid 0 s
    = Inr (concat (map readable (take 256 (session_rows sid (sq_rows s)))))"
proof -
  let ?S = "session_rows sid (sq_rows s)"
  have all: "filter (\<lambda>r. 0 \<le> row_seq r) ?S = ?S"
    using assms(2) by (auto simp: session_rows_def filter_id_conv less_imp_le)
  have page: "select_page sid 0 0 256 (sq_rows s) = take 256 ?S"
    by (simp add: select_page_filter all)
  have "length (concat (map readable (take 256 ?S))) < 256"
    using readable_short [OF assms(3)] by simp
  then show ?thesis
    using assms(1) page
    by (simp add: sq_replay_def check_session_id_def replay_page_size_def normalize_from_seq_def
        replay_chunk_def Let_def)
qed

definition page_end :: nat where "page_end = 257"

definition store_end :: nat where "store_end = 300"

definition good_rows :: "nat \<Rightarrow> row list" where
  "good_rows m = map (\<lambda>n. event_row ''s1'' (demo_event (int n))) [2..<m]"

definition bad_row :: row where
  "bad_row = \<lparr>row_session = ''s1'', row_seq = 1, row_type = ''turn.started'',
     row_payload = Corrupt ''{''\<rparr>"

definition damaged_store :: sqlite where
  "damaged_store = (sqlite_init False 32)\<lparr>sq_rows := bad_row # good_rows store_end\<rparr>"

lemma damaged_store_rows:
  "session_rows ''s1'' (sq_rows damaged_store) = bad_row # good_rows store_end"
proof -
  have sorted: "sorted (map row_seq (bad_row # good_rows m))" for m
    by (auto simp: good_rows_def bad_row_def event_row_def comp_def sorted_map_mono mono_onI)
  have "filter (\<lambda>r. row_session r = ''s1'') (good_rows m) = good_rows m" for m
    by (auto simp: good_rows_def event_row_def filter_id_conv)
  then have f: "filter (\<lambda>r. row_session r = ''s1'') (bad_row # good_rows m) = bad_row # good_rows m" for m
    by (simp add: bad_row_def)
  have "session_rows ''s1'' (sq_rows damaged_store)
      = sort_key row_seq (filter (\<lambda>r. row_session r = ''s1'') (bad_row # good_rows store_end))"
    by (simp add: damaged_store_def session_rows_def)
  then show ?thesis by (simp only: f sort_key_sorted [OF sorted])
qed

lemma good_rows_page: "take 256 (bad_row # good_rows store_end) = bad_row # good_rows page_end"
proof -
  have "2 + 255 \<le> store_end" by (simp add: store_end_def)
  then have "take 255 [2..<store_end] = [2..<2 + 255]" by (rule take_upt)
  also have "(2 :: nat) + 255 = page_end" by (simp add: page_end_def)
  finally show ?thesis by (simp add: good_rows_def take_map take_Cons')
qed

lemma corrupt_row_truncates_replay_witness:
  "sq_replay ''s1'' 0 damaged_store = Inr (map (\<lambda>n. demo_event (int n)) [2..<page_end])"
proof -
  have p: "\<forall>r\<in>set (sq_rows damaged_store). 0 < row_seq r"
    by (auto simp: damaged_store_def good_rows_def bad_row_def event_row_def)
  have c: "readable bad_row = []" by (simp add: bad_row_def readable_def)
  have r: "concat (map readable (map (\<lambda>n. event_row ''s1'' (demo_event (int n))) xs))
      = map (\<lambda>n. demo_event (int n)) xs" for xs
    by (induction xs) (auto simp: event_row_def readable_def)
  have "\<exists>r\<in>set (take 256 (session_rows ''s1'' (sq_rows damaged_store))). readable r = []"
    using c by (simp add: damaged_store_rows good_rows_page)
  then have "sq_replay ''s1'' 0 damaged_store
      = Inr (concat (map readable (bad_row # good_rows page_end)))"
    using corrupt_row_truncates_replay [OF demo_events_ok(1) p]
    by (simp only: damaged_store_rows good_rows_page)
  then show ?thesis using c r [of "[2..<page_end]"] by (simp add: good_rows_def)
qed

section \<open>Durability of batched commits\<close>

datatype store_op =
    Append_op string event
  | Flush_op
  | Clear_op string
  | Rename_op string string

fun sq_step :: "store_op \<Rightarrow> sqlite \<Rightarrow> sqlite" where
  "sq_step (Append_op sid e) s = (case sq_append sid e s of Inl _ \<Rightarrow> s | Inr s' \<Rightarrow> s')"
| "sq_step Flush_op s = sq_flush s"
| "sq_step (Clear_op sid) s = sq_clear sid s"
| "sq_step (Rename_op old new) s = (case sq_rename old new s of Inl _ \<Rightarrow> s | Inr s' \<Rightarrow> s')"

definition commit_inv :: "sqlite \<Rightarrow> bool" where
  "commit_inv s \<longleftrightarrow>
     (\<exists>tail. sq_rows s = sq_durable s @ tail \<and> length tail = sq_pending s)
     \<and> sq_pending s < sq_batch_size s \<and> (\<not> sq_batch s \<longrightarrow> sq_pending s = 0)"

lemma commit_inv_committed:
  "\<lbrakk>sq_rows s = sq_durable s; sq_pending s = 0; 0 < sq_batch_size s\<rbrakk> \<Longrightarrow> commit_inv s"
  by (simp add: commit_inv_def)

lemma commit_inv_append:
  assumes "commit_inv s"
  shows "commit_inv (sq_maybe_commit (s\<lparr>sq_rows := sq_rows s @ [r]\<rparr>))"
  using assms by (auto simp: commit_inv_def sq_maybe_commit_def sq_commit_def Let_def)

lemma commit_inv_step:
  assumes "commit_inv s"
  shows "commit_inv (sq_step p s) \<and> sq_batch_size (sq_step p s) = sq_batch_size s"
proof -
  have pos: "0 < sq_batch_size s" using assms by (simp add: commit_inv_def)
  show ?thesis
  proof (cases p)
    case (Append_op sid e)
    then show ?thesis
      using assms commit_inv_append [OF assms]
      by (auto simp: sq_append_def sq_maybe_commit_def sq_commit_def Let_def split: sum.splits)
  next
    case Flush_op
    then show ?thesis using assms pos
      by (auto simp: sq_flush_def sq_commit_def commit_inv_def)
  next
    case (Clear_op sid)
    then show ?thesis using pos
      by (auto simp: sq_clear_def sq_commit_def intro!: commit_inv_committed)
  next
    case (Rename_op old new)
    then show ?thesis using assms pos
      by (auto simp: sq_rename_def sq_commit_def split: sum.splits intro!: commit_inv_committed)
  qed
qed

text \<open>
  However appends, flushes, clears and renames are mixed, closing the SQLite store (or
  losing the process) keeps a prefix of the rows and loses fewer than \<open>batch_commit_size\<close> of
  the last ones, and none without batching; after a flush nothing is lost.
\<close>

theorem close_loses_less_than_batch:
  shows "\<exists>tail. sq_rows (fold sq_step ops (sqlite_init batch bsize))
      = sq_rows (sq_close (fold sq_step ops (sqlite_init batch bsize))) @ tail
    \<and> int (length tail) < max 1 bsize
    \<and> (\<not> batch \<longrightarrow> tail = [])
    \<and> sq_rows (sq_close (sq_flush (fold sq_step ops (sqlite_init batch bsize))))
        = sq_rows (fold sq_step ops (sqlite_init batch bsize))"
proof -
  let ?s = "fold sq_step ops (sqlite_init batch bsize)"
  have "commit_inv s \<Longrightarrow> commit_inv (fold sq_step ps s)
      \<and> sq_batch_size (fold sq_step ps s) = sq_batch_size s" for ps s
    by (induction ps arbitrary: s) (use commit_inv_step in auto)
  moreover have "commit_inv (sqlite_init batch bsize)"
    by (simp add: sqlite_init_def commit_inv_def)
  ultimately have inv: "commit_inv ?s" and sz: "sq_batch_size ?s = nat (max 1 bsize)"
    by (auto simp: sqlite_init_def)
  have batch: "sq_batch (sq_step p s) = sq_batch s" for p s
    by (cases p) (auto simp: sq_append_def sq_maybe_commit_def sq_commit_def sq_flush_def
        sq_clear_def sq_rename_def Let_def split: sum.splits)
  have "sq_batch (fold sq_step ps s) = sq_batch s" for ps s
    by (induction ps arbitrary: s) (simp_all add: batch)
  then have b: "sq_batch ?s = batch" by (simp add: sqlite_init_def)
  from inv obtain rest where rest: "sq_rows ?s = sq_durable ?s @ rest" "length rest = sq_pending ?s"
      "sq_pending ?s < sq_batch_size ?s" "\<not> sq_batch ?s \<longrightarrow> sq_pending ?s = 0"
    by (auto simp: commit_inv_def)
  have "int (length rest) < max 1 bsize" using rest sz by linarith
  moreover have "\<not> batch \<longrightarrow> rest = []" using rest b by auto
  moreover have "sq_rows (sq_close (sq_flush ?s)) = sq_rows ?s"
    using rest b by (auto simp: sq_close_def sq_flush_def sq_commit_def)
  ultimately show ?thesis using rest(1) by (intro exI [of _ rest]) (simp add: sq_close_def)
qed

lemma close_loses_less_than_batch_witness:
  "sq_rows (fold sq_step [Append_op ''s1'' (demo_event 1)] (sqlite_init False 32))
     = sq_rows (sq_close (fold sq_step [Append_op ''s1'' (demo_event 1)] (sqlite_init False 32)))"
  using close_loses_less_than_batch [of "[Append_op ''s1'' (demo_event 1)]" False 32] by auto

end
