(* ===== verification/Session_Emitter.thy ===== *)
theory Session_Emitter
  imports Event_Store
begin

text \<open>
  The session emitter (\<open>src/agloom/protocol/emitter.py\<close>, \<open>envelope.py\<close>): the one place that
  numbers AGP events, filters them for the wire, hands them to the observer and schedules
  their storage; its forks for threads, and the asynchronous emitter with its wire queue.

  What an emitter shares with its forks (sequence counter, subscription filter, cap on store
  appends, the writer) is the record \<open>session\<close>; what each has of its own is \<open>emitter\<close>. The
  ids and time stamps come from an argument \<open>mint\<close>, which stands for \<open>uuid4\<close> and the clock.
  \<open>ss_log\<close> is a ghost: every event that reached \<open>_write\<close>.
\<close>

section \<open>Envelopes\<close>

record envelope =
  ev_id :: string
  ev_ts :: string
  ev_session :: string
  ev_thread :: string
  ev_seq :: int
  ev_parent :: "string option"
  ev_trace :: "string option"
  ev_type :: string
  ev_data :: "pyval pydict"

fun sanitize :: "pyval \<Rightarrow> pyval" where
  "sanitize (PyFloat f) = (case f of Fin r \<Rightarrow> PyFloat (Fin r) | _ \<Rightarrow> PyNone)"
| "sanitize (PyDict d) = PyDict (map (\<lambda>(k, v). (k, sanitize v)) d)"
| "sanitize (PyList xs) = PyList (map sanitize xs)"
| "sanitize v = v"

definition opt_field :: "string \<Rightarrow> string option \<Rightarrow> event" where
  "opt_field k v = (case v of None \<Rightarrow> [] | Some s \<Rightarrow> [(k, PyStr s)])"

text \<open>\<open>model_dump(mode="json", exclude_none=True)\<close>: the base fields, then \<open>type\<close> and \<open>data\<close>.\<close>

definition dump_event :: "envelope \<Rightarrow> event" where
  "dump_event e =
     [(''v'', PyStr ''1''), (''id'', PyStr (ev_id e)), (''ts'', PyStr (ev_ts e)),
      (''session'', PyStr (ev_session e)), (''thread'', PyStr (ev_thread e)),
      (''seq'', PyInt (ev_seq e))]
     @ opt_field ''parent'' (ev_parent e) @ opt_field ''trace'' (ev_trace e)
     @ [(''type'', PyStr (ev_type e)), (''data'', PyDict (ev_data e))]"

definition event_to_dict :: "envelope \<Rightarrow> event" where
  "event_to_dict e =
     (case sanitize (PyDict (dump_event e)) of PyDict d \<Rightarrow> d | _ \<Rightarrow> [])"

section \<open>Shared and own state\<close>

record session =
  ss_seq :: int
  ss_prefixes :: "string list option"
  ss_inflight :: int
  ss_clock :: rat
  ss_loop :: bool
  ss_minted :: nat
  ss_queue_max :: nat
  ss_queue :: "event list"
  ss_wire :: "event list"
  ss_observed :: "envelope list"
  ss_scheduled :: "envelope list"
  ss_log :: "envelope list"

text \<open>\<open>for_callback_only\<close> bypasses \<open>__init__\<close> and leaves attributes unset.\<close>

datatype 'a attr = Unset | Attr 'a

datatype emitter_kind = Sync_emitter | Async_emitter

record emitter =
  em_kind :: emitter_kind
  em_session :: string
  em_thread :: string
  em_invocation_only :: bool
  em_has_writer :: bool
  em_has_store :: bool
  em_opened :: bool
  em_closed :: bool
  em_last_open :: "envelope option attr"
  em_last_resume :: "envelope option attr"
  em_inflight_set :: bool
  em_trace :: "string option"
  em_last_event :: "string option"
  em_last_drop_warn :: rat

type_synonym mint = "nat \<Rightarrow> string \<times> string"

definition seq_next :: "session \<Rightarrow> int \<times> session" where
  "seq_next s = (ss_seq s + 1, s\<lparr>ss_seq := ss_seq s + 1\<rparr>)"

definition seq_seed :: "int \<Rightarrow> session \<Rightarrow> session" where
  "seq_seed minimum s = (if ss_seq s < max 0 minimum then s\<lparr>ss_seq := max 0 minimum\<rparr> else s)"

definition max_store_append_inflight :: int where
  "max_store_append_inflight = 128"

definition inflight_try_acquire :: "session \<Rightarrow> bool \<times> session" where
  "inflight_try_acquire s =
     (if max_store_append_inflight \<le> ss_inflight s then (False, s)
      else (True, s\<lparr>ss_inflight := ss_inflight s + 1\<rparr>))"

definition inflight_release :: "session \<Rightarrow> session" where
  "inflight_release s = s\<lparr>ss_inflight := max 0 (ss_inflight s - 1)\<rparr>"

definition session_init :: "nat \<Rightarrow> session" where
  "session_init qmax = \<lparr>ss_seq = 0, ss_prefixes = None, ss_inflight = 0, ss_clock = 0,
     ss_loop = True, ss_minted = 0, ss_queue_max = qmax, ss_queue = [], ss_wire = [],
     ss_observed = [], ss_scheduled = [], ss_log = []\<rparr>"

definition emitter_init :: "emitter_kind \<Rightarrow> string \<Rightarrow> string \<Rightarrow> bool \<Rightarrow> bool \<Rightarrow> emitter" where
  "emitter_init kind sid thread has_store invocation_only =
     \<lparr>em_kind = kind, em_session = sid, em_thread = thread, em_invocation_only = invocation_only,
      em_has_writer = (kind = Sync_emitter), em_has_store = has_store, em_opened = False,
      em_closed = False, em_last_open = Attr None, em_last_resume = Attr None,
      em_inflight_set = True, em_trace = None, em_last_event = None, em_last_drop_warn = 0\<rparr>"

definition for_callback_only :: "string \<Rightarrow> string \<Rightarrow> emitter" where
  "for_callback_only sid thread =
     \<lparr>em_kind = Sync_emitter, em_session = sid, em_thread = thread, em_invocation_only = False,
      em_has_writer = False, em_has_store = False, em_opened = False, em_closed = False,
      em_last_open = Unset, em_last_resume = Unset, em_inflight_set = False, em_trace = None,
      em_last_event = None, em_last_drop_warn = 0\<rparr>"

section \<open>Subscription filter\<close>

definition set_subscription_prefixes :: "string list option \<Rightarrow> session \<Rightarrow> session" where
  "set_subscription_prefixes wanted s =
     (case wanted of
        None \<Rightarrow> s\<lparr>ss_prefixes := None\<rparr>
      | Some ps \<Rightarrow> if ps = [] then s\<lparr>ss_prefixes := None\<rparr> else s\<lparr>ss_prefixes := Some ps\<rparr>)"

definition clear_subscription :: "session \<Rightarrow> session" where
  "clear_subscription s = s\<lparr>ss_prefixes := None\<rparr>"

definition passthrough_prefixes :: "string list" where
  "passthrough_prefixes =
     [''session.'', ''error.'', ''runtime.'', ''prompt.'', ''hitl.'', ''metric.'']"

definition subscription_allows_wire :: "session \<Rightarrow> string \<Rightarrow> bool" where
  "subscription_allows_wire s typ \<longleftrightarrow>
     (case ss_prefixes s of
        None \<Rightarrow> True
      | Some prefs \<Rightarrow> list_ex (startswith typ) passthrough_prefixes \<or> list_ex (startswith typ) prefs)"

section \<open>Writing one event\<close>

definition with_trace :: "emitter \<Rightarrow> envelope \<Rightarrow> envelope" where
  "with_trace em e =
     e\<lparr>ev_trace := (case em_trace em of
                      Some t \<Rightarrow> if t \<noteq> [] \<and> ev_trace e = None then Some t else ev_trace e
                    | None \<Rightarrow> ev_trace e),
       ev_parent := (case em_last_event em of
                      Some p \<Rightarrow> if ev_parent e = None \<and> p \<noteq> [] then Some p else ev_parent e
                    | None \<Rightarrow> ev_parent e)\<rparr>"

text \<open>
  \<open>asyncio.Queue.put_nowait\<close> raises \<open>asyncio.QueueFull\<close> on a full bounded queue; the handler
  names \<open>queue.Full\<close>, another class, so the exception leaves the method.
\<close>

definition enqueue_wire_line :: "event \<Rightarrow> session \<Rightarrow> pyerror + session" where
  "enqueue_wire_line line s =
     (if 0 < ss_queue_max s \<and> ss_queue_max s \<le> length (ss_queue s) then Inl QueueFull
      else Inr (s\<lparr>ss_queue := ss_queue s @ [line]\<rparr>))"

definition wire_step :: "emitter \<Rightarrow> envelope \<Rightarrow> session \<Rightarrow> pyerror + session" where
  "wire_step em e s =
     (if \<not> subscription_allows_wire s (ev_type e) then Inr s
      else case em_kind em of
             Sync_emitter \<Rightarrow>
               Inr (if em_has_writer em then s\<lparr>ss_wire := ss_wire s @ [event_to_dict e]\<rparr> else s)
           | Async_emitter \<Rightarrow> enqueue_wire_line (event_to_dict e) s)"

text \<open>\<open>_write\<close> without the store: the wire, the observer, and the last event id.\<close>

definition write_unstored ::
    "envelope \<Rightarrow> emitter \<times> session \<Rightarrow> pyerror + emitter \<times> session" where
  "write_unstored e0 st =
     (let (em, s0) = st; e = with_trace em e0; s = s0\<lparr>ss_log := ss_log s0 @ [e]\<rparr>
      in case wire_step em e s of
           Inl err \<Rightarrow> Inl err
         | Inr s1 \<Rightarrow> Inr (em\<lparr>em_last_event := Some (ev_id e)\<rparr>,
                         s1\<lparr>ss_observed := ss_observed s1 @ [e]\<rparr>))"

definition build_event ::
    "mint \<Rightarrow> string \<Rightarrow> pyval pydict \<Rightarrow> string option \<Rightarrow> emitter \<times> session \<Rightarrow> envelope \<times> session"
    where
  "build_event mint typ data parent st =
     (let (em, s) = st; (n, s1) = seq_next s; (i, t) = mint (ss_minted s1)
      in (\<lparr>ev_id = i, ev_ts = t, ev_session = em_session em, ev_thread = em_thread em,
           ev_seq = n, ev_parent = parent, ev_trace = None, ev_type = typ, ev_data = data\<rparr>,
          s1\<lparr>ss_minted := ss_minted s1 + 1\<rparr>))"

definition drop_notice :: "pyval pydict" where
  "drop_notice =
     [(''severity'', PyStr ''transient''),
      (''message'', PyStr ''EventStore append dropped (inflight cap); reconnect replay may be incomplete.''),
      (''stage'', PyStr ''store.append.dropped''), (''retryable'', PyBool False)]"

text \<open>At most one notice per second; it is not stored itself.\<close>

definition emit_store_append_dropped ::
    "mint \<Rightarrow> emitter \<times> session \<Rightarrow> pyerror + emitter \<times> session" where
  "emit_store_append_dropped mint st =
     (let (em, s) = st
      in if ss_clock s - em_last_drop_warn em < 1 then Inr st
         else let em1 = em\<lparr>em_last_drop_warn := ss_clock s\<rparr>;
                  (e, s1) = build_event mint ''error.transient'' drop_notice None (em1, s)
              in write_unstored e (em1, s1))"

definition schedule_store_append ::
    "mint \<Rightarrow> envelope \<Rightarrow> emitter \<times> session \<Rightarrow> pyerror + emitter \<times> session" where
  "schedule_store_append mint e st =
     (let (em, s) = st
      in if \<not> em_has_store em then Inr st
         else case inflight_try_acquire s of
                (False, s1) \<Rightarrow> emit_store_append_dropped mint (em, s1)
              | (True, s1) \<Rightarrow>
                  if \<not> ss_loop s1 then Inr (em, inflight_release s1)
                  else Inr (em, s1\<lparr>ss_scheduled := ss_scheduled s1 @ [e]\<rparr>))"

definition write_event ::
    "mint \<Rightarrow> bool \<Rightarrow> envelope \<Rightarrow> emitter \<times> session \<Rightarrow> pyerror + emitter \<times> session" where
  "write_event mint persist e0 st =
     (let e = with_trace (fst st) e0
      in case write_unstored e0 st of
           Inl err \<Rightarrow> Inl err
         | Inr (em1, s1) \<Rightarrow>
             if \<not> (em_has_store em1 \<and> persist) then Inr (em1, s1)
             else (case schedule_store_append mint e (em1\<lparr>em_last_event := em_last_event (fst st)\<rparr>, s1) of
                     Inl err \<Rightarrow> Inl err
                   | Inr (em2, s2) \<Rightarrow> Inr (em2\<lparr>em_last_event := Some (ev_id e)\<rparr>, s2)))"

definition emit_event ::
    "mint \<Rightarrow> string \<Rightarrow> pyval pydict \<Rightarrow> string option \<Rightarrow> bool \<Rightarrow> emitter \<times> session
       \<Rightarrow> pyerror + envelope \<times> emitter \<times> session" where
  "emit_event mint typ data parent persist st =
     (let (e, s1) = build_event mint typ data parent st
      in case write_event mint persist e (fst st, s1) of
           Inl err \<Rightarrow> Inl err
         | Inr st' \<Rightarrow> Inr (e, st'))"

section \<open>Lifecycle\<close>

text \<open>\<open>caps\<close> is \<open>capabilities_override\<close>.\<close>

definition opened_data :: "string \<Rightarrow> string list option \<Rightarrow> pyval pydict" where
  "opened_data version caps =
     [(''runtime_version'', PyStr version), (''protocol_version'', PyStr ''1'')]
     @ (case caps of None \<Rightarrow> [] | Some cs \<Rightarrow> [(''capabilities_override'', PyList (map PyStr cs))])"

text \<open>A first \<open>open\<close> mints a trace id; a repeated one returns the event it kept.\<close>

definition open_session ::
    "mint \<Rightarrow> string \<Rightarrow> string list option \<Rightarrow> emitter \<times> session
       \<Rightarrow> pyerror + envelope \<times> emitter \<times> session" where
  "open_session mint version caps st =
     (let (em, s) = st;
          fresh =
            (let trace = ''tr_'' @ fst (mint (ss_minted s));
                 em1 = em\<lparr>em_opened := True, em_trace := Some trace\<rparr>;
                 (e0, s1) = build_event mint ''session.opened'' (opened_data version caps) None
                              (em1, s\<lparr>ss_minted := ss_minted s + 1\<rparr>);
                 e = e0\<lparr>ev_trace := Some trace\<rparr>
             in case write_event mint True e (em1, s1) of
                  Inl err \<Rightarrow> Inl err
                | Inr (em2, s2) \<Rightarrow> Inr (e, em2\<lparr>em_last_open := Attr (Some e)\<rparr>, s2))
      in if \<not> em_opened em then fresh
         else case em_last_open em of
                Unset \<Rightarrow> Inl (AttributeError ''_last_open'')
              | Attr (Some e) \<Rightarrow> Inr (e, em, s)
              | Attr None \<Rightarrow> fresh)"

datatype close_reason = Completed | User_aborted | Error_reason | Shutdown

fun close_reason_str :: "close_reason \<Rightarrow> string" where
  "close_reason_str Completed = ''completed''"
| "close_reason_str User_aborted = ''user_aborted''"
| "close_reason_str Error_reason = ''error''"
| "close_reason_str Shutdown = ''shutdown''"

definition close_data :: "close_reason \<Rightarrow> int option \<Rightarrow> string option \<Rightarrow> pyval pydict" where
  "close_data reason duration_ms err =
     [(''reason'', PyStr (close_reason_str reason))]
     @ (case duration_ms of None \<Rightarrow> [] | Some d \<Rightarrow> [(''duration_ms'', PyInt d)])
     @ opt_field ''error'' err"

definition close_session ::
    "mint \<Rightarrow> close_reason \<Rightarrow> int option \<Rightarrow> string option \<Rightarrow> emitter \<times> session
       \<Rightarrow> pyerror + envelope option \<times> emitter \<times> session" where
  "close_session mint reason duration_ms err st =
     (let (em, s) = st
      in if em_closed em then Inr (None, st)
         else let em1 = em\<lparr>em_closed := True\<rparr>
              in if em_invocation_only em then Inr (None, em1, s)
                 else (let (e, s1) = build_event mint ''session.closed''
                                       (close_data reason duration_ms err) None (em1, s)
                       in case write_event mint True e (em1, s1) of
                            Inl er \<Rightarrow> Inl er
                          | Inr (em2, s2) \<Rightarrow> Inr (Some e, em2, s2)))"

definition resumed_data :: "string \<Rightarrow> string list option \<Rightarrow> string option \<Rightarrow> int option \<Rightarrow> pyval pydict" where
  "resumed_data version caps from_thread from_seq =
     opened_data version caps @ opt_field ''resumed_from_thread'' from_thread
     @ (case from_seq of None \<Rightarrow> [] | Some n \<Rightarrow> [(''replayed_from_seq'', PyInt n)])"

definition resume_session ::
    "mint \<Rightarrow> string \<Rightarrow> string list option \<Rightarrow> string option \<Rightarrow> int option \<Rightarrow> emitter \<times> session
       \<Rightarrow> pyerror + envelope \<times> emitter \<times> session" where
  "resume_session mint version caps from_thread from_seq st =
     (let (em, s) = st;
          fresh =
            (let (trace, s0) =
                   (case em_trace em of
                      Some t \<Rightarrow> (t, s)
                    | None \<Rightarrow> (''tr_'' @ fst (mint (ss_minted s)), s\<lparr>ss_minted := ss_minted s + 1\<rparr>));
                 em1 = em\<lparr>em_opened := True, em_trace := Some trace\<rparr>;
                 (e, s1) = build_event mint ''session.resumed''
                             (resumed_data version caps from_thread from_seq) None (em1, s0)
             in case write_event mint True e (em1, s1) of
                  Inl err \<Rightarrow> Inl err
                | Inr (em2, s2) \<Rightarrow> Inr (e, em2\<lparr>em_last_resume := Attr (Some e)\<rparr>, s2))
      in if \<not> em_opened em then fresh
         else case em_last_resume em of
                Unset \<Rightarrow> Inl (AttributeError ''_last_resume'')
              | Attr (Some e) \<Rightarrow> Inr (e, em, s)
              | Attr None \<Rightarrow> fresh)"

definition is_open :: "emitter \<Rightarrow> bool" where
  "is_open em \<longleftrightarrow> em_opened em \<and> \<not> em_closed em"

text \<open>
  A fork starts open and inherits the kept events; only the synchronous one is
  invocation-only. Reading an attribute that \<open>for_callback_only\<close> left unset raises.
\<close>

definition fork_for_thread :: "string \<Rightarrow> emitter \<Rightarrow> pyerror + emitter" where
  "fork_for_thread thread em =
     (if \<not> em_inflight_set em then Inl (AttributeError ''_store_append_inflight'')
      else let child = emitter_init (em_kind em) (em_session em) thread (em_has_store em)
                         (em_kind em = Sync_emitter)
           in case (em_last_open em, em_last_resume em) of
                (Unset, _) \<Rightarrow> Inl (AttributeError ''_last_open'')
              | (_, Unset) \<Rightarrow> Inl (AttributeError ''_last_resume'')
              | (lo, lr) \<Rightarrow> Inr (child\<lparr>em_opened := True, em_last_open := lo, em_last_resume := lr\<rparr>))"

text \<open>\<open>write_replay_dict\<close>: a stored event goes to the wire through the filter only.\<close>

definition write_replay_dict :: "event \<Rightarrow> emitter \<times> session \<Rightarrow> pyerror + session" where
  "write_replay_dict d st =
     (let (em, s) = st;
          typ = (case map_of d ''type'' of Some (PyStr t) \<Rightarrow> t | _ \<Rightarrow> [])
      in if \<not> subscription_allows_wire s typ then Inr s
         else case em_kind em of
                Sync_emitter \<Rightarrow> Inr (if em_has_writer em then s\<lparr>ss_wire := ss_wire s @ [d]\<rparr> else s)
              | Async_emitter \<Rightarrow> enqueue_wire_line d s)"

text \<open>One turn of the asynchronous drain task: the oldest line reaches the writer.\<close>

definition drain_one :: "session \<Rightarrow> session" where
  "drain_one s =
     (case ss_queue s of [] \<Rightarrow> s | l # q \<Rightarrow> s\<lparr>ss_queue := q, ss_wire := ss_wire s @ [l]\<rparr>)"

section \<open>A session and its emitters\<close>

datatype session_op =
    Op_open nat "string list option"
  | Op_resume nat "string list option" "string option" "int option"
  | Op_close nat close_reason "int option" "string option"
  | Op_emit nat string "pyval pydict" "string option" bool
  | Op_fork nat string
  | Op_filter "string list option"
  | Op_append_done
  | Op_tick rat
  | Op_loop bool

type_synonym sys = "emitter list \<times> session"

definition put_emitter :: "nat \<Rightarrow> emitter \<times> session \<Rightarrow> sys \<Rightarrow> sys" where
  "put_emitter i st sy = ((fst sy)[i := fst st], snd st)"

text \<open>
  Systems of synchronous emitters, the root and its forks. None of these operations raises
  there (\<open>sys_step\<close> would keep the system as it is).
\<close>

definition settle :: "nat \<Rightarrow> sys \<Rightarrow> pyerror + emitter \<times> session \<Rightarrow> sys" where
  "settle i sy r = (case r of Inl _ \<Rightarrow> sy | Inr st \<Rightarrow> put_emitter i st sy)"

fun sys_step :: "mint \<Rightarrow> string \<Rightarrow> session_op \<Rightarrow> sys \<Rightarrow> sys" where
  "sys_step mint version (Op_open i c) (ems, s) =
     (if i < length ems
      then settle i (ems, s) (map_sum id snd (open_session mint version c (ems ! i, s))) else (ems, s))"
| "sys_step mint version (Op_resume i c t n) (ems, s) =
     (if i < length ems
      then settle i (ems, s) (map_sum id snd (resume_session mint version c t n (ems ! i, s)))
      else (ems, s))"
| "sys_step mint version (Op_close i r d er) (ems, s) =
     (if i < length ems
      then settle i (ems, s) (map_sum id snd (close_session mint r d er (ems ! i, s))) else (ems, s))"
| "sys_step mint version (Op_emit i typ data parent persist) (ems, s) =
     (if i < length ems
      then settle i (ems, s) (map_sum id snd (emit_event mint typ data parent persist (ems ! i, s)))
      else (ems, s))"
| "sys_step mint version (Op_fork i t) (ems, s) =
     (if i < length ems
      then (case fork_for_thread t (ems ! i) of Inl _ \<Rightarrow> (ems, s) | Inr em \<Rightarrow> (ems @ [em], s))
      else (ems, s))"
| "sys_step mint version (Op_filter p) (ems, s) = (ems, set_subscription_prefixes p s)"
| "sys_step mint version Op_append_done (ems, s) = (ems, inflight_release s)"
| "sys_step mint version (Op_tick d) (ems, s) = (ems, s\<lparr>ss_clock := ss_clock s + max 0 d\<rparr>)"
| "sys_step mint version (Op_loop b) (ems, s) = (ems, s\<lparr>ss_loop := b\<rparr>)"

definition sys_init :: "string \<Rightarrow> string \<Rightarrow> bool \<Rightarrow> sys" where
  "sys_init sid thread has_store =
     ([emitter_init Sync_emitter sid thread has_store False], session_init 0)"

definition sys_run :: "mint \<Rightarrow> string \<Rightarrow> session_op list \<Rightarrow> sys \<Rightarrow> sys" where
  "sys_run mint version ops sy = fold (sys_step mint version) ops sy"

section \<open>What an emission does\<close>

text \<open>The fields of an emitter that writing an event leaves alone.\<close>

definition same_emitter :: "emitter \<Rightarrow> emitter \<Rightarrow> bool" where
  "same_emitter em em' \<longleftrightarrow>
     em_kind em' = em_kind em \<and> em_session em' = em_session em \<and> em_thread em' = em_thread em
     \<and> em_invocation_only em' = em_invocation_only em \<and> em_has_writer em' = em_has_writer em
     \<and> em_has_store em' = em_has_store em \<and> em_opened em' = em_opened em
     \<and> em_closed em' = em_closed em \<and> em_last_open em' = em_last_open em
     \<and> em_last_resume em' = em_last_resume em \<and> em_inflight_set em' = em_inflight_set em
     \<and> em_trace em' = em_trace em"

text \<open>\<open>delivered em s es s'\<close>: from \<open>s\<close> to \<open>s'\<close> the emitter passed the events \<open>es\<close> on.\<close>

definition delivered :: "emitter \<Rightarrow> session \<Rightarrow> envelope list \<Rightarrow> session \<Rightarrow> bool" where
  "delivered em s es s' \<longleftrightarrow>
     ss_log s' = ss_log s @ es \<and> ss_observed s' = ss_observed s @ es
     \<and> ss_wire s' = ss_wire s @ (if em_has_writer em
          then map event_to_dict (filter (\<lambda>e. subscription_allows_wire s (ev_type e)) es) else [])
     \<and> (\<exists>fs. subseq fs es \<and> ss_scheduled s' = ss_scheduled s @ fs)
     \<and> ss_prefixes s' = ss_prefixes s \<and> ss_queue s' = ss_queue s
     \<and> (0 \<le> ss_inflight s \<and> ss_inflight s \<le> max_store_append_inflight \<longrightarrow>
          0 \<le> ss_inflight s' \<and> ss_inflight s' \<le> max_store_append_inflight)"

lemma same_emitter_refl [simp]: "same_emitter em em"
  by (simp add: same_emitter_def)

lemma same_emitter_trans: "same_emitter a b \<Longrightarrow> same_emitter b c \<Longrightarrow> same_emitter a c"
  by (simp add: same_emitter_def)

lemma with_trace_fields [simp]:
  "ev_seq (with_trace em e) = ev_seq e" "ev_type (with_trace em e) = ev_type e"
  "ev_session (with_trace em e) = ev_session e" "ev_id (with_trace em e) = ev_id e"
  "ev_data (with_trace em e) = ev_data e"
  by (simp_all add: with_trace_def)

lemma allows_wire_cong:
  "ss_prefixes s = ss_prefixes s' \<Longrightarrow> subscription_allows_wire s = subscription_allows_wire s'"
  by (simp add: subscription_allows_wire_def fun_eq_iff)

lemma write_unstored_sync:
  assumes "em_kind em = Sync_emitter"
  shows "\<exists>s'. write_unstored e (em, s) = Inr (em\<lparr>em_last_event := Some (ev_id e)\<rparr>, s')
    \<and> delivered em s [with_trace em e] s' \<and> ss_seq s' = ss_seq s
    \<and> ss_scheduled s' = ss_scheduled s \<and> ss_inflight s' = ss_inflight s
    \<and> ss_clock s' = ss_clock s \<and> ss_loop s' = ss_loop s"
  using assms
  by (auto simp: write_unstored_def wire_step_def Let_def delivered_def subscription_allows_wire_def
      split: option.split)

lemma build_event_props:
  assumes "build_event mint typ data parent (em, s) = (e, s1)"
  shows "ev_seq e = ss_seq s + 1 \<and> ev_type e = typ \<and> ev_session e = em_session em
    \<and> ss_seq s1 = ss_seq s + 1 \<and> ss_log s1 = ss_log s \<and> ss_observed s1 = ss_observed s
    \<and> ss_wire s1 = ss_wire s \<and> ss_scheduled s1 = ss_scheduled s \<and> ss_prefixes s1 = ss_prefixes s
    \<and> ss_inflight s1 = ss_inflight s \<and> ss_clock s1 = ss_clock s \<and> ss_queue s1 = ss_queue s
    \<and> ss_loop s1 = ss_loop s"
  using assms by (auto simp: build_event_def seq_next_def Let_def split: prod.splits)

lemma delivered_trans:
  assumes "delivered em s es s1" and "delivered em' s1 fs s2" and "em_has_writer em' = em_has_writer em"
  shows "delivered em s (es @ fs) s2"
proof -
  have pre: "subscription_allows_wire s1 = subscription_allows_wire s"
    using assms(1) by (intro allows_wire_cong) (simp add: delivered_def)
  obtain gs where "subseq gs es" "ss_scheduled s1 = ss_scheduled s @ gs"
    using assms(1) unfolding delivered_def by blast
  moreover obtain hs where "subseq hs fs" "ss_scheduled s2 = ss_scheduled s1 @ hs"
    using assms(2) unfolding delivered_def by blast
  ultimately have "subseq (gs @ hs) (es @ fs)" "ss_scheduled s2 = ss_scheduled s @ gs @ hs"
    by (auto intro: list_emb_append_mono)
  then show ?thesis
    using assms pre unfolding delivered_def by (intro conjI) auto
qed

text \<open>
  The notice about a dropped append: nothing, or one more event with the next number.
\<close>

lemma drop_notice_step:
  assumes "em_kind em = Sync_emitter"
  shows "\<exists>em' s' es. emit_store_append_dropped mint (em, s) = Inr (em', s') \<and> same_emitter em em'
    \<and> delivered em s es s' \<and> map ev_seq es = [ss_seq s + 1..ss_seq s'] \<and> ss_seq s \<le> ss_seq s'
    \<and> (\<forall>e\<in>set es. ev_type e = ''error.transient'' \<and> ev_session e = em_session em)"
proof (cases "ss_clock s - em_last_drop_warn em < 1")
  case True
  then show ?thesis
    by (intro exI [of _ em] exI [of _ s] exI [of _ "[]"])
       (simp add: emit_store_append_dropped_def delivered_def)
next
  case False
  let ?em1 = "em\<lparr>em_last_drop_warn := ss_clock s\<rparr>"
  obtain e s1 where b: "build_event mint ''error.transient'' drop_notice None (?em1, s) = (e, s1)"
    by fastforce
  note bp = build_event_props [OF b]
  obtain s2 where w: "write_unstored e (?em1, s1) = Inr (?em1\<lparr>em_last_event := Some (ev_id e)\<rparr>, s2)"
      "delivered ?em1 s1 [with_trace ?em1 e] s2" "ss_seq s2 = ss_seq s1"
    using write_unstored_sync [of ?em1 e s1] assms by auto
  have "emit_store_append_dropped mint (em, s) = Inr (?em1\<lparr>em_last_event := Some (ev_id e)\<rparr>, s2)"
    using False b w(1) by (simp add: emit_store_append_dropped_def Let_def)
  moreover have "delivered em s [with_trace ?em1 e] s2"
    using w(2) bp by (auto simp: delivered_def subscription_allows_wire_def)
  ultimately show ?thesis
    using bp w(3)
    by (intro exI [of _ "?em1\<lparr>em_last_event := Some (ev_id e)\<rparr>"] exI [of _ s2]
        exI [of _ "[with_trace ?em1 e]"]) (simp add: same_emitter_def)
qed

text \<open>Storing an event that was just logged as the last one.\<close>

lemma schedule_step:
  assumes "em_kind em = Sync_emitter" and "ss_seq s = n"
  shows "\<exists>em' s' es. schedule_store_append mint e (em, s) = Inr (em', s') \<and> same_emitter em em'
    \<and> map ev_seq es = [n + 1..ss_seq s'] \<and> n \<le> ss_seq s'
    \<and> (\<forall>e\<in>set es. ev_type e = ''error.transient'' \<and> ev_session e = em_session em)
    \<and> (delivered em s es s' \<or> es = [] \<and> ss_scheduled s' = ss_scheduled s @ [e]
         \<and> ss_log s' = ss_log s \<and> ss_observed s' = ss_observed s \<and> ss_wire s' = ss_wire s
         \<and> ss_prefixes s' = ss_prefixes s \<and> ss_queue s' = ss_queue s
         \<and> ss_inflight s' = ss_inflight s + 1 \<and> ss_inflight s < max_store_append_inflight)"
proof -
  have idle: ?thesis if "schedule_store_append mint e (em, s) = Inr (em, s1)"
    and "delivered em s [] s1" and "ss_seq s1 = n" for s1
    using that by (intro exI [of _ em] exI [of _ s1] exI [of _ "[]"]) simp
  show ?thesis
  proof (cases "em_has_store em")
    case False
    then show ?thesis
      using assms(2) by (intro idle [of s]) (simp_all add: schedule_store_append_def delivered_def)
  next
    case store: True
    show ?thesis
    proof (cases "max_store_append_inflight \<le> ss_inflight s")
      case True
      then have "schedule_store_append mint e (em, s) = emit_store_append_dropped mint (em, s)"
        using store by (simp add: schedule_store_append_def inflight_try_acquire_def)
      then show ?thesis using drop_notice_step [OF assms(1), of mint s] assms(2) by metis
    next
      case room: False
      show ?thesis
      proof (cases "ss_loop s")
        case True
        then have "schedule_store_append mint e (em, s)
            = Inr (em, s\<lparr>ss_inflight := ss_inflight s + 1, ss_scheduled := ss_scheduled s @ [e]\<rparr>)"
          using store room by (simp add: schedule_store_append_def inflight_try_acquire_def)
        then show ?thesis
          using room assms(2)
          by (intro exI [of _ em] exI [of _ "s\<lparr>ss_inflight := ss_inflight s + 1,
                ss_scheduled := ss_scheduled s @ [e]\<rparr>"] exI [of _ "[]"]) simp
      next
        case False
        then have "schedule_store_append mint e (em, s)
            = Inr (em, inflight_release (s\<lparr>ss_inflight := ss_inflight s + 1\<rparr>))"
          using store room by (simp add: schedule_store_append_def inflight_try_acquire_def)
        then show ?thesis
          using assms(2) room
          by (intro idle [of "inflight_release (s\<lparr>ss_inflight := ss_inflight s + 1\<rparr>)"])
             (auto simp: delivered_def inflight_release_def)
      qed
    qed
  qed
qed

lemma upto_Cons: "i \<le> j \<Longrightarrow> [i..j] = i # [i + 1..j]"
  by (simp add: upto_rec1)

lemma write_event_step:
  assumes "em_kind em = Sync_emitter" and "ss_seq s = ev_seq e0"
  shows "\<exists>em' s' es. write_event mint persist e0 (em, s) = Inr (em', s') \<and> same_emitter em em'
    \<and> delivered em s (with_trace em e0 # es) s'
    \<and> map ev_seq es = [ev_seq e0 + 1..ss_seq s'] \<and> ev_seq e0 \<le> ss_seq s'
    \<and> (\<forall>e\<in>set es. ev_type e = ''error.transient'' \<and> ev_session e = em_session em)"
proof -
  let ?e = "with_trace em e0"
  obtain s1 where w: "write_unstored e0 (em, s) = Inr (em\<lparr>em_last_event := Some (ev_id e0)\<rparr>, s1)"
    and d: "delivered em s [?e] s1" and sq: "ss_seq s1 = ss_seq s"
    and sch: "ss_scheduled s1 = ss_scheduled s" "ss_inflight s1 = ss_inflight s"
    using write_unstored_sync [OF assms(1), of e0 s] by blast
  let ?em1 = "em\<lparr>em_last_event := Some (ev_id e0)\<rparr>"
  show ?thesis
  proof (cases "em_has_store em \<and> persist")
    case False
    then have "write_event mint persist e0 (em, s) = Inr (?em1, s1)"
      using w by (auto simp: write_event_def Let_def)
    then show ?thesis
      using d sq assms(2)
      by (intro exI [of _ ?em1] exI [of _ s1] exI [of _ "[]"]) (simp add: same_emitter_def)
  next
    case True
    have emeq: "?em1\<lparr>em_last_event := em_last_event em\<rparr> = em" by simp
    obtain em2 s2 es where sc: "schedule_store_append mint ?e (em, s1) = Inr (em2, s2)"
      and same: "same_emitter em em2" and es: "map ev_seq es = [ev_seq e0 + 1..ss_seq s2]"
      and le: "ev_seq e0 \<le> ss_seq s2"
      and notices: "\<forall>e\<in>set es. ev_type e = ''error.transient'' \<and> ev_session e = em_session em"
      and dd: "delivered em s1 es s2 \<or> es = [] \<and> ss_scheduled s2 = ss_scheduled s1 @ [?e]
         \<and> ss_log s2 = ss_log s1 \<and> ss_observed s2 = ss_observed s1 \<and> ss_wire s2 = ss_wire s1
         \<and> ss_prefixes s2 = ss_prefixes s1 \<and> ss_queue s2 = ss_queue s1
         \<and> ss_inflight s2 = ss_inflight s1 + 1 \<and> ss_inflight s1 < max_store_append_inflight"
      using schedule_step [OF assms(1), of s1 "ev_seq e0" mint ?e] sq assms(2) by auto
    have run: "write_event mint persist e0 (em, s) = Inr (em2\<lparr>em_last_event := Some (ev_id e0)\<rparr>, s2)"
      using w True sc emeq by (simp add: write_event_def Let_def)
    have "delivered em s (?e # es) s2"
    proof (rule disjE [OF dd])
      assume "delivered em s1 es s2"
      then show ?thesis using delivered_trans [OF d, of em es s2] by simp
    next
      assume "es = [] \<and> ss_scheduled s2 = ss_scheduled s1 @ [?e]
         \<and> ss_log s2 = ss_log s1 \<and> ss_observed s2 = ss_observed s1 \<and> ss_wire s2 = ss_wire s1
         \<and> ss_prefixes s2 = ss_prefixes s1 \<and> ss_queue s2 = ss_queue s1
         \<and> ss_inflight s2 = ss_inflight s1 + 1 \<and> ss_inflight s1 < max_store_append_inflight"
      then show ?thesis using d sch
        by (auto simp: delivered_def max_store_append_inflight_def intro: exI [of _ "[?e]"])
    qed
    then show ?thesis
      using run same es le notices
      by (intro exI [of _ "em2\<lparr>em_last_event := Some (ev_id e0)\<rparr>"] exI [of _ s2] exI [of _ es])
         (simp add: same_emitter_def)
  qed
qed

text \<open>\<open>emitted em typ s s'\<close>: one event of type \<open>typ\<close>, then at most a drop notice.\<close>

definition emitted :: "emitter \<Rightarrow> string \<Rightarrow> session \<Rightarrow> session \<Rightarrow> bool" where
  "emitted em typ s s' \<longleftrightarrow>
     (\<exists>e es. delivered em s (e # es) s' \<and> ev_type e = typ
        \<and> map ev_seq (e # es) = [ss_seq s + 1..ss_seq s'] \<and> ss_seq s < ss_seq s'
        \<and> (\<forall>e\<in>set es. ev_type e = ''error.transient'')
        \<and> (\<forall>e\<in>set (e # es). ev_session e = em_session em))"

lemma emit_steps:
  assumes "em_kind em = Sync_emitter" and "build_event mint typ data parent (em, s) = (e, s1)"
    and "ev_seq e' = ev_seq e" "ev_type e' = ev_type e" "ev_session e' = ev_session e"
  shows "\<exists>em' s'. write_event mint persist e' (em, s1) = Inr (em', s') \<and> same_emitter em em'
    \<and> emitted em typ s s'"
proof -
  note bp = build_event_props [OF assms(2)]
  obtain em' s' es where w: "write_event mint persist e' (em, s1) = Inr (em', s')" "same_emitter em em'"
    "delivered em s1 (with_trace em e' # es) s'"
    "map ev_seq es = [ev_seq e' + 1..ss_seq s']" "ev_seq e' \<le> ss_seq s'"
    "\<forall>e\<in>set es. ev_type e = ''error.transient'' \<and> ev_session e = em_session em"
    using write_event_step [OF assms(1), of s1 e' mint persist] bp assms(3) by auto
  have "delivered em s (with_trace em e' # es) s'"
    using w(3) bp by (auto simp: delivered_def subscription_allows_wire_def)
  then have "emitted em typ s s'"
    unfolding emitted_def using w(4-6) bp assms(3-5) upto_Cons [of "ss_seq s + 1" "ss_seq s'"]
    by (intro exI [of _ "with_trace em e'"] exI [of _ es]) auto
  then show ?thesis using w by blast
qed

section \<open>Sessions of synchronous emitters\<close>

lemma same_emitter_kind: "same_emitter em em' \<Longrightarrow> em_kind em' = em_kind em"
  by (simp add: same_emitter_def)

text \<open>An emitter as \<open>__init__\<close> or \<open>fork_for_thread\<close> leaves it.\<close>

definition whole :: "string \<Rightarrow> emitter \<Rightarrow> bool" where
  "whole sid em \<longleftrightarrow> em_kind em = Sync_emitter \<and> em_session em = sid \<and> em_inflight_set em
     \<and> em_last_open em \<noteq> Unset \<and> em_last_resume em \<noteq> Unset"

text \<open>A step of one emitter: nothing on the session, or one event of the given type.\<close>

definition emitter_step :: "string \<Rightarrow> emitter \<times> session \<Rightarrow> emitter \<times> session \<Rightarrow> bool" where
  "emitter_step typ st st' \<longleftrightarrow>
     (snd st' = snd st \<or> emitted (fst st) typ (snd st) (snd st'))
     \<and> whole (em_session (fst st)) (fst st')
     \<and> em_invocation_only (fst st') = em_invocation_only (fst st)"

lemma emitted_other_fields:
  "emitted em typ s s' \<Longrightarrow> same_emitter em em1 \<Longrightarrow> emitted em1 typ s s'"
  by (auto simp: emitted_def delivered_def same_emitter_def)

lemma emit_event_step:
  assumes "whole sid em"
  shows "\<exists>r em' s'. emit_event mint typ data parent persist (em, s) = Inr (r, em', s')
    \<and> emitter_step typ (em, s) (em', s') \<and> em_closed em' = em_closed em"
proof -
  obtain e s1 where b: "build_event mint typ data parent (em, s) = (e, s1)" by fastforce
  have kind: "em_kind em = Sync_emitter" using assms by (simp add: whole_def)
  obtain em' s' where "write_event mint persist e (em, s1) = Inr (em', s')" "same_emitter em em'"
    "emitted em typ s s'"
    using emit_steps [OF kind b refl refl refl] by blast
  then show ?thesis
    using b assms
    by (auto simp: emit_event_def emitter_step_def whole_def same_emitter_def)
qed

lemma emitted_minted: "emitted em typ (s\<lparr>ss_minted := n\<rparr>) s' = emitted em typ s s'"
  by (simp add: emitted_def delivered_def subscription_allows_wire_def)

lemma emitted_flags:
  "emitted (em\<lparr>em_opened := a, em_trace := t\<rparr>) typ s s' = emitted em typ s s'"
  "emitted (em\<lparr>em_closed := c\<rparr>) typ s s' = emitted em typ s s'"
  by (simp_all add: emitted_def delivered_def)

lemma open_step:
  assumes "whole sid em"
  shows "\<exists>r em' s'. open_session mint version c (em, s) = Inr (r, em', s')
    \<and> emitter_step ''session.opened'' (em, s) (em', s') \<and> em_closed em' = em_closed em"
proof -
  let ?trace = "''tr_'' @ fst (mint (ss_minted s))"
  let ?em1 = "em\<lparr>em_opened := True, em_trace := Some ?trace\<rparr>"
  have kind: "em_kind ?em1 = Sync_emitter" using assms by (simp add: whole_def)
  let ?s0 = "s\<lparr>ss_minted := ss_minted s + 1\<rparr>"
  obtain e s1 where b: "build_event mint ''session.opened'' (opened_data version c) None (?em1, ?s0) = (e, s1)"
    by fastforce
  let ?e = "e\<lparr>ev_trace := Some ?trace\<rparr>"
  obtain em2 s2 where w: "write_event mint True ?e (?em1, s1) = Inr (em2, s2)"
      "same_emitter ?em1 em2" "emitted ?em1 ''session.opened'' ?s0 s2"
    using emit_steps [OF kind b, where e' = ?e and persist = True] by auto
  have fresh: ?thesis if "open_session mint version c (em, s)
      = Inr (?e, em2\<lparr>em_last_open := Attr (Some ?e)\<rparr>, s2)"
    using that w assms
    by (auto simp: emitter_step_def whole_def same_emitter_def emitted_minted emitted_flags)
  show ?thesis
  proof (cases "em_opened em \<and> em_last_open em \<noteq> Attr None")
    case True
    then obtain e' where "em_last_open em = Attr (Some e')"
      using assms by (cases "em_last_open em") (auto simp: whole_def)
    then show ?thesis
      using True assms by (auto simp: open_session_def Let_def emitter_step_def whole_def)
  next
    case False
    then show ?thesis using b w(1) by (intro fresh) (auto simp: open_session_def Let_def)
  qed
qed

lemma resume_step:
  assumes "whole sid em"
  shows "\<exists>r em' s'. resume_session mint version c t n (em, s) = Inr (r, em', s')
    \<and> emitter_step ''session.resumed'' (em, s) (em', s') \<and> em_closed em' = em_closed em"
proof -
  obtain trace s0 where ts: "(case em_trace em of
        Some t \<Rightarrow> (t, s)
      | None \<Rightarrow> (''tr_'' @ fst (mint (ss_minted s)), s\<lparr>ss_minted := ss_minted s + 1\<rparr>)) = (trace, s0)"
    by fastforce
  let ?em1 = "em\<lparr>em_opened := True, em_trace := Some trace\<rparr>"
  have kind: "em_kind ?em1 = Sync_emitter" using assms by (simp add: whole_def)
  obtain e s1 where b: "build_event mint ''session.resumed'' (resumed_data version c t n) None (?em1, s0)
      = (e, s1)" by fastforce
  obtain em2 s2 where w: "write_event mint True e (?em1, s1) = Inr (em2, s2)"
      "same_emitter ?em1 em2" "emitted ?em1 ''session.resumed'' s0 s2"
    using emit_steps [OF kind b refl refl refl] by blast
  have em0: "emitted em ''session.resumed'' s s2"
    using w(3) ts by (auto simp: emitted_minted emitted_flags split: option.splits)
  have fresh: ?thesis if "resume_session mint version c t n (em, s)
      = Inr (e, em2\<lparr>em_last_resume := Attr (Some e)\<rparr>, s2)"
    using that w em0 assms by (auto simp: emitter_step_def whole_def same_emitter_def)
  show ?thesis
  proof (cases "em_opened em \<and> em_last_resume em \<noteq> Attr None")
    case True
    then obtain e' where "em_last_resume em = Attr (Some e')"
      using assms by (cases "em_last_resume em") (auto simp: whole_def)
    then show ?thesis
      using True assms by (auto simp: resume_session_def Let_def emitter_step_def whole_def
          split: prod.splits)
  next
    case False
    then show ?thesis using b w(1) ts
      by (intro fresh) (auto simp: resume_session_def Let_def)
  qed
qed

lemma close_step:
  assumes "whole sid em"
  shows "\<exists>r em' s'. close_session mint reason d er (em, s) = Inr (r, em', s')
    \<and> emitter_step ''session.closed'' (em, s) (em', s') \<and> em_closed em'
    \<and> (s' = s \<longleftrightarrow> em_closed em \<or> em_invocation_only em)"
proof (cases "em_closed em \<or> em_invocation_only em")
  case True
  then show ?thesis using assms by (auto simp: close_session_def emitter_step_def whole_def)
next
  case False
  let ?em1 = "em\<lparr>em_closed := True\<rparr>"
  have kind: "em_kind ?em1 = Sync_emitter" using assms by (simp add: whole_def)
  obtain e s1 where b: "build_event mint ''session.closed'' (close_data reason d er) None (?em1, s)
      = (e, s1)" by fastforce
  obtain em2 s2 where w: "write_event mint True e (?em1, s1) = Inr (em2, s2)"
      "same_emitter ?em1 em2" "emitted ?em1 ''session.closed'' s s2"
    using emit_steps [OF kind b refl refl refl] by blast
  have "s2 \<noteq> s" using w(3) by (auto simp: emitted_def)
  then show ?thesis
    using False b w assms
    by (auto simp: close_session_def emitter_step_def whole_def same_emitter_def Let_def emitted_flags)
qed

text \<open>What holds of the shared state at any time.\<close>

definition sess_inv :: "string \<Rightarrow> session \<Rightarrow> bool" where
  "sess_inv sid s \<longleftrightarrow>
     0 \<le> ss_seq s \<and> map ev_seq (ss_log s) = [1..ss_seq s] \<and> ss_observed s = ss_log s
     \<and> subseq (ss_scheduled s) (ss_log s)
     \<and> (\<exists>ws. subseq ws (ss_log s) \<and> ss_wire s = map event_to_dict ws)
     \<and> list_all (\<lambda>e. ev_session e = sid) (ss_log s)
     \<and> 0 \<le> ss_inflight s \<and> ss_inflight s \<le> max_store_append_inflight"

definition count_type :: "string \<Rightarrow> envelope list \<Rightarrow> nat" where
  "count_type typ es = length (filter (\<lambda>e. ev_type e = typ) es)"

lemma emitted_sess_inv:
  assumes "sess_inv sid s" and "emitted em typ s s'" and "em_session em = sid"
  shows "sess_inv sid s'"
proof -
  obtain es where d: "delivered em s es s'" and sq: "map ev_seq es = [ss_seq s + 1..ss_seq s']"
    and le: "ss_seq s < ss_seq s'" and ses: "\<forall>e\<in>set es. ev_session e = sid"
    using assms(2,3) unfolding emitted_def by blast
  have log: "ss_log s' = ss_log s @ es" using d by (simp add: delivered_def)
  have "[1..ss_seq s'] = [1..ss_seq s] @ [ss_seq s + 1..ss_seq s']"
    using upto_split2 [of 1 "ss_seq s" "ss_seq s'"] assms(1) le
    by (cases "ss_seq s = 0") (auto simp: sess_inv_def)
  then have seqs: "map ev_seq (ss_log s') = [1..ss_seq s']"
    using assms(1) sq log by (simp add: sess_inv_def)
  obtain fs where fs: "subseq fs es" "ss_scheduled s' = ss_scheduled s @ fs"
    using d unfolding delivered_def by blast
  then have sched: "subseq (ss_scheduled s') (ss_log s')"
    using assms(1) log by (simp add: sess_inv_def list_emb_append_mono)
  obtain ws where ws: "subseq ws (ss_log s)" "ss_wire s = map event_to_dict ws"
    using assms(1) unfolding sess_inv_def by blast
  let ?w = "if em_has_writer em then filter (\<lambda>e. subscription_allows_wire s (ev_type e)) es else []"
  have "ss_wire s' = map event_to_dict (ws @ ?w)"
    using d ws(2) by (simp add: delivered_def)
  moreover have "subseq (ws @ ?w) (ss_log s')"
    using ws(1) log by (auto intro: list_emb_append_mono subseq_filter_left list_emb_append2)
  ultimately have wire: "\<exists>ws. subseq ws (ss_log s') \<and> ss_wire s' = map event_to_dict ws" by blast
  show ?thesis
    using assms(1) d le seqs sched wire log ses
    unfolding sess_inv_def delivered_def by (auto simp: list_all_iff)
qed

lemma emitted_count:
  assumes "emitted em typ s s'" and "t \<noteq> ''error.transient''"
  shows "count_type t (ss_log s') = count_type t (ss_log s) + of_bool (typ = t)"
proof -
  obtain e es where d: "delivered em s (e # es) s'" and "ev_type e = typ"
    and "\<forall>e\<in>set es. ev_type e = ''error.transient''"
    using assms(1) unfolding emitted_def by blast
  then show ?thesis using assms(2) by (auto simp: delivered_def count_type_def filter_empty_conv)
qed

definition sys_inv :: "string \<Rightarrow> sys \<Rightarrow> bool" where
  "sys_inv sid sy \<longleftrightarrow>
     (let (ems, s) = sy
      in ems \<noteq> [] \<and> list_all (whole sid) ems \<and> \<not> em_invocation_only (ems ! 0)
         \<and> list_all em_invocation_only (tl ems) \<and> sess_inv sid s
         \<and> count_type ''session.closed'' (ss_log s) = of_bool (em_closed (ems ! 0)))"

definition plain_op :: "session_op \<Rightarrow> bool" where
  "plain_op op \<longleftrightarrow> (case op of Op_emit i typ d p b \<Rightarrow> typ \<noteq> ''session.closed'' | _ \<Rightarrow> True)"

text \<open>Putting back an emitter that took one step.\<close>

lemma settle_inv:
  assumes inv: "sys_inv sid (ems, s)" and i: "i < length ems"
    and step: "emitter_step typ (ems ! i, s) (em', s')"
    and closes: "count_type ''session.closed'' (ss_log s')
        = count_type ''session.closed'' (ss_log s) + (of_bool (em_closed em') - of_bool (em_closed (ems ! i)))
          * of_bool (\<not> em_invocation_only (ems ! i))"
    and mono: "em_closed (ems ! i) \<longrightarrow> em_closed em'"
  shows "sys_inv sid (put_emitter i (em', s') (ems, s))"
proof -
  have sid: "em_session (ems ! i) = sid" "whole sid (ems ! i)"
    using inv i by (auto simp: sys_inv_def list_all_length whole_def)
  have w: "whole sid em'" and io: "em_invocation_only em' = em_invocation_only (ems ! i)"
    using step sid by (auto simp: emitter_step_def)
  have si: "sess_inv sid s'"
    using step inv sid emitted_sess_inv by (auto simp: emitter_step_def sys_inv_def)
  show ?thesis
  proof (cases i)
    case 0
    then have "\<not> em_invocation_only (ems ! i)" using inv by (simp add: sys_inv_def)
    then have "count_type ''session.closed'' (ss_log s') = of_bool (em_closed em')"
      using closes inv 0 mono by (auto simp: sys_inv_def)
    then show ?thesis
      using inv w io si 0 by (cases ems) (auto simp: sys_inv_def put_emitter_def)
  next
    case (Suc j)
    then have e: "em_invocation_only (ems ! i)"
      using inv i by (cases ems) (auto simp: sys_inv_def list_all_length)
    then have "count_type ''session.closed'' (ss_log s') = of_bool (em_closed (ems ! 0))"
      using closes inv by (simp add: sys_inv_def)
    moreover have "list_all (whole sid) (ems[i := em'])"
      using inv w by (auto simp: sys_inv_def list_all_iff dest!: set_update_subset_insert [THEN subsetD])
    moreover have "list_all em_invocation_only (tl (ems[i := em']))"
      using inv e io Suc by (cases ems)
        (auto simp: sys_inv_def list_all_iff dest!: set_update_subset_insert [THEN subsetD])
    ultimately show ?thesis
      using inv si Suc by (cases ems) (auto simp: sys_inv_def put_emitter_def)
  qed
qed

lemma emitter_step_count:
  assumes "emitter_step typ (em, s) (em', s')" and "typ \<noteq> ''session.closed''"
  shows "count_type ''session.closed'' (ss_log s') = count_type ''session.closed'' (ss_log s)"
  using assms emitted_count [of em "typ" s s' "''session.closed''"] by (auto simp: emitter_step_def)

lemma quiet_step_inv:
  assumes "sys_inv sid (ems, s)" and "i < length ems"
    and "\<exists>r em' s'. f = Inr (r, em', s') \<and> emitter_step typ (ems ! i, s) (em', s')
           \<and> em_closed em' = em_closed (ems ! i)"
    and "typ \<noteq> ''session.closed''"
  shows "sys_inv sid (settle i (ems, s) (map_sum id snd f))"
proof -
  obtain r em' s' where f: "f = Inr (r, em', s')" "emitter_step typ (ems ! i, s) (em', s')"
    "em_closed em' = em_closed (ems ! i)" using assms(3) by blast
  then show ?thesis
    using settle_inv [OF assms(1,2) f(2)] emitter_step_count [OF f(2) assms(4)]
    by (simp add: settle_def)
qed

lemma sess_inv_cong:
  "\<lbrakk>sess_inv sid s; ss_seq s' = ss_seq s; ss_log s' = ss_log s; ss_observed s' = ss_observed s;
    ss_scheduled s' = ss_scheduled s; ss_wire s' = ss_wire s; 0 \<le> ss_inflight s';
    ss_inflight s' \<le> max_store_append_inflight\<rbrakk> \<Longrightarrow> sess_inv sid s'"
  by (simp add: sess_inv_def)

lemma session_only_inv:
  assumes "sys_inv sid (ems, s)" and "sess_inv sid s'" and "ss_log s' = ss_log s"
  shows "sys_inv sid (ems, s')"
  using assms by (simp add: sys_inv_def)

lemma sys_step_inv:
  assumes "sys_inv sid (ems, s)" and "plain_op op"
  shows "sys_inv sid (sys_step mint version op (ems, s))"
proof -
  have wh: "whole sid (ems ! i)" if "i < length ems" for i
    using assms(1) that by (simp add: sys_inv_def list_all_length)
  have si: "sess_inv sid s" using assms(1) by (simp add: sys_inv_def)
  have quiet: "sess_inv sid s'" if "ss_seq s' = ss_seq s" "ss_log s' = ss_log s"
    "ss_observed s' = ss_observed s" "ss_scheduled s' = ss_scheduled s" "ss_wire s' = ss_wire s"
    "ss_inflight s' = ss_inflight s \<or> s' = inflight_release s" for s'
    using that si by (intro sess_inv_cong [OF si]) (auto simp: sess_inv_def inflight_release_def
        max_store_append_inflight_def)
  show ?thesis
  proof (cases op)
    case (Op_open i c)
    then show ?thesis
      using assms(1) quiet_step_inv [OF assms(1) _ open_step [OF wh]] by auto
  next
    case (Op_resume i c t n)
    then show ?thesis
      using assms(1) quiet_step_inv [OF assms(1) _ resume_step [OF wh]] by auto
  next
    case (Op_emit i ty data parent persist)
    then show ?thesis
      using assms quiet_step_inv [OF assms(1) _ emit_event_step [OF wh]]
      by (auto simp: plain_op_def)
  next
    case (Op_close i r d er)
    show ?thesis
    proof (cases "i < length ems")
      case True
      obtain res em' s' where c: "close_session mint r d er (ems ! i, s) = Inr (res, em', s')"
          "emitter_step ''session.closed'' (ems ! i, s) (em', s')" "em_closed em'"
          "s' = s \<longleftrightarrow> em_closed (ems ! i) \<or> em_invocation_only (ems ! i)"
        using close_step [OF wh [OF True]] by blast
      have "count_type ''session.closed'' (ss_log s') = count_type ''session.closed'' (ss_log s)
          + (of_bool (em_closed em') - of_bool (em_closed (ems ! i)))
            * of_bool (\<not> em_invocation_only (ems ! i))"
        using c emitted_count [of "ems ! i" "''session.closed''" s s' "''session.closed''"]
        by (auto simp: emitter_step_def)
      then show ?thesis
        using settle_inv [OF assms(1) True c(2)] c True Op_close by (simp add: settle_def)
    qed (use assms Op_close in simp)
  next
    case (Op_fork i t)
    show ?thesis
    proof (cases "i < length ems")
      case True
      obtain em where "fork_for_thread t (ems ! i) = Inr em" "whole sid em" "em_invocation_only em"
        using wh [OF True]
        by (cases "em_last_open (ems ! i)"; cases "em_last_resume (ems ! i)")
           (auto simp: fork_for_thread_def whole_def emitter_init_def Let_def)
      then show ?thesis
        using assms(1) Op_fork True by (cases ems) (auto simp: sys_inv_def)
    qed (use assms Op_fork in simp)
  next
    case (Op_filter p)
    then show ?thesis
      using session_only_inv [OF assms(1) quiet]
      by (auto simp: set_subscription_prefixes_def split: option.splits)
  next
    case Op_append_done
    then show ?thesis
      using session_only_inv [OF assms(1) quiet] by (simp add: inflight_release_def)
  next
    case (Op_tick d)
    then show ?thesis using session_only_inv [OF assms(1) quiet] by simp
  next
    case (Op_loop b)
    then show ?thesis using session_only_inv [OF assms(1) quiet] by simp
  qed
qed

lemma sys_run_inv:
  assumes "list_all plain_op ops"
  shows "sys_inv sid (sys_run mint version ops (sys_init sid thread has_store))"
proof -
  have "sys_inv sid sy \<Longrightarrow> list_all plain_op ops \<Longrightarrow> sys_inv sid (fold (sys_step mint version) ops sy)"
    for sy
  proof (induction ops arbitrary: sy)
    case (Cons op ops)
    obtain ems s where sy: "sy = (ems, s)" by fastforce
    have "sys_inv sid (sys_step mint version op sy)"
      using sys_step_inv [of sid ems s op mint version] Cons.prems sy by simp
    then show ?case using Cons by simp
  qed simp
  moreover have "sys_inv sid (sys_init sid thread has_store)"
    by (simp add: sys_inv_def sys_init_def emitter_init_def session_init_def sess_inv_def whole_def
        count_type_def max_store_append_inflight_def)
  ultimately show ?thesis using assms by (simp add: sys_run_def)
qed


section \<open>What the store receives\<close>

lemma sanitize_json_ok: "json_ok (sanitize v)"
  by (induction v rule: sanitize.induct) (auto simp: list_all_iff split: pyfloat.split)

lemma event_to_dict_fields:
  "event_seq (event_to_dict e) = ev_seq e"
  "event_type_opt (event_to_dict e) = Some (ev_type e)"
  "event_seq_opt (event_to_dict e) = Some (ev_seq e)"
  by (simp_all add: event_to_dict_def dump_event_def event_seq_def event_seq_opt_def
      event_type_opt_def opt_field_def split: option.split)

lemma event_to_dict_json_ok: "event_json_ok (event_to_dict e)"
  using sanitize_json_ok [of "PyDict (dump_event e)"]
  by (simp add: event_to_dict_def event_json_ok_def)

lemma event_to_dict_valid:
  "0 < ev_seq e \<Longrightarrow> \<not> blank (ev_type e) \<Longrightarrow> validate_store_event (event_to_dict e) = Inr ()"
  by (simp add: validate_store_event_def event_to_dict_fields)

lemma subseq_upto_sorted:
  assumes "subseq xs ys" and "map f ys = [i..j]"
  shows "sorted_wrt (<) (map f xs)"
  using subseq_map [OF assms(1), of f] assms(2) sorted_wrt_subseq [of _ _ "(<)"] by fastforce

definition demo_mint :: mint where
  "demo_mint n = (replicate n CHR ''e'', ''2026-01-01T00:00:00Z'')"

definition demo_ops :: "session_op list" where
  "demo_ops =
     [Op_open 0 None, Op_fork 0 ''t2'', Op_filter (Some [''token.'']), Op_emit 1 ''token.delta'' [] None True,
      Op_emit 0 ''tool.call.start'' [] None True, Op_close 1 Completed None None,
      Op_close 0 Completed None None, Op_close 0 Completed None None]"

lemma demo_ops_plain: "list_all plain_op demo_ops"
  by (simp add: demo_ops_def plain_op_def)


text \<open>
  With an active subscription filter the synchronous emitter writes an event exactly
  when its type starts with a subscribed prefix or with one of \<open>session.\<close>, \<open>error.\<close>,
  \<open>runtime.\<close>, \<open>prompt.\<close>, \<open>hitl.\<close>, \<open>metric.\<close>; without a filter it writes every event; the observer
  receives the event in any case.
\<close>

theorem subscription_filter_exact:
  assumes "em_kind em = Sync_emitter" and "em_has_writer em" and "ss_seq s = ev_seq e"
    and "write_event mint persist e (em, s) = Inr (em', s')"
  shows "\<exists>notices. ss_observed s' = ss_observed s @ with_trace em e # notices
    \<and> ss_wire s' = ss_wire s @ map event_to_dict
        (filter (\<lambda>x. ss_prefixes s = None
             \<or> list_ex (startswith (ev_type x)) (passthrough_prefixes @ the (ss_prefixes s)))
           (with_trace em e # notices))
    \<and> (\<forall>x\<in>set notices. ev_type x = ''error.transient'')"
proof -
  obtain es where d: "delivered em s (with_trace em e # es) s'"
    and t: "\<forall>x\<in>set es. ev_type x = ''error.transient''"
    using write_event_step [OF assms(1,3), of mint persist] assms(4) by auto
  let ?allowed = "\<lambda>x. ss_prefixes s = None
             \<or> list_ex (startswith (ev_type x)) (passthrough_prefixes @ the (ss_prefixes s))"
  have "?allowed x = subscription_allows_wire s (ev_type x)" for x
    by (auto simp: subscription_allows_wire_def split: option.split)
  then have f: "filter ?allowed l = filter (\<lambda>e. subscription_allows_wire s (ev_type e)) l" for l
    by (intro filter_cong refl) blast
  have "ss_wire s' = ss_wire s @ map event_to_dict (filter ?allowed (with_trace em e # es))"
    unfolding f using d assms(2) by (simp add: delivered_def)
  then show ?thesis
    using d t by (intro exI [of _ es] conjI) (auto simp only: delivered_def)
qed

definition demo_envelope :: "string \<Rightarrow> envelope" where
  "demo_envelope typ = \<lparr>ev_id = ''evt_1'', ev_ts = ''t'', ev_session = ''s1'', ev_thread = ''t1'',
     ev_seq = 0, ev_parent = None, ev_trace = None, ev_type = typ, ev_data = []\<rparr>"

lemma subscription_filter_exact_witness:
  "\<exists>em' s'. write_event demo_mint False (demo_envelope ''tool.call'')
       (emitter_init Sync_emitter ''s1'' ''t1'' False False,
        set_subscription_prefixes (Some [''token.'']) (session_init 0)) = Inr (em', s')
     \<and> ss_wire s' = []"
proof -
  let ?em = "emitter_init Sync_emitter ''s1'' ''t1'' False False"
  let ?s = "set_subscription_prefixes (Some [''token.'']) (session_init 0)"
  let ?e = "demo_envelope ''tool.call''"
  have hyps: "em_kind ?em = Sync_emitter" "em_has_writer ?em" "ss_seq ?s = ev_seq ?e"
    by (simp_all add: emitter_init_def session_init_def set_subscription_prefixes_def
        demo_envelope_def)
  obtain em' s' where w: "write_event demo_mint False ?e (?em, ?s) = Inr (em', s')"
    using write_event_step [OF hyps(1,3)] by blast
  have "write_event demo_mint False ?e (?em, ?s) = Inr (em', s') \<Longrightarrow> length (ss_observed s') = 1"
    by (auto simp: write_event_def write_unstored_def wire_step_def Let_def emitter_init_def
        session_init_def set_subscription_prefixes_def split: if_splits)
  then show ?thesis
    using subscription_filter_exact [OF hyps w] w
    by (auto simp: session_init_def set_subscription_prefixes_def passthrough_prefixes_def
        startswith_def demo_envelope_def)
qed

section \<open>The asynchronous and the callback-only emitter\<close>

text \<open>
  When the bounded wire queue of the asynchronous emitter is full, emitting an event
  raises instead of dropping the line: the exception of \<open>put_nowait\<close> is not the one the
  handler names. The event is then neither shown to the observer nor stored.
\<close>

theorem full_wire_queue_raises:
  assumes "em_kind em = Async_emitter" and "0 < ss_queue_max s"
    and "ss_queue_max s \<le> length (ss_queue s)" and "subscription_allows_wire s typ"
  shows "emit_event mint typ data parent persist (em, s) = Inl QueueFull"
proof -
  obtain e s1 where b: "build_event mint typ data parent (em, s) = (e, s1)" by fastforce
  note bp = build_event_props [OF b]
  have qm: "ss_queue_max s1 = ss_queue_max s"
    using b by (auto simp: build_event_def seq_next_def Let_def split: prod.splits)
  let ?s2 = "s1\<lparr>ss_log := ss_log s1 @ [with_trace em e]\<rparr>"
  have "subscription_allows_wire ?s2 (ev_type (with_trace em e))"
    using bp assms(4) allows_wire_cong [of ?s2 s] by simp
  then have "wire_step em (with_trace em e) ?s2 = Inl QueueFull"
    using assms bp qm by (simp add: wire_step_def enqueue_wire_line_def)
  then have "write_unstored e (em, s1) = Inl QueueFull"
    by (simp add: write_unstored_def Let_def)
  then show ?thesis using b by (simp add: emit_event_def write_event_def Let_def)
qed

lemma full_wire_queue_raises_witness:
  "emit_event demo_mint ''token.delta'' [] None True
     (emitter_init Async_emitter ''s1'' ''t1'' False False, (session_init 1)\<lparr>ss_queue := [[]]\<rparr>)
   = Inl QueueFull"
  by (rule full_wire_queue_raises)
     (simp_all add: emitter_init_def session_init_def subscription_allows_wire_def)

text \<open>
  A fork of the synchronous emitter closes without an event, as documented; a fork of
  the asynchronous emitter emits \<open>session.closed\<close> when it is closed, although the session
  goes on.
\<close>

theorem async_fork_closes_session:
  assumes "em_inflight_set em" and "em_last_open em \<noteq> Unset" and "em_last_resume em \<noteq> Unset"
    and "fork_for_thread t em = Inr child" and "ss_queue_max s = 0"
  shows "\<exists>r child' s'. close_session mint reason d er (child, s) = Inr (r, child', s')
    \<and> (if em_kind em = Sync_emitter then r = None \<and> s' = s
       else \<exists>e. r = Some e \<and> ev_type e = ''session.closed'' \<and> ss_seq s < ss_seq s')"
proof -
  have ch: "em_kind child = em_kind em" "em_closed child = False"
    "em_invocation_only child = (em_kind em = Sync_emitter)"
    using assms(1-4) by (cases "em_last_open em"; cases "em_last_resume em";
        auto simp: fork_for_thread_def emitter_init_def Let_def)+
  show ?thesis
  proof (cases "em_kind em")
    case Sync_emitter
    then show ?thesis using ch by (simp add: close_session_def)
  next
    case Async_emitter
    let ?c = "child\<lparr>em_closed := True\<rparr>"
    obtain e s1 where b: "build_event mint ''session.closed'' (close_data reason d er) None (?c, s) = (e, s1)"
      by fastforce
    have bs: "ev_type e = ''session.closed''" "ss_seq s1 = ss_seq s + 1" "ss_queue_max s1 = 0"
      using b assms(5) by (auto simp: build_event_def seq_next_def Let_def split: prod.splits)
    have put: "\<exists>s'. enqueue_wire_line l u = Inr s' \<and> ss_seq s' = ss_seq u \<and> ss_queue_max s' = 0"
      if "ss_queue_max u = 0" for l u using that by (simp add: enqueue_wire_line_def)
    have unst: "\<exists>em' s'. write_unstored x (em0, u) = Inr (em', s') \<and> ss_seq s' = ss_seq u
        \<and> ss_queue_max s' = 0 \<and> em_kind em' = Async_emitter"
      if "ss_queue_max u = 0" "em_kind em0 = Async_emitter" for x u em0
      using that put by (auto simp: write_unstored_def wire_step_def Let_def enqueue_wire_line_def)
    have drop: "\<exists>em' s'. emit_store_append_dropped mint (em0, u) = Inr (em', s') \<and> ss_seq u \<le> ss_seq s'"
      if "ss_queue_max u = 0" "em_kind em0 = Async_emitter" for u em0
    proof (cases "ss_clock u - em_last_drop_warn em0 < 1")
      case False
      let ?m = "em0\<lparr>em_last_drop_warn := ss_clock u\<rparr>"
      obtain n u1 where n: "build_event mint ''error.transient'' drop_notice None (?m, u) = (n, u1)"
        by fastforce
      then have "ss_queue_max u1 = 0" "ss_seq u1 = ss_seq u + 1"
        using that by (auto simp: build_event_def seq_next_def Let_def split: prod.splits)
      then show ?thesis
        using unst [of u1 ?m n] n that False
        by (auto simp: emit_store_append_dropped_def Let_def)
    qed (simp add: emit_store_append_dropped_def)
    obtain c1 s2 where w: "write_unstored e (?c, s1) = Inr (c1, s2)" "ss_seq s2 = ss_seq s1"
        "ss_queue_max s2 = 0" "em_kind c1 = Async_emitter"
      using unst [of s1 ?c e] bs ch Async_emitter by auto
    have "\<exists>c2 s3. write_event mint True e (?c, s1) = Inr (c2, s3) \<and> ss_seq s1 \<le> ss_seq s3"
    proof (cases "em_has_store c1")
      case True
      let ?k = "c1\<lparr>em_last_event := em_last_event ?c\<rparr>"
      have "\<exists>c2 s3. schedule_store_append mint x (?k, s2) = Inr (c2, s3) \<and> ss_seq s2 \<le> ss_seq s3" for x
        using True drop [of s2 ?k] w
        by (auto simp: schedule_store_append_def inflight_try_acquire_def inflight_release_def)
      then obtain c2 s3 where "schedule_store_append mint (with_trace ?c e) (?k, s2) = Inr (c2, s3)"
          "ss_seq s2 \<le> ss_seq s3" by blast
      then show ?thesis using w True by (simp add: write_event_def Let_def)
    qed (use w in \<open>simp add: write_event_def Let_def\<close>)
    then show ?thesis
      using b bs ch Async_emitter by (fastforce simp: close_session_def Let_def)
  qed
qed

lemma async_fork_closes_session_witness:
  "\<exists>e r s'. fork_for_thread ''t2'' (emitter_init Async_emitter ''s1'' ''t1'' True False) = Inr e
     \<and> close_session demo_mint Completed None None (e, session_init 0) = Inr (Some r, s')
     \<and> ev_type r = ''session.closed''"
proof -
  let ?em = "emitter_init Async_emitter ''s1'' ''t1'' True False"
  have h: "em_inflight_set ?em" "em_last_open ?em \<noteq> Unset" "em_last_resume ?em \<noteq> Unset"
      "ss_queue_max (session_init 0) = 0" "em_kind ?em = Async_emitter"
    by (simp_all add: emitter_init_def session_init_def)
  obtain e where f: "fork_for_thread ''t2'' ?em = Inr e"
    by (simp add: fork_for_thread_def emitter_init_def Let_def)
  show ?thesis
    using async_fork_closes_session [OF h(1-3) f h(4), of demo_mint Completed None None] f h(5)
    by auto
qed

section \<open>The callback-only emitter\<close>

text \<open>
  An emitter made by \<open>for_callback_only\<close> emits to its callback, but opening it twice,
  resuming it once it is open and forking it each raise an \<open>AttributeError\<close>: the constructor
  leaves attributes of \<open>__init__\<close> unset.
\<close>

theorem callback_only_lifecycle:
  "\<exists>e em s. open_session mint version c (for_callback_only sid thread, session_init 0) = Inr (e, em, s)
     \<and> map ev_type (ss_observed s) = [''session.opened''] \<and> ss_wire s = []
     \<and> resume_session mint version c t n (em, s) = Inl (AttributeError ''_last_resume'')
     \<and> fork_for_thread thread2 em = Inl (AttributeError ''_store_append_inflight'')"
proof -
  obtain i ts where m: "mint (Suc 0) = (i, ts)" by fastforce
  show ?thesis
    using m by (simp add: open_session_def for_callback_only_def session_init_def build_event_def
        seq_next_def write_event_def write_unstored_def wire_step_def subscription_allows_wire_def
        with_trace_def resume_session_def fork_for_thread_def Let_def)
qed

end
