(* ===== verification/Agp_Schema.thy ===== *)
theory Agp_Schema
  imports Session_Emitter
begin

text \<open>
  Models of the protocol as values: what a class of \<open>src/agloom/protocol/events.py\<close> or
  \<open>commands.py\<close> declares (its fields, their types and defaults), what it means to build an
  instance, to write it without its \<open>None\<close> fields and to read it back.

  Field validation is pydantic's and is a parameter \<open>vld\<close>, the validated value of a type at a
  value or nothing. \<open>pydantic_laws\<close> names what the code relies on: validation of values that
  already have the declared type. Coercions (a number in a string, say) are left open.
  \<open>exact_validate\<close>, which does none, satisfies the laws.
\<close>

section \<open>Declared types\<close>

datatype ftype =
    TStr
  | TInt
  | TFloat
  | TBool
  | TAny
  | TDict
  | TLit "string list"
  | TOpt ftype
  | TList ftype
  | TModel "(string \<times> ftype \<times> pyval option) list"

text \<open>Name, type and default of each field; no default means that the field is required.\<close>

type_synonym fields = "(string \<times> ftype \<times> pyval option) list"

type_synonym validator = "ftype \<Rightarrow> pyval \<Rightarrow> pyval option"

text \<open>Fields in the order of the class; a missing one takes its default.\<close>

fun validate_fields :: "validator \<Rightarrow> fields \<Rightarrow> pyval pydict \<Rightarrow> pyval pydict option" where
  "validate_fields vld [] d = Some []"
| "validate_fields vld ((k, t, dflt) # fs) d =
     (case (case map_of d k of Some x \<Rightarrow> vld t x | None \<Rightarrow> dflt) of
        None \<Rightarrow> None
      | Some x \<Rightarrow> map_option ((#) (k, x)) (validate_fields vld fs d))"

text \<open>\<open>extra="allow"\<close>: other keys stay, after the declared ones.\<close>

definition extra_fields :: "fields \<Rightarrow> pyval pydict \<Rightarrow> pyval pydict" where
  "extra_fields fs d = filter (\<lambda>kv. \<not> list_ex (\<lambda>f. fst f = fst kv) fs) d"

definition validate_model :: "validator \<Rightarrow> fields \<Rightarrow> pyval pydict \<Rightarrow> pyval pydict option" where
  "validate_model vld fs d =
     map_option (\<lambda>v. v @ extra_fields fs d) (validate_fields vld fs d)"

fun all_some :: "'a option list \<Rightarrow> 'a list option" where
  "all_some [] = Some []"
| "all_some (None # xs) = None"
| "all_some (Some x # xs) = map_option ((#) x) (all_some xs)"

definition pydantic_laws :: "validator \<Rightarrow> bool" where
  "pydantic_laws vld \<longleftrightarrow>
     (\<forall>s. vld TStr (PyStr s) = Some (PyStr s))
     \<and> (\<forall>i. vld TInt (PyInt i) = Some (PyInt i))
     \<and> (\<forall>f. vld TFloat (PyFloat f) = Some (PyFloat f)) \<and> vld TFloat PyNone = None
     \<and> (\<forall>b. vld TBool (PyBool b) = Some (PyBool b))
     \<and> (\<forall>v. vld TAny v = Some v)
     \<and> (\<forall>d. vld TDict (PyDict d) = Some (PyDict d))
     \<and> (\<forall>xs s. vld (TLit xs) (PyStr s) = (if s \<in> set xs then Some (PyStr s) else None))
     \<and> (\<forall>t. vld (TOpt t) PyNone = Some PyNone)
     \<and> (\<forall>t v. v \<noteq> PyNone \<longrightarrow> vld (TOpt t) v = vld t v)
     \<and> (\<forall>t vs. vld (TList t) (PyList vs) = map_option PyList (all_some (map (vld t) vs)))
     \<and> (\<forall>fs d. vld (TModel fs) (PyDict d) = map_option PyDict (validate_model vld fs d))"

section \<open>Values of a declared type\<close>

fun canonical :: "ftype \<Rightarrow> pyval \<Rightarrow> bool" and canonical_fields :: "fields \<Rightarrow> pyval pydict \<Rightarrow> bool" where
  "canonical TStr v = (case v of PyStr _ \<Rightarrow> True | _ \<Rightarrow> False)"
| "canonical TInt v = (case v of PyInt _ \<Rightarrow> True | _ \<Rightarrow> False)"
| "canonical TFloat v = (case v of PyFloat _ \<Rightarrow> True | _ \<Rightarrow> False)"
| "canonical TBool v = (case v of PyBool _ \<Rightarrow> True | _ \<Rightarrow> False)"
| "canonical TAny v = True"
| "canonical TDict v = (case v of PyDict _ \<Rightarrow> True | _ \<Rightarrow> False)"
| "canonical (TLit xs) v = (case v of PyStr s \<Rightarrow> s \<in> set xs | _ \<Rightarrow> False)"
| "canonical (TOpt t) v = (v = PyNone \<or> canonical t v)"
| "canonical (TList t) v = (case v of PyList vs \<Rightarrow> list_all (canonical t) vs | _ \<Rightarrow> False)"
| "canonical (TModel fs) v = (case v of PyDict d \<Rightarrow> canonical_fields fs d | _ \<Rightarrow> False)"
| "canonical_fields [] d = (d = [])"
| "canonical_fields ((k, t, dflt) # fs) d =
     (case d of [] \<Rightarrow> False
      | kv # d' \<Rightarrow> fst kv = k \<and> canonical t (snd kv) \<and> canonical_fields fs d')"

text \<open>\<open>exclude_none\<close>: on every model, a field that is \<open>None\<close> is not written.\<close>

fun dump_value :: "ftype \<Rightarrow> pyval \<Rightarrow> pyval" and dump_fields :: "fields \<Rightarrow> pyval pydict \<Rightarrow> pyval pydict"
  where
  "dump_value (TOpt t) v = dump_value t v"
| "dump_value (TList t) v = (case v of PyList vs \<Rightarrow> PyList (map (dump_value t) vs) | _ \<Rightarrow> v)"
| "dump_value (TModel fs) v = (case v of PyDict d \<Rightarrow> PyDict (dump_fields fs d) | _ \<Rightarrow> v)"
| "dump_value TStr v = v"
| "dump_value TInt v = v"
| "dump_value TFloat v = v"
| "dump_value TBool v = v"
| "dump_value TAny v = v"
| "dump_value TDict v = v"
| "dump_value (TLit xs) v = v"
| "dump_fields [] d = filter (\<lambda>kv. snd kv \<noteq> PyNone) d"
| "dump_fields ((k, t, dflt) # fs) d =
     (case d of [] \<Rightarrow> []
      | kv # d' \<Rightarrow> (if snd kv = PyNone then [] else [(fst kv, dump_value t (snd kv))])
                   @ dump_fields fs d')"

text \<open>
  Schemas that can be read back: distinct names, and a field that may be \<open>None\<close> has \<open>None\<close>
  as its default, since it is not written then.
\<close>

fun nullable :: "ftype \<Rightarrow> bool" where
  "nullable (TOpt _) = True"
| "nullable TAny = True"
| "nullable _ = False"

fun readable_type :: "ftype \<Rightarrow> bool" and readable_fields :: "fields \<Rightarrow> bool" where
  "readable_type (TOpt t) = (readable_type t \<and> \<not> nullable t)"
| "readable_type (TList t) = readable_type t"
| "readable_type (TModel fs) = readable_fields fs"
| "readable_type TStr = True"
| "readable_type TInt = True"
| "readable_type TFloat = True"
| "readable_type TBool = True"
| "readable_type TAny = True"
| "readable_type TDict = True"
| "readable_type (TLit xs) = True"
| "readable_fields [] = True"
| "readable_fields ((k, t, dflt) # fs) =
     (readable_type t \<and> \<not> list_ex (\<lambda>f. fst f = k) fs \<and> (nullable t \<longrightarrow> dflt = Some PyNone)
      \<and> (case dflt of None \<Rightarrow> True | Some v \<Rightarrow> canonical t v \<and> json_ok v) \<and> readable_fields fs)"

section \<open>A validator without coercions\<close>

fun exact_validate :: "ftype \<Rightarrow> pyval \<Rightarrow> pyval option"
  and exact_fields :: "fields \<Rightarrow> pyval pydict \<Rightarrow> pyval pydict option" where
  "exact_validate TStr v = (case v of PyStr _ \<Rightarrow> Some v | _ \<Rightarrow> None)"
| "exact_validate TInt v = (case v of PyInt _ \<Rightarrow> Some v | _ \<Rightarrow> None)"
| "exact_validate TFloat v = (case v of PyFloat _ \<Rightarrow> Some v | _ \<Rightarrow> None)"
| "exact_validate TBool v = (case v of PyBool _ \<Rightarrow> Some v | _ \<Rightarrow> None)"
| "exact_validate TAny v = Some v"
| "exact_validate TDict v = (case v of PyDict _ \<Rightarrow> Some v | _ \<Rightarrow> None)"
| "exact_validate (TLit xs) v =
     (case v of PyStr s \<Rightarrow> if s \<in> set xs then Some v else None | _ \<Rightarrow> None)"
| "exact_validate (TOpt t) v = (if v = PyNone then Some PyNone else exact_validate t v)"
| "exact_validate (TList t) v =
     (case v of PyList vs \<Rightarrow> map_option PyList (all_some (map (exact_validate t) vs)) | _ \<Rightarrow> None)"
| "exact_validate (TModel fs) v =
     (case v of PyDict d \<Rightarrow> map_option (\<lambda>x. PyDict (x @ extra_fields fs d)) (exact_fields fs d)
      | _ \<Rightarrow> None)"
| "exact_fields [] d = Some []"
| "exact_fields ((k, t, dflt) # fs) d =
     (case (case map_of d k of Some x \<Rightarrow> exact_validate t x | None \<Rightarrow> dflt) of
        None \<Rightarrow> None
      | Some x \<Rightarrow> map_option ((#) (k, x)) (exact_fields fs d))"

lemma exact_fields_validate: "exact_fields fs d = validate_fields exact_validate fs d"
  by (induction fs) (auto split: option.split)

lemma exact_validate_laws: "pydantic_laws exact_validate"
  by (auto simp: pydantic_laws_def exact_fields_validate validate_model_def option.map_comp comp_def)

section \<open>Reading back what was written\<close>

lemma pydantic_lawsD:
  assumes "pydantic_laws vld"
  shows "vld TStr (PyStr s) = Some (PyStr s)" and "vld TInt (PyInt i) = Some (PyInt i)"
    and "vld TFloat (PyFloat x) = Some (PyFloat x)" and "vld TBool (PyBool b) = Some (PyBool b)"
    and "vld TAny v = Some v" and "vld TDict (PyDict d) = Some (PyDict d)"
    and "vld (TLit xs) (PyStr s) = (if s \<in> set xs then Some (PyStr s) else None)"
    and "vld (TOpt t) PyNone = Some PyNone" and "v \<noteq> PyNone \<Longrightarrow> vld (TOpt t) v = vld t v"
    and "vld (TList t) (PyList vs) = map_option PyList (all_some (map (vld t) vs))"
    and "vld (TModel fs) (PyDict d) = map_option PyDict (validate_model vld fs d)"
    and "vld TFloat PyNone = None"
  using assms unfolding pydantic_laws_def by blast+

lemma canonical_None: "canonical t PyNone \<Longrightarrow> nullable t"
  by (cases t) auto

lemma dump_value_None: "dump_value t v = PyNone \<longleftrightarrow> v = PyNone"
  by (induction t arbitrary: v) (auto split: pyval.split)

lemma dump_fields_keys:
  "canonical_fields fs d \<Longrightarrow> map_of (dump_fields fs d) k = Some x \<Longrightarrow> list_ex (\<lambda>f. fst f = k) fs"
proof (induction fs arbitrary: d)
  case (Cons f fs)
  obtain fk t dflt where f: "f = (fk, t, dflt)" by (cases f)
  then show ?case using Cons by (cases d) (auto split: if_splits)
qed simp

lemma dump_fields_no_extra:
  assumes "canonical_fields fs d"
  shows "extra_fields fs (dump_fields fs d) = []"
proof -
  have "list_ex (\<lambda>f. fst f = fst kv) fs" if kv: "kv \<in> set (dump_fields fs d)" for kv
  proof -
    have "fst kv \<in> fst ` set (dump_fields fs d)" using kv by simp
    then obtain x where "map_of (dump_fields fs d) (fst kv) = Some x"
      by (metis map_of_eq_None_iff not_Some_eq)
    then show ?thesis by (rule dump_fields_keys [OF assms])
  qed
  then show ?thesis by (simp add: extra_fields_def filter_empty_conv)
qed

text \<open>
  The two halves of reading back, by the structure of the type: a value, and the fields of a
  model looked up in a larger dictionary \<open>D\<close>.
\<close>

lemma validate_dump_fields:
  assumes "pydantic_laws vld" and "canonical_fields fs d" and "readable_fields fs"
    and "\<And>k t dflt x. (k, t, dflt) \<in> set fs \<Longrightarrow> canonical t x \<Longrightarrow> readable_type t \<Longrightarrow> x \<noteq> PyNone
           \<Longrightarrow> vld t (dump_value t x) = Some x"
    and "\<And>k. list_ex (\<lambda>f. fst f = k) fs \<Longrightarrow> map_of D k = map_of (dump_fields fs d) k"
  shows "validate_fields vld fs D = Some d"
  using assms(2-5)
proof (induction fs arbitrary: d)
  case (Cons f fs)
  obtain k t dflt where f: "f = (k, t, dflt)" by (cases f)
  obtain x d' where d: "d = (k, x) # d'" "canonical t x" "canonical_fields fs d'"
    using Cons.prems(1) f by (cases d) auto
  have r: "readable_type t" "\<not> list_ex (\<lambda>f. fst f = k) fs" "nullable t \<longrightarrow> dflt = Some PyNone"
    "readable_fields fs" using Cons.prems(2) f by auto
  have nk: "map_of (dump_fields fs d') k = None"
    using dump_fields_keys [OF d(3), of k] r(2) by fastforce
  have Dk: "map_of D k = (if x = PyNone then None else Some (dump_value t x))"
    using Cons.prems(4) [of k] f d(1) nk by simp
  have "(case map_of D k of Some x \<Rightarrow> vld t x | None \<Rightarrow> dflt) = Some x"
  proof (cases "x = PyNone")
    case True
    then show ?thesis using Dk r(3) canonical_None d(2) by auto
  next
    case False
    then show ?thesis using Dk Cons.prems(3) [of k t dflt x] f d(2) r(1) by simp
  qed
  moreover have "validate_fields vld fs D = Some d'"
  proof (rule Cons.IH [OF d(3) r(4)])
    show "vld t' (dump_value t' y) = Some y"
      if "(k', t', dflt') \<in> set fs" "canonical t' y" "readable_type t'" "y \<noteq> PyNone" for k' t' dflt' y
      using that Cons.prems(3) [of k' t' dflt' y] by simp
    show "map_of D k' = map_of (dump_fields fs d') k'" if "list_ex (\<lambda>f. fst f = k') fs" for k'
      using that Cons.prems(4) [of k'] r(2) f d(1) by auto
  qed
  ultimately show ?case using f d(1) by simp
qed simp

lemma all_some_map:
  "list_all (\<lambda>v. g (h v) = Some v) vs \<Longrightarrow> all_some (map g (map h vs)) = Some vs"
  by (induction vs) auto

lemma validate_dump:
  assumes "pydantic_laws vld"
  shows "canonical t v \<Longrightarrow> readable_type t \<Longrightarrow> vld t (dump_value t v) = Some v"
proof (induction t arbitrary: v)
  case (TOpt t)
  then show ?case
    using pydantic_lawsD(8,9) [OF assms] dump_value_None [of t v] by (cases "v = PyNone") auto
next
  case (TList t)
  then obtain vs where "v = PyList vs" "list_all (canonical t) vs" by (cases v) auto
  then show ?case
    using TList pydantic_lawsD(10) [OF assms] all_some_map [of "vld t" "dump_value t" vs]
    by (simp add: list_all_iff)
next
  case (TModel fs)
  then obtain d where v: "v = PyDict d" "canonical_fields fs d" by (cases v) auto
  have "validate_fields vld fs (dump_fields fs d) = Some d"
  proof (rule validate_dump_fields [OF assms v(2)])
    show "vld t (dump_value t x) = Some x"
      if "(k, t, dflt) \<in> set fs" "canonical t x" "readable_type t" for k t dflt x
      using TModel.IH [OF that(1), of "(t, dflt)" t x] that(2,3) by auto
  qed (use TModel.prems in auto)
  then show ?case
    using v pydantic_lawsD(11) [OF assms] dump_fields_no_extra [OF v(2)]
    by (simp add: validate_model_def)
qed (auto simp: pydantic_lawsD [OF assms] split: pyval.splits)

section \<open>Building an instance\<close>

text \<open>
  An argument of the declared type, or a string for a literal field, whose value the
  validation decides on.
\<close>

definition arg_typed :: "ftype \<Rightarrow> pyval \<Rightarrow> bool" where
  "arg_typed t x \<longleftrightarrow>
     canonical t x \<or> (case t of TLit _ \<Rightarrow> (case x of PyStr _ \<Rightarrow> True | _ \<Rightarrow> False) | _ \<Rightarrow> False)"

definition args_typed :: "fields \<Rightarrow> pyval pydict \<Rightarrow> bool" where
  "args_typed fs kw \<longleftrightarrow>
     list_all (\<lambda>kv. list_ex (\<lambda>f. fst f = fst kv) fs) kw
     \<and> list_all (\<lambda>(k, t, dflt). case map_of kw k of Some x \<Rightarrow> arg_typed t x | None \<Rightarrow> dflt \<noteq> None) fs"

definition json_fields :: "pyval pydict \<Rightarrow> bool" where
  "json_fields d = list_all (\<lambda>kv. json_ok (snd kv)) d"

lemma json_fields_simps [simp]:
  "json_fields []" "json_fields (kv # d) \<longleftrightarrow> json_ok (snd kv) \<and> json_fields d"
  "json_ok (PyDict d) = json_fields d"
  by (auto simp: json_fields_def list_all_iff)

text \<open>The literals among the arguments are members.\<close>

definition literals_ok :: "fields \<Rightarrow> pyval pydict \<Rightarrow> bool" where
  "literals_ok fs kw \<longleftrightarrow>
     list_all (\<lambda>(k, t, dflt). case map_of kw k of
        Some (PyStr s) \<Rightarrow> (case t of TLit xs \<Rightarrow> s \<in> set xs | _ \<Rightarrow> True) | _ \<Rightarrow> True) fs"

lemma all_some_id: "list_all (\<lambda>v. g v = Some v) vs \<Longrightarrow> all_some (map g vs) = Some vs"
  by (induction vs) auto

lemma validate_fields_canonical:
  assumes "canonical_fields fs d" and "readable_fields fs"
    and "\<And>k t dflt x. (k, t, dflt) \<in> set fs \<Longrightarrow> canonical t x \<Longrightarrow> readable_type t \<Longrightarrow> vld t x = Some x"
    and "\<And>k. list_ex (\<lambda>f. fst f = k) fs \<Longrightarrow> map_of D k = map_of d k"
  shows "validate_fields vld fs D = Some d"
  using assms
proof (induction fs arbitrary: d)
  case (Cons f fs)
  obtain k t dflt where f: "f = (k, t, dflt)" by (cases f)
  obtain x d' where d: "d = (k, x) # d'" "canonical t x" "canonical_fields fs d'"
    using Cons.prems(1) f by (cases d) auto
  have "map_of D k = Some x" using Cons.prems(4) [of k] f d(1) by simp
  moreover have "vld t x = Some x" using Cons.prems(2) Cons.prems(3) [of k t dflt x] f d(2) by simp
  moreover have "validate_fields vld fs D = Some d'"
  proof (rule Cons.IH [OF d(3)])
    show "map_of D k' = map_of d' k'" if "list_ex (\<lambda>f. fst f = k') fs" for k'
      using that Cons.prems(2) Cons.prems(4) [of k'] f d(1) by auto
  qed (use Cons.prems f in auto)
  ultimately show ?case using f d(1) by simp
qed simp

lemma canonical_fields_keys: "canonical_fields fs d \<Longrightarrow> map fst d = map fst fs"
proof (induction fs arbitrary: d)
  case (Cons f fs)
  then show ?case by (cases f; cases d) auto
qed simp

lemma canonical_no_extra:
  assumes "canonical_fields fs d" shows "extra_fields fs d = []"
proof -
  have "fst ` set d = fst ` set fs" using canonical_fields_keys [OF assms] by (metis set_map)
  have "list_ex (\<lambda>f. fst f = fst kv) fs" if kv: "kv \<in> set d" for kv
  proof -
    have "fst kv \<in> fst ` set fs" using kv \<open>fst ` set d = fst ` set fs\<close> by blast
    then obtain f where "f \<in> set fs" "fst kv = fst f" by blast
    then show ?thesis by (auto simp: list_ex_iff)
  qed
  then show ?thesis by (simp add: extra_fields_def filter_empty_conv)
qed

lemma validate_canonical:
  assumes "pydantic_laws vld"
  shows "canonical t v \<Longrightarrow> readable_type t \<Longrightarrow> vld t v = Some v"
proof (induction t arbitrary: v)
  case (TOpt t)
  then show ?case using pydantic_lawsD(8,9) [OF assms] by (cases "v = PyNone") auto
next
  case (TList t)
  then obtain vs where "v = PyList vs" "list_all (canonical t) vs" by (cases v) auto
  then show ?case
    using TList pydantic_lawsD(10) [OF assms] all_some_id [of "vld t" vs] by (simp add: list_all_iff)
next
  case (TModel fs)
  then obtain d where v: "v = PyDict d" "canonical_fields fs d" by (cases v) auto
  have "validate_fields vld fs d = Some d"
  proof (rule validate_fields_canonical [OF v(2)])
    show "vld t x = Some x" if "(k, t, dflt) \<in> set fs" "canonical t x" "readable_type t" for k t dflt x
      using TModel.IH [OF that(1), of "(t, dflt)" t x] that(2,3) by auto
  qed (use TModel.prems in auto)
  then show ?case
    using v pydantic_lawsD(11) [OF assms] canonical_no_extra [OF v(2)] by (simp add: validate_model_def)
qed (auto simp: pydantic_lawsD [OF assms] split: pyval.splits)

lemma arg_validate:
  assumes "pydantic_laws vld" and "arg_typed t x" and "readable_type t"
  shows "vld t x = (if canonical t x then Some x else None)"
proof (cases "canonical t x")
  case True
  then show ?thesis using validate_canonical [OF assms(1) True assms(3)] by simp
next
  case False
  then obtain xs s where "t = TLit xs" "x = PyStr s"
    using assms(2) by (auto simp: arg_typed_def split: ftype.splits pyval.splits)
  then show ?thesis using False pydantic_lawsD(7) [OF assms(1)] by simp
qed

lemma literal_canonical:
  assumes "arg_typed t x"
  shows "canonical t x \<longleftrightarrow> (case x of PyStr s \<Rightarrow> (case t of TLit xs \<Rightarrow> s \<in> set xs | _ \<Rightarrow> True) | _ \<Rightarrow> True)"
  using assms by (auto simp: arg_typed_def split: ftype.splits pyval.splits)

lemma validate_fields_args:
  assumes "pydantic_laws vld" and "readable_fields fs"
    and "list_all (\<lambda>(k, t, dflt). case map_of kw k of Some x \<Rightarrow> arg_typed t x | None \<Rightarrow> dflt \<noteq> None) fs"
  shows "(validate_fields vld fs kw \<noteq> None) = literals_ok fs kw
    \<and> (\<forall>d. validate_fields vld fs kw = Some d \<longrightarrow> canonical_fields fs d
         \<and> (json_fields kw \<longrightarrow> json_fields d))"
  using assms(2,3)
proof (induction fs)
  case (Cons f fs)
  obtain k t dflt where f: "f = (k, t, dflt)" by (cases f)
  have IH: "(validate_fields vld fs kw \<noteq> None) = literals_ok fs kw"
    "\<And>d. validate_fields vld fs kw = Some d \<Longrightarrow> canonical_fields fs d
         \<and> (json_fields kw \<longrightarrow> json_fields d)"
    using Cons f by auto
  have rt: "readable_type t" using Cons.prems(1) f by simp
  show ?case
  proof (cases "map_of kw k")
    case None
    then obtain x where "dflt = Some x" "canonical t x" "json_ok x" using Cons.prems f by auto
    then show ?thesis using None IH f by (auto simp: literals_ok_def)
  next
    case (Some x)
    then have a: "arg_typed t x" using Cons.prems(2) f by simp
    have j: "json_fields kw \<longrightarrow> json_ok x"
      using map_of_SomeD [OF Some] by (auto simp: json_fields_def list_all_iff)
    show ?thesis
    proof (cases "canonical t x")
      case True
      then show ?thesis
        using Some IH f j arg_validate [OF assms(1) a rt] literal_canonical [OF a]
        by (auto simp: literals_ok_def split: pyval.splits)
    next
      case False
      then show ?thesis
        using Some f arg_validate [OF assms(1) a rt] literal_canonical [OF a]
        by (auto simp: literals_ok_def split: pyval.splits)
    qed
  qed
qed (simp add: literals_ok_def)

lemma build_args:
  assumes "pydantic_laws vld" and "readable_fields fs" and "args_typed fs kw"
  shows "(vld (TModel fs) (PyDict kw) \<noteq> None) = literals_ok fs kw"
    and "vld (TModel fs) (PyDict kw) = Some v \<Longrightarrow> \<exists>d. v = PyDict d \<and> canonical_fields fs d
           \<and> (json_fields kw \<longrightarrow> json_fields d)"
proof -
  have ex: "extra_fields fs kw = []"
    using assms(3) by (auto simp: args_typed_def extra_fields_def list_all_iff filter_empty_conv)
  have eq: "vld (TModel fs) (PyDict kw) = map_option PyDict (validate_fields vld fs kw)"
    using pydantic_lawsD(11) [OF assms(1)] ex by (simp add: validate_model_def option.map_ident)
  have "list_all (\<lambda>(k, t, dflt). case map_of kw k of Some x \<Rightarrow> arg_typed t x | None \<Rightarrow> dflt \<noteq> None) fs"
    using assms(3) by (simp add: args_typed_def)
  note va = validate_fields_args [OF assms(1,2) this]
  show "(vld (TModel fs) (PyDict kw) \<noteq> None) = literals_ok fs kw" using eq va by simp
  show "vld (TModel fs) (PyDict kw) = Some v \<Longrightarrow> \<exists>d. v = PyDict d \<and> canonical_fields fs d
           \<and> (json_fields kw \<longrightarrow> json_fields d)"
    using eq va by auto
qed

section \<open>Written data is plain JSON\<close>

lemma sanitize_id: "json_ok v \<Longrightarrow> sanitize v = v"
proof (induction v rule: sanitize.induct)
  case (1 f)
  then show ?case by (cases f) auto
next
  case (2 d)
  then show ?case by (auto simp: list_all_iff intro!: map_idI)
next
  case (3 xs)
  then show ?case by (auto simp: list_all_iff intro!: map_idI)
qed auto

lemma dump_fields_json_aux:
  assumes "canonical_fields fs d" and "json_fields d"
    and "\<And>k t dflt x. (k, t, dflt) \<in> set fs \<Longrightarrow> json_ok x \<Longrightarrow> canonical t x \<Longrightarrow> json_ok (dump_value t x)"
  shows "json_fields (dump_fields fs d)"
  using assms
proof (induction fs arbitrary: d)
  case (Cons f fs)
  obtain k t dflt where f: "f = (k, t, dflt)" by (cases f)
  obtain x d' where d: "d = (k, x) # d'" "canonical t x" "canonical_fields fs d'"
    using Cons.prems(1) f by (cases d) auto
  have "json_fields (dump_fields fs d')"
  proof (rule Cons.IH [OF d(3)])
    show "json_ok (dump_value t' y)" if "(k', t', dflt') \<in> set fs" "json_ok y" "canonical t' y"
      for k' t' dflt' y using that Cons.prems(3) [of k' t' dflt' y] by simp
  qed (use Cons.prems(2) d(1) in simp)
  then show ?case
    using f d Cons.prems(2) Cons.prems(3) [of k t dflt x] by simp
qed simp

lemma dump_value_json: "json_ok v \<Longrightarrow> canonical t v \<Longrightarrow> json_ok (dump_value t v)"
proof (induction t arbitrary: v)
  case (TOpt t)
  then show ?case using dump_value_None [of t v] by (cases "v = PyNone") auto
next
  case (TList t)
  then show ?case by (cases v) (auto simp: list_all_iff)
next
  case (TModel fs)
  then obtain d where v: "v = PyDict d" "canonical_fields fs d" by (cases v) auto
  have "json_fields (dump_fields fs d)"
  proof (rule dump_fields_json_aux [OF v(2)])
    show "json_ok (dump_value t x)" if "(k, t, dflt) \<in> set fs" "json_ok x" "canonical t x" for k t dflt x
      using TModel.IH [OF that(1), of "(t, dflt)" t x] that(2,3) by auto
  qed (use TModel.prems v(1) in \<open>auto simp del: json_ok.simps\<close>)
  then show ?case using v(1) by (simp del: json_ok.simps)
qed auto

end
