(* ===== verification/Agp_Events.thy ===== *)
theory Agp_Events
  imports Agp_Schema
begin

text \<open>
  The event catalogue (\<open>src/agloom/protocol/events.py\<close>): the literals, the data model of each
  event in the order of its fields, and \<open>event_catalogue\<close>, the union \<open>Event\<close> by its
  discriminator.
\<close>

section \<open>Literals\<close>

definition harness_sync_action :: "string list" where
  "harness_sync_action = [''seed'', ''append'', ''skip'']"

definition session_close_reason :: "string list" where
  "session_close_reason = [''completed'', ''user_aborted'', ''error'', ''shutdown'']"

definition hitl_kind :: "string list" where
  "hitl_kind = [''tool_approval'', ''pattern_approval'', ''worker_approval'', ''react_recovery'', ''clarification'']"

definition hitl_decision :: "string list" where
  "hitl_decision = [''accept'', ''reject'', ''allowlist'', ''retry'', ''stop'', ''timeout'', ''cancelled'']"

definition skill_loaded_source :: "string list" where
  "skill_loaded_source = [''tool'', ''disk'', ''registry'', ''seed'', ''on_demand'', ''post_run'']"

definition skill_applied_phase :: "string list" where
  "skill_applied_phase = [''classifier'', ''turn_planner'', ''worker'']"

definition skill_learned_source :: "string list" where
  "skill_learned_source = [''seed'', ''on_demand'', ''post_run'']"

definition prompt_requested_kind :: "string list" where
  "prompt_requested_kind = [''user_turn'']"

definition prompt_cancelled_reason :: "string list" where
  "prompt_cancelled_reason = [''user_aborted'', ''shutdown'']"

definition error_severity :: "string list" where
  "error_severity = [''transient'', ''fatal'']"

section \<open>Data models\<close>

definition session_opened_data :: fields where
  "session_opened_data =
     [(''runtime_version'', TStr, None), (''protocol_version'', TStr, None),
      (''capabilities_override'', (TOpt (TList TStr)), Some PyNone)]"

definition harness_plan_task_wire :: fields where
  "harness_plan_task_wire =
     [(''task_id'', TStr, None), (''description'', TStr, None),
      (''category'', TStr, Some (PyStr ''planned'')),
      (''priority'', TStr, Some (PyStr ''medium'')),
      (''verification_steps'', (TList TStr), Some (PyList []))]"

definition harness_ledger_task_wire :: fields where
  "harness_ledger_task_wire =
     [(''task_id'', TStr, None), (''description'', TStr, None),
      (''category'', TStr, Some (PyStr ''planned'')),
      (''status'', TStr, Some (PyStr ''pending'')),
      (''priority'', TStr, Some (PyStr ''medium'')),
      (''verification_step_count'', TInt, Some (PyInt 0))]"

definition pattern_classified_data :: fields where
  "pattern_classified_data =
     [(''pattern'', TStr, None), (''complexity'', (TOpt TInt), Some PyNone),
      (''confidence'', (TOpt TFloat), Some PyNone), (''reason'', (TOpt TStr), Some PyNone),
      (''harness_work_kind'', (TOpt TStr), Some PyNone),
      (''harness_plan'', (TList (TModel harness_plan_task_wire)), Some (PyList []))]"

definition plan_preview_data :: fields where
  "plan_preview_data =
     [(''pattern'', TStr, None), (''complexity'', TInt, Some (PyInt 0)),
      (''reasoning'', TStr, Some (PyStr [])), (''steps'', (TList TStr), Some (PyList [])),
      (''harness_work_kind'', (TOpt TStr), Some PyNone),
      (''harness_plan'', (TList (TModel harness_plan_task_wire)), Some (PyList []))]"

definition harness_synced_data :: fields where
  "harness_synced_data =
     [(''action'', (TLit harness_sync_action), None),
      (''tasks_synced'', TInt, Some (PyInt 0)), (''work_kind'', (TOpt TStr), Some PyNone),
      (''completion_ratio'', TFloat, Some (PyFloat (Fin 0))),
      (''task_count'', TInt, Some (PyInt 0)), (''ledger_revision'', TInt, Some (PyInt 0)),
      (''harness_plan'', (TList (TModel harness_plan_task_wire)), Some (PyList [])),
      (''tasks'', (TList (TModel harness_ledger_task_wire)), Some (PyList []))]"

definition harness_task_updated_data :: fields where
  "harness_task_updated_data =
     [(''task_id'', TStr, None), (''status'', TStr, None), (''notes'', TStr, Some (PyStr [])),
      (''project'', (TOpt TStr), Some PyNone), (''ledger_revision'', TInt, Some (PyInt 0))]"

definition thinking_step_data :: fields where
  "thinking_step_data =
     [(''step'', TStr, None), (''label'', (TOpt TStr), Some PyNone),
      (''detail'', (TOpt TStr), Some PyNone), (''elapsed_ms'', (TOpt TInt), Some PyNone)]"

definition progress_step_data :: fields where
  "progress_step_data =
     [(''phase'', TStr, None), (''label'', (TOpt TStr), Some PyNone),
      (''detail'', (TOpt TStr), Some PyNone), (''elapsed_ms'', (TOpt TInt), Some PyNone)]"

definition token_delta_data :: fields where
  "token_delta_data =
     [(''text'', TStr, None),
      (''role'', (TLit [''assistant'', ''tool'', ''reasoning'']), Some (PyStr ''assistant'')),
      (''message_id'', (TOpt TStr), Some PyNone)]"

definition message_assistant_data :: fields where
  "message_assistant_data =
     [(''content'', TStr, None), (''message_id'', (TOpt TStr), Some PyNone),
      (''run_id'', (TOpt TStr), Some PyNone), (''pattern'', (TOpt TStr), Some PyNone)]"

definition session_closed_data :: fields where
  "session_closed_data =
     [(''reason'', (TLit session_close_reason), None),
      (''duration_ms'', (TOpt TInt), Some PyNone), (''error'', (TOpt TStr), Some PyNone)]"

definition message_user_attachment_summary :: fields where
  "message_user_attachment_summary =
     [(''name'', TStr, None), (''mime_type'', TStr, None),
      (''byte_length'', TInt, Some (PyInt 0)), (''path'', (TOpt TStr), Some PyNone)]"

definition message_user_data :: fields where
  "message_user_data =
     [(''content'', TStr, None), (''message_id'', (TOpt TStr), Some PyNone),
      (''attachments'', (TOpt (TList (TModel message_user_attachment_summary))), Some PyNone)]"

definition tool_call_start_data :: fields where
  "tool_call_start_data =
     [(''tool'', TStr, None), (''tool_call_id'', TStr, None),
      (''args'', TDict, Some (PyDict [])), (''worker'', (TOpt TStr), Some PyNone)]"

definition tool_call_result_data :: fields where
  "tool_call_result_data =
     [(''tool'', TStr, None), (''tool_call_id'', TStr, None),
      (''output_preview'', TStr, Some (PyStr [])),
      (''output_bytes'', (TOpt TInt), Some PyNone),
      (''duration_ms'', (TOpt TInt), Some PyNone),
      (''truncated'', TBool, Some (PyBool False)), (''diff'', (TOpt TDict), Some PyNone)]"

definition tool_call_error_data :: fields where
  "tool_call_error_data =
     [(''tool'', TStr, None), (''tool_call_id'', TStr, None), (''error'', TStr, None),
      (''error_class'', (TOpt TStr), Some PyNone),
      (''duration_ms'', (TOpt TInt), Some PyNone)]"

definition worker_spawned_data :: fields where
  "worker_spawned_data =
     [(''worker_id'', TStr, None), (''name'', (TOpt TStr), Some PyNone),
      (''pattern'', (TOpt TStr), Some PyNone), (''task'', (TOpt TStr), Some PyNone),
      (''parent_worker_id'', (TOpt TStr), Some PyNone)]"

definition worker_completed_data :: fields where
  "worker_completed_data =
     [(''worker_id'', TStr, None), (''output_preview'', TStr, Some (PyStr [])),
      (''output_bytes'', (TOpt TInt), Some PyNone),
      (''duration_ms'', (TOpt TInt), Some PyNone),
      (''truncated'', TBool, Some (PyBool False))]"

definition worker_failed_data :: fields where
  "worker_failed_data =
     [(''worker_id'', TStr, None), (''error'', TStr, None),
      (''error_class'', (TOpt TStr), Some PyNone),
      (''duration_ms'', (TOpt TInt), Some PyNone)]"

definition worker_halted_data :: fields where
  "worker_halted_data =
     [(''worker_id'', TStr, None), (''reason'', TStr, Some (PyStr ''HALT_ALL'')),
      (''output_preview'', TStr, Some (PyStr [])),
      (''duration_ms'', (TOpt TInt), Some PyNone)]"

definition metric_tokens_data :: fields where
  "metric_tokens_data =
     [(''model'', (TOpt TStr), Some PyNone), (''input_tokens'', TInt, Some (PyInt 0)),
      (''output_tokens'', TInt, Some (PyInt 0)), (''total_tokens'', (TOpt TInt), Some PyNone),
      (''phase'', (TOpt TStr), Some PyNone), (''worker_id'', (TOpt TStr), Some PyNone)]"

definition metric_cost_data :: fields where
  "metric_cost_data =
     [(''cost'', TFloat, None), (''currency'', TStr, Some (PyStr ''USD'')),
      (''model'', (TOpt TStr), Some PyNone), (''phase'', (TOpt TStr), Some PyNone),
      (''worker_id'', (TOpt TStr), Some PyNone), (''estimated'', TBool, Some (PyBool False))]"

definition metric_budget_approaching_data :: fields where
  "metric_budget_approaching_data =
     [(''dimension'', (TLit [''tokens'', ''cost_usd'']), None), (''used'', TFloat, None),
      (''limit'', TFloat, None), (''ratio'', TFloat, None)]"

definition metric_budget_exhausted_data :: fields where
  "metric_budget_exhausted_data =
     [(''dimension'', (TLit [''tokens'', ''cost_usd'']), None), (''used'', TFloat, None),
      (''limit'', TFloat, None)]"

definition hitl_request_data :: fields where
  "hitl_request_data =
     [(''request_id'', TStr, None), (''kind'', (TLit hitl_kind), None),
      (''detail'', (TOpt TStr), Some PyNone), (''options'', (TList TStr), Some (PyList [])),
      (''default'', (TOpt TStr), Some PyNone), (''timeout_ms'', (TOpt TInt), Some PyNone),
      (''agent_name'', (TOpt TStr), Some PyNone), (''tool'', (TOpt TStr), Some PyNone),
      (''tool_call_id'', (TOpt TStr), Some PyNone), (''args'', TDict, Some (PyDict [])),
      (''worker'', (TOpt TStr), Some PyNone), (''pattern'', (TOpt TStr), Some PyNone),
      (''question'', (TOpt TStr), Some PyNone)]"

definition hitl_decision_data :: fields where
  "hitl_decision_data =
     [(''request_id'', TStr, None), (''decision'', (TLit hitl_decision), None),
      (''actor'', (TLit [''user'', ''auto'', ''timeout'']), Some (PyStr ''user'')),
      (''text'', (TOpt TStr), Some PyNone), (''detail'', (TOpt TStr), Some PyNone)]"

definition memory_session_write_data :: fields where
  "memory_session_write_data =
     [(''thread'', TStr, None), (''run_id'', (TOpt TStr), Some PyNone),
      (''query_preview'', (TOpt TStr), Some PyNone),
      (''output_preview'', (TOpt TStr), Some PyNone),
      (''turn_count'', (TOpt TInt), Some PyNone)]"

definition memory_session_cleared_data :: fields where
  "memory_session_cleared_data =
     [(''thread'', TStr, None)]"

definition memory_session_turn_popped_data :: fields where
  "memory_session_turn_popped_data =
     [(''thread'', TStr, None), (''remaining_turns'', TInt, None)]"

definition memory_lt_recall_data :: fields where
  "memory_lt_recall_data =
     [(''namespace'', (TOpt TStr), Some PyNone),
      (''query_preview'', (TOpt TStr), Some PyNone), (''hits'', TInt, Some (PyInt 0)),
      (''injected_chars'', TInt, Some (PyInt 0))]"

definition memory_lt_store_data :: fields where
  "memory_lt_store_data =
     [(''namespace'', (TOpt TStr), Some PyNone), (''key'', (TOpt TStr), Some PyNone),
      (''content_preview'', (TOpt TStr), Some PyNone)]"

definition context_summarized_data :: fields where
  "context_summarized_data =
     [(''scope'', (TLit [''session'', ''harness'', ''job'', ''injection'']), Some (PyStr ''session'')),
      (''turns_before'', (TOpt TInt), Some PyNone),
      (''turns_after'', (TOpt TInt), Some PyNone),
      (''tokens_before'', (TOpt TInt), Some PyNone),
      (''tokens_after'', (TOpt TInt), Some PyNone),
      (''artifact_refs'', (TList TStr), Some (PyList [])),
      (''content_hash'', (TOpt TStr), Some PyNone)]"

definition checkpoint_saved_data :: fields where
  "checkpoint_saved_data =
     [(''thread'', TStr, None), (''run_id'', (TOpt TStr), Some PyNone),
      (''label'', (TOpt TStr), Some PyNone)]"

definition checkpoint_restored_data :: fields where
  "checkpoint_restored_data =
     [(''thread'', TStr, None), (''resumed_from_run_id'', (TOpt TStr), Some PyNone)]"

definition feedback_scored_data :: fields where
  "feedback_scored_data =
     [(''run_id'', TStr, None), (''rating'', TStr, None),
      (''comment'', TStr, Some (PyStr [])), (''correct'', TStr, Some (PyStr [])),
      (''metadata'', (TOpt TDict), Some PyNone)]"

definition graph_node_enter_data :: fields where
  "graph_node_enter_data =
     [(''node'', TStr, None), (''pattern'', (TOpt TStr), Some PyNone),
      (''input_preview'', (TOpt TStr), Some PyNone)]"

definition graph_node_exit_data :: fields where
  "graph_node_exit_data =
     [(''node'', TStr, None), (''pattern'', (TOpt TStr), Some PyNone),
      (''duration_ms'', (TOpt TInt), Some PyNone),
      (''output_preview'', (TOpt TStr), Some PyNone), (''error'', (TOpt TStr), Some PyNone)]"

definition orchestration_step_data :: fields where
  "orchestration_step_data =
     [(''depth'', TInt, Some (PyInt 0)), (''pattern'', TStr, None), (''action'', TStr, None),
      (''worker_id'', (TOpt TStr), Some PyNone), (''reason'', (TOpt TStr), Some PyNone),
      (''input_preview'', (TOpt TStr), Some PyNone),
      (''output_preview'', (TOpt TStr), Some PyNone),
      (''duration_ms'', (TOpt TInt), Some PyNone), (''error'', (TOpt TStr), Some PyNone),
      (''confidence'', (TOpt TFloat), Some PyNone),
      (''quality_score'', (TOpt TFloat), Some PyNone)]"

definition skill_loaded_data :: fields where
  "skill_loaded_data =
     [(''skill_name'', TStr, None),
      (''source'', (TLit skill_loaded_source), Some (PyStr ''tool'')),
      (''version'', (TOpt TStr), Some PyNone), (''body_chars'', (TOpt TInt), Some PyNone)]"

definition skill_applied_data :: fields where
  "skill_applied_data =
     [(''phase'', (TLit skill_applied_phase), Some (PyStr ''turn_planner'')),
      (''injected_chars'', TInt, Some (PyInt 0)),
      (''skills'', (TList TStr), Some (PyList [])),
      (''context_preview'', TStr, Some (PyStr [])),
      (''truncated'', TBool, Some (PyBool False))]"

definition skill_learned_data :: fields where
  "skill_learned_data =
     [(''skill_name'', TStr, None), (''pattern'', (TOpt TStr), Some PyNone),
      (''scope'', (TOpt TStr), Some PyNone),
      (''source'', (TOpt (TLit skill_learned_source)), Some PyNone)]"

definition prompt_requested_data :: fields where
  "prompt_requested_data =
     [(''kind'', (TLit prompt_requested_kind), Some (PyStr ''user_turn'')),
      (''preview'', (TOpt TStr), Some PyNone)]"

definition prompt_cancelled_data :: fields where
  "prompt_cancelled_data =
     [(''reason'', (TLit prompt_cancelled_reason), None),
      (''detail'', (TOpt TStr), Some PyNone)]"

definition session_resumed_data :: fields where
  "session_resumed_data =
     [(''runtime_version'', TStr, None), (''protocol_version'', TStr, None),
      (''capabilities_override'', (TOpt (TList TStr)), Some PyNone),
      (''resumed_from_thread'', (TOpt TStr), Some PyNone),
      (''replayed_from_seq'', (TOpt TInt), Some PyNone)]"

definition runtime_ready_data :: fields where
  "runtime_ready_data =
     [(''agent_name'', (TOpt TStr), Some PyNone),
      (''cli_tools_enabled'', (TOpt TBool), Some PyNone),
      (''cli_tools_count'', (TOpt TInt), Some PyNone),
      (''harness_enabled'', (TOpt TBool), Some PyNone),
      (''session_memory_mode'', (TOpt TStr), Some PyNone),
      (''agent_store_kind'', (TOpt TStr), Some PyNone),
      (''mcp_servers_configured'', (TList TStr), Some (PyList []))]"

definition runtime_config_data :: fields where
  "runtime_config_data =
     [(''model_id'', (TOpt TStr), Some PyNone),
      (''tool_names'', (TList TStr), Some (PyList [])),
      (''capabilities'', (TList TStr), Some (PyList [])),
      (''cli_tools_enabled'', (TOpt TBool), Some PyNone),
      (''cli_tools_count'', (TOpt TInt), Some PyNone)]"

definition runtime_pong_data :: fields where
  "runtime_pong_data =
     [(''ping_id'', (TOpt TStr), Some PyNone)]"

definition runtime_schema_payload_data :: fields where
  "runtime_schema_payload_data =
     [(''json_schema'', TDict, Some (PyDict []))]"

definition runtime_tool_entry :: fields where
  "runtime_tool_entry =
     [(''name'', TStr, None), (''description'', (TOpt TStr), Some PyNone)]"

definition runtime_tools_payload_data :: fields where
  "runtime_tools_payload_data =
     [(''tools'', (TList (TModel runtime_tool_entry)), Some (PyList []))]"

definition runtime_provider_entry :: fields where
  "runtime_provider_entry =
     [(''slug'', TStr, None), (''label'', TStr, None), (''default_model'', TStr, None),
      (''primary_env_key'', (TOpt TStr), Some PyNone)]"

definition runtime_providers_payload_data :: fields where
  "runtime_providers_payload_data =
     [(''providers'', (TList (TModel runtime_provider_entry)), Some (PyList []))]"

definition runtime_sessions_payload_data :: fields where
  "runtime_sessions_payload_data =
     [(''sessions'', (TList TStr), Some (PyList []))]"

definition runtime_session_created_data :: fields where
  "runtime_session_created_data =
     [(''session_id'', TStr, None)]"

definition runtime_session_renamed_data :: fields where
  "runtime_session_renamed_data =
     [(''from_session_id'', TStr, None), (''to_session_id'', TStr, None)]"

definition runtime_file_staged_data :: fields where
  "runtime_file_staged_data =
     [(''path'', TStr, None), (''bytes'', TInt, None),
      (''thread'', (TOpt TStr), Some PyNone)]"

definition runtime_tool_invoke_result_data :: fields where
  "runtime_tool_invoke_result_data =
     [(''ok'', TBool, None), (''result'', TAny, Some PyNone),
      (''error'', (TOpt TStr), Some PyNone)]"

definition runtime_config_applied_data :: fields where
  "runtime_config_applied_data =
     [(''model_id'', (TOpt TStr), Some PyNone),
      (''cli_tools_enabled'', (TOpt TBool), Some PyNone),
      (''cli_tools_count'', (TOpt TInt), Some PyNone)]"

definition runtime_mcp_servers_data :: fields where
  "runtime_mcp_servers_data =
     [(''server_names'', (TList TStr), Some (PyList [])),
      (''servers'', (TList TDict), Some (PyList []))]"

definition todos_updated_data :: fields where
  "todos_updated_data =
     [(''items'', (TList TDict), Some (PyList []))]"

definition session_heartbeat_data :: fields where
  "session_heartbeat_data =
     [(''uptime_ms'', (TOpt TInt), Some PyNone)]"

definition agent_busy_data :: fields where
  "agent_busy_data =
     [(''thread'', (TOpt TStr), Some PyNone)]"

definition agent_idle_data :: fields where
  "agent_idle_data =
     [(''thread'', (TOpt TStr), Some PyNone)]"

definition message_tool_data :: fields where
  "message_tool_data =
     [(''tool_name'', TStr, None),
      (''phase'', (TLit [''start'', ''progress'', ''end'']), Some (PyStr ''progress'')),
      (''detail'', (TOpt TStr), Some PyNone), (''call_id'', (TOpt TStr), Some PyNone)]"

definition stream_heartbeat_data :: fields where
  "stream_heartbeat_data =
     [(''thread'', (TOpt TStr), Some PyNone),
      (''chars_since_last'', (TOpt TInt), Some PyNone)]"

definition error_data :: fields where
  "error_data =
     [(''severity'', (TLit error_severity), None), (''message'', TStr, None),
      (''error_class'', (TOpt TStr), Some PyNone), (''stage'', (TOpt TStr), Some PyNone),
      (''retryable'', TBool, Some (PyBool False))]"

section \<open>The union\<close>

definition event_catalogue :: "(string \<times> fields) list" where
  "event_catalogue =
     [(''session.opened'', session_opened_data),
      (''session.resumed'', session_resumed_data),
      (''runtime.ready'', runtime_ready_data),
      (''runtime.config'', runtime_config_data),
      (''runtime.pong'', runtime_pong_data),
      (''runtime.schema'', runtime_schema_payload_data),
      (''runtime.tools'', runtime_tools_payload_data),
      (''runtime.providers'', runtime_providers_payload_data),
      (''runtime.sessions'', runtime_sessions_payload_data),
      (''runtime.session.created'', runtime_session_created_data),
      (''runtime.session.renamed'', runtime_session_renamed_data),
      (''runtime.file.staged'', runtime_file_staged_data),
      (''runtime.tool.result'', runtime_tool_invoke_result_data),
      (''runtime.config.applied'', runtime_config_applied_data),
      (''runtime.mcp.servers'', runtime_mcp_servers_data),
      (''todos.updated'', todos_updated_data),
      (''session.heartbeat'', session_heartbeat_data),
      (''agent.busy'', agent_busy_data),
      (''agent.idle'', agent_idle_data),
      (''message.tool'', message_tool_data),
      (''stream.heartbeat'', stream_heartbeat_data),
      (''pattern.classified'', pattern_classified_data),
      (''plan.preview'', plan_preview_data),
      (''harness.synced'', harness_synced_data),
      (''harness.task.updated'', harness_task_updated_data),
      (''thinking.step'', thinking_step_data),
      (''progress.step'', progress_step_data),
      (''token.delta'', token_delta_data),
      (''message.user'', message_user_data),
      (''message.assistant'', message_assistant_data),
      (''tool.call.start'', tool_call_start_data),
      (''tool.call.result'', tool_call_result_data),
      (''tool.call.error'', tool_call_error_data),
      (''hitl.request'', hitl_request_data),
      (''hitl.granted'', hitl_decision_data),
      (''hitl.denied'', hitl_decision_data),
      (''hitl.allowlisted'', hitl_decision_data),
      (''worker.spawned'', worker_spawned_data),
      (''worker.completed'', worker_completed_data),
      (''worker.failed'', worker_failed_data),
      (''worker.halted'', worker_halted_data),
      (''graph.node.enter'', graph_node_enter_data),
      (''graph.node.exit'', graph_node_exit_data),
      (''orchestration.step'', orchestration_step_data),
      (''skill.loaded'', skill_loaded_data),
      (''skill.applied'', skill_applied_data),
      (''skill.learned'', skill_learned_data),
      (''prompt.requested'', prompt_requested_data),
      (''prompt.cancelled'', prompt_cancelled_data),
      (''memory.session.write'', memory_session_write_data),
      (''memory.session.cleared'', memory_session_cleared_data),
      (''memory.session.turn_popped'', memory_session_turn_popped_data),
      (''memory.lt.recall'', memory_lt_recall_data),
      (''memory.lt.store'', memory_lt_store_data),
      (''context.summarized'', context_summarized_data),
      (''checkpoint.saved'', checkpoint_saved_data),
      (''checkpoint.restored'', checkpoint_restored_data),
      (''feedback.scored'', feedback_scored_data),
      (''metric.tokens'', metric_tokens_data),
      (''metric.cost'', metric_cost_data),
      (''metric.budget.approaching'', metric_budget_approaching_data),
      (''metric.budget.exhausted'', metric_budget_exhausted_data),
      (''error.transient'', error_data),
      (''error.fatal'', error_data),
      (''session.closed'', session_closed_data)]"

lemmas literal_defs =
  harness_sync_action_def session_close_reason_def hitl_kind_def hitl_decision_def
  skill_loaded_source_def skill_applied_phase_def skill_learned_source_def
  prompt_requested_kind_def prompt_cancelled_reason_def error_severity_def

lemmas data_model_defs =
  session_opened_data_def harness_plan_task_wire_def harness_ledger_task_wire_def
  pattern_classified_data_def plan_preview_data_def harness_synced_data_def
  harness_task_updated_data_def thinking_step_data_def progress_step_data_def
  token_delta_data_def message_assistant_data_def session_closed_data_def
  message_user_attachment_summary_def message_user_data_def tool_call_start_data_def
  tool_call_result_data_def tool_call_error_data_def worker_spawned_data_def
  worker_completed_data_def worker_failed_data_def worker_halted_data_def
  metric_tokens_data_def metric_cost_data_def metric_budget_approaching_data_def
  metric_budget_exhausted_data_def hitl_request_data_def hitl_decision_data_def
  memory_session_write_data_def memory_session_cleared_data_def
  memory_session_turn_popped_data_def memory_lt_recall_data_def memory_lt_store_data_def
  context_summarized_data_def checkpoint_saved_data_def checkpoint_restored_data_def
  feedback_scored_data_def graph_node_enter_data_def graph_node_exit_data_def
  orchestration_step_data_def skill_loaded_data_def skill_applied_data_def
  skill_learned_data_def prompt_requested_data_def prompt_cancelled_data_def
  session_resumed_data_def runtime_ready_data_def runtime_config_data_def
  runtime_pong_data_def runtime_schema_payload_data_def runtime_tool_entry_def
  runtime_tools_payload_data_def runtime_provider_entry_def
  runtime_providers_payload_data_def runtime_sessions_payload_data_def
  runtime_session_created_data_def runtime_session_renamed_data_def
  runtime_file_staged_data_def runtime_tool_invoke_result_data_def
  runtime_config_applied_data_def runtime_mcp_servers_data_def todos_updated_data_def
  session_heartbeat_data_def agent_busy_data_def agent_idle_data_def message_tool_data_def
  stream_heartbeat_data_def error_data_def

end
