(* ===== verification/Agp_Emit.thy ===== *)
theory Agp_Emit
  imports Agp_Events
begin

text \<open>
  The typed emissions (\<open>SessionEmitter.emit_*\<close> in \<open>src/agloom/protocol/emitter.py\<close>). Each
  method builds an event class from its arguments and writes it; here it is a \<open>request\<close>: the
  event type, its data model, the arguments of the data model and the parent. \<open>issue\<close> is the
  common body: number, build, write. A method reads no other state of its emitter than
  \<open>own_caps\<close> (\<open>_capabilities\<close>) and \<open>own_thread\<close> (\<open>_thread\<close>), which are arguments.

  \<open>emit_message_user\<close> takes attachment objects (not their dictionaries), and
  \<open>emit_runtime_providers\<close> rows that have the keys it reads.
\<close>

section \<open>Requests\<close>

record request =
  rq_type :: string
  rq_fields :: fields
  rq_kwargs :: "pyval pydict"
  rq_parent :: "string option"
  rq_persist :: bool
  rq_data_first :: bool

definition request_of :: "string \<Rightarrow> fields \<Rightarrow> pyval pydict \<Rightarrow> string option \<Rightarrow> request" where
  "request_of typ fs kw parent =
     \<lparr>rq_type = typ, rq_fields = fs, rq_kwargs = kw, rq_parent = parent, rq_persist = True,
      rq_data_first = False\<rparr>"

text \<open>\<open>emit_error\<close> builds its data before it takes a number.\<close>

definition request_data_first ::
    "string \<Rightarrow> fields \<Rightarrow> pyval pydict \<Rightarrow> string option \<Rightarrow> bool \<Rightarrow> request" where
  "request_data_first typ fs kw parent persist =
     \<lparr>rq_type = typ, rq_fields = fs, rq_kwargs = kw, rq_parent = parent, rq_persist = persist,
      rq_data_first = True\<rparr>"

definition dump_model :: "fields \<Rightarrow> pyval \<Rightarrow> pyval pydict" where
  "dump_model fs v = (case dump_value (TModel fs) v of PyDict d \<Rightarrow> d | _ \<Rightarrow> [])"

text \<open>
  The keyword arguments of the event class are evaluated in order, the number before the
  data: data that does not validate leaves its number unused.
\<close>

definition issue ::
    "validator \<Rightarrow> mint \<Rightarrow> request \<Rightarrow> emitter \<times> session
       \<Rightarrow> (pyerror + envelope) \<times> emitter \<times> session" where
  "issue vld mint rq st =
     (let (em, s) = st
      in case vld (TModel (rq_fields rq)) (PyDict (rq_kwargs rq)) of
           None \<Rightarrow> (Inl (ValidationError (rq_type rq)),
                     em, if rq_data_first rq then s else snd (seq_next s))
         | Some v \<Rightarrow>
             (case emit_event mint (rq_type rq) (dump_model (rq_fields rq) v) (rq_parent rq)
                     (rq_persist rq) (em, s) of
                Inl err \<Rightarrow> (Inl err, em, snd (seq_next s))
              | Inr (e, st') \<Rightarrow> (Inr e, st')))"

text \<open>\<open>event_adapter\<close>: the class is chosen by \<open>type\<close>, its data validated.\<close>

definition parse_event :: "validator \<Rightarrow> event \<Rightarrow> (string \<times> pyval) option" where
  "parse_event vld d =
     (case map_of d ''type'' of
        Some (PyStr typ) \<Rightarrow>
          (case map_of event_catalogue typ of
             None \<Rightarrow> None
           | Some fs \<Rightarrow>
               (case map_of d ''data'' of
                  None \<Rightarrow> None
                | Some v \<Rightarrow> map_option (Pair typ) (vld (TModel fs) v)))
      | _ \<Rightarrow> None)"

text \<open>The validator that \<open>SkillAppliedData\<close> runs before its fields.\<close>

definition coerce_legacy_skill_names :: "pyval pydict \<Rightarrow> pyval pydict" where
  "coerce_legacy_skill_names d =
     (case (map_of d ''skill_names'', map_of d ''skills'') of
        (Some v, None) \<Rightarrow> AList.update ''skills'' v d
      | _ \<Rightarrow> d)"

section \<open>Arguments\<close>

fun opt_float :: "pyfloat option \<Rightarrow> pyval" where
  "opt_float None = PyNone"
| "opt_float (Some x) = PyFloat x"

fun opt_bool :: "bool option \<Rightarrow> pyval" where
  "opt_bool None = PyNone"
| "opt_bool (Some b) = PyBool b"

fun opt_dict :: "pyval pydict option \<Rightarrow> pyval" where
  "opt_dict None = PyNone"
| "opt_dict (Some d) = PyDict d"

fun list_or_empty :: "'a list option \<Rightarrow> 'a list" where
  "list_or_empty None = []"
| "list_or_empty (Some l) = l"

text \<open>\<open>skills or skill_names or []\<close> and \<open>thread or self._thread\<close>.\<close>

definition first_list :: "'a list option \<Rightarrow> 'a list option \<Rightarrow> 'a list" where
  "first_list a b = (case a of Some (x # xs) \<Rightarrow> x # xs | _ \<Rightarrow> list_or_empty b)"

definition str_or :: "string option \<Rightarrow> string \<Rightarrow> string" where
  "str_or a b = (case a of Some (c # s) \<Rightarrow> c # s | _ \<Rightarrow> b)"

record plan_task =
  pt_task_id :: string
  pt_description :: string
  pt_category :: string
  pt_priority :: string
  pt_verification_steps :: "string list"

definition plan_task_value :: "plan_task \<Rightarrow> pyval" where
  "plan_task_value t = PyDict
     [(''task_id'', PyStr (pt_task_id t)), (''description'', PyStr (pt_description t)),
      (''category'', PyStr (pt_category t)), (''priority'', PyStr (pt_priority t)),
      (''verification_steps'', PyList (map PyStr (pt_verification_steps t)))]"

record ledger_task =
  lt_task_id :: string
  lt_description :: string
  lt_category :: string
  lt_status :: string
  lt_priority :: string
  lt_verification_step_count :: int

definition ledger_task_value :: "ledger_task \<Rightarrow> pyval" where
  "ledger_task_value t = PyDict
     [(''task_id'', PyStr (lt_task_id t)), (''description'', PyStr (lt_description t)),
      (''category'', PyStr (lt_category t)), (''status'', PyStr (lt_status t)),
      (''priority'', PyStr (lt_priority t)),
      (''verification_step_count'', PyInt (lt_verification_step_count t))]"

record attachment =
  at_name :: string
  at_mime_type :: string
  at_byte_length :: int
  at_path :: "string option"

definition attachment_value :: "attachment \<Rightarrow> pyval" where
  "attachment_value a = PyDict
     [(''name'', PyStr (at_name a)), (''mime_type'', PyStr (at_mime_type a)),
      (''byte_length'', PyInt (at_byte_length a)), (''path'', opt_str (at_path a))]"

definition tool_entry_value :: "string \<times> string option \<Rightarrow> pyval" where
  "tool_entry_value nd = PyDict [(''name'', PyStr (fst nd)), (''description'', opt_str (snd nd))]"

record provider_row =
  pr_slug :: string
  pr_label :: string
  pr_default_model :: string
  pr_primary_env_key :: "string option"

definition provider_row_value :: "provider_row \<Rightarrow> pyval" where
  "provider_row_value r = PyDict
     [(''slug'', PyStr (pr_slug r)), (''label'', PyStr (pr_label r)),
      (''default_model'', PyStr (pr_default_model r)),
      (''primary_env_key'', opt_str (pr_primary_env_key r))]"

section \<open>Strings mapped to literals\<close>

definition lit_token_role :: "string \<Rightarrow> string" where
  "lit_token_role role =
     (if role \<in> {''assistant'', ''tool'', ''reasoning''} then role else ''assistant'')"

definition lit_hitl_actor :: "string \<Rightarrow> string" where
  "lit_hitl_actor actor = (if actor \<in> {''auto'', ''timeout'', ''user''} then actor else ''user'')"

definition lit_skill_loaded_source :: "string \<Rightarrow> string" where
  "lit_skill_loaded_source source =
     (if source \<in> {''disk'', ''on_demand'', ''post_run'', ''registry'', ''seed'', ''tool''}
      then source else ''tool'')"

definition lit_skill_applied_phase :: "string \<Rightarrow> string" where
  "lit_skill_applied_phase phase =
     (if phase \<in> {''classifier'', ''worker''} then phase else ''classifier'')"

fun lit_skill_learned_source :: "string option \<Rightarrow> string option" where
  "lit_skill_learned_source None = None"
| "lit_skill_learned_source (Some source) =
     Some (if source \<in> {''on_demand'', ''post_run'', ''seed''} then source else ''on_demand'')"

definition lit_prompt_kind :: "string \<Rightarrow> string" where
  "lit_prompt_kind kind = ''user_turn''"

definition lit_prompt_cancel_reason :: "string \<Rightarrow> string" where
  "lit_prompt_cancel_reason reason =
     (if reason \<in> {''shutdown'', ''user_aborted''} then reason else ''shutdown'')"

section \<open>The methods\<close>

definition emit_pattern_classified ::
    "string \<Rightarrow> int option \<Rightarrow> pyfloat option \<Rightarrow>
     string option \<Rightarrow> string option \<Rightarrow> plan_task list option \<Rightarrow>
     string option \<Rightarrow> request" where
  "emit_pattern_classified pattern complexity confidence reason harness_work_kind
     harness_plan parent =
     request_of ''pattern.classified'' pattern_classified_data
       [(''pattern'', PyStr pattern), (''complexity'', opt_int complexity),
        (''confidence'', opt_float confidence), (''reason'', opt_str reason),
        (''harness_work_kind'', opt_str harness_work_kind),
        (''harness_plan'', PyList (map plan_task_value (list_or_empty harness_plan)))] parent"

definition emit_plan_preview ::
    "string \<Rightarrow> int \<Rightarrow> string \<Rightarrow> string list option \<Rightarrow>
     string option \<Rightarrow> plan_task list option \<Rightarrow> string option \<Rightarrow>
     request" where
  "emit_plan_preview pattern complexity reasoning steps harness_work_kind harness_plan parent =
     request_of ''plan.preview'' plan_preview_data
       [(''pattern'', PyStr pattern), (''complexity'', PyInt complexity),
        (''reasoning'', PyStr reasoning), (''steps'', PyList (map PyStr (list_or_empty steps))),
        (''harness_work_kind'', opt_str harness_work_kind),
        (''harness_plan'', PyList (map plan_task_value (list_or_empty harness_plan)))] parent"

definition emit_harness_synced ::
    "string \<Rightarrow> int \<Rightarrow> string option \<Rightarrow> pyfloat \<Rightarrow>
     int \<Rightarrow> int \<Rightarrow> plan_task list option \<Rightarrow>
     ledger_task list option \<Rightarrow> string option \<Rightarrow> request" where
  "emit_harness_synced action tasks_synced work_kind completion_ratio task_count
     ledger_revision harness_plan tasks parent =
     request_of ''harness.synced'' harness_synced_data
       [(''action'', PyStr action), (''tasks_synced'', PyInt tasks_synced),
        (''work_kind'', opt_str work_kind), (''completion_ratio'', PyFloat completion_ratio),
        (''task_count'', PyInt task_count), (''ledger_revision'', PyInt ledger_revision),
        (''harness_plan'', PyList (map plan_task_value (list_or_empty harness_plan))),
        (''tasks'', PyList (map ledger_task_value (list_or_empty tasks)))] parent"

definition emit_harness_task_updated ::
    "string \<Rightarrow> string \<Rightarrow> string \<Rightarrow> string option \<Rightarrow>
     int \<Rightarrow> string option \<Rightarrow> request" where
  "emit_harness_task_updated task_id status notes project ledger_revision parent =
     request_of ''harness.task.updated'' harness_task_updated_data
       [(''task_id'', PyStr task_id), (''status'', PyStr status), (''notes'', PyStr notes),
        (''project'', opt_str project), (''ledger_revision'', PyInt ledger_revision)] parent"

definition emit_thinking_step ::
    "string \<Rightarrow> string option \<Rightarrow> string option \<Rightarrow>
     int option \<Rightarrow> string option \<Rightarrow> request" where
  "emit_thinking_step step label detail elapsed_ms parent =
     request_of ''thinking.step'' thinking_step_data
       [(''step'', PyStr step), (''label'', opt_str label), (''detail'', opt_str detail),
        (''elapsed_ms'', opt_int elapsed_ms)] parent"

definition emit_progress_step ::
    "string \<Rightarrow> string option \<Rightarrow> string option \<Rightarrow>
     int option \<Rightarrow> string option \<Rightarrow> request" where
  "emit_progress_step phase label detail elapsed_ms parent =
     request_of ''progress.step'' progress_step_data
       [(''phase'', PyStr phase), (''label'', opt_str label), (''detail'', opt_str detail),
        (''elapsed_ms'', opt_int elapsed_ms)] parent"

definition emit_token_delta ::
    "string \<Rightarrow> string \<Rightarrow> string option \<Rightarrow>
     string option \<Rightarrow> request" where
  "emit_token_delta txt role message_id parent =
     request_of ''token.delta'' token_delta_data
       [(''text'', PyStr txt), (''role'', PyStr (lit_token_role role)),
        (''message_id'', opt_str message_id)] parent"

definition emit_message_assistant ::
    "string \<Rightarrow> string option \<Rightarrow> string option \<Rightarrow>
     string option \<Rightarrow> string option \<Rightarrow> request" where
  "emit_message_assistant content message_id run_id pattern parent =
     request_of ''message.assistant'' message_assistant_data
       [(''content'', PyStr content), (''message_id'', opt_str message_id),
        (''run_id'', opt_str run_id), (''pattern'', opt_str pattern)] parent"

definition emit_message_user ::
    "string \<Rightarrow> string option \<Rightarrow> string option \<Rightarrow>
     attachment list option \<Rightarrow> request" where
  "emit_message_user content message_id parent attachments =
     request_of ''message.user'' message_user_data
       [(''content'', PyStr content), (''message_id'', opt_str message_id),
        (''attachments'', (case attachments of None \<Rightarrow> PyNone | Some l \<Rightarrow> if l = [] then PyNone else PyList (map attachment_value l)))] parent"

definition emit_tool_call_start ::
    "string \<Rightarrow> string \<Rightarrow> pyval pydict option \<Rightarrow>
     string option \<Rightarrow> string option \<Rightarrow> request" where
  "emit_tool_call_start tool tool_call_id args worker parent =
     request_of ''tool.call.start'' tool_call_start_data
       [(''tool'', PyStr tool), (''tool_call_id'', PyStr tool_call_id),
        (''args'', PyDict (list_or_empty args)), (''worker'', opt_str worker)] parent"

definition emit_tool_call_result ::
    "string \<Rightarrow> string \<Rightarrow> string \<Rightarrow> int option \<Rightarrow>
     int option \<Rightarrow> bool \<Rightarrow> pyval pydict option \<Rightarrow>
     string option \<Rightarrow> request" where
  "emit_tool_call_result tool tool_call_id output_preview output_bytes duration_ms truncated
     diff parent =
     request_of ''tool.call.result'' tool_call_result_data
       [(''tool'', PyStr tool), (''tool_call_id'', PyStr tool_call_id),
        (''output_preview'', PyStr output_preview), (''output_bytes'', opt_int output_bytes),
        (''duration_ms'', opt_int duration_ms), (''truncated'', PyBool truncated),
        (''diff'', opt_dict diff)] parent"

definition emit_tool_call_error ::
    "string \<Rightarrow> string \<Rightarrow> string \<Rightarrow> string option \<Rightarrow>
     int option \<Rightarrow> string option \<Rightarrow> request" where
  "emit_tool_call_error tool tool_call_id err error_class duration_ms parent =
     request_of ''tool.call.error'' tool_call_error_data
       [(''tool'', PyStr tool), (''tool_call_id'', PyStr tool_call_id), (''error'', PyStr err),
        (''error_class'', opt_str error_class), (''duration_ms'', opt_int duration_ms)] parent"

definition emit_hitl_request ::
    "string \<Rightarrow> string \<Rightarrow> string option \<Rightarrow>
     string list option \<Rightarrow> string option \<Rightarrow> int option \<Rightarrow>
     string option \<Rightarrow> string option \<Rightarrow> string option \<Rightarrow>
     pyval pydict option \<Rightarrow> string option \<Rightarrow> string option \<Rightarrow>
     string option \<Rightarrow> string option \<Rightarrow> request" where
  "emit_hitl_request request_id kind detail options dflt timeout_ms agent_name tool
     tool_call_id args worker pattern question parent =
     request_of ''hitl.request'' hitl_request_data
       [(''request_id'', PyStr request_id), (''kind'', PyStr kind),
        (''detail'', opt_str detail), (''options'', PyList (map PyStr (list_or_empty options))),
        (''default'', opt_str dflt), (''timeout_ms'', opt_int timeout_ms),
        (''agent_name'', opt_str agent_name), (''tool'', opt_str tool),
        (''tool_call_id'', opt_str tool_call_id), (''args'', PyDict (list_or_empty args)),
        (''worker'', opt_str worker), (''pattern'', opt_str pattern),
        (''question'', opt_str question)] parent"

definition emit_hitl_decision ::
    "string \<Rightarrow> string \<Rightarrow> string \<Rightarrow> string option \<Rightarrow>
     string option \<Rightarrow> string option \<Rightarrow> request" where
  "emit_hitl_decision request_id decision actor txt detail parent =
     request_of (if decision = ''accept'' \<or> decision = ''retry'' then ''hitl.granted''
        else if decision = ''allowlist'' then ''hitl.allowlisted'' else ''hitl.denied'') hitl_decision_data
       [(''request_id'', PyStr request_id), (''decision'', PyStr decision),
        (''actor'', PyStr (lit_hitl_actor actor)), (''text'', opt_str txt),
        (''detail'', opt_str detail)] parent"

definition emit_worker_spawned ::
    "string \<Rightarrow> string option \<Rightarrow> string option \<Rightarrow>
     string option \<Rightarrow> string option \<Rightarrow> string option \<Rightarrow> request" where
  "emit_worker_spawned worker_id name pattern task parent_worker_id parent =
     request_of ''worker.spawned'' worker_spawned_data
       [(''worker_id'', PyStr worker_id), (''name'', opt_str name),
        (''pattern'', opt_str pattern), (''task'', opt_str task),
        (''parent_worker_id'', opt_str parent_worker_id)] parent"

definition emit_worker_completed ::
    "string \<Rightarrow> string \<Rightarrow> int option \<Rightarrow> int option \<Rightarrow>
     bool \<Rightarrow> string option \<Rightarrow> request" where
  "emit_worker_completed worker_id output_preview output_bytes duration_ms truncated parent =
     request_of ''worker.completed'' worker_completed_data
       [(''worker_id'', PyStr worker_id), (''output_preview'', PyStr output_preview),
        (''output_bytes'', opt_int output_bytes), (''duration_ms'', opt_int duration_ms),
        (''truncated'', PyBool truncated)] parent"

definition emit_worker_failed ::
    "string \<Rightarrow> string \<Rightarrow> string option \<Rightarrow> int option \<Rightarrow>
     string option \<Rightarrow> request" where
  "emit_worker_failed worker_id err error_class duration_ms parent =
     request_of ''worker.failed'' worker_failed_data
       [(''worker_id'', PyStr worker_id), (''error'', PyStr err),
        (''error_class'', opt_str error_class), (''duration_ms'', opt_int duration_ms)] parent"

definition emit_worker_halted ::
    "string \<Rightarrow> string \<Rightarrow> string \<Rightarrow> int option \<Rightarrow>
     string option \<Rightarrow> request" where
  "emit_worker_halted worker_id reason output_preview duration_ms parent =
     request_of ''worker.halted'' worker_halted_data
       [(''worker_id'', PyStr worker_id), (''reason'', PyStr reason),
        (''output_preview'', PyStr output_preview), (''duration_ms'', opt_int duration_ms)] parent"

definition emit_orchestration_step ::
    "int \<Rightarrow> string \<Rightarrow> string \<Rightarrow> string option \<Rightarrow>
     string option \<Rightarrow> string option \<Rightarrow> string option \<Rightarrow>
     int option \<Rightarrow> string option \<Rightarrow> pyfloat option \<Rightarrow>
     pyfloat option \<Rightarrow> string option \<Rightarrow> request" where
  "emit_orchestration_step depth pattern action worker_id reason input_preview output_preview
     duration_ms err confidence quality_score parent =
     request_of ''orchestration.step'' orchestration_step_data
       [(''depth'', PyInt depth), (''pattern'', PyStr pattern), (''action'', PyStr action),
        (''worker_id'', opt_str worker_id), (''reason'', opt_str reason),
        (''input_preview'', opt_str input_preview),
        (''output_preview'', opt_str output_preview), (''duration_ms'', opt_int duration_ms),
        (''error'', opt_str err), (''confidence'', opt_float confidence),
        (''quality_score'', opt_float quality_score)] parent"

definition emit_graph_node_enter ::
    "string \<Rightarrow> string option \<Rightarrow> string option \<Rightarrow>
     string option \<Rightarrow> request" where
  "emit_graph_node_enter node pattern input_preview parent =
     request_of ''graph.node.enter'' graph_node_enter_data
       [(''node'', PyStr node), (''pattern'', opt_str pattern),
        (''input_preview'', opt_str input_preview)] parent"

definition emit_graph_node_exit ::
    "string \<Rightarrow> string option \<Rightarrow> int option \<Rightarrow>
     string option \<Rightarrow> string option \<Rightarrow> string option \<Rightarrow> request" where
  "emit_graph_node_exit node pattern duration_ms output_preview err parent =
     request_of ''graph.node.exit'' graph_node_exit_data
       [(''node'', PyStr node), (''pattern'', opt_str pattern),
        (''duration_ms'', opt_int duration_ms), (''output_preview'', opt_str output_preview),
        (''error'', opt_str err)] parent"

definition emit_skill_loaded ::
    "string \<Rightarrow> string \<Rightarrow> string option \<Rightarrow> int option \<Rightarrow>
     string option \<Rightarrow> request" where
  "emit_skill_loaded skill_name source version body_chars parent =
     request_of ''skill.loaded'' skill_loaded_data
       [(''skill_name'', PyStr skill_name),
        (''source'', PyStr (lit_skill_loaded_source source)), (''version'', opt_str version),
        (''body_chars'', opt_int body_chars)] parent"

definition emit_skill_applied ::
    "string \<Rightarrow> int \<Rightarrow> string list option \<Rightarrow>
     string list option \<Rightarrow> string \<Rightarrow> bool \<Rightarrow>
     string option \<Rightarrow> request" where
  "emit_skill_applied phase injected_chars skills skill_names context_preview truncated
     parent =
     request_of ''skill.applied'' skill_applied_data
       [(''phase'', PyStr (lit_skill_applied_phase phase)),
        (''injected_chars'', PyInt injected_chars),
        (''skills'', PyList (map PyStr (first_list skills skill_names))),
        (''context_preview'', PyStr context_preview), (''truncated'', PyBool truncated)] parent"

definition emit_skill_learned ::
    "string \<Rightarrow> string option \<Rightarrow> string option \<Rightarrow>
     string option \<Rightarrow> string option \<Rightarrow> request" where
  "emit_skill_learned skill_name pattern scope source parent =
     request_of ''skill.learned'' skill_learned_data
       [(''skill_name'', PyStr skill_name), (''pattern'', opt_str pattern),
        (''scope'', opt_str scope), (''source'', opt_str (lit_skill_learned_source source))] parent"

definition emit_prompt_requested ::
    "string \<Rightarrow> string option \<Rightarrow> string option \<Rightarrow> request" where
  "emit_prompt_requested kind preview parent =
     request_of ''prompt.requested'' prompt_requested_data
       [(''kind'', PyStr (lit_prompt_kind kind)), (''preview'', opt_str preview)] parent"

definition emit_prompt_cancelled ::
    "string \<Rightarrow> string option \<Rightarrow> string option \<Rightarrow> request" where
  "emit_prompt_cancelled reason detail parent =
     request_of ''prompt.cancelled'' prompt_cancelled_data
       [(''reason'', PyStr (lit_prompt_cancel_reason reason)), (''detail'', opt_str detail)] parent"

definition emit_checkpoint_saved ::
    "string \<Rightarrow> string option \<Rightarrow> string option \<Rightarrow>
     string option \<Rightarrow> request" where
  "emit_checkpoint_saved thread run_id label parent =
     request_of ''checkpoint.saved'' checkpoint_saved_data
       [(''thread'', PyStr thread), (''run_id'', opt_str run_id), (''label'', opt_str label)] parent"

definition emit_checkpoint_restored ::
    "string \<Rightarrow> string option \<Rightarrow> string option \<Rightarrow> request" where
  "emit_checkpoint_restored thread resumed_from_run_id parent =
     request_of ''checkpoint.restored'' checkpoint_restored_data
       [(''thread'', PyStr thread), (''resumed_from_run_id'', opt_str resumed_from_run_id)] parent"

definition emit_feedback_scored ::
    "string \<Rightarrow> string \<Rightarrow> string \<Rightarrow> string \<Rightarrow>
     pyval pydict option \<Rightarrow> string option \<Rightarrow> request" where
  "emit_feedback_scored run_id rating comment correct metadata parent =
     request_of ''feedback.scored'' feedback_scored_data
       [(''run_id'', PyStr run_id), (''rating'', PyStr rating), (''comment'', PyStr comment),
        (''correct'', PyStr correct), (''metadata'', opt_dict metadata)] parent"

definition emit_memory_session_write ::
    "string \<Rightarrow> string option \<Rightarrow> string option \<Rightarrow>
     string option \<Rightarrow> int option \<Rightarrow> string option \<Rightarrow> request" where
  "emit_memory_session_write thread run_id query_preview output_preview turn_count parent =
     request_of ''memory.session.write'' memory_session_write_data
       [(''thread'', PyStr thread), (''run_id'', opt_str run_id),
        (''query_preview'', opt_str query_preview),
        (''output_preview'', opt_str output_preview), (''turn_count'', opt_int turn_count)] parent"

definition emit_memory_session_cleared ::
    "string \<Rightarrow> string option \<Rightarrow> request" where
  "emit_memory_session_cleared thread parent =
     request_of ''memory.session.cleared'' memory_session_cleared_data
       [(''thread'', PyStr thread)] parent"

definition emit_memory_session_turn_popped ::
    "string \<Rightarrow> int \<Rightarrow> string option \<Rightarrow> request" where
  "emit_memory_session_turn_popped thread remaining_turns parent =
     request_of ''memory.session.turn_popped'' memory_session_turn_popped_data
       [(''thread'', PyStr thread), (''remaining_turns'', PyInt remaining_turns)] parent"

definition emit_memory_lt_recall ::
    "string option \<Rightarrow> string option \<Rightarrow> int \<Rightarrow> int \<Rightarrow>
     string option \<Rightarrow> request" where
  "emit_memory_lt_recall namespace query_preview hits injected_chars parent =
     request_of ''memory.lt.recall'' memory_lt_recall_data
       [(''namespace'', opt_str namespace), (''query_preview'', opt_str query_preview),
        (''hits'', PyInt hits), (''injected_chars'', PyInt injected_chars)] parent"

definition emit_memory_lt_store ::
    "string option \<Rightarrow> string option \<Rightarrow> string option \<Rightarrow>
     string option \<Rightarrow> request" where
  "emit_memory_lt_store namespace key_arg content_preview parent =
     request_of ''memory.lt.store'' memory_lt_store_data
       [(''namespace'', opt_str namespace), (''key'', opt_str key_arg),
        (''content_preview'', opt_str content_preview)] parent"

definition emit_context_summarized ::
    "string \<Rightarrow> int option \<Rightarrow> int option \<Rightarrow> int option \<Rightarrow>
     int option \<Rightarrow> string list option \<Rightarrow> string option \<Rightarrow>
     string option \<Rightarrow> request" where
  "emit_context_summarized scope turns_before turns_after tokens_before tokens_after
     artifact_refs content_hash parent =
     request_of ''context.summarized'' context_summarized_data
       [(''scope'', PyStr scope), (''turns_before'', opt_int turns_before),
        (''turns_after'', opt_int turns_after), (''tokens_before'', opt_int tokens_before),
        (''tokens_after'', opt_int tokens_after),
        (''artifact_refs'', PyList (map PyStr (list_or_empty artifact_refs))),
        (''content_hash'', opt_str content_hash)] parent"

definition emit_metric_tokens ::
    "int \<Rightarrow> int \<Rightarrow> int option \<Rightarrow> string option \<Rightarrow>
     string option \<Rightarrow> string option \<Rightarrow> string option \<Rightarrow> request" where
  "emit_metric_tokens input_tokens output_tokens total_tokens model phase worker_id parent =
     request_of ''metric.tokens'' metric_tokens_data
       [(''model'', opt_str model), (''input_tokens'', PyInt input_tokens),
        (''output_tokens'', PyInt output_tokens), (''total_tokens'', opt_int total_tokens),
        (''phase'', opt_str phase), (''worker_id'', opt_str worker_id)] parent"

definition emit_metric_cost ::
    "pyfloat \<Rightarrow> string \<Rightarrow> string option \<Rightarrow>
     string option \<Rightarrow> string option \<Rightarrow> bool \<Rightarrow>
     string option \<Rightarrow> request" where
  "emit_metric_cost cost currency model phase worker_id estimated parent =
     request_of ''metric.cost'' metric_cost_data
       [(''cost'', PyFloat cost), (''currency'', PyStr currency), (''model'', opt_str model),
        (''phase'', opt_str phase), (''worker_id'', opt_str worker_id),
        (''estimated'', PyBool estimated)] parent"

definition emit_metric_budget_approaching ::
    "string \<Rightarrow> pyfloat \<Rightarrow> pyfloat \<Rightarrow> pyfloat \<Rightarrow>
     string option \<Rightarrow> request" where
  "emit_metric_budget_approaching dimension used limit ratio parent =
     request_of ''metric.budget.approaching'' metric_budget_approaching_data
       [(''dimension'', PyStr dimension), (''used'', PyFloat used), (''limit'', PyFloat limit),
        (''ratio'', PyFloat ratio)] parent"

definition emit_metric_budget_exhausted ::
    "string \<Rightarrow> pyfloat \<Rightarrow> pyfloat \<Rightarrow> string option \<Rightarrow>
     request" where
  "emit_metric_budget_exhausted dimension used limit parent =
     request_of ''metric.budget.exhausted'' metric_budget_exhausted_data
       [(''dimension'', PyStr dimension), (''used'', PyFloat used), (''limit'', PyFloat limit)] parent"

definition emit_runtime_ready ::
    "string option \<Rightarrow> bool option \<Rightarrow> int option \<Rightarrow>
     bool option \<Rightarrow> string option \<Rightarrow> string option \<Rightarrow>
     string list option \<Rightarrow> string option \<Rightarrow> request" where
  "emit_runtime_ready agent_name cli_tools_enabled cli_tools_count harness_enabled
     session_memory_mode agent_store_kind mcp_servers_configured parent =
     request_of ''runtime.ready'' runtime_ready_data
       [(''agent_name'', opt_str agent_name),
        (''cli_tools_enabled'', opt_bool cli_tools_enabled),
        (''cli_tools_count'', opt_int cli_tools_count),
        (''harness_enabled'', opt_bool harness_enabled),
        (''session_memory_mode'', opt_str session_memory_mode),
        (''agent_store_kind'', opt_str agent_store_kind),
        (''mcp_servers_configured'', PyList (map PyStr (list_or_empty mcp_servers_configured)))] parent"

definition emit_runtime_config ::
    "string list \<Rightarrow> string option \<Rightarrow> string list option \<Rightarrow>
     string list option \<Rightarrow> bool option \<Rightarrow> int option \<Rightarrow>
     string option \<Rightarrow> request" where
  "emit_runtime_config own_caps model_id tool_names capabilities cli_tools_enabled
     cli_tools_count parent =
     request_of ''runtime.config'' runtime_config_data
       [(''model_id'', opt_str model_id),
        (''tool_names'', PyList (map PyStr (list_or_empty tool_names))),
        (''capabilities'', PyList (map PyStr (case capabilities of Some l \<Rightarrow> l | None \<Rightarrow> own_caps))),
        (''cli_tools_enabled'', opt_bool cli_tools_enabled),
        (''cli_tools_count'', opt_int cli_tools_count)] parent"

definition emit_runtime_pong ::
    "string option \<Rightarrow> string option \<Rightarrow> request" where
  "emit_runtime_pong ping_id parent =
     request_of ''runtime.pong'' runtime_pong_data
       [(''ping_id'', opt_str ping_id)] parent"

definition emit_runtime_schema ::
    "pyval pydict \<Rightarrow> string option \<Rightarrow> request" where
  "emit_runtime_schema json_schema parent =
     request_of ''runtime.schema'' runtime_schema_payload_data
       [(''json_schema'', PyDict json_schema)] parent"

definition emit_runtime_tools ::
    "(string \<times> string option) list \<Rightarrow> string option \<Rightarrow> request" where
  "emit_runtime_tools tools parent =
     request_of ''runtime.tools'' runtime_tools_payload_data
       [(''tools'', PyList (map tool_entry_value tools))] parent"

definition emit_runtime_providers ::
    "provider_row list \<Rightarrow> string option \<Rightarrow> request" where
  "emit_runtime_providers providers parent =
     request_of ''runtime.providers'' runtime_providers_payload_data
       [(''providers'', PyList (map provider_row_value providers))] parent"

definition emit_runtime_sessions ::
    "string list \<Rightarrow> string option \<Rightarrow> request" where
  "emit_runtime_sessions sessions parent =
     request_of ''runtime.sessions'' runtime_sessions_payload_data
       [(''sessions'', PyList (map PyStr sessions))] parent"

definition emit_runtime_session_created ::
    "string \<Rightarrow> string option \<Rightarrow> request" where
  "emit_runtime_session_created session_id parent =
     request_of ''runtime.session.created'' runtime_session_created_data
       [(''session_id'', PyStr session_id)] parent"

definition emit_runtime_session_renamed ::
    "string \<Rightarrow> string \<Rightarrow> string option \<Rightarrow> request" where
  "emit_runtime_session_renamed from_session_id to_session_id parent =
     request_of ''runtime.session.renamed'' runtime_session_renamed_data
       [(''from_session_id'', PyStr from_session_id), (''to_session_id'', PyStr to_session_id)] parent"

definition emit_runtime_file_staged ::
    "string \<Rightarrow> int \<Rightarrow> string option \<Rightarrow> string option \<Rightarrow>
     request" where
  "emit_runtime_file_staged path nbytes thread parent =
     request_of ''runtime.file.staged'' runtime_file_staged_data
       [(''path'', PyStr path), (''bytes'', PyInt nbytes), (''thread'', opt_str thread)] parent"

definition emit_runtime_tool_result ::
    "bool \<Rightarrow> pyval \<Rightarrow> string option \<Rightarrow> string option \<Rightarrow>
     request" where
  "emit_runtime_tool_result ok result err parent =
     request_of ''runtime.tool.result'' runtime_tool_invoke_result_data
       [(''ok'', PyBool ok), (''result'', result), (''error'', opt_str err)] parent"

definition emit_runtime_config_applied ::
    "string option \<Rightarrow> bool option \<Rightarrow> int option \<Rightarrow>
     string option \<Rightarrow> request" where
  "emit_runtime_config_applied model_id cli_tools_enabled cli_tools_count parent =
     request_of ''runtime.config.applied'' runtime_config_applied_data
       [(''model_id'', opt_str model_id), (''cli_tools_enabled'', opt_bool cli_tools_enabled),
        (''cli_tools_count'', opt_int cli_tools_count)] parent"

definition emit_runtime_mcp_servers ::
    "string list \<Rightarrow> pyval pydict list option \<Rightarrow> string option \<Rightarrow>
     request" where
  "emit_runtime_mcp_servers server_names servers parent =
     request_of ''runtime.mcp.servers'' runtime_mcp_servers_data
       [(''server_names'', PyList (map PyStr server_names)),
        (''servers'', PyList (map PyDict (list_or_empty servers)))] parent"

definition emit_todos_updated ::
    "pyval pydict list \<Rightarrow> string option \<Rightarrow> request" where
  "emit_todos_updated items parent =
     request_of ''todos.updated'' todos_updated_data
       [(''items'', PyList (map PyDict items))] parent"

definition emit_session_heartbeat ::
    "int option \<Rightarrow> string option \<Rightarrow> request" where
  "emit_session_heartbeat uptime_ms parent =
     request_of ''session.heartbeat'' session_heartbeat_data
       [(''uptime_ms'', opt_int uptime_ms)] parent"

definition emit_agent_busy ::
    "string \<Rightarrow> string option \<Rightarrow> string option \<Rightarrow> request" where
  "emit_agent_busy own_thread thread parent =
     request_of ''agent.busy'' agent_busy_data
       [(''thread'', PyStr (str_or thread own_thread))] parent"

definition emit_agent_idle ::
    "string \<Rightarrow> string option \<Rightarrow> string option \<Rightarrow> request" where
  "emit_agent_idle own_thread thread parent =
     request_of ''agent.idle'' agent_idle_data
       [(''thread'', PyStr (str_or thread own_thread))] parent"

definition emit_message_tool ::
    "string \<Rightarrow> string \<Rightarrow> string option \<Rightarrow>
     string option \<Rightarrow> string option \<Rightarrow> request" where
  "emit_message_tool tool_name phase detail call_id parent =
     request_of ''message.tool'' message_tool_data
       [(''tool_name'', PyStr tool_name), (''phase'', PyStr phase),
        (''detail'', opt_str detail), (''call_id'', opt_str call_id)] parent"

definition emit_stream_heartbeat ::
    "string \<Rightarrow> string option \<Rightarrow> int option \<Rightarrow>
     string option \<Rightarrow> request" where
  "emit_stream_heartbeat own_thread thread chars_since_last parent =
     request_of ''stream.heartbeat'' stream_heartbeat_data
       [(''thread'', PyStr (str_or thread own_thread)),
        (''chars_since_last'', opt_int chars_since_last)] parent"

definition emit_error ::
    "string \<Rightarrow> string \<Rightarrow> string option \<Rightarrow>
     string option \<Rightarrow> bool \<Rightarrow> string option \<Rightarrow> bool \<Rightarrow>
     request" where
  "emit_error severity message error_class stage retryable parent persist =
     request_data_first (if severity = ''fatal'' then ''error.fatal'' else ''error.transient'') error_data
       [(''severity'', PyStr severity), (''message'', PyStr message),
        (''error_class'', opt_str error_class), (''stage'', opt_str stage),
        (''retryable'', PyBool retryable)] parent persist"

text \<open>A request of one of the methods, with any arguments.\<close>

inductive typed_request :: "request \<Rightarrow> bool" where
  "typed_request (emit_pattern_classified pattern complexity confidence reason harness_work_kind
       harness_plan parent)"
| "typed_request (emit_plan_preview pattern complexity reasoning steps harness_work_kind harness_plan
       parent)"
| "typed_request (emit_harness_synced action tasks_synced work_kind completion_ratio task_count
       ledger_revision harness_plan tasks parent)"
| "typed_request (emit_harness_task_updated task_id status notes project ledger_revision parent)"
| "typed_request (emit_thinking_step step label detail elapsed_ms parent)"
| "typed_request (emit_progress_step phase label detail elapsed_ms parent)"
| "typed_request (emit_token_delta txt role message_id parent)"
| "typed_request (emit_message_assistant content message_id run_id pattern parent)"
| "typed_request (emit_message_user content message_id parent attachments)"
| "typed_request (emit_tool_call_start tool tool_call_id args worker parent)"
| "typed_request (emit_tool_call_result tool tool_call_id output_preview output_bytes duration_ms
       truncated diff parent)"
| "typed_request (emit_tool_call_error tool tool_call_id err error_class duration_ms parent)"
| "typed_request (emit_hitl_request request_id kind detail options dflt timeout_ms agent_name tool
       tool_call_id args worker pattern question parent)"
| "typed_request (emit_hitl_decision request_id decision actor txt detail parent)"
| "typed_request (emit_worker_spawned worker_id name pattern task parent_worker_id parent)"
| "typed_request (emit_worker_completed worker_id output_preview output_bytes duration_ms truncated parent)"
| "typed_request (emit_worker_failed worker_id err error_class duration_ms parent)"
| "typed_request (emit_worker_halted worker_id reason output_preview duration_ms parent)"
| "typed_request (emit_orchestration_step depth pattern action worker_id reason input_preview
       output_preview duration_ms err confidence quality_score parent)"
| "typed_request (emit_graph_node_enter node pattern input_preview parent)"
| "typed_request (emit_graph_node_exit node pattern duration_ms output_preview err parent)"
| "typed_request (emit_skill_loaded skill_name source version body_chars parent)"
| "typed_request (emit_skill_applied phase injected_chars skills skill_names context_preview truncated
       parent)"
| "typed_request (emit_skill_learned skill_name pattern scope source parent)"
| "typed_request (emit_prompt_requested kind preview parent)"
| "typed_request (emit_prompt_cancelled reason detail parent)"
| "typed_request (emit_checkpoint_saved thread run_id label parent)"
| "typed_request (emit_checkpoint_restored thread resumed_from_run_id parent)"
| "typed_request (emit_feedback_scored run_id rating comment correct metadata parent)"
| "typed_request (emit_memory_session_write thread run_id query_preview output_preview turn_count parent)"
| "typed_request (emit_memory_session_cleared thread parent)"
| "typed_request (emit_memory_session_turn_popped thread remaining_turns parent)"
| "typed_request (emit_memory_lt_recall namespace query_preview hits injected_chars parent)"
| "typed_request (emit_memory_lt_store namespace key_arg content_preview parent)"
| "typed_request (emit_context_summarized scope turns_before turns_after tokens_before tokens_after
       artifact_refs content_hash parent)"
| "typed_request (emit_metric_tokens input_tokens output_tokens total_tokens model phase worker_id parent)"
| "typed_request (emit_metric_cost cost currency model phase worker_id estimated parent)"
| "typed_request (emit_metric_budget_approaching dimension used limit ratio parent)"
| "typed_request (emit_metric_budget_exhausted dimension used limit parent)"
| "typed_request (emit_runtime_ready agent_name cli_tools_enabled cli_tools_count harness_enabled
       session_memory_mode agent_store_kind mcp_servers_configured parent)"
| "typed_request (emit_runtime_config own_caps model_id tool_names capabilities cli_tools_enabled
       cli_tools_count parent)"
| "typed_request (emit_runtime_pong ping_id parent)"
| "typed_request (emit_runtime_schema json_schema parent)"
| "typed_request (emit_runtime_tools tools parent)"
| "typed_request (emit_runtime_providers providers parent)"
| "typed_request (emit_runtime_sessions sessions parent)"
| "typed_request (emit_runtime_session_created session_id parent)"
| "typed_request (emit_runtime_session_renamed from_session_id to_session_id parent)"
| "typed_request (emit_runtime_file_staged path nbytes thread parent)"
| "typed_request (emit_runtime_tool_result ok result err parent)"
| "typed_request (emit_runtime_config_applied model_id cli_tools_enabled cli_tools_count parent)"
| "typed_request (emit_runtime_mcp_servers server_names servers parent)"
| "typed_request (emit_todos_updated items parent)"
| "typed_request (emit_session_heartbeat uptime_ms parent)"
| "typed_request (emit_agent_busy own_thread thread parent)"
| "typed_request (emit_agent_idle own_thread thread parent)"
| "typed_request (emit_message_tool tool_name phase detail call_id parent)"
| "typed_request (emit_stream_heartbeat own_thread thread chars_since_last parent)"
| "typed_request (emit_error severity message error_class stage retryable parent persist)"

lemmas request_defs =
  emit_pattern_classified_def emit_plan_preview_def emit_harness_synced_def
  emit_harness_task_updated_def emit_thinking_step_def emit_progress_step_def
  emit_token_delta_def emit_message_assistant_def emit_message_user_def
  emit_tool_call_start_def emit_tool_call_result_def emit_tool_call_error_def
  emit_hitl_request_def emit_hitl_decision_def emit_worker_spawned_def
  emit_worker_completed_def emit_worker_failed_def emit_worker_halted_def
  emit_orchestration_step_def emit_graph_node_enter_def emit_graph_node_exit_def
  emit_skill_loaded_def emit_skill_applied_def emit_skill_learned_def
  emit_prompt_requested_def emit_prompt_cancelled_def emit_checkpoint_saved_def
  emit_checkpoint_restored_def emit_feedback_scored_def emit_memory_session_write_def
  emit_memory_session_cleared_def emit_memory_session_turn_popped_def
  emit_memory_lt_recall_def emit_memory_lt_store_def emit_context_summarized_def
  emit_metric_tokens_def emit_metric_cost_def emit_metric_budget_approaching_def
  emit_metric_budget_exhausted_def emit_runtime_ready_def emit_runtime_config_def
  emit_runtime_pong_def emit_runtime_schema_def emit_runtime_tools_def
  emit_runtime_providers_def emit_runtime_sessions_def emit_runtime_session_created_def
  emit_runtime_session_renamed_def emit_runtime_file_staged_def
  emit_runtime_tool_result_def emit_runtime_config_applied_def
  emit_runtime_mcp_servers_def emit_todos_updated_def emit_session_heartbeat_def
  emit_agent_busy_def emit_agent_idle_def emit_message_tool_def emit_stream_heartbeat_def
  emit_error_def

section \<open>Every request fits the catalogue\<close>

lemma catalogue_readable: "list_all (\<lambda>tf. readable_fields (snd tf)) event_catalogue"
  by (simp add: event_catalogue_def data_model_defs literal_defs)

lemma catalogue_distinct: "distinct (map fst event_catalogue)"
  by (simp add: event_catalogue_def)

named_theorems arg_simps \<open>arguments have their declared type\<close>

lemma canonical_opt [arg_simps]:
  "canonical (TOpt TStr) (opt_str s)" "canonical (TOpt TInt) (opt_int i)"
  "canonical (TOpt TFloat) (opt_float x)" "canonical (TOpt TBool) (opt_bool b)"
  "canonical (TOpt TDict) (opt_dict d)"
  by (cases s; cases i; cases x; cases b; cases d; simp)+

lemma canonical_basic [arg_simps]:
  "canonical TStr (PyStr s)" "canonical TInt (PyInt i)" "canonical TFloat (PyFloat x)"
  "canonical TBool (PyBool b)" "canonical TDict (PyDict d)" "canonical TAny v"
  by simp_all

lemma canonical_lists [arg_simps]:
  "canonical (TList TStr) (PyList (map PyStr l))" "canonical (TList TDict) (PyList (map PyDict ds))"
  "canonical (TList (TModel harness_plan_task_wire)) (PyList (map plan_task_value ps))"
  "canonical (TList (TModel harness_ledger_task_wire)) (PyList (map ledger_task_value ls))"
  "canonical (TList (TModel message_user_attachment_summary)) (PyList (map attachment_value as))"
  "canonical (TList (TModel runtime_tool_entry)) (PyList (map tool_entry_value ts))"
  "canonical (TList (TModel runtime_provider_entry)) (PyList (map provider_row_value rs))"
  by (simp_all add: list_all_iff plan_task_value_def ledger_task_value_def attachment_value_def
      tool_entry_value_def provider_row_value_def data_model_defs canonical_opt del: canonical.simps(8))

lemmas canonical_lists_unfolded [arg_simps] = canonical_lists(3-7) [unfolded data_model_defs]

lemma canonical_learned [arg_simps]:
  "canonical (TOpt (TLit skill_learned_source)) (opt_str (lit_skill_learned_source s))"
  by (cases s) (auto simp: literal_defs)

lemma canonical_attachments [arg_simps]:
  "canonical (TOpt (TList (TModel message_user_attachment_summary)))
     (case a of None \<Rightarrow> PyNone
      | Some l \<Rightarrow> if l = [] then PyNone else PyList (map attachment_value l))"
  using canonical_lists(5) by (auto split: option.split)

lemmas canonical_attachments_unfolded [arg_simps] = canonical_attachments [unfolded data_model_defs]

lemma arg_typed_canonical: "canonical t x \<Longrightarrow> arg_typed t x"
  by (simp add: arg_typed_def)

lemma arg_typed_literal: "arg_typed (TLit xs) (PyStr s)"
  by (simp add: arg_typed_def)

lemma arg_typed_more: "arg_typed TAny v" "arg_typed (TOpt TStr) (PyStr s)"
  by (simp_all add: arg_typed_def)

lemma typed_request_args:
  "typed_request rq \<Longrightarrow> args_typed (rq_fields rq) (rq_kwargs rq)"
  by (induction rule: typed_request.induct)
     (simp_all add: request_defs request_of_def request_data_first_def args_typed_def data_model_defs
       arg_typed_canonical arg_typed_literal arg_typed_more arg_simps del: canonical.simps)

lemma catalogue_members:
  "(''session.opened'', session_opened_data) \<in> set event_catalogue"
  "(''session.resumed'', session_resumed_data) \<in> set event_catalogue"
  "(''runtime.ready'', runtime_ready_data) \<in> set event_catalogue"
  "(''runtime.config'', runtime_config_data) \<in> set event_catalogue"
  "(''runtime.pong'', runtime_pong_data) \<in> set event_catalogue"
  "(''runtime.schema'', runtime_schema_payload_data) \<in> set event_catalogue"
  "(''runtime.tools'', runtime_tools_payload_data) \<in> set event_catalogue"
  "(''runtime.providers'', runtime_providers_payload_data) \<in> set event_catalogue"
  "(''runtime.sessions'', runtime_sessions_payload_data) \<in> set event_catalogue"
  "(''runtime.session.created'', runtime_session_created_data) \<in> set event_catalogue"
  "(''runtime.session.renamed'', runtime_session_renamed_data) \<in> set event_catalogue"
  "(''runtime.file.staged'', runtime_file_staged_data) \<in> set event_catalogue"
  "(''runtime.tool.result'', runtime_tool_invoke_result_data) \<in> set event_catalogue"
  "(''runtime.config.applied'', runtime_config_applied_data) \<in> set event_catalogue"
  "(''runtime.mcp.servers'', runtime_mcp_servers_data) \<in> set event_catalogue"
  "(''todos.updated'', todos_updated_data) \<in> set event_catalogue"
  "(''session.heartbeat'', session_heartbeat_data) \<in> set event_catalogue"
  "(''agent.busy'', agent_busy_data) \<in> set event_catalogue"
  "(''agent.idle'', agent_idle_data) \<in> set event_catalogue"
  "(''message.tool'', message_tool_data) \<in> set event_catalogue"
  "(''stream.heartbeat'', stream_heartbeat_data) \<in> set event_catalogue"
  "(''pattern.classified'', pattern_classified_data) \<in> set event_catalogue"
  "(''plan.preview'', plan_preview_data) \<in> set event_catalogue"
  "(''harness.synced'', harness_synced_data) \<in> set event_catalogue"
  "(''harness.task.updated'', harness_task_updated_data) \<in> set event_catalogue"
  "(''thinking.step'', thinking_step_data) \<in> set event_catalogue"
  "(''progress.step'', progress_step_data) \<in> set event_catalogue"
  "(''token.delta'', token_delta_data) \<in> set event_catalogue"
  "(''message.user'', message_user_data) \<in> set event_catalogue"
  "(''message.assistant'', message_assistant_data) \<in> set event_catalogue"
  "(''tool.call.start'', tool_call_start_data) \<in> set event_catalogue"
  "(''tool.call.result'', tool_call_result_data) \<in> set event_catalogue"
  "(''tool.call.error'', tool_call_error_data) \<in> set event_catalogue"
  "(''hitl.request'', hitl_request_data) \<in> set event_catalogue"
  "(''hitl.granted'', hitl_decision_data) \<in> set event_catalogue"
  "(''hitl.denied'', hitl_decision_data) \<in> set event_catalogue"
  "(''hitl.allowlisted'', hitl_decision_data) \<in> set event_catalogue"
  "(''worker.spawned'', worker_spawned_data) \<in> set event_catalogue"
  "(''worker.completed'', worker_completed_data) \<in> set event_catalogue"
  "(''worker.failed'', worker_failed_data) \<in> set event_catalogue"
  "(''worker.halted'', worker_halted_data) \<in> set event_catalogue"
  "(''graph.node.enter'', graph_node_enter_data) \<in> set event_catalogue"
  "(''graph.node.exit'', graph_node_exit_data) \<in> set event_catalogue"
  "(''orchestration.step'', orchestration_step_data) \<in> set event_catalogue"
  "(''skill.loaded'', skill_loaded_data) \<in> set event_catalogue"
  "(''skill.applied'', skill_applied_data) \<in> set event_catalogue"
  "(''skill.learned'', skill_learned_data) \<in> set event_catalogue"
  "(''prompt.requested'', prompt_requested_data) \<in> set event_catalogue"
  "(''prompt.cancelled'', prompt_cancelled_data) \<in> set event_catalogue"
  "(''memory.session.write'', memory_session_write_data) \<in> set event_catalogue"
  "(''memory.session.cleared'', memory_session_cleared_data) \<in> set event_catalogue"
  "(''memory.session.turn_popped'', memory_session_turn_popped_data) \<in> set event_catalogue"
  "(''memory.lt.recall'', memory_lt_recall_data) \<in> set event_catalogue"
  "(''memory.lt.store'', memory_lt_store_data) \<in> set event_catalogue"
  "(''context.summarized'', context_summarized_data) \<in> set event_catalogue"
  "(''checkpoint.saved'', checkpoint_saved_data) \<in> set event_catalogue"
  "(''checkpoint.restored'', checkpoint_restored_data) \<in> set event_catalogue"
  "(''feedback.scored'', feedback_scored_data) \<in> set event_catalogue"
  "(''metric.tokens'', metric_tokens_data) \<in> set event_catalogue"
  "(''metric.cost'', metric_cost_data) \<in> set event_catalogue"
  "(''metric.budget.approaching'', metric_budget_approaching_data) \<in> set event_catalogue"
  "(''metric.budget.exhausted'', metric_budget_exhausted_data) \<in> set event_catalogue"
  "(''error.transient'', error_data) \<in> set event_catalogue"
  "(''error.fatal'', error_data) \<in> set event_catalogue"
  "(''session.closed'', session_closed_data) \<in> set event_catalogue"
  unfolding event_catalogue_def list.set(2) by (rule insertI1 | rule insertI2)+

lemmas catalogue_lookup = catalogue_members [THEN map_of_is_SomeI [OF catalogue_distinct]]

text \<open>The data model a method builds is the one the catalogue has for the event's type.\<close>

lemma typed_request_catalogued:
  "typed_request rq \<Longrightarrow> map_of event_catalogue (rq_type rq) = Some (rq_fields rq)"
  by (induction rule: typed_request.induct)
     (simp_all add: request_defs request_of_def request_data_first_def catalogue_lookup)

lemma catalogued_readable:
  assumes "map_of event_catalogue typ = Some fs"
  shows "readable_fields fs"
  using map_of_SomeD [OF assms] catalogue_readable by (auto simp: list_all_iff)

section \<open>Issuing a request\<close>

lemma emit_event_fields:
  assumes "emit_event mint typ data parent persist (em, s) = Inr (e, em', s')"
  shows "ev_type e = typ \<and> ev_data e = data \<and> ev_seq e = ss_seq s + 1 \<and> ev_parent e = parent"
proof -
  obtain e0 s1 where b: "build_event mint typ data parent (em, s) = (e0, s1)" by fastforce
  then have "e = e0" using assms by (auto simp: emit_event_def Let_def split: sum.splits)
  then show ?thesis using b by (auto simp: build_event_def seq_next_def Let_def split: prod.splits)
qed

lemma event_to_dict_data:
  assumes "json_fields (ev_data e)"
  shows "map_of (event_to_dict e) ''type'' = Some (PyStr (ev_type e))"
    and "map_of (event_to_dict e) ''data'' = Some (PyDict (ev_data e))"
proof -
  have "sanitize (PyDict (ev_data e)) = PyDict (ev_data e)"
    using assms by (intro sanitize_id) (simp del: json_ok.simps)
  then show "map_of (event_to_dict e) ''type'' = Some (PyStr (ev_type e))"
    and "map_of (event_to_dict e) ''data'' = Some (PyDict (ev_data e))"
    by (simp_all add: event_to_dict_def dump_event_def opt_field_def split: option.split)
qed

lemma dump_model_json:
  assumes "canonical_fields fs d" and "json_fields d"
  shows "dump_value (TModel fs) (PyDict d) = PyDict (dump_model fs (PyDict d))"
    and "json_fields (dump_model fs (PyDict d))"
proof -
  show eq: "dump_value (TModel fs) (PyDict d) = PyDict (dump_model fs (PyDict d))"
    by (simp add: dump_model_def)
  have "json_ok (dump_value (TModel fs) (PyDict d))"
    using assms by (intro dump_value_json) (simp_all del: json_ok.simps)
  then show "json_fields (dump_model fs (PyDict d))" using eq by (simp del: json_ok.simps)
qed

lemma issue_cases:
  assumes "issue vld mint rq (em, s) = (Inr e, st)"
  obtains v em' s' where "vld (TModel (rq_fields rq)) (PyDict (rq_kwargs rq)) = Some v"
    and "emit_event mint (rq_type rq) (dump_model (rq_fields rq) v) (rq_parent rq)
           (rq_persist rq) (em, s) = Inr (e, em', s')" and "st = (em', s')"
  using assms by (auto simp: issue_def Let_def split: option.splits sum.splits)

section \<open>Properties\<close>

text \<open>
  C6. For every \<open>emit_*\<close> method and all arguments without NaN or infinity, the event written is
  read back by \<open>event_adapter\<close> as the same event class with exactly the data the method
  built: leaving out the fields that are \<open>None\<close> loses nothing, and the class written is the one
  the catalogue has for its type.
\<close>

theorem typed_events_read_back:
  assumes "pydantic_laws vld" and "typed_request rq" and "json_fields (rq_kwargs rq)"
    and "issue vld mint rq (em, s) = (Inr e, st)"
  shows "\<exists>d. vld (TModel (rq_fields rq)) (PyDict (rq_kwargs rq)) = Some (PyDict d)
    \<and> parse_event vld (event_to_dict (with_trace em e)) = Some (rq_type rq, PyDict d)"
proof -
  obtain v em' s' where v: "vld (TModel (rq_fields rq)) (PyDict (rq_kwargs rq)) = Some v"
    and em: "emit_event mint (rq_type rq) (dump_model (rq_fields rq) v) (rq_parent rq)
           (rq_persist rq) (em, s) = Inr (e, em', s')"
    using issue_cases [OF assms(4)] by metis
  have cat: "map_of event_catalogue (rq_type rq) = Some (rq_fields rq)"
    by (rule typed_request_catalogued [OF assms(2)])
  note rd = catalogued_readable [OF cat]
  obtain d where d: "v = PyDict d" "canonical_fields (rq_fields rq) d" "json_fields d"
    using build_args(2) [OF assms(1) rd typed_request_args [OF assms(2)] v] assms(3) by blast
  note dm = dump_model_json [OF d(2,3)]
  have "vld (TModel (rq_fields rq)) (PyDict (dump_model (rq_fields rq) v)) = Some (PyDict d)"
    using validate_dump [OF assms(1), of "TModel (rq_fields rq)" "PyDict d"] d(1,2) rd dm(1) by simp
  moreover have "ev_type (with_trace em e) = rq_type rq"
    "ev_data (with_trace em e) = dump_model (rq_fields rq) v"
    using emit_event_fields [OF em] by simp_all
  ultimately have "parse_event vld (event_to_dict (with_trace em e)) = Some (rq_type rq, PyDict d)"
    using event_to_dict_data [of "with_trace em e"] dm(2) d(1) cat by (simp add: parse_event_def)
  then show ?thesis using v d(1) by blast
qed

lemma typed_events_read_back_witness:
  "\<exists>e d. fst (issue exact_validate demo_mint (emit_token_delta ''hi'' ''tool'' None None)
            (emitter_init Sync_emitter ''s1'' ''t1'' False False, session_init 0)) = Inr e
     \<and> parse_event exact_validate (event_to_dict (with_trace
            (emitter_init Sync_emitter ''s1'' ''t1'' False False) e)) = Some (''token.delta'', PyDict d)"
proof -
  let ?em = "emitter_init Sync_emitter ''s1'' ''t1'' False False"
  let ?rq = "emit_token_delta ''hi'' ''tool'' None None"
  have rq: "typed_request ?rq" "json_fields (rq_kwargs ?rq)" "rq_type ?rq = ''token.delta''"
    by (rule typed_request.intros) (simp_all add: emit_token_delta_def request_of_def)
  have "vld = exact_validate \<Longrightarrow> \<exists>e st. issue vld demo_mint ?rq (?em, session_init 0) = (Inr e, st)" for vld
    by (simp add: issue_def emit_token_delta_def request_of_def token_delta_data_def
        lit_token_role_def extra_fields_def emit_event_def build_event_def seq_next_def
        write_event_def write_unstored_def wire_step_def subscription_allows_wire_def
        session_init_def emitter_init_def demo_mint_def Let_def)
  then obtain e st where i: "issue exact_validate demo_mint ?rq (?em, session_init 0) = (Inr e, st)"
    by blast
  show ?thesis
    using typed_events_read_back [OF exact_validate_laws rq(1,2) i] i rq(3) by auto
qed

lemma issue_outcome:
  assumes "pydantic_laws vld" and "typed_request rq" and "whole sid em"
  shows "\<exists>r em' s'. issue vld mint rq (em, s) = (r, em', s')
    \<and> (if literals_ok (rq_fields rq) (rq_kwargs rq)
       then (\<exists>e. r = Inr e) \<and> emitted em (rq_type rq) s s'
       else r = Inl (ValidationError (rq_type rq)) \<and> em' = em \<and> ss_log s' = ss_log s
         \<and> ss_seq s' = ss_seq s + (if rq_data_first rq then 0 else 1))"
proof -
  note rd = catalogued_readable [OF typed_request_catalogued [OF assms(2)]]
  note ba = build_args(1) [OF assms(1) rd typed_request_args [OF assms(2)]]
  show ?thesis
  proof (cases "literals_ok (rq_fields rq) (rq_kwargs rq)")
    case True
    then obtain v where v: "vld (TModel (rq_fields rq)) (PyDict (rq_kwargs rq)) = Some v"
      using ba by blast
    have "em_kind em = Sync_emitter" using assms(3) by (simp add: whole_def)
    obtain e0 s1 where b: "build_event mint (rq_type rq) (dump_model (rq_fields rq) v)
        (rq_parent rq) (em, s) = (e0, s1)" by fastforce
    obtain em' s' where w: "write_event mint (rq_persist rq) e0 (em, s1) = Inr (em', s')"
        "emitted em (rq_type rq) s s'"
      using emit_steps [OF \<open>em_kind em = Sync_emitter\<close> b refl refl refl] by blast
    have "issue vld mint rq (em, s) = (Inr e0, em', s')"
      using v b w(1) by (simp add: issue_def emit_event_def Let_def)
    then show ?thesis using True w(2) by auto
  next
    case False
    then have "vld (TModel (rq_fields rq)) (PyDict (rq_kwargs rq)) = None" using ba by blast
    then show ?thesis using False by (simp add: issue_def seq_next_def)
  qed
qed

text \<open>
  What one typed emission does to a session: when every literal argument is a member of its
  literal, exactly one event of the method's type is logged with the next number (and at most
  drop notices after it); otherwise the method raises and logs nothing, but its sequence number
  is used up, so the session's numbers have a gap. Only \<open>emit_error\<close> raises without using one.
\<close>

theorem rejected_emission_leaves_gap:
  assumes "pydantic_laws vld" and "typed_request rq" and "whole sid em"
  shows "\<exists>r em' s'. issue vld mint rq (em, s) = (r, em', s')
    \<and> (if literals_ok (rq_fields rq) (rq_kwargs rq)
       then (\<exists>e. r = Inr e) \<and> emitted em (rq_type rq) s s'
       else r = Inl (ValidationError (rq_type rq)) \<and> em' = em \<and> ss_log s' = ss_log s
         \<and> ss_seq s' = ss_seq s + (if rq_data_first rq then 0 else 1))"
  by (rule issue_outcome [OF assms])

lemma rejected_emission_leaves_gap_witness:
  "\<exists>em' s'. issue exact_validate demo_mint
       (emit_hitl_request ''r1'' ''unknown'' None None None None None None None None None None None None)
       (emitter_init Sync_emitter ''s1'' ''t1'' False False, session_init 0)
     = (Inl (ValidationError ''hitl.request''), em', s') \<and> ss_seq s' = 1 \<and> ss_log s' = []"
proof -
  let ?em = "emitter_init Sync_emitter ''s1'' ''t1'' False False"
  let ?rq = "emit_hitl_request ''r1'' ''unknown'' None None None None None None None None None None None None"
  have t: "typed_request ?rq" by (rule typed_request.intros)
  have w: "whole ''s1'' ?em" by (simp add: whole_def emitter_init_def)
  have "\<not> literals_ok (rq_fields ?rq) (rq_kwargs ?rq)" "rq_type ?rq = ''hitl.request''"
    "\<not> rq_data_first ?rq"
    by (simp_all add: emit_hitl_request_def request_of_def literals_ok_def hitl_request_data_def
        hitl_kind_def)
  then show ?thesis
    using rejected_emission_leaves_gap [OF exact_validate_laws t w, of demo_mint "session_init 0"]
    by (auto simp: session_init_def)
qed

text \<open>
  A \<open>metric.cost\<close> event whose cost is NaN or infinite is emitted, but its wire form does not
  read back: the non-finite number is replaced by null, and \<open>cost\<close> is a required number.
\<close>

theorem non_finite_cost_unreadable:
  assumes "pydantic_laws vld" and "whole sid em" and "\<forall>r. cost \<noteq> Fin r"
  shows "\<exists>e st. issue vld mint (emit_metric_cost cost cur model phase wid est parent) (em, s) = (Inr e, st)
    \<and> parse_event vld (event_to_dict (with_trace em e)) = None"
proof -
  let ?rq = "emit_metric_cost cost cur model phase wid est parent"
  let ?full = "[(''cost'', PyFloat cost), (''currency'', PyStr cur), (''model'', opt_str model),
      (''phase'', opt_str phase), (''worker_id'', opt_str wid), (''estimated'', PyBool est)]"
  have rq: "typed_request ?rq" by (rule typed_request.intros)
  have flds: "rq_type ?rq = ''metric.cost''" "rq_fields ?rq = metric_cost_data" "rq_kwargs ?rq = ?full"
    by (simp_all add: emit_metric_cost_def request_of_def)
  have lits: "literals_ok (rq_fields ?rq) (rq_kwargs ?rq)"
    unfolding flds
    by (cases model; cases phase; cases wid) (simp_all add: literals_ok_def metric_cost_data_def)
  obtain e st where i: "issue vld mint ?rq (em, s) = (Inr e, st)"
    using issue_outcome [OF assms(1) rq assms(2), of mint s] lits by fastforce
  have full: "vld (TModel metric_cost_data) (PyDict ?full) = Some (PyDict ?full)"
    by (rule validate_canonical [OF assms(1)])
       (cases model; cases phase; cases wid; simp add: metric_cost_data_def)+
  obtain em' s' where em: "emit_event mint ''metric.cost'' (dump_model metric_cost_data (PyDict ?full))
      (rq_parent ?rq) (rq_persist ?rq) (em, s) = Inr (e, em', s')"
    using issue_cases [OF i] full flds by (metis option.inject)
  note ef = emit_event_fields [OF em]
  have data: "map_of (dump_model metric_cost_data (PyDict ?full)) ''cost'' = Some (PyFloat cost)"
    by (simp add: dump_model_def metric_cost_data_def)
  obtain d where d: "sanitize (PyDict (ev_data e)) = PyDict d" "map_of d ''cost'' = Some PyNone"
    using data ef assms(3) map_of_map [of sanitize "ev_data e"]
    by (cases cost) (auto simp: case_prod_unfold)
  have "vld (TModel metric_cost_data) (PyDict d) = None"
    using d(2) pydantic_lawsD(11,12) [OF assms(1)]
    by (simp add: validate_model_def metric_cost_data_def)
  moreover have "map_of event_catalogue ''metric.cost'' = Some metric_cost_data"
    using typed_request_catalogued [OF rq] flds by simp
  ultimately have "parse_event vld (event_to_dict (with_trace em e)) = None"
    using ef d(1) by (simp add: parse_event_def event_to_dict_def dump_event_def opt_field_def
        split: option.split)
  then show ?thesis using i by blast
qed

lemma non_finite_cost_unreadable_witness:
  "\<exists>e st. issue exact_validate demo_mint (emit_metric_cost NaN ''USD'' None None None False None)
        (emitter_init Sync_emitter ''s1'' ''t1'' False False, session_init 0) = (Inr e, st)
    \<and> parse_event exact_validate (event_to_dict (with_trace
        (emitter_init Sync_emitter ''s1'' ''t1'' False False) e)) = None"
  by (rule non_finite_cost_unreadable [OF exact_validate_laws, of "''s1''"])
     (simp_all add: whole_def emitter_init_def)

text \<open>
  A skill injection of the turn planner is reported as one of the classifier: the method
  keeps the phases \<open>classifier\<close> and \<open>worker\<close> only, although \<open>turn_planner\<close> is a phase of the data
  model (its default) and the one the runtime passes.
\<close>

theorem turn_planner_phase_lost:
  "map_of (rq_kwargs (emit_skill_applied ''turn_planner'' n skills names preview trunc parent)) ''phase''
     = Some (PyStr ''classifier'')
   \<and> ''turn_planner'' \<in> set skill_applied_phase
   \<and> (\<exists>t. map_of skill_applied_data ''phase'' = Some (t, Some (PyStr ''turn_planner'')))"
  by (simp add: emit_skill_applied_def request_of_def lit_skill_applied_phase_def
      skill_applied_phase_def skill_applied_data_def)

end
