(* ===== verification/Hitl_Policy.thy ===== *)
theory Hitl_Policy
  imports Agloom_Prelude "HOL-Library.Char_ord" "HOL-Library.List_Lexorder"
begin

text \<open>
  What spares a tool call its approval prompt: the session allowlist with its two kinds of
  grant and its files (\<open>src/agloom/runtime/hitl_allowlist.py\<close>), and the same-turn coalescer of
  \<open>read_file\<close> (\<open>src/agloom/patterns/hitl_tool_coalesce.py\<close>).

  Arguments of the model: \<open>resolve\<close> stands for \<open>Path(raw).resolve\<close> (with the fallback to
  \<open>as_posix\<close>), on POSIX; \<open>int_of_str\<close> for \<open>int\<close> on a string; \<open>other_str\<close> for \<open>str\<close> on a value
  that is no string. A Python set of names is a list without duplicates.
\<close>

section \<open>The allowlist\<close>

record policy =
  al_tools :: "string list"
  al_paths :: "string list pydict"

definition empty_policy :: policy where
  "empty_policy = \<lparr>al_tools = [], al_paths = []\<rparr>"

definition set_add :: "'a \<Rightarrow> 'a list \<Rightarrow> 'a list" where
  "set_add x xs = (if x \<in> set xs then xs else xs @ [x])"

text \<open>\<open>{"read_file", "notebook_read"} & set(TOOL_SAFETY)\<close>: both have a safety class.\<close>

definition path_scoped_allowlist_tools :: "string list" where
  "path_scoped_allowlist_tools = [''read_file'', ''notebook_read'']"

definition canonical_read_path :: "(string \<Rightarrow> string) \<Rightarrow> string \<Rightarrow> string" where
  "canonical_read_path resolve path = (let raw = py_strip path in if raw = [] then [] else resolve raw)"

definition path_from_tool_args ::
    "(string \<Rightarrow> string) \<Rightarrow> string \<Rightarrow> pyval pydict \<Rightarrow> string option" where
  "path_from_tool_args resolve tool args =
     (if tool \<notin> set path_scoped_allowlist_tools then None
      else case map_of args ''path'' of
             Some (PyStr raw) \<Rightarrow> if blank raw then None else Some (canonical_read_path resolve raw)
           | _ \<Rightarrow> None)"

definition path_matches_prefix :: "string \<Rightarrow> string \<Rightarrow> bool" where
  "path_matches_prefix canon pre \<longleftrightarrow> canon = pre \<or> startswith canon (pre @ ''/'')"

definition allows :: "(string \<Rightarrow> string) \<Rightarrow> policy \<Rightarrow> string \<Rightarrow> pyval pydict \<Rightarrow> bool" where
  "allows resolve p tool args \<longleftrightarrow>
     tool \<in> set (al_tools p)
     \<or> (case map_of (al_paths p) tool of
          None \<Rightarrow> False
        | Some pres \<Rightarrow>
            (case path_from_tool_args resolve tool args of
               None \<Rightarrow> False
             | Some canon \<Rightarrow> canon \<noteq> [] \<and> list_ex (path_matches_prefix canon) pres))"

definition add_global_tool :: "string \<Rightarrow> policy \<Rightarrow> policy" where
  "add_global_tool tool p = p\<lparr>al_tools := set_add tool (al_tools p)\<rparr>"

definition add_path_prefix :: "string \<Rightarrow> string \<Rightarrow> policy \<Rightarrow> policy" where
  "add_path_prefix tool canon p =
     (let lst = (case map_of (al_paths p) tool of None \<Rightarrow> [] | Some l \<Rightarrow> l)
      in p\<lparr>al_paths := AList.update tool (set_add canon lst) (al_paths p)\<rparr>)"

definition apply_allowlist_decision ::
    "(string \<Rightarrow> string) \<Rightarrow> string \<Rightarrow> pyval pydict \<Rightarrow> policy \<Rightarrow> policy" where
  "apply_allowlist_decision resolve tool args p =
     (case (if tool \<in> set path_scoped_allowlist_tools then path_from_tool_args resolve tool args
            else None) of
        Some canon \<Rightarrow> if canon = [] then add_global_tool tool p else add_path_prefix tool canon p
      | None \<Rightarrow> add_global_tool tool p)"

text \<open>The allowlist of a session is a policy, a plain set of names, or absent.\<close>

datatype allowlist = No_allowlist | Name_set "string list" | Policy policy

fun is_hitl_allowlisted ::
    "(string \<Rightarrow> string) \<Rightarrow> allowlist \<Rightarrow> string \<Rightarrow> pyval pydict \<Rightarrow> bool" where
  "is_hitl_allowlisted resolve No_allowlist tool args = False"
| "is_hitl_allowlisted resolve (Policy p) tool args = allows resolve p tool args"
| "is_hitl_allowlisted resolve (Name_set ns) tool args = (tool \<in> set ns)"

fun apply_hitl_allowlist_decision ::
    "(string \<Rightarrow> string) \<Rightarrow> string \<Rightarrow> pyval pydict \<Rightarrow> allowlist \<Rightarrow> allowlist" where
  "apply_hitl_allowlist_decision resolve tool args No_allowlist = No_allowlist"
| "apply_hitl_allowlist_decision resolve tool args (Policy p) =
     (if tool = [] then Policy p else Policy (apply_allowlist_decision resolve tool args p))"
| "apply_hitl_allowlist_decision resolve tool args (Name_set ns) =
     (if tool = [] then Name_set ns else Name_set (set_add tool ns))"

section \<open>The files\<close>

text \<open>\<open>str(x).strip()\<close> of the entries, without the empty ones.\<close>

definition cleaned_prefixes :: "(pyval \<Rightarrow> string) \<Rightarrow> pyval list \<Rightarrow> string list" where
  "cleaned_prefixes other_str xs =
     filter (\<lambda>s. s \<noteq> []) (map (\<lambda>v. py_strip (case v of PyStr s \<Rightarrow> s | _ \<Rightarrow> other_str v)) xs)"

definition stripped_names :: "(pyval \<Rightarrow> string) \<Rightarrow> pyval list \<Rightarrow> string list" where
  "stripped_names other_str xs = remdups (cleaned_prefixes other_str xs)"

definition load_path_rules :: "(pyval \<Rightarrow> string) \<Rightarrow> pyval pydict \<Rightarrow> string list pydict" where
  "load_path_rules other_str d =
     fold (\<lambda>(tool, v) rules.
             case v of
               PyList pres \<Rightarrow>
                 (let cleaned = cleaned_prefixes other_str pres
                  in if cleaned = [] then rules else AList.update (py_strip tool) cleaned rules)
             | _ \<Rightarrow> rules) d []"

text \<open>The marker is the parsed JSON object; a missing or unreadable file is the empty one.\<close>

definition load_policy_from_session_marker :: "(pyval \<Rightarrow> string) \<Rightarrow> pyval pydict \<Rightarrow> policy" where
  "load_policy_from_session_marker other_str marker =
     \<lparr>al_tools = (case map_of marker ''hitl_tool_allowlist'' of
                    Some (PyList xs) \<Rightarrow> stripped_names other_str xs | _ \<Rightarrow> []),
      al_paths = (case map_of marker ''hitl_path_allowlist'' of
                    Some (PyDict d) \<Rightarrow> load_path_rules other_str d | _ \<Rightarrow> [])\<rparr>"

definition save_policy_to_session_marker :: "policy \<Rightarrow> pyval pydict \<Rightarrow> pyval pydict" where
  "save_policy_to_session_marker p marker =
     (let m = AList.update ''hitl_tool_allowlist'' (PyList (map PyStr (sort (al_tools p)))) marker
      in if al_paths p \<noteq> [] then
           AList.update ''hitl_path_allowlist''
             (PyDict (map (\<lambda>(k, v). (k, PyList (map PyStr (sort v)))) (sort_key fst (al_paths p)))) m
         else if map_of m ''hitl_path_allowlist'' \<noteq> None then
           AList.update ''hitl_path_allowlist'' (PyDict []) m
         else m)"

definition load_tool_allowlist :: "(pyval \<Rightarrow> string) \<Rightarrow> pyval \<Rightarrow> string list" where
  "load_tool_allowlist other_str data =
     (case data of
        PyDict d \<Rightarrow> (case map_of d ''tools'' of Some (PyList xs) \<Rightarrow> stripped_names other_str xs | _ \<Rightarrow> [])
      | _ \<Rightarrow> [])"

definition save_tool_allowlist :: "string list \<Rightarrow> pyval" where
  "save_tool_allowlist tools = PyDict [(''tools'', PyList (map PyStr (sort tools)))]"

text \<open>
  Where a session finds its allowlist and where it keeps it: the explicit file, the shared
  file under \<open>.agloom\<close>, or the session's marker (seeded from the shared file when it grants
  nothing). \<open>None\<close> for the marker is a missing file.
\<close>

datatype allowlist_target = Keep_nowhere | Keep_in_file string | Keep_in_marker string

definition hitl_allowlist_paths_for_runtime ::
    "(pyval \<Rightarrow> string) \<Rightarrow> bool \<Rightarrow> string option \<Rightarrow> bool \<Rightarrow> string option \<Rightarrow> string
       \<Rightarrow> (string \<Rightarrow> pyval) \<Rightarrow> (string \<Rightarrow> pyval pydict option) \<Rightarrow> policy \<times> allowlist_target" where
  "hitl_allowlist_paths_for_runtime other_str no_persist explicit session_scoped marker_path global_path
       read_file read_marker =
     (if no_persist then (empty_policy, Keep_nowhere)
      else case (case explicit of Some p \<Rightarrow> if blank p then None else Some p | None \<Rightarrow> None) of
        Some p \<Rightarrow> (empty_policy\<lparr>al_tools := load_tool_allowlist other_str (read_file p)\<rparr>, Keep_in_file p)
      | None \<Rightarrow>
          (case (if session_scoped then marker_path else None) of
             None \<Rightarrow> (empty_policy\<lparr>al_tools := load_tool_allowlist other_str (read_file global_path)\<rparr>,
                      Keep_in_file global_path)
           | Some m \<Rightarrow>
               (let seeded = empty_policy\<lparr>al_tools := load_tool_allowlist other_str (read_file global_path)\<rparr>;
                    p = (case read_marker m of
                           None \<Rightarrow> seeded
                         | Some d \<Rightarrow>
                             (let q = load_policy_from_session_marker other_str d
                              in if al_tools q = [] \<and> al_paths q = [] then seeded else q))
                in (p, Keep_in_marker m))))"

section \<open>The coalescer of read approvals\<close>

record read_scope =
  rs_path :: string
  rs_offset :: int
  rs_limit :: int
  rs_line_cap :: "int option"

text \<open>
  \<open>int(v)\<close> where the code calls it: \<open>None\<close> is the \<open>TypeError\<close> or \<open>ValueError\<close> that the code
  catches, \<open>Inl\<close> the \<open>OverflowError\<close> of an infinite float, which it does not.
\<close>

fun py_int :: "(string \<Rightarrow> int option) \<Rightarrow> pyval \<Rightarrow> pyerror + int option" where
  "py_int int_of_str (PyInt i) = Inr (Some i)"
| "py_int int_of_str (PyBool b) = Inr (Some (if b then 1 else 0))"
| "py_int int_of_str (PyFloat f) =
     (case f of
        Fin r \<Rightarrow> Inr (Some (if 0 \<le> r then \<lfloor>r\<rfloor> else \<lceil>r\<rceil>))
      | NaN \<Rightarrow> Inr None
      | _ \<Rightarrow> Inl (OverflowError ''cannot convert float infinity to integer''))"
| "py_int int_of_str (PyStr s) = Inr (int_of_str s)"
| "py_int int_of_str _ = Inr None"

definition get_or_none :: "pyval pydict \<Rightarrow> string \<Rightarrow> pyval" where
  "get_or_none d k = (case map_of d k of None \<Rightarrow> PyNone | Some v \<Rightarrow> v)"

definition parse_read_file_scope ::
    "(string \<Rightarrow> string) \<Rightarrow> (string \<Rightarrow> int option) \<Rightarrow> pyval pydict \<Rightarrow> pyerror + read_scope option" where
  "parse_read_file_scope resolve int_of_str args =
     (case get_or_none args ''path'' of
        PyStr raw \<Rightarrow>
          (let path = canonical_read_path resolve raw;
               off_raw = get_or_none args ''offset'';
               lim_raw = get_or_none args ''limit'';
               cap_raw = get_or_none args ''line_cap''
           in if path = [] then Inr None
              else case py_int int_of_str (if truthy off_raw then off_raw else PyInt 0) of
                     Inl e \<Rightarrow> Inl e
                   | Inr off \<Rightarrow>
              (case py_int int_of_str (if lim_raw = PyNone then PyInt 8000 else lim_raw) of
                 Inl e \<Rightarrow> Inl e
               | Inr lm \<Rightarrow>
              (case (if cap_raw = PyNone then Inr None else py_int int_of_str cap_raw) of
                 Inl e \<Rightarrow> Inl e
               | Inr cap \<Rightarrow>
                   Inr (Some \<lparr>rs_path = path,
                              rs_offset = max 0 (case off of Some n \<Rightarrow> n | None \<Rightarrow> 0),
                              rs_limit = max 1 (case lm of Some n \<Rightarrow> n | None \<Rightarrow> 8000),
                              rs_line_cap = (case cap of
                                               Some n \<Rightarrow> if 0 < n then Some n else None
                                             | None \<Rightarrow> None)\<rparr>))))
      | _ \<Rightarrow> Inr None)"

definition read_file_scope_is_subset :: "read_scope \<Rightarrow> read_scope \<Rightarrow> bool" where
  "read_file_scope_is_subset new approved =
     (if rs_path new \<noteq> rs_path approved \<or> rs_offset new \<noteq> rs_offset approved then False
      else if rs_limit approved < rs_limit new then False
      else case (rs_line_cap new, rs_line_cap approved) of
             (None, Some _) \<Rightarrow> False
           | (Some n, Some a) \<Rightarrow> n \<le> a
           | _ \<Rightarrow> True)"

type_synonym coalescer = "(rat \<times> read_scope) list"

definition hitl_coalesce_window_sec :: rat where
  "hitl_coalesce_window_sec = 600"

definition coalescer_prune :: "rat \<Rightarrow> coalescer \<Rightarrow> coalescer" where
  "coalescer_prune now recent = filter (\<lambda>t. now - fst t \<le> hitl_coalesce_window_sec) recent"

definition should_skip_hitl ::
    "(string \<Rightarrow> string) \<Rightarrow> (string \<Rightarrow> int option) \<Rightarrow> rat \<Rightarrow> string \<Rightarrow> pyval pydict \<Rightarrow> coalescer
       \<Rightarrow> pyerror + bool \<times> coalescer" where
  "should_skip_hitl resolve int_of_str now tool args recent =
     (if tool \<noteq> ''read_file'' then Inr (False, recent)
      else case parse_read_file_scope resolve int_of_str args of
             Inl e \<Rightarrow> Inl e
           | Inr None \<Rightarrow> Inr (False, recent)
           | Inr (Some scope) \<Rightarrow>
               (let kept = coalescer_prune now recent
                in Inr (list_ex (\<lambda>(ts, approved). now - ts \<le> hitl_coalesce_window_sec
                                   \<and> read_file_scope_is_subset scope approved) kept, kept)))"

definition record_approval ::
    "(string \<Rightarrow> string) \<Rightarrow> (string \<Rightarrow> int option) \<Rightarrow> rat \<Rightarrow> string \<Rightarrow> pyval pydict \<Rightarrow> coalescer
       \<Rightarrow> pyerror + coalescer" where
  "record_approval resolve int_of_str now tool args recent =
     (if tool \<noteq> ''read_file'' then Inr recent
      else case parse_read_file_scope resolve int_of_str args of
             Inl e \<Rightarrow> Inl e
           | Inr None \<Rightarrow> Inr recent
           | Inr (Some scope) \<Rightarrow> Inr (coalescer_prune now recent @ [(now, scope)]))"

text \<open>\<open>clear\<close>, at each user prompt (\<open>reset_hitl_turn_coalescer\<close>).\<close>

definition reset_hitl_turn_coalescer :: "coalescer \<Rightarrow> coalescer" where
  "reset_hitl_turn_coalescer recent = []"

section \<open>What a grant covers\<close>

lemma set_set_add [simp]: "set (set_add x xs) = insert x (set xs)"
  by (auto simp: set_add_def)

lemma set_add_ex [simp]: "list_ex P (set_add x xs) \<longleftrightarrow> P x \<or> list_ex P xs"
  by (auto simp: list_ex_iff)

text \<open>
  C33. Allowlisting one tool call grants, beyond what was granted before, exactly this: for
  \<open>read_file\<close> and \<open>notebook_read\<close> with a usable path, the calls of that tool on this path or
  below it; for any other call, all calls of the tool. (So a path-scoped tool whose call has no
  usable path is granted for every path.)
\<close>

theorem allowlist_grant_exact:
  "allows resolve (apply_allowlist_decision resolve tool args p) t a \<longleftrightarrow>
     allows resolve p t a
     \<or> t = tool
       \<and> (if tool \<in> set path_scoped_allowlist_tools
             \<and> path_from_tool_args resolve tool args \<notin> {None, Some []}
          then (\<exists>c. path_from_tool_args resolve tool a = Some c \<and> c \<noteq> []
                  \<and> (c = the (path_from_tool_args resolve tool args)
                     \<or> startswith c (the (path_from_tool_args resolve tool args) @ ''/'')))
          else True)"
proof (cases "tool \<in> set path_scoped_allowlist_tools
    \<and> path_from_tool_args resolve tool args \<notin> {None, Some []}")
  case True
  then obtain canon where c: "path_from_tool_args resolve tool args = Some canon" "canon \<noteq> []"
    by auto
  then have ap: "apply_allowlist_decision resolve tool args p = add_path_prefix tool canon p"
    using True by (simp add: apply_allowlist_decision_def)
  show ?thesis
    using c True unfolding ap
    by (cases "map_of (al_paths p) tool"; cases "path_from_tool_args resolve tool a")
       (auto simp: add_path_prefix_def allows_def update_conv' path_matches_prefix_def)
next
  case False
  then have "apply_allowlist_decision resolve tool args p = add_global_tool tool p"
    by (auto simp: apply_allowlist_decision_def split: option.split)
  then show ?thesis using False by (auto simp: add_global_tool_def allows_def)
qed

section \<open>What a file keeps\<close>

text \<open>Names and paths that \<open>strip\<close> leaves alone, each tool with paths of its own.\<close>

definition clean_policy :: "policy \<Rightarrow> bool" where
  "clean_policy p \<longleftrightarrow>
     list_all (\<lambda>s. s \<noteq> [] \<and> py_strip s = s) (al_tools p)
     \<and> list_all (\<lambda>(t, cs). py_strip t = t \<and> cs \<noteq> []
                    \<and> list_all (\<lambda>s. s \<noteq> [] \<and> py_strip s = s) cs) (al_paths p)
     \<and> distinct (map fst (al_paths p))"

lemma cleaned_clean:
  "list_all (\<lambda>s. s \<noteq> [] \<and> py_strip s = s) xs \<Longrightarrow> cleaned_prefixes other_str (map PyStr xs) = xs"
  by (induction xs) (auto simp: cleaned_prefixes_def)

lemma load_path_rules_clean:
  assumes "list_all (\<lambda>(t, cs). py_strip t = t \<and> cs \<noteq> []
                    \<and> list_all (\<lambda>s. s \<noteq> [] \<and> py_strip s = s) cs) d"
    and "distinct (map fst d)" and "fst ` set d \<inter> fst ` set rules = {}"
  shows "fold (\<lambda>(tool, v) rules.
             case v of
               PyList pres \<Rightarrow>
                 (let cleaned = cleaned_prefixes other_str pres
                  in if cleaned = [] then rules else AList.update (py_strip tool) cleaned rules)
             | _ \<Rightarrow> rules) (map (\<lambda>(k, v). (k, PyList (map PyStr v))) d) rules = rules @ d"
  using assms
proof (induction d arbitrary: rules)
  case (Cons kv d)
  obtain k v where kv: "kv = (k, v)" by fastforce
  have new: "k \<notin> fst ` set rules" using Cons.prems(3) kv by auto
  then have up: "AList.update k v rules = rules @ [(k, v)]"
    by (induction rules) auto
  have "fst ` set d \<inter> fst ` set (rules @ [(k, v)]) = {}"
    using Cons.prems(2,3) kv by auto
  then show ?case
    using Cons.IH [of "rules @ [(k, v)]"] Cons.prems kv up cleaned_clean [of v other_str]
    by (auto simp: Let_def)
qed simp


lemma map_of_sort_key:
  assumes "distinct (map fst xs)"
  shows "map_of (sort_key fst xs) = map_of xs" and "distinct (map fst (sort_key fst xs))"
proof -
  show d: "distinct (map fst (sort_key fst xs))"
    using assms mset_eq_imp_distinct_iff [of "map fst (sort_key fst xs)" "map fst xs"] by simp
  show "map_of (sort_key fst xs) = map_of xs"
    using map_of_inject_set [OF d assms] by simp
qed

definition sorted_paths :: "policy \<Rightarrow> string list pydict" where
  "sorted_paths p = map (\<lambda>(k, v). (k, sort v)) (sort_key fst (al_paths p))"

lemma sorted_paths_clean:
  assumes "clean_policy p"
  shows "list_all (\<lambda>(t, cs). py_strip t = t \<and> cs \<noteq> []
            \<and> list_all (\<lambda>s. s \<noteq> [] \<and> py_strip s = s) cs) (sorted_paths p)"
    and "distinct (map fst (sorted_paths p))"
    and "map_of (sorted_paths p) t = map_option sort (map_of (al_paths p) t)"
proof -
  have d: "distinct (map fst (al_paths p))" using assms by (simp add: clean_policy_def)
  have fst_eq: "map fst (sorted_paths p) = map fst (sort_key fst (al_paths p))"
    by (simp add: sorted_paths_def case_prod_unfold)
  show "distinct (map fst (sorted_paths p))" using map_of_sort_key(2) [OF d] fst_eq by simp
  show "list_all (\<lambda>(t, cs). py_strip t = t \<and> cs \<noteq> []
            \<and> list_all (\<lambda>s. s \<noteq> [] \<and> py_strip s = s) cs) (sorted_paths p)"
    using assms by (fastforce simp: sorted_paths_def clean_policy_def list_all_iff
        dest: arg_cong [of _ "[]" set])
  show "map_of (sorted_paths p) t = map_option sort (map_of (al_paths p) t)"
    using map_of_map [of sort "sort_key fst (al_paths p)"] map_of_sort_key(1) [OF d]
    by (simp add: sorted_paths_def)
qed

lemma load_save_paths:
  assumes "clean_policy p"
  shows "al_paths (load_policy_from_session_marker other_str (save_policy_to_session_marker p marker))
    = (if al_paths p = [] then [] else sorted_paths p)"
proof (cases "al_paths p = []")
  case True
  then show ?thesis
    by (auto simp: load_policy_from_session_marker_def save_policy_to_session_marker_def Let_def
        update_conv' load_path_rules_def split: option.splits pyval.splits)
next
  case False
  have "map (\<lambda>(k, v). (k, PyList (map PyStr (sort v)))) (sort_key fst (al_paths p))
      = map (\<lambda>(k, v). (k, PyList (map PyStr v))) (sorted_paths p)"
    by (simp add: sorted_paths_def case_prod_unfold comp_def)
  then have "map_of (save_policy_to_session_marker p marker) ''hitl_path_allowlist''
      = Some (PyDict (map (\<lambda>(k, v). (k, PyList (map PyStr v))) (sorted_paths p)))"
    using False by (simp add: save_policy_to_session_marker_def Let_def update_conv')
  then show ?thesis
    using False load_path_rules_clean [OF sorted_paths_clean(1,2) [OF assms], of "[]" other_str]
    by (simp add: load_policy_from_session_marker_def load_path_rules_def)
qed

lemma load_save_tools:
  assumes "clean_policy p"
  shows "set (al_tools (load_policy_from_session_marker other_str (save_policy_to_session_marker p marker)))
    = set (al_tools p)"
proof -
  have "map_of (save_policy_to_session_marker p marker) ''hitl_tool_allowlist''
      = Some (PyList (map PyStr (sort (al_tools p))))"
    by (auto simp: save_policy_to_session_marker_def Let_def update_conv')
  moreover have "cleaned_prefixes other_str (map PyStr (sort (al_tools p))) = sort (al_tools p)"
    using assms by (intro cleaned_clean) (simp add: clean_policy_def list_all_iff)
  ultimately show ?thesis
    by (simp add: load_policy_from_session_marker_def stripped_names_def)
qed

text \<open>
  A restarted session grants exactly what the session before it granted: writing the
  allowlist into any session marker and loading it again changes the answer for no call.
\<close>

theorem allowlist_survives_restart:
  assumes "clean_policy p"
  shows "allows resolve (load_policy_from_session_marker other_str
            (save_policy_to_session_marker p marker)) tool args = allows resolve p tool args"
proof -
  let ?q = "load_policy_from_session_marker other_str (save_policy_to_session_marker p marker)"
  have paths: "map_of (al_paths ?q) tool = map_option sort (map_of (al_paths p) tool)"
    using load_save_paths [OF assms] sorted_paths_clean(3) [OF assms] by simp
  have ex: "list_ex Q (sort cs) = list_ex Q cs" for Q and cs :: "string list"
    by (simp only: list_ex_iff set_sort)
  show ?thesis
    unfolding allows_def paths load_save_tools [OF assms]
    by (simp add: option.case_eq_if option.map_sel ex)
qed

definition demo_policy :: policy where
  "demo_policy = \<lparr>al_tools = [''grep_files''], al_paths = [(''read_file'', [''/w'', ''/src''])]\<rparr>"

lemma allowlist_survives_restart_witness:
  "allows id (load_policy_from_session_marker (\<lambda>_. []) (save_policy_to_session_marker demo_policy
      [(''hitl_path_allowlist'', PyNone)])) ''read_file'' [(''path'', PyStr ''/src/a.py'')]"
proof -
  have "clean_policy demo_policy"
    by (simp add: clean_policy_def demo_policy_def py_strip_def py_isspace_def)
  moreover have "allows id demo_policy ''read_file'' [(''path'', PyStr ''/src/a.py'')]"
    by (simp add: allows_def demo_policy_def path_from_tool_args_def path_scoped_allowlist_tools_def
        blank_def canonical_read_path_def py_strip_def py_isspace_def path_matches_prefix_def
        startswith_def)
  ultimately show ?thesis using allowlist_survives_restart by blast
qed

section \<open>What coalescing skips\<close>

datatype coalesce_op =
    Approve rat string "pyval pydict"
  | Ask rat string "pyval pydict"
  | New_prompt

text \<open>An operation that raises leaves the list as it is (an overflow comes before any change).\<close>

fun coalesce_step ::
    "(string \<Rightarrow> string) \<Rightarrow> (string \<Rightarrow> int option) \<Rightarrow> coalesce_op \<Rightarrow> coalescer \<Rightarrow> coalescer" where
  "coalesce_step resolve int_of_str (Approve now tool args) c =
     (case record_approval resolve int_of_str now tool args c of Inl e \<Rightarrow> c | Inr c' \<Rightarrow> c')"
| "coalesce_step resolve int_of_str (Ask now tool args) c =
     (case should_skip_hitl resolve int_of_str now tool args c of Inl e \<Rightarrow> c | Inr (b, c') \<Rightarrow> c')"
| "coalesce_step resolve int_of_str New_prompt c = reset_hitl_turn_coalescer c"

definition coalesce_run ::
    "(string \<Rightarrow> string) \<Rightarrow> (string \<Rightarrow> int option) \<Rightarrow> coalesce_op list \<Rightarrow> coalescer" where
  "coalesce_run resolve int_of_str ops = fold (coalesce_step resolve int_of_str) ops []"

text \<open>The approvals given since the last user prompt.\<close>

definition approved_this_turn :: "coalesce_op list \<Rightarrow> rat \<Rightarrow> pyval pydict \<Rightarrow> bool" where
  "approved_this_turn ops t args \<longleftrightarrow>
     (\<exists>pre post. ops = pre @ Approve t ''read_file'' args # post \<and> New_prompt \<notin> set post)"

lemma approved_snoc:
  "approved_this_turn (ops @ [op]) t args
     \<longleftrightarrow> op = Approve t ''read_file'' args \<or> op \<noteq> New_prompt \<and> approved_this_turn ops t args"
proof
  assume "approved_this_turn (ops @ [op]) t args"
  then obtain pre post where e: "ops @ [op] = pre @ Approve t ''read_file'' args # post"
    "New_prompt \<notin> set post" unfolding approved_this_turn_def by blast
  show "op = Approve t ''read_file'' args \<or> op \<noteq> New_prompt \<and> approved_this_turn ops t args"
  proof (cases post rule: rev_cases)
    case Nil
    then show ?thesis using e by simp
  next
    case (snoc ys y)
    then have "ops = pre @ Approve t ''read_file'' args # ys" "op = y" using e(1) by simp_all
    then show ?thesis using e(2) snoc unfolding approved_this_turn_def by auto
  qed
next
  assume a: "op = Approve t ''read_file'' args \<or> op \<noteq> New_prompt \<and> approved_this_turn ops t args"
  show "approved_this_turn (ops @ [op]) t args"
  proof (cases "op = Approve t ''read_file'' args")
    case True
    then show ?thesis unfolding approved_this_turn_def
      by (intro exI [of _ ops] exI [of _ "[]"]) simp
  next
    case False
    then obtain pre post where "ops = pre @ Approve t ''read_file'' args # post"
      "New_prompt \<notin> set post" "op \<noteq> New_prompt" using a unfolding approved_this_turn_def by blast
    then show ?thesis unfolding approved_this_turn_def
      by (intro exI [of _ pre] exI [of _ "post @ [op]"]) simp
  qed
qed

lemma coalesce_entries:
  "(t, scope) \<in> set (coalesce_run resolve int_of_str ops) \<Longrightarrow>
     \<exists>args. approved_this_turn ops t args
       \<and> parse_read_file_scope resolve int_of_str args = Inr (Some scope)"
proof (induction ops rule: rev_induct)
  case (snoc op ops)
  let ?c = "coalesce_run resolve int_of_str ops"
  have new: "(t, scope) \<in> set (coalesce_step resolve int_of_str op ?c)"
    using snoc.prems by (simp add: coalesce_run_def)
  have old: "?case" if "(t, scope) \<in> set ?c" "op \<noteq> New_prompt"
    using snoc.IH [OF that(1)] that(2) by (auto simp: approved_snoc)
  show ?case
  proof (cases op)
    case (Approve now tool args)
    show ?thesis
    proof (cases "(t, scope) \<in> set ?c")
      case False
      then have "tool = ''read_file''" "t = now"
        "parse_read_file_scope resolve int_of_str args = Inr (Some scope)"
        using new Approve
        by (auto simp: record_approval_def coalescer_prune_def
            split: if_splits sum.splits option.splits)
      then show ?thesis using Approve by (auto simp: approved_snoc)
    qed (use old Approve in simp)
  next
    case (Ask now tool args)
    then have "(t, scope) \<in> set ?c"
      using new
      by (auto simp: should_skip_hitl_def coalescer_prune_def Let_def
          split: if_splits sum.splits option.splits)
    then show ?thesis using old Ask by simp
  next
    case New_prompt
    then show ?thesis using new by (simp add: reset_hitl_turn_coalescer_def)
  qed
qed (simp add: coalesce_run_def)

text \<open>
  A prompt is skipped by coalescing only for \<open>read_file\<close>, and only when the user approved,
  since the last user message and at most 600 seconds ago, a read of the same path whose bytes
  include all bytes of the new one and whose line cap, if it had one, is not exceeded.
\<close>

theorem coalesce_skip_sound:
  assumes "should_skip_hitl resolve int_of_str now tool args (coalesce_run resolve int_of_str ops)
     = Inr (True, c)"
  shows "tool = ''read_file'' \<and>
    (\<exists>t args0 new old. approved_this_turn ops t args0 \<and> now - t \<le> 600
       \<and> parse_read_file_scope resolve int_of_str args = Inr (Some new)
       \<and> parse_read_file_scope resolve int_of_str args0 = Inr (Some old)
       \<and> rs_path new = rs_path old
       \<and> {rs_offset new ..< rs_offset new + rs_limit new}
           \<subseteq> {rs_offset old ..< rs_offset old + rs_limit old}
       \<and> (case rs_line_cap old of None \<Rightarrow> True
           | Some a \<Rightarrow> (\<exists>n. rs_line_cap new = Some n \<and> n \<le> a)))"
proof -
  obtain new where tool: "tool = ''read_file''"
    and new: "parse_read_file_scope resolve int_of_str args = Inr (Some new)"
    and ex: "list_ex (\<lambda>(ts, approved). now - ts \<le> hitl_coalesce_window_sec
          \<and> read_file_scope_is_subset new approved)
        (coalescer_prune now (coalesce_run resolve int_of_str ops))"
    using assms by (auto simp: should_skip_hitl_def Let_def split: if_splits sum.splits option.splits)
  obtain t old where e: "(t, old) \<in> set (coalesce_run resolve int_of_str ops)"
    "now - t \<le> 600" "read_file_scope_is_subset new old"
    using ex by (auto simp: list_ex_iff coalescer_prune_def hitl_coalesce_window_sec_def)
  obtain args0 where a: "approved_this_turn ops t args0"
    "parse_read_file_scope resolve int_of_str args0 = Inr (Some old)"
    using coalesce_entries [OF e(1)] by blast
  have "rs_path new = rs_path old" "rs_offset new = rs_offset old" "rs_limit new \<le> rs_limit old"
    "case rs_line_cap old of None \<Rightarrow> True | Some a \<Rightarrow> (\<exists>n. rs_line_cap new = Some n \<and> n \<le> a)"
    using e(3) by (auto simp: read_file_scope_is_subset_def split: if_splits option.splits)
  then show ?thesis using tool a e(2) new by fastforce
qed

lemma coalesce_skip_sound_witness:
  "approved_this_turn [Approve 0 ''read_file'' [(''path'', PyStr ''a'')]] 0 [(''path'', PyStr ''a'')]
   \<and> (\<exists>c. should_skip_hitl id (\<lambda>_. None) 10 ''read_file'' [(''path'', PyStr ''a''), (''limit'', PyInt 100)]
        (coalesce_run id (\<lambda>_. None) [Approve 0 ''read_file'' [(''path'', PyStr ''a'')]]) = Inr (True, c)
      \<and> (\<exists>t args0. approved_this_turn [Approve 0 ''read_file'' [(''path'', PyStr ''a'')]] t args0))"
proof -
  let ?ops = "[Approve 0 ''read_file'' [(''path'', PyStr ''a'')]]"
  have "\<exists>c. should_skip_hitl id (\<lambda>_. None) 10 ''read_file'' [(''path'', PyStr ''a''), (''limit'', PyInt 100)]
        (coalesce_run id (\<lambda>_. None) ?ops) = Inr (True, c)"
    by (simp add: coalesce_run_def should_skip_hitl_def record_approval_def parse_read_file_scope_def
        get_or_none_def canonical_read_path_def py_strip_def py_isspace_def coalescer_prune_def
        hitl_coalesce_window_sec_def read_file_scope_is_subset_def Let_def)
  moreover have "approved_this_turn ?ops 0 [(''path'', PyStr ''a'')]"
    unfolding approved_this_turn_def by (intro exI [of _ "[]"]) simp
  ultimately show ?thesis using coalesce_skip_sound by blast
qed

end
