(* ===== verification/Hitl_Bridge.thy ===== *)
theory Hitl_Bridge
  imports Agp_Emit Hitl_Policy
begin

text \<open>
  The bridge between the agent's \<open>user_callback\<close> and the wire (\<open>src/agloom/runtime/hitl.py\<close>):
  a gate writes \<open>hitl.request\<close>, waits for a response, writes the decision and returns a value
  to the agent.

  A waiting call of \<open>callback\<close> is an entry of the bridge with the state of its future. The
  operations are the points where the coroutine runs: its start, its continuation once the
  future has a result, its timeout, and its cancellation; between them \<open>respond\<close>, \<open>cancel_all\<close>
  and \<open>cancel_for_thread\<close> set results. Tasks are numbered. The names of requests come from
  \<open>uuid4\<close> and are arguments. Writes of the allowlist succeed (the code ignores their failures).

  The lemmas show that a gate lets the agent go on only after one positive response, that it is
  answered and finished at most once, and that the event on the wire says what the agent was told.
\<close>

section \<open>Tables\<close>

definition kind_by_hitl_event :: "string pydict" where
  "kind_by_hitl_event =
     [(''tool_interrupt_before'', ''tool_approval''), (''pattern_interrupt'', ''pattern_approval''),
      (''worker_interrupt_before'', ''worker_approval''), (''worker_interrupt_after'', ''worker_approval''),
      (''clarification_request'', ''clarification''), (''react_tool_use_failed'', ''react_recovery'')]"

definition kind_of_event :: "string \<Rightarrow> string" where
  "kind_of_event event_type =
     (case map_of kind_by_hitl_event event_type of None \<Rightarrow> ''tool_approval'' | Some k \<Rightarrow> k)"

definition valid_decisions :: "string list" where
  "valid_decisions =
     [''accept'', ''reject'', ''allowlist'', ''retry'', ''stop'', ''timeout'', ''cancelled'']"

definition normalize_hitl_decision :: "string \<Rightarrow> string" where
  "normalize_hitl_decision d = (if d \<in> set valid_decisions then d else ''reject'')"

definition tool_gate_return :: "string pydict" where
  "tool_gate_return =
     [(''accept'', ''continue''), (''allowlist'', ''continue''), (''reject'', ''abort''),
      (''stop'', ''abort''), (''timeout'', ''abort''), (''cancelled'', ''abort''),
      (''retry'', ''continue'')]"

definition react_recovery_return :: "string pydict" where
  "react_recovery_return =
     [(''retry'', ''retry''), (''accept'', ''retry''), (''allowlist'', ''retry''), (''reject'', ''abort''),
      (''stop'', ''abort''), (''timeout'', ''abort''), (''cancelled'', ''abort'')]"

definition decision_to_callback_value :: "string \<Rightarrow> string \<Rightarrow> string option \<Rightarrow> string" where
  "decision_to_callback_value kind decision txt =
     (if kind = ''clarification'' then (case txt of None \<Rightarrow> [] | Some t \<Rightarrow> t)
      else case map_of (if kind = ''react_recovery'' then react_recovery_return else tool_gate_return)
                  decision of
             None \<Rightarrow> ''abort'' | Some v \<Rightarrow> v)"

section \<open>What the message of a gate says\<close>

text \<open>The pattern \<open>Tool\s*:\s*(\S+)\<close>, letters in either case.\<close>

definition tool_line_at :: "string \<Rightarrow> string option" where
  "tool_line_at s =
     (if py_lower (take 4 s) \<noteq> ''tool'' then None
      else case dropWhile py_isspace (drop 4 s) of
             [] \<Rightarrow> None
           | c # r \<Rightarrow>
               if c \<noteq> CHR '':'' then None
               else let w = takeWhile (\<lambda>x. \<not> py_isspace x) (dropWhile py_isspace r)
                    in if w = [] then None else Some w)"

fun tool_line :: "string \<Rightarrow> string option" where
  "tool_line [] = None"
| "tool_line (c # s) = (case tool_line_at (c # s) of Some w \<Rightarrow> Some w | None \<Rightarrow> tool_line s)"

text \<open>\<open>str_of\<close> is \<open>str\<close> on what is not a string.\<close>

definition extract_request_params :: "(pyval \<Rightarrow> string) \<Rightarrow> pyval \<Rightarrow> pyval pydict" where
  "extract_request_params str_of message =
     (case message of
        PyDict d \<Rightarrow>
          (case (if truthy (get_or_none d ''tool_name'') then PyNone else get_or_none d ''detail'') of
             PyStr detail \<Rightarrow>
               (case tool_line detail of
                  Some w \<Rightarrow> AList.update ''tool_name'' (PyStr (py_strip w)) d
                | None \<Rightarrow> d)
           | _ \<Rightarrow> d)
      | PyStr s \<Rightarrow>
          [(''detail'', PyStr s), (''tool_name'', opt_str (map_option py_strip (tool_line s)))]
      | v \<Rightarrow> [(''detail'', PyStr (str_of v))])"

definition gate_options :: "(pyval \<Rightarrow> string) \<Rightarrow> string \<Rightarrow> pyval pydict \<Rightarrow> string list \<times> string option" where
  "gate_options str_of kind params =
     (if kind = ''react_recovery'' then ([''retry'', ''stop''], Some ''stop'')
      else if kind = ''clarification'' then
        ((case get_or_none params ''choices'' of
            PyList xs \<Rightarrow> map (\<lambda>v. case v of PyStr s \<Rightarrow> s | _ \<Rightarrow> str_of v) xs
          | _ \<Rightarrow> []), None)
      else ([''accept'', ''reject'', ''allowlist''], Some ''reject''))"

text \<open>\<open>isinstance(t, (int, float)) and t > 0\<close>.\<close>

definition positive_timeout :: "pyval \<Rightarrow> bool" where
  "positive_timeout v =
     (case v of PyInt i \<Rightarrow> 0 < i | PyBool b \<Rightarrow> b
      | PyFloat f \<Rightarrow> (case f of Fin r \<Rightarrow> 0 < r | PosInf \<Rightarrow> True | _ \<Rightarrow> False)
      | _ \<Rightarrow> False)"

text \<open>
  The call of \<open>emit_hitl_request\<close> with the parameters as they are, typed or not;
  \<open>dict(args) if args else {}\<close> copies a dictionary (other true values are passed on, to fail
  in validation).
\<close>

definition gate_request :: "(pyval \<Rightarrow> string) \<Rightarrow> string \<Rightarrow> string \<Rightarrow> pyval pydict \<Rightarrow> request" where
  "gate_request str_of rid kind params =
     (let (options, dflt) = gate_options str_of kind params; p = get_or_none params
      in request_of ''hitl.request'' hitl_request_data
           [(''request_id'', PyStr rid), (''kind'', PyStr kind), (''detail'', p ''detail''),
            (''options'', PyList (map PyStr options)), (''default'', opt_str dflt),
            (''timeout_ms'', p ''timeout_ms''), (''agent_name'', p ''agent_name''),
            (''tool'', p ''tool_name''), (''tool_call_id'', p ''tool_call_id''),
            (''args'', if truthy (p ''args'') then p ''args'' else PyDict []),
            (''worker'', p ''worker_id''), (''pattern'', p ''pattern''),
            (''question'', p ''question'')] None)"

section \<open>The bridge\<close>

record response =
  rp_decision :: string
  rp_text :: "string option"
  rp_actor :: string

datatype fut_state = Fut_pending | Fut_result response | Fut_cancelled

text \<open>
  One entry of \<open>_pending\<close>, \<open>_kinds\<close> and \<open>_req_task\<close>, with the local variables of its
  coroutine. \<open>g_request\<close> is the id of the request event; it is \<open>None\<close> when writing it failed,
  and then no coroutine waits any more.
\<close>

record gate_entry =
  g_kind :: string
  g_task :: "nat option"
  g_emitter :: nat
  g_params :: "pyval pydict"
  g_request :: "string option"
  g_future :: fut_state
  g_cancelling :: bool

datatype cancel_reason = Reason_user | Reason_shutdown

record bridge =
  br_gates :: "gate_entry pydict"
  br_task_emitters :: "(nat \<times> nat) list"
  br_task_thread :: "(nat \<times> string) list"
  br_cancel_reason :: "(nat \<times> cancel_reason) list"
  br_allow :: allowlist
  br_target :: allowlist_target
  br_marker :: "pyval pydict"
  br_file :: pyval

text \<open>What the bridge uses and this development leaves open.\<close>

record hitl_world =
  hw_vld :: validator
  hw_mint :: mint
  hw_resolve :: "string \<Rightarrow> string"
  hw_str :: "pyval \<Rightarrow> string"

definition bridge_init :: "allowlist \<Rightarrow> allowlist_target \<Rightarrow> bridge" where
  "bridge_init allow target =
     \<lparr>br_gates = [], br_task_emitters = [], br_task_thread = [], br_cancel_reason = [],
      br_allow = (case allow of No_allowlist \<Rightarrow> Policy empty_policy | a \<Rightarrow> a),
      br_target = target, br_marker = [], br_file = PyNone\<rparr>"

definition prepare_invocation_cancel :: "nat \<Rightarrow> cancel_reason \<Rightarrow> bridge \<Rightarrow> bridge" where
  "prepare_invocation_cancel t r b = b\<lparr>br_cancel_reason := AList.update t r (br_cancel_reason b)\<rparr>"

definition consume_invocation_cancel_reason :: "nat option \<Rightarrow> bridge \<Rightarrow> cancel_reason \<times> bridge" where
  "consume_invocation_cancel_reason t b =
     (case t of
        None \<Rightarrow> (Reason_user, b)
      | Some t \<Rightarrow>
          ((case map_of (br_cancel_reason b) t of None \<Rightarrow> Reason_user | Some r \<Rightarrow> r),
           b\<lparr>br_cancel_reason := AList.delete t (br_cancel_reason b)\<rparr>))"

definition bind_task_emitter :: "nat \<Rightarrow> nat \<Rightarrow> string \<Rightarrow> bridge \<Rightarrow> bridge" where
  "bind_task_emitter t i thread b =
     (let b1 = b\<lparr>br_task_emitters := AList.update t i (br_task_emitters b)\<rparr>
      in if thread = [] then b1 else b1\<lparr>br_task_thread := AList.update t thread (br_task_thread b1)\<rparr>)"

definition task_done :: "nat \<Rightarrow> bridge \<Rightarrow> bridge" where
  "task_done t b =
     b\<lparr>br_task_emitters := AList.delete t (br_task_emitters b),
       br_task_thread := AList.delete t (br_task_thread b),
       br_cancel_reason := AList.delete t (br_cancel_reason b)\<rparr>"

text \<open>Emitter 0 is the session's own, the default.\<close>

definition current_emitter :: "nat option \<Rightarrow> bridge \<Rightarrow> nat" where
  "current_emitter task b =
     (case task of
        None \<Rightarrow> 0
      | Some t \<Rightarrow> (case map_of (br_task_emitters b) t of None \<Rightarrow> 0 | Some i \<Rightarrow> i))"

definition set_gate :: "string \<Rightarrow> gate_entry \<Rightarrow> bridge \<Rightarrow> bridge" where
  "set_gate rid g b = b\<lparr>br_gates := AList.update rid g (br_gates b)\<rparr>"

definition drop_gate :: "string \<Rightarrow> bridge \<Rightarrow> bridge" where
  "drop_gate rid b = b\<lparr>br_gates := AList.delete rid (br_gates b)\<rparr>"

text \<open>An emission through emitter \<open>i\<close> of the session.\<close>

definition issue_on :: "hitl_world \<Rightarrow> nat \<Rightarrow> request \<Rightarrow> sys \<Rightarrow> (pyerror + envelope) \<times> sys" where
  "issue_on w i rq sy =
     (let (r, st) = issue (hw_vld w) (hw_mint w) rq (fst sy ! i, snd sy) in (r, put_emitter i st sy))"

datatype outcome =
    O_done
  | O_answer bool
  | O_count nat
  | O_returned string string string
  | O_raised pyerror
  | O_cancelled string

text \<open>The start of \<open>callback\<close>, up to its first wait.\<close>

definition open_gate ::
    "hitl_world \<Rightarrow> string \<Rightarrow> nat option \<Rightarrow> string \<Rightarrow> pyval \<Rightarrow> bridge \<times> sys \<Rightarrow> outcome \<times> bridge \<times> sys" where
  "open_gate w rid task event_type message st =
     (let (b, sy) = st; i = current_emitter task b; kind = kind_of_event event_type;
          params = extract_request_params (hw_str w) message;
          g = \<lparr>g_kind = kind, g_task = task, g_emitter = i, g_params = params, g_request = None,
               g_future = Fut_pending, g_cancelling = False\<rparr>
      in case issue_on w i (gate_request (hw_str w) rid kind params) sy of
           (Inl err, sy') \<Rightarrow> (O_raised err, set_gate rid g b, sy')
         | (Inr e, sy') \<Rightarrow> (O_done, set_gate rid (g\<lparr>g_request := Some (ev_id e)\<rparr>) b, sy'))"

definition respond :: "string \<Rightarrow> string \<Rightarrow> string option \<Rightarrow> string \<Rightarrow> bridge \<Rightarrow> bool \<times> bridge" where
  "respond rid decision txt actor b =
     (case map_of (br_gates b) rid of
        None \<Rightarrow> (False, b)
      | Some g \<Rightarrow>
          if g_future g \<noteq> Fut_pending then (False, b)
          else (True, set_gate rid (g\<lparr>g_future := Fut_result
                 \<lparr>rp_decision = normalize_hitl_decision decision, rp_text = txt, rp_actor = actor\<rparr>\<rparr>) b))"

definition auto_response :: "string \<Rightarrow> response" where
  "auto_response d = \<lparr>rp_decision = d, rp_text = None, rp_actor = ''auto''\<rparr>"

text \<open>Sets the result of every undone future that satisfies \<open>P\<close>.\<close>

definition cancel_where :: "(gate_entry \<Rightarrow> bool) \<Rightarrow> bridge \<Rightarrow> nat \<times> bridge" where
  "cancel_where P b =
     (let hit = (\<lambda>g. g_future g = Fut_pending \<and> P g)
      in (length (filter (\<lambda>kg. hit (snd kg)) (br_gates b)),
          b\<lparr>br_gates := map (\<lambda>(k, g). (k, if hit g then g\<lparr>g_future := Fut_result (auto_response ''cancelled'')\<rparr>
                                          else g)) (br_gates b)\<rparr>))"

definition cancel_all :: "bridge \<Rightarrow> nat \<times> bridge" where
  "cancel_all b = cancel_where (\<lambda>_. True) b"

definition cancel_for_thread :: "string \<Rightarrow> bridge \<Rightarrow> nat \<times> bridge" where
  "cancel_for_thread thread b =
     cancel_where (\<lambda>g. case g_task g of
                         None \<Rightarrow> False
                       | Some t \<Rightarrow> map_of (br_task_thread b) t = Some thread) b"

definition pending_count :: "bridge \<Rightarrow> nat" where
  "pending_count b = length (filter (\<lambda>kg. g_future (snd kg) = Fut_pending) (br_gates b))"

definition remember_allowlist :: "bridge \<Rightarrow> bridge" where
  "remember_allowlist b =
     (case br_target b of
        Keep_in_marker _ \<Rightarrow>
          b\<lparr>br_marker := save_policy_to_session_marker
               (case br_allow b of Policy p \<Rightarrow> p | Name_set ns \<Rightarrow> empty_policy\<lparr>al_tools := ns\<rparr>
                | No_allowlist \<Rightarrow> empty_policy) (br_marker b)\<rparr>
      | Keep_in_file _ \<Rightarrow>
          b\<lparr>br_file := save_tool_allowlist
               (case br_allow b of Policy p \<Rightarrow> al_tools p | Name_set ns \<Rightarrow> ns | No_allowlist \<Rightarrow> [])\<rparr>
      | Keep_nowhere \<Rightarrow> b)"

definition grant_allowlist :: "hitl_world \<Rightarrow> gate_entry \<Rightarrow> string \<Rightarrow> bridge \<Rightarrow> bridge" where
  "grant_allowlist w g decision b =
     (if \<not> (g_kind g = ''tool_approval'' \<and> decision = ''allowlist'') then b
      else case get_or_none (g_params g) ''tool_name'' of
             PyStr tn \<Rightarrow>
               if blank tn then b
               else remember_allowlist
                      (b\<lparr>br_allow := apply_hitl_allowlist_decision (hw_resolve w) (py_strip tn)
                           (case get_or_none (g_params g) ''args'' of PyDict d \<Rightarrow> d | _ \<Rightarrow> [])
                           (br_allow b)\<rparr>)
           | _ \<Rightarrow> b)"

text \<open>The rest of \<open>callback\<close> once its future has a result.\<close>

definition finish_gate ::
    "hitl_world \<Rightarrow> string \<Rightarrow> gate_entry \<Rightarrow> response \<Rightarrow> bridge \<times> sys \<Rightarrow> outcome \<times> bridge \<times> sys" where
  "finish_gate w rid g r st =
     (let (b0, sy) = st; b = drop_gate rid b0; decision = normalize_hitl_decision (rp_decision r)
      in case issue_on w (g_emitter g)
                (emit_hitl_decision rid decision (if rp_actor r = [] then ''user'' else rp_actor r)
                   (rp_text r) None (g_request g)) sy of
           (Inl err, sy') \<Rightarrow> (O_raised err, b, sy')
         | (Inr _, sy') \<Rightarrow>
             (O_returned rid (g_kind g) (decision_to_callback_value (g_kind g) decision (rp_text r)),
              grant_allowlist w g decision b, sy'))"

definition resume_gate :: "hitl_world \<Rightarrow> string \<Rightarrow> bridge \<times> sys \<Rightarrow> outcome \<times> bridge \<times> sys" where
  "resume_gate w rid st =
     (case map_of (br_gates (fst st)) rid of
        None \<Rightarrow> (O_done, st)
      | Some g \<Rightarrow>
          if g_request g = None \<or> g_cancelling g then (O_done, st)
          else case g_future g of Fut_result r \<Rightarrow> finish_gate w rid g r st | _ \<Rightarrow> (O_done, st))"

text \<open>
  The timeout of \<open>wait_for\<close>; the shielded future may have got its result in the same turn of
  the loop.
\<close>

definition timeout_gate :: "hitl_world \<Rightarrow> string \<Rightarrow> bridge \<times> sys \<Rightarrow> outcome \<times> bridge \<times> sys" where
  "timeout_gate w rid st =
     (case map_of (br_gates (fst st)) rid of
        None \<Rightarrow> (O_done, st)
      | Some g \<Rightarrow>
          if g_request g = None \<or> g_cancelling g \<or> \<not> positive_timeout (get_or_none (g_params g) ''timeout_ms'')
          then (O_done, st)
          else finish_gate w rid g
                 (case g_future g of Fut_result r \<Rightarrow> r | _ \<Rightarrow> auto_response ''timeout'') st)"

text \<open>
  \<open>task.cancel()\<close> on the waiting task: it cancels the future it waits for, unless a timeout
  shields it. The coroutine then writes the decision, drops the entry and raises.
\<close>

definition cancel_gate :: "string \<Rightarrow> bridge \<Rightarrow> bridge" where
  "cancel_gate rid b =
     (case map_of (br_gates b) rid of
        None \<Rightarrow> b
      | Some g \<Rightarrow>
          if g_request g = None then b
          else set_gate rid
                 (g\<lparr>g_cancelling := True,
                    g_future := (if g_future g = Fut_pending
                                    \<and> \<not> positive_timeout (get_or_none (g_params g) ''timeout_ms'')
                                 then Fut_cancelled else g_future g)\<rparr>) b)"

definition abandon_gate :: "hitl_world \<Rightarrow> string \<Rightarrow> bridge \<times> sys \<Rightarrow> outcome \<times> bridge \<times> sys" where
  "abandon_gate w rid st =
     (case map_of (br_gates (fst st)) rid of
        None \<Rightarrow> (O_done, st)
      | Some g \<Rightarrow>
          if \<not> g_cancelling g then (O_done, st)
          else case issue_on w (g_emitter g)
                      (emit_hitl_decision rid ''cancelled'' ''auto'' None
                         (Some ''agent invocation cancelled before user responded'') (g_request g))
                      (snd st) of
                 (Inl err, sy') \<Rightarrow> (O_raised err, drop_gate rid (fst st), sy')
               | (Inr _, sy') \<Rightarrow> (O_cancelled rid, drop_gate rid (fst st), sy'))"

text \<open>\<open>request_clarification\<close> is the start of a gate with this message.\<close>

definition clarification_message :: "string \<Rightarrow> string list \<Rightarrow> pyval" where
  "clarification_message question choices =
     PyDict ([(''question'', PyStr question), (''detail'', PyStr question)]
             @ (if choices = [] then [] else [(''choices'', PyList (map PyStr choices))]))"

section \<open>Histories\<close>

datatype bridge_op =
    B_open string "nat option" string pyval
  | B_respond string string "string option" string
  | B_resume string
  | B_timeout string
  | B_cancel string
  | B_abandon string
  | B_cancel_all
  | B_cancel_thread string
  | B_bind nat nat string
  | B_task_done nat
  | B_session session_op

text \<open>Anything else the session does is an operation of its emitters.\<close>

fun bridge_step :: "hitl_world \<Rightarrow> string \<Rightarrow> bridge_op \<Rightarrow> bridge \<times> sys \<Rightarrow> outcome \<times> bridge \<times> sys" where
  "bridge_step w version (B_open rid task event_type message) st = open_gate w rid task event_type message st"
| "bridge_step w version (B_respond rid d t a) st =
     (let (ok, b) = respond rid d t a (fst st) in (O_answer ok, b, snd st))"
| "bridge_step w version (B_resume rid) st = resume_gate w rid st"
| "bridge_step w version (B_timeout rid) st = timeout_gate w rid st"
| "bridge_step w version (B_cancel rid) st = (O_done, cancel_gate rid (fst st), snd st)"
| "bridge_step w version (B_abandon rid) st = abandon_gate w rid st"
| "bridge_step w version B_cancel_all st = (let (n, b) = cancel_all (fst st) in (O_count n, b, snd st))"
| "bridge_step w version (B_cancel_thread t) st =
     (let (n, b) = cancel_for_thread t (fst st) in (O_count n, b, snd st))"
| "bridge_step w version (B_bind t i thread) st = (O_done, bind_task_emitter t i thread (fst st), snd st)"
| "bridge_step w version (B_task_done t) st = (O_done, task_done t (fst st), snd st)"
| "bridge_step w version (B_session op) st =
     (O_done, fst st, sys_step (hw_mint w) version op (snd st))"

type_synonym history = "(bridge_op \<times> outcome) list"

fun bridge_run ::
    "hitl_world \<Rightarrow> string \<Rightarrow> bridge_op list \<Rightarrow> bridge \<times> sys \<Rightarrow> history \<times> bridge \<times> sys" where
  "bridge_run w version [] st = ([], st)"
| "bridge_run w version (op # ops) st =
     (let (out, st1) = bridge_step w version op st; (h, st2) = bridge_run w version ops st1
      in ((op, out) # h, st2))"

lemma bridge_run_snoc:
  "bridge_run w version (ops @ [op]) st =
     (let (h, st1) = bridge_run w version ops st; (out, st2) = bridge_step w version op st1
      in (h @ [(op, out)], st2))"
  by (induction ops arbitrary: st) (auto simp: Let_def split: prod.split)

text \<open>Every history is reached one step at a time.\<close>

lemma bridge_run_induct [consumes 1, case_names start step]:
  assumes "bridge_run w version ops st = (h, st')"
    and "P [] st"
    and "\<And>h st1 op out st2. P h st1 \<Longrightarrow> bridge_step w version op st1 = (out, st2) \<Longrightarrow> P (h @ [(op, out)]) st2"
  shows "P h st'"
  using assms(1)
proof (induction ops arbitrary: h st' rule: rev_induct)
  case Nil
  then show ?case using assms(2) by simp
next
  case (snoc op ops)
  obtain h1 st1 where run: "bridge_run w version ops st = (h1, st1)" by (metis surj_pair)
  obtain out st2 where op: "bridge_step w version op st1 = (out, st2)" by (metis surj_pair)
  have "h = h1 @ [(op, out)] \<and> st' = st2" using snoc.prems run op by (simp add: bridge_run_snoc)
  then show ?case using assms(3) [OF snoc.IH [OF run] op] by simp
qed

definition gate_at :: "string \<Rightarrow> bridge \<times> sys \<Rightarrow> gate_entry option" where
  "gate_at rid st = map_of (br_gates (fst st)) rid"

lemma map_of_cancel [simp]:
  "map_of (map (\<lambda>(k, g). (k, F g)) xs) k = map_option F (map_of xs k)"
  by (induction xs) auto

lemma gate_at_set [simp]: "map_of (br_gates (set_gate rid g b)) k = (if k = rid then Some g else map_of (br_gates b) k)"
  by (simp add: set_gate_def update_conv' fun_upd_def)

lemma gate_at_drop [simp]: "map_of (br_gates (drop_gate rid b)) k = (if k = rid then None else map_of (br_gates b) k)"
  by (simp add: drop_gate_def delete_conv' fun_upd_def)

lemma gate_at_grant [simp]: "br_gates (grant_allowlist w g d b) = br_gates b"
  by (simp add: grant_allowlist_def remember_allowlist_def split: pyval.split allowlist_target.split)

text \<open>What each operation does to one entry.\<close>

lemma finish_gate_cases:
  assumes "finish_gate w rid g r st = (out, st')"
  shows "gate_at k st' = (if k = rid then None else gate_at k st)"
    and "out = O_returned rid (g_kind g)
           (decision_to_callback_value (g_kind g) (normalize_hitl_decision (rp_decision r)) (rp_text r))
         \<or> (\<exists>err. out = O_raised err)"
  using assms by (auto simp: finish_gate_def gate_at_def Let_def split: prod.splits sum.splits)

lemma resume_gate_at:
  "resume_gate w k st = (out, st') \<Longrightarrow> gate_at rid st' \<in> {gate_at rid st, None}"
  using finish_gate_cases(1) [of w k _ _ st out st' rid]
  by (fastforce simp: resume_gate_def split: option.splits if_splits fut_state.splits)

lemma timeout_gate_at:
  "timeout_gate w k st = (out, st') \<Longrightarrow> gate_at rid st' \<in> {gate_at rid st, None}"
  using finish_gate_cases(1) [of w k _ _ st out st' rid]
  by (fastforce simp: timeout_gate_def split: option.splits if_splits)

text \<open>The answer given to a gate, if it is a user's.\<close>

definition user_answer :: "history \<Rightarrow> string \<Rightarrow> response \<Rightarrow> bool" where
  "user_answer h rid r \<longleftrightarrow>
     (\<exists>d. (B_respond rid d (rp_text r) (rp_actor r), O_answer True) \<in> set h
        \<and> rp_decision r = normalize_hitl_decision d)"

definition answered :: "history \<Rightarrow> bridge \<times> sys \<Rightarrow> bool" where
  "answered h st \<longleftrightarrow>
     (\<forall>rid g r. gate_at rid st = Some g \<longrightarrow> g_future g = Fut_result r \<longrightarrow>
        rp_decision r \<in> {''timeout'', ''cancelled''} \<or> user_answer h rid r)"

lemma cancel_where_at:
  "map_of (br_gates (snd (cancel_where P b))) rid =
     map_option (\<lambda>g. if g_future g = Fut_pending \<and> P g
                     then g\<lparr>g_future := Fut_result (auto_response ''cancelled'')\<rparr> else g)
       (map_of (br_gates b) rid)"
  by (simp add: cancel_where_def Let_def)

lemma cancel_where_result:
  assumes "map_of (br_gates (snd (cancel_where P b))) rid = Some g'" and "g_future g' = Fut_result r"
  shows "(\<exists>g. map_of (br_gates b) rid = Some g \<and> g_future g = Fut_result r) \<or> rp_decision r = ''cancelled''"
  using assms by (auto simp: cancel_where_at auto_response_def split: if_splits)

text \<open>The entries after a step: unchanged, fresh, answered, cancelled or gone.\<close>

lemma gate_step:
  assumes "bridge_step w version op st = (out, st')" and "gate_at rid st' = Some g'"
    and "g_future g' = Fut_result r"
  shows "(\<exists>g. gate_at rid st = Some g \<and> g_future g = Fut_result r)
    \<or> rp_decision r = ''cancelled''
    \<or> (\<exists>d. op = B_respond rid d (rp_text r) (rp_actor r) \<and> out = O_answer True
           \<and> rp_decision r = normalize_hitl_decision d)"
proof (cases op)
  case (B_respond k d t a)
  then show ?thesis
    using assms by (auto simp: respond_def gate_at_def Let_def split: option.splits if_splits)
next
  case (B_resume k)
  then have "gate_at rid st = Some g'"
    using assms(1,2) resume_gate_at [of w k st out st' rid] by (auto dest: sym)
  then show ?thesis using assms(3) by blast
next
  case (B_timeout k)
  then have "gate_at rid st = Some g'"
    using assms(1,2) timeout_gate_at [of w k st out st' rid] by (auto dest: sym)
  then show ?thesis using assms(3) by blast
next
  case B_cancel_all
  then have "map_of (br_gates (snd (cancel_where (\<lambda>_. True) (fst st)))) rid = Some g'"
    using assms(1,2) by (auto simp: cancel_all_def gate_at_def split: prod.splits)
  then show ?thesis using cancel_where_result assms(3) by (fastforce simp: gate_at_def)
next
  case (B_cancel_thread t)
  then have "map_of (br_gates (snd (cancel_where (\<lambda>g. case g_task g of None \<Rightarrow> False
        | Some u \<Rightarrow> map_of (br_task_thread (fst st)) u = Some t) (fst st)))) rid = Some g'"
    using assms(1,2) by (auto simp: cancel_for_thread_def gate_at_def split: prod.splits)
  then show ?thesis using cancel_where_result assms(3) by (fastforce simp: gate_at_def)
qed (use assms in \<open>auto simp: open_gate_def cancel_gate_def abandon_gate_def bind_task_emitter_def task_done_def gate_at_def Let_def
      split: option.splits if_splits prod.splits sum.splits\<close>)

lemma answered_run:
  assumes "bridge_run w version ops (bridge_init allow target, sy) = (h, st)"
  shows "answered h st"
  using assms
proof (induction rule: bridge_run_induct)
  case start
  then show ?case by (simp add: answered_def gate_at_def bridge_init_def)
next
  case (step h st1 op out st2)
  show ?case
    unfolding answered_def
  proof (intro allI impI)
    fix rid g r assume "gate_at rid st2 = Some g" "g_future g = Fut_result r"
    from gate_step [OF step(2) this] step(1)
    show "rp_decision r \<in> {''timeout'', ''cancelled''} \<or> user_answer (h @ [(op, out)]) rid r"
      unfolding answered_def user_answer_def by auto
  qed
qed

definition positive :: "string \<Rightarrow> bool" where
  "positive d \<longleftrightarrow> d \<in> {''accept'', ''allowlist'', ''retry''}"

lemma callback_value_go:
  assumes "kind \<noteq> ''clarification''"
  shows "decision_to_callback_value kind (normalize_hitl_decision d) txt \<in> {''continue'', ''retry''} \<longleftrightarrow> positive d"
  using assms
  by (auto simp: decision_to_callback_value_def normalize_hitl_decision_def valid_decisions_def positive_def
      react_recovery_return_def tool_gate_return_def)

lemma normalize_positive [simp]: "positive (normalize_hitl_decision d) \<longleftrightarrow> positive d"
  by (auto simp: positive_def normalize_hitl_decision_def valid_decisions_def)

lemma normalize_idem [simp]: "normalize_hitl_decision (normalize_hitl_decision d) = normalize_hitl_decision d"
  by (simp add: normalize_hitl_decision_def)

text \<open>A step that returns a value finishes a gate, with its answer or a timeout.\<close>

lemma returned_step:
  assumes "bridge_step w version op st = (O_returned rid kind v, st')"
  shows "\<exists>g r. gate_at rid st = Some g \<and> kind = g_kind g
    \<and> v = decision_to_callback_value kind (normalize_hitl_decision (rp_decision r)) (rp_text r)
    \<and> (g_future g = Fut_result r \<or> r = auto_response ''timeout'')
    \<and> finish_gate w rid g r st = (O_returned rid kind v, st') \<and> op \<in> {B_resume rid, B_timeout rid}"
proof -
  have fin: "rid = k \<and> kind = g_kind g
      \<and> v = decision_to_callback_value kind (normalize_hitl_decision (rp_decision r)) (rp_text r)"
    if "finish_gate w k g r st = (O_returned rid kind v, st')" for k g r
    using finish_gate_cases(2) [OF that] by auto
  consider (res) k where "op = B_resume k" | (tmo) k where "op = B_timeout k"
    using assms by (cases op)
      (auto simp: open_gate_def abandon_gate_def Let_def split: option.splits if_splits prod.splits sum.splits)
  then show ?thesis
  proof cases
    case res
    then show ?thesis using assms fin
      by (fastforce simp: resume_gate_def gate_at_def split: option.splits if_splits fut_state.splits)
  next
    case tmo
    then show ?thesis using assms fin
      by (fastforce simp: timeout_gate_def gate_at_def split: option.splits if_splits fut_state.splits)
  qed
qed

lemma history_split:
  assumes "bridge_run w version ops st = (h, st')" and "h = before @ (op, out) # later"
  shows "\<exists>ops1 st1 st2. bridge_run w version ops1 st = (before, st1) \<and> bridge_step w version op st1 = (out, st2)"
  using assms
proof (induction ops arbitrary: h st before)
  case (Cons o1 ops)
  obtain out1 st1 where s1: "bridge_step w version o1 st = (out1, st1)" by (metis surj_pair)
  obtain h1 where run: "bridge_run w version ops st1 = (h1, st')" and h: "h = (o1, out1) # h1"
    using Cons.prems(1) s1 by (auto split: prod.splits)
  show ?case
  proof (cases before)
    case Nil
    then have "bridge_run w version [] st = (before, st)" "bridge_step w version op st = (out, st1)"
      using Cons.prems(2) h s1 by auto
    then show ?thesis by blast
  next
    case (Cons x rest)
    then have "h1 = rest @ (op, out) # later" "x = (o1, out1)" using Cons.prems(2) h by auto
    from Cons.IH [OF run this(1)] obtain ops1 st2 st3
      where "bridge_run w version ops1 st1 = (rest, st2)" "bridge_step w version op st2 = (out, st3)" by blast
    moreover from this have "bridge_run w version (o1 # ops1) st = (before, st2)"
      using s1 Cons \<open>x = (o1, out1)\<close> by simp
    ultimately show ?thesis by blast
  qed
qed simp

text \<open>
  C7. A gate other than a clarification lets the agent go on (it returns \<open>continue\<close> or
  \<open>retry\<close>) only after a response for its request was accepted earlier, with a decision that
  means yes. Timeouts, cancellations, unknown decisions and the shutdown never open a gate.
\<close>

theorem gate_opens_only_on_approval:
  assumes "bridge_run w version ops (bridge_init allow target, sy) = (h, st)"
    and "h = before @ (op, O_returned rid kind v) # later"
    and "kind \<noteq> ''clarification''" and "v \<in> {''continue'', ''retry''}"
  shows "\<exists>d t a. (B_respond rid d t a, O_answer True) \<in> set before \<and> d \<in> {''accept'', ''allowlist'', ''retry''}"
proof -
  obtain st1 st2 where ans: "answered before st1"
    and ret: "bridge_step w version op st1 = (O_returned rid kind v, st2)"
    using history_split [OF assms(1,2)] answered_run by metis
  obtain g r where g: "gate_at rid st1 = Some g" "kind = g_kind g"
    and v: "v = decision_to_callback_value kind (normalize_hitl_decision (rp_decision r)) (rp_text r)"
    and fut: "g_future g = Fut_result r \<or> r = auto_response ''timeout''"
    using returned_step [OF ret] by blast
  have pos: "positive (rp_decision r)" using callback_value_go [OF assms(3)] v assms(4) by blast
  then have "g_future g = Fut_result r" using fut by (auto simp: positive_def auto_response_def)
  then have "user_answer before rid r"
    using ans g(1) pos unfolding answered_def positive_def by fastforce
  then obtain d where "(B_respond rid d (rp_text r) (rp_actor r), O_answer True) \<in> set before" "positive d"
    using pos by (auto simp: user_answer_def)
  then show ?thesis unfolding positive_def by blast
qed

section \<open>Answered once, finished once\<close>

fun opens :: "bridge_op \<Rightarrow> string option" where
  "opens (B_open rid task event_type message) = Some rid"
| "opens _ = None"

definition accepts :: "string \<Rightarrow> bridge_op \<times> outcome \<Rightarrow> bool" where
  "accepts rid x \<longleftrightarrow> (case x of (B_respond k d t a, O_answer ok) \<Rightarrow> k = rid \<and> ok | _ \<Rightarrow> False)"

definition finishes :: "string \<Rightarrow> bridge_op \<times> outcome \<Rightarrow> bool" where
  "finishes rid x \<longleftrightarrow>
     (case snd x of O_returned k kind v \<Rightarrow> k = rid | O_cancelled k \<Rightarrow> k = rid | _ \<Rightarrow> False)"

definition waits :: "string \<Rightarrow> bridge \<times> sys \<Rightarrow> bool" where
  "waits rid st \<longleftrightarrow> (case gate_at rid st of None \<Rightarrow> False | Some g \<Rightarrow> g_future g = Fut_pending)"

lemma gate_kept:
  assumes "bridge_step w version op st = (out, st')" and "opens op \<noteq> Some rid"
  shows "(gate_at rid st' \<noteq> None \<longrightarrow> gate_at rid st \<noteq> None) \<and> (waits rid st' \<longrightarrow> waits rid st)"
proof (cases op)
  case (B_resume k)
  then have "gate_at rid st' = gate_at rid st \<or> gate_at rid st' = None"
    using assms(1) resume_gate_at [of w k st out st' rid] by simp
  then show ?thesis by (elim disjE) (simp_all add: waits_def)
next
  case (B_timeout k)
  then have "gate_at rid st' = gate_at rid st \<or> gate_at rid st' = None"
    using assms(1) timeout_gate_at [of w k st out st' rid] by simp
  then show ?thesis by (elim disjE) (simp_all add: waits_def)
next
  case B_cancel_all
  then have "gate_at rid st' = map_of (br_gates (snd (cancel_where (\<lambda>_. True) (fst st)))) rid"
    using assms(1) by (auto simp: cancel_all_def gate_at_def split: prod.splits)
  then show ?thesis by (auto simp: cancel_where_at gate_at_def waits_def split: option.splits if_splits)
next
  case (B_cancel_thread t)
  then have "gate_at rid st' = map_of (br_gates (snd (cancel_where (\<lambda>g. case g_task g of None \<Rightarrow> False
        | Some u \<Rightarrow> map_of (br_task_thread (fst st)) u = Some t) (fst st)))) rid"
    using assms(1) by (auto simp: cancel_for_thread_def gate_at_def split: prod.splits)
  then show ?thesis by (auto simp: cancel_where_at gate_at_def waits_def split: option.splits if_splits)
qed (use assms in \<open>auto simp: open_gate_def respond_def cancel_gate_def abandon_gate_def
      bind_task_emitter_def task_done_def gate_at_def waits_def Let_def
      split: option.splits if_splits prod.splits sum.splits\<close>)

lemma open_gate_at:
  "bridge_step w version op st = (out, st') \<Longrightarrow> opens op = Some rid \<Longrightarrow>
     gate_at rid st' \<noteq> None \<and> \<not> finishes k (op, out) \<and> \<not> accepts k (op, out)"
  by (cases op)
    (auto simp: open_gate_def gate_at_def Let_def finishes_def accepts_def split: prod.splits sum.splits)

lemma accepts_step:
  assumes "bridge_step w version op st = (out, st')" and "accepts rid (op, out)"
  shows "waits rid st \<and> \<not> waits rid st' \<and> gate_at rid st' \<noteq> None"
  using assms
  by (auto simp: accepts_def respond_def gate_at_def waits_def Let_def
      split: bridge_op.splits outcome.splits option.splits if_splits)

lemma finish_gate_not_cancelled: "finish_gate w k g r st \<noteq> (O_cancelled rid, st')"
  using finish_gate_cases(2) [of w k g r st "O_cancelled rid" st'] by auto

lemma cancelled_step:
  assumes "bridge_step w version op st = (O_cancelled rid, st')"
  shows "op = B_abandon rid"
proof (cases op)
  case (B_resume k)
  then show ?thesis using assms finish_gate_not_cancelled
    by (auto simp: resume_gate_def split: option.splits if_splits fut_state.splits)
next
  case (B_timeout k)
  then show ?thesis using assms finish_gate_not_cancelled
    by (auto simp: timeout_gate_def split: option.splits if_splits)
qed (use assms in \<open>auto simp: open_gate_def abandon_gate_def Let_def
      split: option.splits if_splits prod.splits sum.splits\<close>)

lemma finishes_step:
  assumes "bridge_step w version op st = (out, st')" and "finishes rid (op, out)"
  shows "gate_at rid st \<noteq> None \<and> gate_at rid st' = None"
proof (cases out)
  case (O_returned k kind v)
  then have "bridge_step w version op st = (O_returned rid kind v, st')"
    using assms by (simp add: finishes_def)
  from returned_step [OF this] obtain g r where "gate_at rid st = Some g"
    "finish_gate w rid g r st = (O_returned rid kind v, st')" by blast
  then show ?thesis using finish_gate_cases(1) by simp
next
  case (O_cancelled k)
  then have "bridge_step w version op st = (O_cancelled rid, st')"
    using assms by (simp add: finishes_def)
  from cancelled_step [OF this] this show ?thesis
    by (auto simp: abandon_gate_def gate_at_def Let_def split: option.splits if_splits prod.splits sum.splits)
qed (use assms(2) in \<open>simp_all add: finishes_def\<close>)

definition once :: "string \<Rightarrow> history \<Rightarrow> bridge \<times> sys \<Rightarrow> bool" where
  "once rid h st \<longleftrightarrow>
     (gate_at rid st \<noteq> None \<longrightarrow> Some rid \<in> opens ` fst ` set h)
     \<and> length (filter (accepts rid) h)
         \<le> of_bool (Some rid \<in> opens ` fst ` set h \<and> \<not> waits rid st)
     \<and> length (filter (finishes rid) h)
         \<le> of_bool (Some rid \<in> opens ` fst ` set h \<and> gate_at rid st = None)"

lemma once_step:
  assumes "once rid h st" and "bridge_step w version op st = (out, st')"
    and "opens op = Some rid \<Longrightarrow> Some rid \<notin> opens ` fst ` set h"
  shows "once rid (h @ [(op, out)]) st'"
proof (cases "opens op = Some rid")
  case True
  then show ?thesis
    using assms(1,3) open_gate_at [OF assms(2) True] by (auto simp: once_def)
next
  case False
  define opened where "opened \<longleftrightarrow> Some rid \<in> opens ` fst ` set h"
  have opened': "Some rid \<in> opens ` fst ` set (h @ [(op, out)]) \<longleftrightarrow> opened"
    using False by (auto simp: opened_def)
  have count: "length (filter P (h @ [x])) = length (filter P h) + of_bool (P x)" for P x by simp
  have wg: "waits rid s2 \<longrightarrow> gate_at rid s2 \<noteq> None" for s2 by (simp add: waits_def split: option.split)
  have inv: "gate_at rid st \<noteq> None \<longrightarrow> opened"
    "length (filter (accepts rid) h) \<le> of_bool (opened \<and> \<not> waits rid st)"
    "length (filter (finishes rid) h) \<le> of_bool (opened \<and> gate_at rid st = None)"
    using assms(1) by (simp_all add: once_def opened_def)
  show ?thesis
    unfolding once_def opened' count
  proof (intro conjI)
    show "gate_at rid st' \<noteq> None \<longrightarrow> opened" using inv(1) gate_kept [OF assms(2) False] by blast
    show "length (filter (accepts rid) h) + of_bool (accepts rid (op, out)) \<le> of_bool (opened \<and> \<not> waits rid st')"
      using inv wg [of st] accepts_step [OF assms(2), of rid] gate_kept [OF assms(2) False]
      by (cases "accepts rid (op, out)"; cases "waits rid st"; cases "waits rid st'"; cases opened) simp_all
    show "length (filter (finishes rid) h) + of_bool (finishes rid (op, out)) \<le> of_bool (opened \<and> gate_at rid st' = None)"
      using inv finishes_step [OF assms(2), of rid] gate_kept [OF assms(2) False]
      by (cases "finishes rid (op, out)"; cases "gate_at rid st"; cases "gate_at rid st'"; cases opened) simp_all
  qed
qed

lemma map_filter_append: "List.map_filter f (xs @ ys) = List.map_filter f xs @ List.map_filter f ys"
  by (simp add: List.map_filter_def)

lemma in_map_filter: "y \<in> set (List.map_filter f xs) \<longleftrightarrow> Some y \<in> f ` set xs"
proof (induction xs)
  case (Cons x xs)
  then show ?case by (cases "f x") (auto simp: List.map_filter_def)
qed (simp add: List.map_filter_def)

text \<open>
  C24. When every gate gets a request name of its own, at most one response to a request is
  accepted and a gate is finished at most once, however responses, timeouts, cancellations and
  the shutdown interleave.
\<close>

theorem gate_answered_once:
  assumes "bridge_run w version ops (bridge_init allow target, sy) = (h, st)"
    and "distinct (List.map_filter opens ops)"
  shows "length (filter (accepts rid) h) \<le> 1 \<and> length (filter (finishes rid) h) \<le> 1"
proof -
  have "once rid h st \<and> map fst h = ops"
    using assms
  proof (induction ops arbitrary: h st rule: rev_induct)
    case Nil
    then have "h = [] \<and> st = (bridge_init allow target, sy)" by simp
    then show ?case by (simp add: once_def gate_at_def bridge_init_def)
  next
    case (snoc op ops)
    obtain h1 st1 where run: "bridge_run w version ops (bridge_init allow target, sy) = (h1, st1)"
      by (metis surj_pair)
    obtain out st2 where op: "bridge_step w version op st1 = (out, st2)" by (metis surj_pair)
    have h: "h = h1 @ [(op, out)]" "st = st2" using snoc.prems(1) run op by (simp_all add: bridge_run_snoc)
    have "distinct (List.map_filter opens ops)"
      using snoc.prems(2) by (simp add: map_filter_append)
    from snoc.IH [OF run this] have ih: "once rid h1 st1" "map fst h1 = ops" by simp_all
    have "Some rid \<notin> opens ` set ops" if "opens op = Some rid"
    proof -
      have "rid \<in> set (List.map_filter opens [op])" using that by (simp add: in_map_filter)
      then have "rid \<notin> set (List.map_filter opens ops)"
        using snoc.prems(2) by (auto simp: map_filter_append)
      then show ?thesis by (simp add: in_map_filter)
    qed
    then have "once rid h st"
      using once_step [OF ih(1) op] h by (simp add: ih(2) [symmetric] image_image)
    then show ?case using ih(2) h by simp
  qed
  then show ?thesis by (auto simp: once_def split: if_splits intro: order_trans)
qed

section \<open>The wire says what the agent was told\<close>

lemma write_unstored_log:
  "write_unstored e (em, s) = Inr (em', s') \<Longrightarrow> ss_log s' = ss_log s @ [with_trace em e]"
  by (auto simp: write_unstored_def wire_step_def enqueue_wire_line_def Let_def
      split: sum.splits if_splits emitter_kind.splits)

lemma drop_notice_log:
  assumes "emit_store_append_dropped mint (em, s) = Inr (em', s')"
  shows "\<exists>rest. ss_log s' = ss_log s @ rest"
proof (cases "ss_clock s - em_last_drop_warn em < 1")
  case False
  let ?em1 = "em\<lparr>em_last_drop_warn := ss_clock s\<rparr>"
  obtain e s1 where b: "build_event mint ''error.transient'' drop_notice None (?em1, s) = (e, s1)"
    by (metis surj_pair)
  then have "write_unstored e (?em1, s1) = Inr (em', s')"
    using assms False by (simp add: emit_store_append_dropped_def Let_def)
  then show ?thesis using write_unstored_log build_event_props [OF b] by metis
qed (use assms in \<open>simp add: emit_store_append_dropped_def\<close>)

lemma write_event_log:
  assumes "write_event mint persist e (em, s) = Inr (em', s')"
  shows "\<exists>rest. ss_log s' = ss_log s @ with_trace em e # rest"
proof -
  obtain em1 s1 where w: "write_unstored e (em, s) = Inr (em1, s1)"
    using assms by (auto simp: write_event_def Let_def split: sum.splits)
  note log1 = write_unstored_log [OF w]
  have keeps: "\<exists>rest. ss_log s2 = ss_log s1 @ rest"
    if "schedule_store_append mint e1 (em2, s1) = Inr (em3, s2)" for e1 em2 em3 s2
  proof (cases "em_has_store em2 \<and> max_store_append_inflight \<le> ss_inflight s1")
    case True
    then have "emit_store_append_dropped mint (em2, s1) = Inr (em3, s2)"
      using that by (simp add: schedule_store_append_def inflight_try_acquire_def)
    then show ?thesis by (rule drop_notice_log)
  qed (use that in \<open>auto simp: schedule_store_append_def inflight_try_acquire_def inflight_release_def
      split: if_splits\<close>)
  have "\<exists>rest. ss_log s' = ss_log s1 @ rest"
    using assms w keeps by (auto simp: write_event_def Let_def split: sum.splits if_splits)
  then show ?thesis using log1 by auto
qed

lemma issue_log:
  assumes "issue vld mint rq (em, s) = (Inr e0, em', s')"
  shows "\<exists>e rest. ss_log s' = ss_log s @ e # rest \<and> ev_type e = rq_type rq
    \<and> (rq_parent rq \<noteq> None \<longrightarrow> ev_parent e = rq_parent rq)"
proof -
  obtain v where em: "emit_event mint (rq_type rq) (dump_model (rq_fields rq) v) (rq_parent rq)
      (rq_persist rq) (em, s) = Inr (e0, em', s')"
    using issue_cases [OF assms] by (metis prod.inject)
  obtain e1 s1 where b: "build_event mint (rq_type rq) (dump_model (rq_fields rq) v) (rq_parent rq) (em, s)
      = (e1, s1)" by (metis surj_pair)
  then have "write_event mint (rq_persist rq) e1 (em, s1) = Inr (em', s')"
    using em by (auto simp: emit_event_def split: sum.splits)
  from write_event_log [OF this] obtain rest where "ss_log s' = ss_log s1 @ with_trace em e1 # rest" by blast
  moreover have "ev_parent e1 = rq_parent rq"
    using b by (auto simp: build_event_def Let_def split: prod.splits)
  ultimately show ?thesis
    using build_event_props [OF b] by (auto simp: with_trace_def split: option.split)
qed

lemma finish_gate_log:
  assumes "finish_gate w rid g r (b, ems, s) = (O_returned k kind v, b', ems', s')"
  shows "\<exists>e rest. ss_log s' = ss_log s @ e # rest
    \<and> ev_type e = rq_type (emit_hitl_decision rid (normalize_hitl_decision (rp_decision r)) [] None None None)
    \<and> (g_request g \<noteq> None \<longrightarrow> ev_parent e = g_request g)"
proof -
  let ?rq = "emit_hitl_decision rid (normalize_hitl_decision (rp_decision r))
      (if rp_actor r = [] then ''user'' else rp_actor r) (rp_text r) None (g_request g)"
  obtain e0 em1 where "issue (hw_vld w) (hw_mint w) ?rq (ems ! g_emitter g, s) = (Inr e0, em1, s')"
    using assms by (auto simp: finish_gate_def issue_on_def put_emitter_def Let_def split: prod.splits sum.splits)
  from issue_log [OF this] show ?thesis
    by (auto simp: emit_hitl_decision_def request_of_def)
qed

text \<open>
  When a gate other than a clarification returns, the decision event it wrote is a child of
  its request, and it is \<open>hitl.granted\<close> or \<open>hitl.allowlisted\<close> exactly when the agent was told
  to go on, \<open>hitl.denied\<close> otherwise.
\<close>

theorem decision_event_matches:
  assumes "bridge_step w version op (b, ems, s) = (O_returned rid kind v, b', ems', s')"
    and "kind \<noteq> ''clarification''"
  shows "\<exists>g e rest. gate_at rid (b, ems, s) = Some g \<and> ss_log s' = ss_log s @ e # rest
    \<and> ev_parent e = g_request g
    \<and> (if v \<in> {''continue'', ''retry''} then ev_type e \<in> {''hitl.granted'', ''hitl.allowlisted''}
       else v = ''abort'' \<and> ev_type e = ''hitl.denied'')"
proof -
  obtain g r where g: "gate_at rid (b, ems, s) = Some g" "kind = g_kind g"
    and v: "v = decision_to_callback_value kind (normalize_hitl_decision (rp_decision r)) (rp_text r)"
    and fin: "finish_gate w rid g r (b, ems, s) = (O_returned rid kind v, b', ems', s')"
    and op: "op \<in> {B_resume rid, B_timeout rid}"
    using returned_step [OF assms(1)] by blast
  have "g_request g \<noteq> None"
    using op assms(1) g(1)
    by (auto simp: resume_gate_def timeout_gate_def gate_at_def split: if_splits)
  then obtain e rest where log: "ss_log s' = ss_log s @ e # rest" "ev_parent e = g_request g"
    and kind_of: "ev_type e = rq_type (emit_hitl_decision rid (normalize_hitl_decision (rp_decision r)) [] None None None)"
    using finish_gate_log [OF fin] by blast
  have "if v \<in> {''continue'', ''retry''} then ev_type e \<in> {''hitl.granted'', ''hitl.allowlisted''}
        else v = ''abort'' \<and> ev_type e = ''hitl.denied''"
    using kind_of v assms(2)
    by (simp add: emit_hitl_decision_def request_of_def decision_to_callback_value_def
        normalize_hitl_decision_def valid_decisions_def react_recovery_return_def tool_gate_return_def)
  then show ?thesis using g(1) log by blast
qed

section \<open>Shutdown\<close>

text \<open>
  The shutdown unblocks every gate: \<open>cancel_all\<close> counts the undone futures and leaves none,
  and a gate that was waiting returns \<open>abort\<close> (a clarification the empty answer) when its
  coroutine goes on, unless writing the decision fails.
\<close>

theorem cancel_all_unblocks:
  assumes "cancel_all b = (n, b')"
  shows "n = pending_count b \<and> pending_count b' = 0
    \<and> (\<forall>rid g. map_of (br_gates b) rid = Some g \<and> g_future g = Fut_pending \<and> g_request g \<noteq> None
         \<and> \<not> g_cancelling g \<longrightarrow>
         fst (resume_gate w rid (b', sy))
           \<in> {O_returned rid (g_kind g) (if g_kind g = ''clarification'' then [] else ''abort'')} \<union> range O_raised)"
proof -
  have b': "b' = snd (cancel_where (\<lambda>_. True) b)" and n: "n = fst (cancel_where (\<lambda>_. True) b)"
    using assms by (simp_all add: cancel_all_def)
  have "pending_count b' = 0"
    by (auto simp: b' pending_count_def cancel_where_def Let_def filter_empty_conv split: if_splits)
  moreover have "n = pending_count b" by (simp add: n pending_count_def cancel_where_def Let_def)
  moreover have "fst (resume_gate w rid (b', sy))
      \<in> {O_returned rid (g_kind g) (if g_kind g = ''clarification'' then [] else ''abort'')} \<union> range O_raised"
    if g: "map_of (br_gates b) rid = Some g" "g_future g = Fut_pending" "g_request g \<noteq> None" "\<not> g_cancelling g"
    for rid g
  proof -
    let ?g = "g\<lparr>g_future := Fut_result (auto_response ''cancelled'')\<rparr>"
    obtain out st' where fin: "finish_gate w rid ?g (auto_response ''cancelled'') (b', sy) = (out, st')"
      by (metis surj_pair)
    have "map_of (br_gates b') rid = Some ?g" by (simp add: b' cancel_where_at g)
    then have "resume_gate w rid (b', sy) = (out, st')" using g fin by (auto simp: resume_gate_def)
    moreover have "decision_to_callback_value (g_kind g) (normalize_hitl_decision ''cancelled'') None
        = (if g_kind g = ''clarification'' then [] else ''abort'')"
      by (simp add: decision_to_callback_value_def normalize_hitl_decision_def valid_decisions_def
          react_recovery_return_def tool_gate_return_def)
    ultimately show ?thesis
      using finish_gate_cases(2) [OF fin] by (auto simp: auto_response_def)
  qed
  ultimately show ?thesis by blast
qed

section \<open>A concrete session\<close>

definition demo_world :: hitl_world where
  "demo_world = \<lparr>hw_vld = exact_validate, hw_mint = demo_mint, hw_resolve = (\<lambda>p. p), hw_str = (\<lambda>_. [])\<rparr>"

definition demo_tool_message :: pyval where
  "demo_tool_message = PyDict [(''tool_name'', PyStr ''execute''), (''args'', PyDict [])]"

definition demo_ops :: "bridge_op list" where
  "demo_ops =
     [B_open ''hr_1'' None ''tool_interrupt_before'' demo_tool_message,
      B_open ''hr_2'' None ''clarification_request'' (clarification_message ''why'' []),
      B_respond ''hr_1'' ''allowlist'' None ''user'',
      B_respond ''hr_1'' ''reject'' None ''user'',
      B_resume ''hr_1'',
      B_respond ''hr_2'' ''reject'' (Some ''because'') ''user'',
      B_resume ''hr_2'']"

definition demo_bridge :: "history \<times> bridge \<times> sys" where
  "demo_bridge = bridge_run demo_world ''1'' demo_ops
     (bridge_init No_allowlist (Keep_in_file ''f''), sys_init ''s1'' ''t1'' False)"

lemma demo_history:
  "map snd (fst demo_bridge) =
     [O_done, O_done, O_answer True, O_answer False, O_returned ''hr_1'' ''tool_approval'' ''continue'',
      O_answer True, O_returned ''hr_2'' ''clarification'' ''because'']"
  by code_simp

lemma bridge_run_ops: "bridge_run w version ops st = (h, st') \<Longrightarrow> map fst h = ops"
  by (induction ops arbitrary: st h) (auto simp: Let_def split: prod.splits)

lemma demo_trace: "fst demo_bridge = zip demo_ops
     [O_done, O_done, O_answer True, O_answer False, O_returned ''hr_1'' ''tool_approval'' ''continue'',
      O_answer True, O_returned ''hr_2'' ''clarification'' ''because'']"
proof -
  have "map fst (fst demo_bridge) = demo_ops"
    using bridge_run_ops unfolding demo_bridge_def by (metis prod.collapse)
  then show ?thesis using demo_history by (metis zip_map_fst_snd)
qed

theorem gate_opens_only_on_approval_witness:
  "\<exists>d t a. (B_respond ''hr_1'' d t a, O_answer True) \<in> set (take 4 (fst demo_bridge))
     \<and> d \<in> {''accept'', ''allowlist'', ''retry''}"
proof -
  have "fst demo_bridge = take 4 (fst demo_bridge)
      @ (B_resume ''hr_1'', O_returned ''hr_1'' ''tool_approval'' ''continue'') # drop 5 (fst demo_bridge)"
    by (simp add: demo_trace demo_ops_def)
  from gate_opens_only_on_approval [OF _ this, of demo_world "''1''" demo_ops No_allowlist
      "Keep_in_file ''f''" "sys_init ''s1'' ''t1'' False" "snd demo_bridge"]
  show ?thesis by (simp add: demo_bridge_def)
qed

theorem gate_answered_once_witness:
  "length (filter (accepts ''hr_1'') (fst demo_bridge)) \<le> 1
     \<and> length (filter (finishes ''hr_1'') (fst demo_bridge)) \<le> 1"
proof -
  have "distinct (List.map_filter opens demo_ops)" by code_simp
  from gate_answered_once [OF _ this, of demo_world "''1''" No_allowlist "Keep_in_file ''f''"
      "sys_init ''s1'' ''t1'' False" "fst demo_bridge" "snd demo_bridge" "''hr_1''"]
  show ?thesis by (simp add: demo_bridge_def)
qed

definition demo_waiting :: "bridge \<times> sys" where
  "demo_waiting = snd (bridge_run demo_world ''1'' (take 4 demo_ops)
     (bridge_init No_allowlist (Keep_in_file ''f''), sys_init ''s1'' ''t1'' False))"

theorem decision_event_matches_witness:
  "\<exists>g e rest. gate_at ''hr_1'' demo_waiting = Some g
     \<and> ss_log (snd (snd (snd (bridge_step demo_world ''1'' (B_resume ''hr_1'') demo_waiting))))
         = ss_log (snd (snd demo_waiting)) @ e # rest
     \<and> ev_parent e = g_request g \<and> ev_type e \<in> {''hitl.granted'', ''hitl.allowlisted''}"
proof -
  have out: "fst (bridge_step demo_world ''1'' (B_resume ''hr_1'') demo_waiting)
      = O_returned ''hr_1'' ''tool_approval'' ''continue''" by code_simp
  obtain b ems s where st: "demo_waiting = (b, ems, s)" by (metis surj_pair)
  obtain b' ems' s' where "bridge_step demo_world ''1'' (B_resume ''hr_1'') demo_waiting
      = (O_returned ''hr_1'' ''tool_approval'' ''continue'', b', ems', s')"
    using out by (metis prod.collapse)
  from decision_event_matches [of demo_world "''1''" "B_resume ''hr_1''" b ems s, OF this [unfolded st]] this
  show ?thesis unfolding st by (simp del: bridge_step.simps)
qed

theorem cancel_all_unblocks_witness:
  "fst (cancel_all (fst demo_waiting)) = 1
     \<and> pending_count (snd (cancel_all (fst demo_waiting))) = 0
     \<and> fst (resume_gate demo_world ''hr_2'' (snd (cancel_all (fst demo_waiting)), snd demo_waiting))
         \<in> {O_returned ''hr_2'' ''clarification'' []} \<union> range O_raised"
proof -
  obtain n b' where c: "cancel_all (fst demo_waiting) = (n, b')" by (metis surj_pair)
  have "case map_of (br_gates (fst demo_waiting)) ''hr_2'' of None \<Rightarrow> False
      | Some g \<Rightarrow> g_future g = Fut_pending \<and> g_request g \<noteq> None \<and> \<not> g_cancelling g
                \<and> g_kind g = ''clarification''" by code_simp
  then obtain g where g: "map_of (br_gates (fst demo_waiting)) ''hr_2'' = Some g" "g_future g = Fut_pending"
    "g_request g \<noteq> None" "\<not> g_cancelling g" "g_kind g = ''clarification''"
    by (auto split: option.splits)
  have one: "pending_count (fst demo_waiting) = 1" by code_simp
  from cancel_all_unblocks [OF c, of demo_world "snd demo_waiting"] g one show ?thesis by (fastforce simp: c)
qed

section \<open>What can go wrong\<close>

text \<open>An answered clarification is on the wire as denied when the decision is the default one.\<close>

lemma answered_clarification_denied:
  "map ev_type (ss_log (snd (snd (snd demo_bridge))))
     = [''hitl.request'', ''hitl.request'', ''hitl.allowlisted'', ''hitl.denied'']"
  by code_simp

text \<open>A request that cannot be written stays in the table for good: it counts, and accepts an answer.\<close>

lemma unwritten_gate_stays:
  assumes "open_gate w rid task event_type message (b, sy) = (O_raised err, b', sy')"
  shows "waits rid (b', sy') \<and> fst (respond rid d t a b')
    \<and> resume_gate w rid (b', sy2) = (O_done, b', sy2) \<and> abandon_gate w rid (b', sy2) = (O_done, b', sy2)"
  using assms
  by (auto simp: open_gate_def waits_def gate_at_def respond_def resume_gate_def abandon_gate_def Let_def
      split: prod.splits sum.splits)

text \<open>While a gate with a timeout is being cancelled, a response is still accepted, and lost.\<close>

lemma response_lost_to_cancel:
  assumes "gate_at rid (b, sy) = Some g" and "g_future g = Fut_pending" and "g_request g \<noteq> None"
    and "positive_timeout (get_or_none (g_params g) ''timeout_ms'')"
    and "respond rid ''accept'' None ''user'' (cancel_gate rid b) = (ok, b')"
    and "abandon_gate w rid (b', sy) = (out, b2, sy2)"
  shows "ok \<and> out \<in> {O_cancelled rid} \<union> range O_raised"
  using assms
  by (auto simp: cancel_gate_def respond_def abandon_gate_def gate_at_def Let_def
      split: prod.splits sum.splits)

end
