(* ===== verification/Progress_Ledger.thy ===== *)
theory Progress_Ledger
  imports Agloom_Prelude "HOL-Library.Char_ord" "HOL-Library.List_Lexorder" "HOL-Library.Product_Lexorder"
begin

text \<open>
  The harness ledger: tasks with verification steps, the progress artifact, and the trackers
  that share one artifact in a long-term store (\<open>src/agloom/harness/progress.py\<close>, \<open>seed.py\<close>,
  \<open>planning.py\<close>, \<open>metadata.py\<close>).

  Each method takes the time \<open>now\<close> of the clock it reads. The store holds the artifact as it
  was written (\<open>model_dump_json\<close>); reading it validates it again, by \<open>vbool\<close> and \<open>vstr\<close>, which
  stand for pydantic's validation of a boolean and of a string and are only assumed to keep
  booleans and strings. A method also takes, for each read of the store it may do, whether
  that read succeeds (\<open>rd\<close>): \<open>_lts_get\<close> turns a failure into a missing entry. Methods are
  atomic here; in the code their awaits interleave with those of other trackers.

  The results an agent reports for verification steps are raw values, as the code stores them.
\<close>

section \<open>Data\<close>

datatype ledger_status = Pending | In_progress | Passing | Failing | Skipped

datatype ledger_priority = Critical | High | Medium | Low

record task_step =
  ts_description :: string
  ts_passes :: pyval
  ts_notes :: pyval
  ts_verified_at :: "string option"

record ltask =
  tk_id :: string
  tk_category :: string
  tk_description :: string
  tk_status :: ledger_status
  tk_priority :: ledger_priority
  tk_session :: "string option"
  tk_steps :: "task_step list"
  tk_notes :: string
  tk_error :: string
  tk_created :: string
  tk_updated :: string
  tk_completed :: "string option"
  tk_attempts :: int

record artifact =
  ar_project :: string
  ar_description :: string
  ar_tasks :: "ltask list"
  ar_created :: string
  ar_updated :: string
  ar_sessions :: int
  ar_version :: int
  ar_work_kind :: string

definition new_step :: "string \<Rightarrow> task_step" where
  "new_step desc = \<lparr>ts_description = desc, ts_passes = PyBool False, ts_notes = PyStr [],
     ts_verified_at = None\<rparr>"

definition new_task ::
    "string \<Rightarrow> string \<Rightarrow> string \<Rightarrow> ledger_priority \<Rightarrow> task_step list \<Rightarrow> string \<Rightarrow> string \<Rightarrow> ltask" where
  "new_task i desc cat prio steps notes now =
     \<lparr>tk_id = i, tk_category = cat, tk_description = desc, tk_status = Pending,
      tk_priority = prio, tk_session = None, tk_steps = steps, tk_notes = notes, tk_error = [],
      tk_created = now, tk_updated = now, tk_completed = None, tk_attempts = 0\<rparr>"

definition fresh_artifact :: "string \<Rightarrow> string \<Rightarrow> string \<Rightarrow> artifact" where
  "fresh_artifact project goal now =
     \<lparr>ar_project = project, ar_description = goal, ar_tasks = [], ar_created = now,
      ar_updated = now, ar_sessions = 0, ar_version = 1, ar_work_kind = []\<rparr>"

section \<open>One task\<close>

definition mark_in_progress :: "string \<Rightarrow> string \<Rightarrow> ltask \<Rightarrow> ltask" where
  "mark_in_progress sid now t =
     t\<lparr>tk_status := In_progress, tk_session := Some sid, tk_attempts := tk_attempts t + 1,
       tk_updated := now\<rparr>"

definition mark_passing :: "string \<Rightarrow> ltask \<Rightarrow> bool \<times> ltask" where
  "mark_passing now t =
     (if tk_steps t = [] then (False, t)
      else let failing = filter (\<lambda>s. \<not> truthy (ts_passes s)) (tk_steps t)
           in if failing \<noteq> [] then
                (False, t\<lparr>tk_status := Failing,
                          tk_error := digits (length failing) @ '' steps failing: ''
                            @ join_with '', '' (map ts_description failing),
                          tk_updated := now\<rparr>)
              else (True, t\<lparr>tk_status := Passing, tk_completed := Some now, tk_session := None,
                            tk_updated := now\<rparr>))"

definition mark_failing :: "string \<Rightarrow> string \<Rightarrow> ltask \<Rightarrow> ltask" where
  "mark_failing err now t = t\<lparr>tk_status := Failing, tk_error := err, tk_updated := now\<rparr>"

section \<open>The artifact\<close>

definition with_status :: "ledger_status \<Rightarrow> artifact \<Rightarrow> ltask list" where
  "with_status st a = filter (\<lambda>t. tk_status t = st) (ar_tasks a)"

definition completion_ratio :: "artifact \<Rightarrow> rat" where
  "completion_ratio a =
     (if ar_tasks a = [] then 0
      else of_nat (length (with_status Passing a)) / of_nat (length (ar_tasks a)))"

text \<open>The position of the first task with this id.\<close>

definition get_task :: "string \<Rightarrow> artifact \<Rightarrow> nat option" where
  "get_task i a = find (\<lambda>k. tk_id (ar_tasks a ! k) = i) [0..<length (ar_tasks a)]"

definition set_task :: "nat \<Rightarrow> ltask \<Rightarrow> artifact \<Rightarrow> artifact" where
  "set_task k t a = a\<lparr>ar_tasks := (ar_tasks a)[k := t]\<rparr>"

fun priority_index :: "ledger_priority \<Rightarrow> nat" where
  "priority_index Critical = 0"
| "priority_index High = 1"
| "priority_index Medium = 2"
| "priority_index Low = 3"

text \<open>Every task another session has in progress is handed over to this one.\<close>

definition reclaim :: "string \<Rightarrow> artifact \<Rightarrow> artifact" where
  "reclaim sid a =
     a\<lparr>ar_tasks := map (\<lambda>t. case tk_session t of
                              Some other \<Rightarrow>
                                if tk_status t = In_progress \<and> other \<noteq> [] \<and> other \<noteq> sid
                                then t\<lparr>tk_session := Some sid\<rparr> else t
                            | None \<Rightarrow> t) (ar_tasks a)\<rparr>"

definition candidates :: "string \<Rightarrow> ltask list \<Rightarrow> nat list" where
  "candidates sid ts =
     filter (\<lambda>k. tk_status (ts ! k) = Pending) [0..<length ts]
     @ filter (\<lambda>k. tk_status (ts ! k) = In_progress \<and> tk_session (ts ! k) = Some sid) [0..<length ts]"

definition task_key :: "ltask \<Rightarrow> nat \<times> string" where
  "task_key t = (priority_index (tk_priority t), tk_created t)"

definition get_next_task :: "string \<Rightarrow> artifact \<Rightarrow> nat option \<times> artifact" where
  "get_next_task sid a0 =
     (let a = reclaim sid a0; ts = ar_tasks a
      in case sort_key (\<lambda>k. task_key (ts ! k)) (candidates sid ts) of
           [] \<Rightarrow> (None, a)
         | k # _ \<Rightarrow> (Some k, a))"

section \<open>Reading it back\<close>

definition load_step :: "(pyval \<Rightarrow> bool option) \<Rightarrow> (pyval \<Rightarrow> string option) \<Rightarrow> task_step \<Rightarrow> task_step option"
    where
  "load_step vbool vstr s =
     (case (vbool (ts_passes s), vstr (ts_notes s)) of
        (Some b, Some n) \<Rightarrow> Some (s\<lparr>ts_passes := PyBool b, ts_notes := PyStr n\<rparr>)
      | _ \<Rightarrow> None)"

fun map_opt :: "('a \<Rightarrow> 'b option) \<Rightarrow> 'a list \<Rightarrow> 'b list option" where
  "map_opt f [] = Some []"
| "map_opt f (x # xs) =
     (case f x of None \<Rightarrow> None | Some y \<Rightarrow> map_option ((#) y) (map_opt f xs))"

definition load_task :: "(pyval \<Rightarrow> bool option) \<Rightarrow> (pyval \<Rightarrow> string option) \<Rightarrow> ltask \<Rightarrow> ltask option"
    where
  "load_task vbool vstr t =
     map_option (\<lambda>ss. t\<lparr>tk_steps := ss\<rparr>) (map_opt (load_step vbool vstr) (tk_steps t))"

definition load_artifact ::
    "(pyval \<Rightarrow> bool option) \<Rightarrow> (pyval \<Rightarrow> string option) \<Rightarrow> artifact \<Rightarrow> artifact option" where
  "load_artifact vbool vstr a =
     map_option (\<lambda>ts. a\<lparr>ar_tasks := ts\<rparr>) (map_opt (load_task vbool vstr) (ar_tasks a))"

section \<open>The tracker and its store\<close>

record session_state =
  bs_session :: string
  bs_number :: int
  bs_last_task :: "string option"
  bs_last_status :: "ledger_status option"
  bs_clean :: bool
  bs_blockers :: "string list"
  bs_next_action :: string
  bs_snapshot :: string
  bs_error :: "string option"
  bs_ended :: string

record tracker =
  tr_project :: string
  tr_artifact :: "artifact option"
  tr_session :: "string option"
  tr_states :: "session_state pydict"

text \<open>The long-term store, and \<open>agloom-progress.json\<close> in the working directory.\<close>

record lstore =
  ls_artifact :: "artifact option"
  ls_states :: "session_state pydict"
  ls_disk :: "artifact option"

type_synonym loader = "artifact \<Rightarrow> artifact option"

type_synonym 'a ledger = "tracker \<times> lstore \<Rightarrow> (pyerror + 'a) \<times> tracker \<times> lstore"

definition tracker_init :: "string \<Rightarrow> tracker" where
  "tracker_init project = \<lparr>tr_project = project, tr_artifact = None, tr_session = None, tr_states = []\<rparr>"

definition store_init :: lstore where
  "store_init = \<lparr>ls_artifact = None, ls_states = [], ls_disk = None\<rparr>"

text \<open>The property \<open>artifact\<close> makes an empty one when there is none.\<close>

definition the_artifact :: "string \<Rightarrow> tracker \<Rightarrow> artifact" where
  "the_artifact now tr =
     (case tr_artifact tr of Some a \<Rightarrow> a | None \<Rightarrow> fresh_artifact (tr_project tr) [] now)"

definition put_artifact :: "artifact \<Rightarrow> tracker \<Rightarrow> tracker" where
  "put_artifact a tr = tr\<lparr>tr_artifact := Some a\<rparr>"

text \<open>The version check, then the write; a stored artifact that does not parse is not checked.\<close>

definition save_unlocked :: "loader \<Rightarrow> bool \<Rightarrow> string \<Rightarrow> unit ledger" where
  "save_unlocked load rd now st =
     (let (tr, s) = st
      in case tr_artifact tr of
           None \<Rightarrow> (Inr (), tr, s)
         | Some a \<Rightarrow>
             let newer = (case Option.bind (if rd then ls_artifact s else None) load of
                            None \<Rightarrow> None
                          | Some d \<Rightarrow> if ar_version a < ar_version d then Some (ar_version d) else None);
                 a' = a\<lparr>ar_updated := now, ar_version := ar_version a + 1\<rparr>
             in case newer of
                  Some v \<Rightarrow> (Inl (VersionConflict (ar_version a) v), tr, s)
                | None \<Rightarrow> (Inr (), put_artifact a' tr, s\<lparr>ls_artifact := Some a'\<rparr>))"

text \<open>The end of \<open>bootstrap\<close>: one session more, saved.\<close>

definition begin_session :: "loader \<Rightarrow> bool \<Rightarrow> string \<Rightarrow> artifact \<Rightarrow> unit ledger" where
  "begin_session load rd now a st =
     save_unlocked load rd now
       (put_artifact (a\<lparr>ar_sessions := ar_sessions a + 1, ar_updated := now\<rparr>) (fst st), snd st)"

definition bootstrap ::
    "loader \<Rightarrow> (nat \<Rightarrow> bool) \<Rightarrow> string \<Rightarrow> string \<Rightarrow> bool \<Rightarrow> string \<Rightarrow> unit ledger" where
  "bootstrap load rd sid goal from_disk now st =
     (let (tr0, s) = st;
          tr = tr0\<lparr>tr_session := Some sid\<rparr>;
          fresh = fresh_artifact (tr_project tr) goal now
      in case (if rd 0 then ls_artifact s else None) of
           Some d \<Rightarrow> begin_session load (rd 1) now (case load d of Some a \<Rightarrow> a | None \<Rightarrow> fresh) (tr, s)
         | None \<Rightarrow>
             (case (if from_disk then Option.bind (ls_disk s) load else None) of
                Some a \<Rightarrow>
                  (case save_unlocked load (rd 1) now (put_artifact a tr, s) of
                     (Inl e, st') \<Rightarrow> (Inl e, st')
                   | (Inr _, st') \<Rightarrow> begin_session load (rd 2) now (the_artifact now (fst st')) st')
              | None \<Rightarrow> begin_session load (rd 1) now fresh (tr, s)))"

definition save_progress :: "loader \<Rightarrow> bool \<Rightarrow> string \<Rightarrow> unit ledger" where
  "save_progress load rd now st = save_unlocked load rd now st"

definition add_task ::
    "loader \<Rightarrow> bool \<Rightarrow> string \<Rightarrow> string \<Rightarrow> string \<Rightarrow> ledger_priority \<Rightarrow> task_step list \<Rightarrow> string \<Rightarrow> string
       \<Rightarrow> ltask ledger" where
  "add_task load rd i desc cat prio steps notes now st =
     (let (tr, s) = st; a = the_artifact now tr
      in case get_task i a of
           Some k \<Rightarrow> (Inr (ar_tasks a ! k), put_artifact a tr, s)
         | None \<Rightarrow>
             let t = new_task i desc cat prio steps notes now
             in case save_unlocked load rd now (put_artifact (a\<lparr>ar_tasks := ar_tasks a @ [t]\<rparr>) tr, s) of
                  (Inl e, st') \<Rightarrow> (Inl e, st')
                | (Inr _, st') \<Rightarrow> (Inr t, st'))"

text \<open>A result the agent reports; a missing field has the default of \<open>vs.get\<close>.\<close>

record step_result =
  sr_description :: string
  sr_passes :: "pyval option"
  sr_notes :: "pyval option"

definition apply_result :: "string \<Rightarrow> step_result \<Rightarrow> task_step \<Rightarrow> task_step" where
  "apply_result now r s =
     (if ts_description s = sr_description r then
        s\<lparr>ts_passes := (case sr_passes r of None \<Rightarrow> PyBool False | Some v \<Rightarrow> v),
          ts_notes := (case sr_notes r of None \<Rightarrow> PyStr [] | Some v \<Rightarrow> v),
          ts_verified_at := (case sr_passes r of
                               Some v \<Rightarrow> if truthy v then Some now else ts_verified_at s
                             | None \<Rightarrow> ts_verified_at s)\<rparr>
      else s)"

definition apply_results :: "string \<Rightarrow> step_result list \<Rightarrow> task_step list \<Rightarrow> task_step list" where
  "apply_results now rs ss = map (\<lambda>s. fold (apply_result now) rs s) ss"

definition change_status ::
    "string \<Rightarrow> tracker \<Rightarrow> ledger_status \<Rightarrow> string option \<Rightarrow> step_result list \<Rightarrow> ltask \<Rightarrow> ltask" where
  "change_status now tr status err rs t =
     (case status of
        Passing \<Rightarrow> snd (mark_passing now (t\<lparr>tk_steps := apply_results now rs (tk_steps t)\<rparr>))
      | Failing \<Rightarrow> mark_failing (case err of None \<Rightarrow> [] | Some e \<Rightarrow> e) now t
      | In_progress \<Rightarrow> mark_in_progress (case tr_session tr of None \<Rightarrow> [] | Some sid \<Rightarrow> sid) now t
      | Skipped \<Rightarrow> t\<lparr>tk_status := Skipped, tk_session := None, tk_updated := now\<rparr>
      | Pending \<Rightarrow> t\<lparr>tk_status := Pending\<rparr>)"

definition update_task ::
    "loader \<Rightarrow> bool \<Rightarrow> string \<Rightarrow> ledger_status option \<Rightarrow> string option \<Rightarrow> string option
       \<Rightarrow> step_result list \<Rightarrow> string \<Rightarrow> ltask option ledger" where
  "update_task load rd i status notes err rs now st =
     (let (tr, s) = st; a = the_artifact now tr
      in case get_task i a of
           None \<Rightarrow> (Inr None, put_artifact a tr, s)
         | Some k \<Rightarrow>
             let t0 = ar_tasks a ! k;
                 t1 = (case status of None \<Rightarrow> t0 | Some x \<Rightarrow> change_status now tr x err rs t0);
                 t = (case notes of None \<Rightarrow> t1 | Some n \<Rightarrow> t1\<lparr>tk_notes := n\<rparr>)
             in case save_unlocked load rd now (put_artifact (set_task k t a) tr, s) of
                  (Inl e, st') \<Rightarrow> (Inl e, st')
                | (Inr _, st') \<Rightarrow> (Inr (Some t), st'))"

definition claim_next_task :: "loader \<Rightarrow> bool \<Rightarrow> string \<Rightarrow> string \<Rightarrow> ltask option ledger" where
  "claim_next_task load rd sid now st =
     (let (tr, s) = st; (nxt, a) = get_next_task sid (the_artifact now tr)
      in case nxt of
           None \<Rightarrow> (Inr None, put_artifact a tr, s)
         | Some k \<Rightarrow>
             let t = mark_in_progress sid now (ar_tasks a ! k)
             in case save_unlocked load rd now (put_artifact (set_task k t a) tr, s) of
                  (Inl e, st') \<Rightarrow> (Inl e, st')
                | (Inr _, st') \<Rightarrow> (Inr (Some t), st'))"

definition ledger_revision :: "tracker \<Rightarrow> int" where
  "ledger_revision tr = (case tr_artifact tr of None \<Rightarrow> 0 | Some a \<Rightarrow> ar_version a)"

definition set_work_kind :: "string \<Rightarrow> tracker \<Rightarrow> tracker" where
  "set_work_kind kind tr =
     (if blank kind then tr
      else case tr_artifact tr of
             None \<Rightarrow> tr
           | Some a \<Rightarrow> put_artifact (a\<lparr>ar_work_kind := py_strip kind\<rparr>) tr)"

definition write_session_state :: "session_state \<Rightarrow> tracker \<times> lstore \<Rightarrow> tracker \<times> lstore" where
  "write_session_state b0 st =
     (let (tr, s) = st;
          b = b0\<lparr>bs_number := (case tr_artifact tr of None \<Rightarrow> 1 | Some a \<Rightarrow> ar_sessions a)\<rparr>
      in (tr\<lparr>tr_states := AList.update (bs_session b) b (tr_states tr)\<rparr>,
          s\<lparr>ls_states := AList.update (bs_session b) b (ls_states s)\<rparr>))"

definition get_session_state ::
    "bool \<Rightarrow> string \<Rightarrow> tracker \<times> lstore \<Rightarrow> session_state option \<times> tracker" where
  "get_session_state rd sid st =
     (let (tr, s) = st
      in case map_of (tr_states tr) sid of
           Some b \<Rightarrow> (Some b, tr)
         | None \<Rightarrow>
             (case (if rd then map_of (ls_states s) sid else None) of
                None \<Rightarrow> (None, tr)
              | Some b \<Rightarrow> (Some b, tr\<lparr>tr_states := AList.update sid b (tr_states tr)\<rparr>)))"

definition get_last_session_state :: "tracker \<Rightarrow> session_state option" where
  "get_last_session_state tr =
     (case tr_session tr of
        None \<Rightarrow> None
      | Some sid \<Rightarrow> if sid = [] then None else map_of (tr_states tr) sid)"

definition write_to_disk :: "tracker \<times> lstore \<Rightarrow> pyerror + lstore" where
  "write_to_disk st =
     (case tr_artifact (fst st) of
        None \<Rightarrow> Inl (ValueError ''No artifact to write'')
      | Some a \<Rightarrow> Inr ((snd st)\<lparr>ls_disk := Some a\<rparr>))"

text \<open>The agent's tool: the session state, whose next task also reclaims, and the disk file.\<close>

definition save_progress_tool :: "string \<Rightarrow> bool \<Rightarrow> string \<Rightarrow> tracker \<times> lstore \<Rightarrow> tracker \<times> lstore" where
  "save_progress_tool notes clean now st =
     (let (tr, s) = st;
          sid = (case tr_session tr of Some x \<Rightarrow> if x = [] then ''unknown'' else x | None \<Rightarrow> ''unknown'');
          prior = get_last_session_state tr;
          a0 = the_artifact now tr;
          (last_id, last_st) =
            (case with_status In_progress a0 of
               t # _ \<Rightarrow> (Some (tk_id t), Some (tk_status t))
             | [] \<Rightarrow> (case prior of Some b \<Rightarrow> (bs_last_task b, bs_last_status b) | None \<Rightarrow> (None, None)));
          blockers = (if clean then []
                      else map (\<lambda>t. ''['' @ tk_id t @ ''] '' @ tk_description t @ '': '' @ tk_error t)
                             (with_status Failing a0));
          (nxt, a) = get_next_task sid a0;
          action = (case nxt of
                      None \<Rightarrow> []
                    | Some k \<Rightarrow> ''Work on task ['' @ tk_id (ar_tasks a ! k) @ '']: ''
                                @ tk_description (ar_tasks a ! k));
          b = \<lparr>bs_session = sid, bs_number = 1, bs_last_task = last_id, bs_last_status = last_st,
               bs_clean = clean, bs_blockers = blockers, bs_next_action = action, bs_snapshot = notes,
               bs_error = (case blockers of [] \<Rightarrow> None | x # _ \<Rightarrow> Some x), bs_ended = now\<rparr>;
          st1 = write_session_state b (put_artifact a tr, s)
      in case write_to_disk st1 of Inl e \<Rightarrow> st1 | Inr s' \<Rightarrow> (fst st1, s'))"

section \<open>Planning and seeding\<close>

record plan_item =
  pi_task_id :: string
  pi_description :: string
  pi_category :: string
  pi_priority :: string
  pi_steps :: "string list"

fun priority_of :: "string \<Rightarrow> ledger_priority" where
  "priority_of p =
     (if p = ''critical'' then Critical else if p = ''high'' then High
      else if p = ''low'' then Low else Medium)"

definition priority_and_steps :: "plan_item \<Rightarrow> ledger_priority \<times> task_step list" where
  "priority_and_steps p =
     (priority_of (pi_priority p),
      (let steps = map new_step (filter (\<lambda>s. \<not> blank s) (pi_steps p))
       in if steps = [] then [new_step (''Verify: '' @ take 160 (pi_description p))] else steps))"

definition add_plan_item :: "loader \<Rightarrow> bool \<Rightarrow> plan_item \<Rightarrow> string \<Rightarrow> ltask ledger" where
  "add_plan_item load rd p now st =
     (let (prio, steps) = priority_and_steps p
      in add_task load rd (pi_task_id p) (pi_description p)
           (if pi_category p = [] then ''planned'' else pi_category p) prio steps [] now st)"

text \<open>A loop of additions, ended by the first error; each addition saves.\<close>

fun add_all :: "loader \<Rightarrow> bool \<Rightarrow> plan_item list \<Rightarrow> string \<Rightarrow> nat ledger" where
  "add_all load rd [] now st = (Inr 0, st)"
| "add_all load rd (p # ps) now st =
     (case add_plan_item load rd p now st of
        (Inl e, st') \<Rightarrow> (Inl e, st')
      | (Inr _, st') \<Rightarrow>
          (case add_all load rd ps now st' of
             (Inl e, st'') \<Rightarrow> (Inl e, st'')
           | (Inr n, st'') \<Rightarrow> (Inr (n + 1), st'')))"

fun append_items :: "loader \<Rightarrow> bool \<Rightarrow> plan_item list \<Rightarrow> string \<Rightarrow> nat ledger" where
  "append_items load rd [] now st = (Inr 0, st)"
| "append_items load rd (p # ps) now st =
     (if get_task (pi_task_id p) (the_artifact now (fst st)) \<noteq> None then append_items load rd ps now st
      else case add_plan_item load rd p now st of
             (Inl e, st') \<Rightarrow> (Inl e, st')
           | (Inr _, st') \<Rightarrow>
               (case append_items load rd ps now st' of
                  (Inl e, st'') \<Rightarrow> (Inl e, st'')
                | (Inr n, st'') \<Rightarrow> (Inr (n + 1), st'')))"

definition append_harness_plan :: "loader \<Rightarrow> bool \<Rightarrow> plan_item list \<Rightarrow> string \<Rightarrow> nat ledger" where
  "append_harness_plan load rd plan now st =
     (case append_items load rd plan now st of
        (Inl e, st') \<Rightarrow> (Inl e, st')
      | (Inr n, st') \<Rightarrow>
          if n = 0 then (Inr 0, st')
          else (case save_progress load rd now st' of
                  (Inl e, st'') \<Rightarrow> (Inl e, st'')
                | (Inr _, st'') \<Rightarrow> (Inr n, st'')))"

definition priority_for_index :: "nat \<Rightarrow> nat \<Rightarrow> string" where
  "priority_for_index index n =
     (if index = 0 then ''critical'' else if index < max 2 (n div 2) then ''high'' else ''medium'')"

text \<open>A subtask of the planner: worker id, task, and the category in its context.\<close>

record sub_task =
  sub_worker :: string
  sub_task_text :: string
  sub_category :: string

definition harness_plan_from_subtasks :: "sub_task list \<Rightarrow> plan_item list" where
  "harness_plan_from_subtasks subs =
     map (\<lambda>(index, sub).
            let i = py_strip (if sub_worker sub = [] then ''step-'' @ digits (index + 1) else sub_worker sub);
                d = py_strip (if sub_task_text sub = [] then i else sub_task_text sub)
            in \<lparr>pi_task_id = i, pi_description = d,
                pi_category = (if sub_category sub = [] then ''planned'' else sub_category sub),
                pi_priority = priority_for_index index (length subs),
                pi_steps = [''Complete: '' @ take 160 d]\<rparr>)
       (List.enumerate 0 subs)"

record analysis =
  an_pattern :: string
  an_work_kind :: string
  an_plan :: "plan_item list"
  an_subtasks :: "sub_task list"

definition merge_harness_plan_from_subtasks :: "analysis \<Rightarrow> analysis" where
  "merge_harness_plan_from_subtasks a =
     (if an_plan a \<noteq> [] \<or> an_subtasks a = [] then a
      else a\<lparr>an_plan := harness_plan_from_subtasks (an_subtasks a)\<rparr>)"

definition persist_harness_plan ::
    "loader \<Rightarrow> bool \<Rightarrow> plan_item list \<Rightarrow> analysis \<Rightarrow> string \<Rightarrow> nat ledger" where
  "persist_harness_plan load rd plan an now st =
     (case add_all load rd plan now st of
        (Inl e, st') \<Rightarrow> (Inl e, st')
      | (Inr _, tr, s) \<Rightarrow>
          let a = the_artifact now tr;
              kind = (if blank (an_work_kind an) then an_pattern an else py_strip (an_work_kind an));
              a' = (if ar_work_kind a = [] then a\<lparr>ar_work_kind := kind\<rparr> else a)
          in case save_progress load rd now (put_artifact a' tr, s) of
               (Inl e, st'') \<Rightarrow> (Inl e, st'')
             | (Inr _, st'') \<Rightarrow> (Inr (length plan), st''))"

text \<open>
  The branch of the code for subtasks without a plan is dead: the merge before it has made a
  plan of them.
\<close>

definition sync_harness_from_analysis ::
    "loader \<Rightarrow> bool \<Rightarrow> analysis \<Rightarrow> bool \<Rightarrow> string \<Rightarrow> nat ledger" where
  "sync_harness_from_analysis load rd an0 allow_replan now st =
     (let an = merge_harness_plan_from_subtasks an0;
          (tr0, s) = st;
          tr1 = (if blank (an_work_kind an) then tr0 else set_work_kind (an_work_kind an) tr0);
          a = the_artifact now tr1;
          tr = put_artifact a tr1;
          note = (if an_work_kind an = [] then (Inr 0, tr, s)
                  else case save_progress load rd now (tr, s) of
                         (Inl e, st'') \<Rightarrow> (Inl e, st'')
                       | (Inr _, st'') \<Rightarrow> (Inr 0, st''))
      in if ar_tasks a \<noteq> [] then
           (if \<not> allow_replan then note
            else if an_plan an \<noteq> [] then append_harness_plan load rd (an_plan an) now (tr, s)
            else (Inr 0, tr, s))
         else if an_plan an \<noteq> [] then persist_harness_plan load rd (an_plan an) an now (tr, s)
         else note)"

text \<open>Seeding by an integrator: a dictionary without an id raises.\<close>

datatype seed_item = Seed_task ltask | Seed_dict plan_item string

fun seed_items :: "loader \<Rightarrow> bool \<Rightarrow> seed_item list \<Rightarrow> string \<Rightarrow> unit ledger" where
  "seed_items load rd [] now st = (Inr (), st)"
| "seed_items load rd (Seed_task t # xs) now st =
     (case add_task load rd (tk_id t) (tk_description t) (tk_category t) (tk_priority t) (tk_steps t)
             (tk_notes t) now st of
        (Inl e, st') \<Rightarrow> (Inl e, st')
      | (Inr _, st') \<Rightarrow> seed_items load rd xs now st')"
| "seed_items load rd (Seed_dict p notes # xs) now st =
     (if pi_task_id p = [] then (Inl (ValueError ''each task dict must include an id key''), st)
      else case add_task load rd (pi_task_id p) (pi_description p) (pi_category p)
                  (priority_of (pi_priority p)) (map new_step (pi_steps p)) notes now st of
             (Inl e, st') \<Rightarrow> (Inl e, st')
           | (Inr _, st') \<Rightarrow> seed_items load rd xs now st')"

definition seed_harness_tasks ::
    "loader \<Rightarrow> (nat \<Rightarrow> bool) \<Rightarrow> seed_item list \<Rightarrow> string \<Rightarrow> string \<Rightarrow> bool \<Rightarrow> string \<Rightarrow> nat ledger" where
  "seed_harness_tasks load rd items goal sid replace now st =
     (case bootstrap load rd sid goal True now st of
        (Inl e, st') \<Rightarrow> (Inl e, st')
      | (Inr _, tr, s) \<Rightarrow>
          let a = the_artifact now tr
          in if ar_tasks a \<noteq> [] \<and> \<not> replace then (Inr (length (ar_tasks a)), tr, s)
             else
               (case seed_items load (rd 3) items now
                       (put_artifact (if replace then a\<lparr>ar_tasks := []\<rparr> else a) tr, s) of
                  (Inl e, st') \<Rightarrow> (Inl e, st')
                | (Inr _, tr', s') \<Rightarrow>
                    let b = the_artifact now tr';
                        b' = (if goal \<noteq> [] \<and> ar_description b = [] then b\<lparr>ar_description := goal\<rparr> else b)
                    in case save_progress load (rd 3) now (put_artifact b' tr', s') of
                         (Inl e, st'') \<Rightarrow> (Inl e, st'')
                       | (Inr _, st'') \<Rightarrow> (Inr (length (ar_tasks b')), st'')))"

section \<open>Trackers of one store\<close>

datatype ledger_op =
    L_bootstrap string string bool "nat \<Rightarrow> bool"
  | L_add string string string ledger_priority "task_step list" string bool
  | L_update string "ledger_status option" "string option" "string option" "step_result list" bool
  | L_claim string bool
  | L_save bool
  | L_tool string bool
  | L_work_kind string
  | L_sync analysis bool bool
  | L_seed "seed_item list" string string bool "nat \<Rightarrow> bool"

text \<open>One operation of one tracker; the result value is dropped.\<close>

fun ledger_op_run :: "loader \<Rightarrow> string \<Rightarrow> ledger_op \<Rightarrow> tracker \<times> lstore \<Rightarrow> tracker \<times> lstore" where
  "ledger_op_run load now (L_bootstrap sid goal from_disk rd) st =
     snd (bootstrap load rd sid goal from_disk now st)"
| "ledger_op_run load now (L_add i d c p ss n rd) st = snd (add_task load rd i d c p ss n now st)"
| "ledger_op_run load now (L_update i x n e rs rd) st = snd (update_task load rd i x n e rs now st)"
| "ledger_op_run load now (L_claim sid rd) st = snd (claim_next_task load rd sid now st)"
| "ledger_op_run load now (L_save rd) st = snd (save_progress load rd now st)"
| "ledger_op_run load now (L_tool notes clean) st = save_progress_tool notes clean now st"
| "ledger_op_run load now (L_work_kind k) st = (set_work_kind k (fst st), snd st)"
| "ledger_op_run load now (L_sync an replan rd) st =
     snd (sync_harness_from_analysis load rd an replan now st)"
| "ledger_op_run load now (L_seed xs goal sid replace rd) st =
     snd (seed_harness_tasks load rd xs goal sid replace now st)"

text \<open>Which tracker, at what time, does what.\<close>

type_synonym ledger_event = "nat \<times> string \<times> ledger_op"

definition ledger_step :: "loader \<Rightarrow> ledger_event \<Rightarrow> tracker list \<times> lstore \<Rightarrow> tracker list \<times> lstore" where
  "ledger_step load ev sy =
     (let (i, now, op) = ev; (trs, s) = sy
      in if i < length trs then
           (let (tr, s') = ledger_op_run load now op (trs ! i, s) in (trs[i := tr], s'))
         else sy)"

definition ledger_run :: "loader \<Rightarrow> ledger_event list \<Rightarrow> tracker list \<times> lstore \<Rightarrow> tracker list \<times> lstore" where
  "ledger_run load evs sy = fold (ledger_step load) evs sy"

section \<open>Passing means verified\<close>

definition plain_step :: "task_step \<Rightarrow> bool" where
  "plain_step s \<longleftrightarrow> (case ts_passes s of PyBool _ \<Rightarrow> True | _ \<Rightarrow> False)
     \<and> (case ts_notes s of PyStr _ \<Rightarrow> True | _ \<Rightarrow> False)"

definition verified :: "ltask \<Rightarrow> bool" where
  "verified t \<longleftrightarrow>
     (tk_status t = Passing \<longrightarrow> tk_steps t \<noteq> [] \<and> list_all (\<lambda>s. truthy (ts_passes s)) (tk_steps t))"

definition task_ok :: "ltask \<Rightarrow> bool" where
  "task_ok t \<longleftrightarrow> verified t \<and> list_all plain_step (tk_steps t)"

definition artifact_ok :: "artifact \<Rightarrow> bool" where
  "artifact_ok a \<longleftrightarrow> list_all task_ok (ar_tasks a) \<and> distinct (map tk_id (ar_tasks a))"

definition opt_ok :: "artifact option \<Rightarrow> bool" where
  "opt_ok o1 \<longleftrightarrow> (case o1 of None \<Rightarrow> True | Some a \<Rightarrow> artifact_ok a)"

definition st_ok :: "tracker \<times> lstore \<Rightarrow> bool" where
  "st_ok st \<longleftrightarrow> opt_ok (tr_artifact (fst st)) \<and> opt_ok (ls_artifact (snd st)) \<and> opt_ok (ls_disk (snd st))"

text \<open>What is assumed of the reader: well-typed artifacts come back as they are.\<close>

definition faithful :: "loader \<Rightarrow> bool" where
  "faithful load \<longleftrightarrow> (\<forall>a. artifact_ok a \<longrightarrow> load a = Some a)"

definition validates_plain :: "(pyval \<Rightarrow> bool option) \<Rightarrow> (pyval \<Rightarrow> string option) \<Rightarrow> bool" where
  "validates_plain vbool vstr \<longleftrightarrow> (\<forall>b. vbool (PyBool b) = Some b) \<and> (\<forall>s. vstr (PyStr s) = Some s)"

lemma map_opt_id: "list_all (\<lambda>x. f x = Some x) xs \<Longrightarrow> map_opt f xs = Some xs"
  by (induction xs) auto

lemma load_step_plain:
  "validates_plain vbool vstr \<Longrightarrow> plain_step s \<Longrightarrow> load_step vbool vstr s = Some s"
  by (auto simp: load_step_def plain_step_def validates_plain_def split: pyval.splits)

lemma load_artifact_faithful:
  assumes "validates_plain vbool vstr"
  shows "faithful (load_artifact vbool vstr)"
proof -
  have "load_task vbool vstr t = Some t" if "task_ok t" for t
    using that load_step_plain [OF assms] map_opt_id [of "load_step vbool vstr" "tk_steps t"]
    by (auto simp: load_task_def task_ok_def list_all_iff)
  then have "map_opt (load_task vbool vstr) (ar_tasks a) = Some (ar_tasks a)" if "artifact_ok a" for a
    using that by (intro map_opt_id) (simp add: artifact_ok_def list_all_iff)
  then show ?thesis by (simp add: faithful_def load_artifact_def)
qed

named_theorems ledger_ok \<open>operations of the ledger keep its tasks in order\<close>

lemma artifact_ok_tasks: "artifact_ok a \<Longrightarrow> ar_tasks b = ar_tasks a \<Longrightarrow> artifact_ok b"
  by (simp add: artifact_ok_def)

lemma fresh_ok [ledger_ok]: "artifact_ok (fresh_artifact p g now)"
  by (simp add: artifact_ok_def fresh_artifact_def)

lemma the_artifact_ok [ledger_ok]: "st_ok (tr, s) \<Longrightarrow> artifact_ok (the_artifact now tr)"
  by (auto simp: st_ok_def opt_ok_def the_artifact_def fresh_ok split: option.splits)

lemma put_artifact_ok [ledger_ok]: "st_ok (tr, s) \<Longrightarrow> artifact_ok a \<Longrightarrow> st_ok (put_artifact a tr, s)"
  by (simp add: st_ok_def opt_ok_def put_artifact_def)

lemma save_unlocked_ok [ledger_ok]:
  "st_ok st \<Longrightarrow> st_ok (snd (save_unlocked load rd now st))"
  by (cases st) (auto simp: save_unlocked_def st_ok_def opt_ok_def put_artifact_def artifact_ok_def
      Let_def split: option.splits)

lemma set_task_ok [ledger_ok]:
  assumes "artifact_ok a" and "k < length (ar_tasks a)" and "task_ok t"
    and "tk_id t = tk_id (ar_tasks a ! k)"
  shows "artifact_ok (set_task k t a)"
proof -
  have "map tk_id ((ar_tasks a)[k := t]) = map tk_id (ar_tasks a)"
    using assms(2,4) by (simp add: map_update list_update_same_conv)
  moreover have "list_all task_ok ((ar_tasks a)[k := t])"
    using assms(1,3) by (auto simp: artifact_ok_def list_all_iff dest!: set_update_subset_insert [THEN subsetD])
  ultimately show ?thesis using assms(1) by (simp add: artifact_ok_def set_task_def)
qed

lemma get_task_Some: "get_task i a = Some k \<Longrightarrow> k < length (ar_tasks a) \<and> tk_id (ar_tasks a ! k) = i"
  by (auto simp: get_task_def find_Some_iff)

lemma get_task_None: "get_task i a = None \<longleftrightarrow> i \<notin> set (map tk_id (ar_tasks a))"
proof -
  have "get_task i a = None \<longleftrightarrow> (\<forall>k<length (ar_tasks a). tk_id (ar_tasks a ! k) \<noteq> i)"
    by (auto simp: get_task_def find_None_iff)
  also have "\<dots> \<longleftrightarrow> i \<notin> set (map tk_id (ar_tasks a))"
    by (auto simp only: in_set_conv_nth length_map nth_map)
  finally show ?thesis .
qed

lemma task_at_ok: "artifact_ok a \<Longrightarrow> k < length (ar_tasks a) \<Longrightarrow> task_ok (ar_tasks a ! k)"
  by (simp add: artifact_ok_def list_all_length)

lemma reclaim_ok [ledger_ok]: "artifact_ok a \<Longrightarrow> artifact_ok (reclaim sid a)"
proof -
  assume ok: "artifact_ok a"
  let ?f = "\<lambda>t. case tk_session t of
              Some other \<Rightarrow> if tk_status t = In_progress \<and> other \<noteq> [] \<and> other \<noteq> sid
                            then t\<lparr>tk_session := Some sid\<rparr> else t
            | None \<Rightarrow> t"
  have "task_ok (?f t) = task_ok t" "tk_id (?f t) = tk_id t" for t
    by (auto simp: task_ok_def verified_def split: option.split)
  then show ?thesis
    using ok by (simp add: artifact_ok_def reclaim_def list.pred_map comp_def)
qed

lemma length_reclaim [simp]: "length (ar_tasks (reclaim sid a)) = length (ar_tasks a)"
  by (simp add: reclaim_def)

lemma candidates_less: "k \<in> set (candidates sid ts) \<Longrightarrow> k < length ts"
  by (auto simp: candidates_def)

lemma get_next_task_cases:
  obtains "get_next_task sid a = (None, reclaim sid a)" and "candidates sid (ar_tasks (reclaim sid a)) = []"
  | k where "get_next_task sid a = (Some k, reclaim sid a)"
      and "k \<in> set (candidates sid (ar_tasks (reclaim sid a)))" and "k < length (ar_tasks a)"
      and "\<forall>j\<in>set (candidates sid (ar_tasks (reclaim sid a))).
             task_key (ar_tasks (reclaim sid a) ! k) \<le> task_key (ar_tasks (reclaim sid a) ! j)"
proof (cases "sort_key (\<lambda>k. task_key (ar_tasks (reclaim sid a) ! k)) (candidates sid (ar_tasks (reclaim sid a)))")
  case Nil
  then have "candidates sid (ar_tasks (reclaim sid a)) = []"
    by (metis set_empty set_sort)
  then show ?thesis using that(1) by (simp add: get_next_task_def Let_def)
next
  case (Cons k ks)
  let ?ts = "ar_tasks (reclaim sid a)"
  have k: "k \<in> set (candidates sid ?ts)" using Cons by (metis list.set_intros(1) set_sort)
  have "sorted (map (\<lambda>k. task_key (?ts ! k)) (k # ks))"
    using Cons by (metis sorted_sort_key)
  moreover have "set (candidates sid ?ts) = set (k # ks)" using Cons by (metis set_sort)
  ultimately have "\<forall>j\<in>set (candidates sid ?ts). task_key (?ts ! k) \<le> task_key (?ts ! j)" by auto
  then show ?thesis
    using that(2) [of k] k candidates_less [OF k] Cons by (simp add: get_next_task_def Let_def)
qed

definition plain_result :: "step_result \<Rightarrow> bool" where
  "plain_result r \<longleftrightarrow> (case sr_passes r of None \<Rightarrow> True | Some (PyBool _) \<Rightarrow> True | _ \<Rightarrow> False)
     \<and> (case sr_notes r of None \<Rightarrow> True | Some (PyStr _) \<Rightarrow> True | _ \<Rightarrow> False)"

lemma apply_result_plain: "plain_result r \<Longrightarrow> plain_step s \<Longrightarrow> plain_step (apply_result now r s)"
  by (auto simp: apply_result_def plain_step_def plain_result_def split: option.splits pyval.splits)

lemma apply_results_plain:
  assumes "list_all plain_result rs" and "list_all plain_step ss"
  shows "list_all plain_step (apply_results now rs ss)"
proof -
  have "plain_step (fold (apply_result now) rs s)" if "plain_step s" for s
    using assms(1) that by (induction rs arbitrary: s) (auto intro: apply_result_plain)
  then show ?thesis using assms(2) by (auto simp: apply_results_def list_all_iff)
qed

lemma mark_passing_ok:
  assumes "list_all plain_step (tk_steps t)" and "tk_steps t = [] \<Longrightarrow> tk_status t \<noteq> Passing"
  shows "task_ok (snd (mark_passing now t)) \<and> tk_id (snd (mark_passing now t)) = tk_id t"
  using assms by (auto simp: mark_passing_def task_ok_def verified_def Let_def filter_empty_conv list_all_iff)

lemma change_status_ok:
  assumes "task_ok t" and "list_all plain_result rs"
  shows "task_ok (change_status now tr x err rs t) \<and> tk_id (change_status now tr x err rs t) = tk_id t"
proof (cases x)
  case Passing
  have "list_all plain_step (apply_results now rs (tk_steps t))"
    using assms apply_results_plain by (simp add: task_ok_def)
  moreover have "apply_results now rs (tk_steps t) = [] \<Longrightarrow> tk_status t \<noteq> Passing"
    using assms(1) by (auto simp: apply_results_def task_ok_def verified_def)
  ultimately show ?thesis
    using Passing mark_passing_ok [of "t\<lparr>tk_steps := apply_results now rs (tk_steps t)\<rparr>" now]
    by (simp add: change_status_def)
qed (use assms in \<open>auto simp: change_status_def task_ok_def verified_def mark_failing_def mark_in_progress_def\<close>)

lemma add_task_ok [ledger_ok]:
  assumes "st_ok st" and "list_all plain_step ss"
  shows "st_ok (snd (add_task load rd i d c p ss n now st))"
proof -
  obtain tr s where st: "st = (tr, s)" by fastforce
  let ?a = "the_artifact now tr"
  let ?b = "?a\<lparr>ar_tasks := ar_tasks ?a @ [new_task i d c p ss n now]\<rparr>"
  have a: "artifact_ok ?a" using assms st by (simp add: the_artifact_ok)
  show ?thesis
  proof (cases "get_task i ?a")
    case (Some k)
    then show ?thesis using assms st a by (simp add: add_task_def Let_def put_artifact_ok)
  next
    case None
    then have "artifact_ok ?b"
      using a assms(2) get_task_None [of i ?a]
      by (auto simp: artifact_ok_def new_task_def task_ok_def verified_def)
    then have "st_ok (put_artifact ?b tr, s)" using assms(1) st put_artifact_ok by blast
    then have "st_ok (snd (save_unlocked load rd now (put_artifact ?b tr, s)))" by (rule save_unlocked_ok)
    then show ?thesis using None st by (auto simp: add_task_def Let_def split: prod.splits sum.splits)
  qed
qed

lemma update_task_ok [ledger_ok]:
  assumes "st_ok st" and "list_all plain_result rs"
  shows "st_ok (snd (update_task load rd i x notes err rs now st))"
proof -
  obtain tr s where st: "st = (tr, s)" by fastforce
  let ?a = "the_artifact now tr"
  have a: "artifact_ok ?a" using assms st by (simp add: the_artifact_ok)
  show ?thesis
  proof (cases "get_task i ?a")
    case None
    then show ?thesis using assms st a by (simp add: update_task_def Let_def put_artifact_ok)
  next
    case (Some k)
    note k = get_task_Some [OF Some]
    define t1 where "t1 = (case x of None \<Rightarrow> ar_tasks ?a ! k
        | Some y \<Rightarrow> change_status now tr y err rs (ar_tasks ?a ! k))"
    define t where "t = (case notes of None \<Rightarrow> t1 | Some n \<Rightarrow> t1\<lparr>tk_notes := n\<rparr>)"
    have "task_ok t1 \<and> tk_id t1 = tk_id (ar_tasks ?a ! k)"
      using task_at_ok [OF a] k change_status_ok [OF _ assms(2)] by (auto simp: t1_def split: option.split)
    then have "task_ok t" "tk_id t = tk_id (ar_tasks ?a ! k)"
      by (auto simp: t_def task_ok_def verified_def split: option.split)
    then have "st_ok (put_artifact (set_task k t ?a) tr, s)"
      using a k assms(1) st by (intro put_artifact_ok set_task_ok) auto
    then have "st_ok (snd (save_unlocked load rd now (put_artifact (set_task k t ?a) tr, s)))"
      by (rule save_unlocked_ok)
    then show ?thesis
      using Some st t_def t1_def by (auto simp: update_task_def Let_def split: prod.splits sum.splits)
  qed
qed

lemma claim_next_task_ok [ledger_ok]:
  assumes "st_ok st"
  shows "st_ok (snd (claim_next_task load rd sid now st))"
proof -
  obtain tr s where st: "st = (tr, s)" by fastforce
  let ?a = "the_artifact now tr"
  have a: "artifact_ok (reclaim sid ?a)" using assms st by (simp add: the_artifact_ok reclaim_ok)
  show ?thesis
  proof (cases rule: get_next_task_cases [of sid ?a])
    case 1
    then show ?thesis using assms st a by (simp add: claim_next_task_def put_artifact_ok)
  next
    case (2 k)
    let ?t = "mark_in_progress sid now (ar_tasks (reclaim sid ?a) ! k)"
    have "task_ok ?t" "tk_id ?t = tk_id (ar_tasks (reclaim sid ?a) ! k)"
      using task_at_ok [OF a, of k] 2(3) by (auto simp: mark_in_progress_def task_ok_def verified_def)
    then have "st_ok (put_artifact (set_task k ?t (reclaim sid ?a)) tr, s)"
      using a 2(3) assms st by (intro put_artifact_ok set_task_ok) auto
    then have "st_ok (snd (save_unlocked load rd now
        (put_artifact (set_task k ?t (reclaim sid ?a)) tr, s)))" by (rule save_unlocked_ok)
    then show ?thesis
      using 2(1) st by (auto simp: claim_next_task_def Let_def split: prod.splits sum.splits)
  qed
qed

text \<open>Loading what is stored.\<close>

lemma faithful_load:
  assumes "faithful load" and "opt_ok o1"
  shows "Option.bind o1 load = o1"
  using assms by (cases o1) (auto simp: faithful_def opt_ok_def)

lemma session_ok [ledger_ok]: "st_ok (tr, s) \<Longrightarrow> st_ok (tr\<lparr>tr_session := x\<rparr>, s)"
  by (simp add: st_ok_def)

lemma begin_session_ok [ledger_ok]:
  assumes "st_ok st" and "artifact_ok a"
  shows "st_ok (snd (begin_session load rd now a st))"
proof -
  have "artifact_ok (a\<lparr>ar_sessions := n, ar_updated := now\<rparr>)" for n
    using assms(2) by (simp add: artifact_ok_def)
  then show ?thesis
    using assms(1) unfolding begin_session_def
    by (intro save_unlocked_ok put_artifact_ok) auto
qed

lemma bootstrap_ok [ledger_ok]:
  assumes "faithful load" and "st_ok st"
  shows "st_ok (snd (bootstrap load rd sid goal from_disk now st))"
proof -
  obtain tr s where st: "st = (tr, s)" by fastforce
  let ?tr = "tr\<lparr>tr_session := Some sid\<rparr>"
  have ok: "st_ok (?tr, s)" using assms st session_ok by blast
  show ?thesis
  proof (cases "if rd 0 then ls_artifact s else None")
    case (Some d)
    then have "artifact_ok d" "load d = Some d"
      using assms st by (auto simp: st_ok_def opt_ok_def faithful_def split: if_splits)
    then show ?thesis using Some begin_session_ok [OF ok] by (simp add: bootstrap_def st Let_def)
  next
    case none: None
    have disk: "Option.bind (ls_disk s) load = ls_disk s"
      using assms st by (intro faithful_load) (auto simp: st_ok_def)
    show ?thesis
    proof (cases "if from_disk then ls_disk s else None")
      case None
      then show ?thesis using none disk begin_session_ok [OF ok fresh_ok]
        by (auto simp: bootstrap_def st Let_def split: if_splits)
    next
      case (Some a)
      then have a: "ls_disk s = Some a" "from_disk" by (auto split: if_splits)
      then have "artifact_ok a" using ok by (simp add: st_ok_def opt_ok_def)
      then have sv: "st_ok (snd (save_unlocked load (rd 1) now (put_artifact a ?tr, s)))"
        using save_unlocked_ok [OF put_artifact_ok [OF ok]] by blast
      obtain r st' where r: "save_unlocked load (rd 1) now (put_artifact a ?tr, s) = (r, st')"
        by (metis surj_pair)
      have "artifact_ok (the_artifact now (fst st'))"
        using sv r the_artifact_ok [of "fst st'" "snd st'"] by simp
      then show ?thesis
        using none a disk r sv begin_session_ok [of st'] by (cases r) (auto simp: bootstrap_def st Let_def)
    qed
  qed
qed

lemma add_plan_item_ok [ledger_ok]: "st_ok st \<Longrightarrow> st_ok (snd (add_plan_item load rd p now st))"
  by (auto simp: add_plan_item_def priority_and_steps_def Let_def list_all_iff plain_step_def
      new_step_def split: prod.split intro!: add_task_ok)

lemma add_all_ok: "st_ok st \<Longrightarrow> st_ok (snd (add_all load rd ps now st))"
proof (induction ps arbitrary: st)
  case (Cons p ps)
  obtain r st' where a: "add_plan_item load rd p now st = (r, st')" by (metis surj_pair)
  then have "st_ok st'" using add_plan_item_ok [OF Cons.prems, of load rd p now] by simp
  then have "st_ok (snd (add_all load rd ps now st'))" by (rule Cons.IH)
  then show ?case using a \<open>st_ok st'\<close> by (auto split: sum.split prod.split)
qed simp

lemma append_items_ok: "st_ok st \<Longrightarrow> st_ok (snd (append_items load rd ps now st))"
proof (induction ps arbitrary: st)
  case (Cons p ps)
  obtain r st' where a: "add_plan_item load rd p now st = (r, st')" by (metis surj_pair)
  then have "st_ok st'" using add_plan_item_ok [OF Cons.prems, of load rd p now] by simp
  then have rest: "st_ok (snd (append_items load rd ps now st'))" by (rule Cons.IH)
  have same: "st_ok (snd (append_items load rd ps now st))" by (rule Cons.IH [OF Cons.prems])
  obtain q st'' where b: "append_items load rd ps now st' = (q, st'')" by (metis surj_pair)
  show ?case using a b rest same \<open>st_ok st'\<close> by (cases r; cases q) simp_all
qed simp

lemma append_harness_plan_ok [ledger_ok]: "st_ok st \<Longrightarrow> st_ok (snd (append_harness_plan load rd ps now st))"
proof -
  assume ok: "st_ok st"
  obtain r st' where a: "append_items load rd ps now st = (r, st')" by (metis surj_pair)
  have "st_ok st'" using append_items_ok [OF ok, of load rd ps now] a by simp
  then show ?thesis
    using a save_unlocked_ok [of st' load rd now]
    by (auto simp: append_harness_plan_def save_progress_def split: sum.split prod.splits)
qed

lemma set_work_kind_ok [ledger_ok]: "st_ok (tr, s) \<Longrightarrow> st_ok (set_work_kind k tr, s)"
  by (auto simp: set_work_kind_def st_ok_def opt_ok_def put_artifact_def artifact_ok_def split: option.splits)

lemma write_session_state_ok [ledger_ok]: "st_ok st \<Longrightarrow> st_ok (write_session_state b st)"
  by (cases st) (simp add: write_session_state_def st_ok_def Let_def)

lemma write_to_disk_ok [ledger_ok]: "st_ok st \<Longrightarrow> write_to_disk st = Inr s' \<Longrightarrow> st_ok (fst st, s')"
  by (auto simp: write_to_disk_def st_ok_def opt_ok_def split: option.splits)

lemma get_next_task_ok: "artifact_ok a \<Longrightarrow> artifact_ok (snd (get_next_task sid a))"
  by (cases rule: get_next_task_cases [of sid a]) (auto simp: reclaim_ok)

lemma save_progress_tool_ok [ledger_ok]:
  assumes "st_ok st"
  shows "st_ok (save_progress_tool notes clean now st)"
proof -
  obtain tr s where st: "st = (tr, s)" by fastforce
  have "st_ok (put_artifact (snd (get_next_task sid (the_artifact now tr))) tr, s)" for sid
    using assms st by (simp add: put_artifact_ok get_next_task_ok the_artifact_ok)
  then have "st_ok (write_session_state b (put_artifact (snd (get_next_task sid (the_artifact now tr))) tr, s))"
    for b sid by (rule write_session_state_ok)
  then show ?thesis
    using st by (auto simp: save_progress_tool_def Let_def case_prod_unfold split: sum.split
        intro: write_to_disk_ok)
qed

lemma save_progress_ok [ledger_ok]: "st_ok st \<Longrightarrow> st_ok (snd (save_progress load rd now st))"
  by (simp add: save_progress_def save_unlocked_ok)

lemma persist_harness_plan_ok [ledger_ok]:
  assumes "st_ok st"
  shows "st_ok (snd (persist_harness_plan load rd ps an now st))"
proof -
  obtain r tr s where a: "add_all load rd ps now st = (r, tr, s)" by (metis surj_pair)
  have ok: "st_ok (tr, s)" using add_all_ok [OF assms, of load rd ps now] a by simp
  have "artifact_ok (the_artifact now tr\<lparr>ar_work_kind := k\<rparr>)" for k
    using the_artifact_ok [OF ok] by (simp add: artifact_ok_def)
  then have "st_ok (snd (save_progress load rd now
      (put_artifact (the_artifact now tr\<lparr>ar_work_kind := k\<rparr>) tr, s)))"
    "st_ok (snd (save_progress load rd now (put_artifact (the_artifact now tr) tr, s)))" for k
    using ok by (simp_all add: save_progress_ok put_artifact_ok the_artifact_ok)
  then show ?thesis
    using a ok by (auto simp: persist_harness_plan_def Let_def split: sum.split prod.split)
      (metis snd_conv)+
qed

lemma sync_harness_from_analysis_ok [ledger_ok]:
  assumes "st_ok st"
  shows "st_ok (snd (sync_harness_from_analysis load rd an replan now st))"
proof -
  obtain tr s where st: "st = (tr, s)" by fastforce
  define am where "am = merge_harness_plan_from_subtasks an"
  define tr1 where "tr1 = (if blank (an_work_kind am) then tr else set_work_kind (an_work_kind am) tr)"
  define a where "a = the_artifact now tr1"
  define tr2 where "tr2 = put_artifact a tr1"
  define note1 where "note1 = (if an_work_kind am = [] then (Inr 0, tr2, s)
      else case save_progress load rd now (tr2, s) of
             (Inl e, st'') \<Rightarrow> (Inl e, st'') | (Inr _, st'') \<Rightarrow> (Inr (0::nat), st''))"
  have "st_ok (tr1, s)" using assms st by (simp add: tr1_def set_work_kind_ok)
  then have ok: "st_ok (tr2, s)" by (simp add: tr2_def a_def put_artifact_ok the_artifact_ok)
  have note_ok: "st_ok (snd note1)"
    using ok save_progress_ok [OF ok, of load rd now] by (auto simp: note1_def split: prod.split sum.split)
  have "sync_harness_from_analysis load rd an replan now st =
      (if ar_tasks a \<noteq> [] then
         (if \<not> replan then note1
          else if an_plan am \<noteq> [] then append_harness_plan load rd (an_plan am) now (tr2, s)
          else (Inr 0, tr2, s))
       else if an_plan am \<noteq> [] then persist_harness_plan load rd (an_plan am) am now (tr2, s)
       else note1)"
    unfolding sync_harness_from_analysis_def Let_def st note1_def tr2_def a_def tr1_def am_def
    by (simp only: prod.case)
  then show ?thesis
    using ok note_ok append_harness_plan_ok [OF ok] persist_harness_plan_ok [OF ok] by simp
qed

fun plain_item :: "seed_item \<Rightarrow> bool" where
  "plain_item (Seed_task t) = list_all plain_step (tk_steps t)"
| "plain_item (Seed_dict p n) = True"

lemma seed_items_ok:
  "list_all plain_item xs \<Longrightarrow> st_ok st \<Longrightarrow> st_ok (snd (seed_items load rd xs now st))"
proof (induction xs arbitrary: st)
  case (Cons x xs)
  show ?case
  proof (cases x)
    case (Seed_task t)
    obtain r st' where a: "add_task load rd (tk_id t) (tk_description t) (tk_category t)
        (tk_priority t) (tk_steps t) (tk_notes t) now st = (r, st')" by (metis surj_pair)
    then have "st_ok st'" using Cons.prems Seed_task add_task_ok [of st "tk_steps t"]
      by (metis plain_item.simps(1) list.pred_inject(2) snd_conv)
    then show ?thesis using Seed_task a Cons by (auto split: sum.split)
  next
    case (Seed_dict p n)
    obtain r st' where a: "add_task load rd (pi_task_id p) (pi_description p) (pi_category p)
        (priority_of (pi_priority p)) (map new_step (pi_steps p)) n now st = (r, st')"
      by (metis surj_pair)
    have "list_all plain_step (map new_step (pi_steps p))"
      by (simp add: list_all_iff plain_step_def new_step_def)
    then have "st_ok st'" using Cons.prems a by (metis add_task_ok snd_conv)
    then show ?thesis using Seed_dict a Cons by (auto split: sum.split simp del: priority_of.simps)
  qed
qed simp

lemma seed_harness_tasks_ok [ledger_ok]:
  assumes "faithful load" and "list_all plain_item xs" and "st_ok st"
  shows "st_ok (snd (seed_harness_tasks load rd xs goal sid replace now st))"
proof -
  obtain r tr s where a: "bootstrap load rd sid goal True now st = (r, tr, s)" by (metis surj_pair)
  have ok: "st_ok (tr, s)"
    using bootstrap_ok [OF assms(1,3), of rd sid goal True now] a by simp
  let ?b = "if replace then the_artifact now tr\<lparr>ar_tasks := []\<rparr> else the_artifact now tr"
  have "artifact_ok ?b" using the_artifact_ok [OF ok] by (simp add: artifact_ok_def)
  then have sb: "st_ok (snd (seed_items load (rd 3) xs now (put_artifact ?b tr, s)))"
    using seed_items_ok [OF assms(2) put_artifact_ok [OF ok]] by blast
  obtain q tr' s' where b: "seed_items load (rd 3) xs now (put_artifact ?b tr, s) = (q, tr', s')"
    by (metis surj_pair)
  have ok': "st_ok (tr', s')" using sb b by simp
  have fin: "st_ok (snd (save_progress load (rd 3) now (put_artifact c tr', s')))"
    if "ar_tasks c = ar_tasks (the_artifact now tr')" for c
    using that artifact_ok_tasks [OF the_artifact_ok [OF ok', of now], of c] put_artifact_ok [OF ok']
      save_progress_ok by blast
  show ?thesis
    using a b ok ok' fin [of "the_artifact now tr'"] fin [of "the_artifact now tr'\<lparr>ar_description := goal\<rparr>"]
    by (auto simp: seed_harness_tasks_def Let_def split: sum.split prod.split)
qed

fun plain_op :: "ledger_op \<Rightarrow> bool" where
  "plain_op (L_add i d c p ss n rd) = list_all plain_step ss"
| "plain_op (L_update i x n e rs rd) = list_all plain_result rs"
| "plain_op (L_seed xs goal sid replace rd) = list_all plain_item xs"
| "plain_op _ = True"

lemma ledger_op_ok:
  assumes "faithful load" and "plain_op op" and "st_ok st"
  shows "st_ok (ledger_op_run load now op st)"
  using assms by (cases op; cases st) (simp_all add: ledger_ok)

definition system_ok :: "tracker list \<times> lstore \<Rightarrow> bool" where
  "system_ok sy \<longleftrightarrow> list_all (\<lambda>tr. opt_ok (tr_artifact tr)) (fst sy)
     \<and> opt_ok (ls_artifact (snd sy)) \<and> opt_ok (ls_disk (snd sy))"

lemma ledger_step_ok:
  assumes "faithful load" and "plain_op (snd (snd ev))" and "system_ok sy"
  shows "system_ok (ledger_step load ev sy)"
proof (cases "fst ev < length (fst sy)")
  case True
  have "st_ok (fst sy ! fst ev, snd sy)"
    using assms(3) True by (simp add: system_ok_def st_ok_def list_all_length)
  then have "st_ok (ledger_op_run load (fst (snd ev)) (snd (snd ev)) (fst sy ! fst ev, snd sy))"
    by (rule ledger_op_ok [OF assms(1,2)])
  then show ?thesis
    using assms(3) by (auto simp: ledger_step_def system_ok_def st_ok_def case_prod_unfold list_all_iff Let_def
        dest!: set_update_subset_insert [THEN subsetD])
qed (use assms(3) in \<open>simp add: ledger_step_def case_prod_unfold\<close>)

lemma ledger_run_ok:
  assumes "faithful load"
  shows "list_all (\<lambda>ev. plain_op (snd (snd ev))) evs \<Longrightarrow> system_ok sy \<Longrightarrow>
    system_ok (ledger_run load evs sy)"
proof (induction evs arbitrary: sy)
  case (Cons ev evs)
  then have "system_ok (ledger_step load ev sy)" by (intro ledger_step_ok assms) simp_all
  then show ?case using Cons by (simp add: ledger_run_def)
qed (simp add: ledger_run_def)

lemma system_ok_init: "system_ok (map tracker_init projects, store_init)"
  by (simp add: system_ok_def list_all_iff tracker_init_def store_init_def opt_ok_def)

text \<open>
  C10. Whatever trackers of one store do, in any order and with any reads of the store failing:
  a task recorded as passing - in a tracker's memory, in the store or in the file on disk - has
  at least one verification step and every one of its steps passes, and no two tasks of an
  artifact share an id. (For results reported as booleans and strings.)
\<close>

theorem passing_is_verified:
  assumes "validates_plain vbool vstr"
    and "list_all (\<lambda>ev. plain_op (snd (snd ev))) evs"
    and "ledger_run (load_artifact vbool vstr) evs (map tracker_init projects, store_init) = (trs, s)"
    and "a \<in> set (List.map_filter tr_artifact trs) \<union> set_option (ls_artifact s) \<union> set_option (ls_disk s)"
  shows "distinct (map tk_id (ar_tasks a))
    \<and> (\<forall>t\<in>set (ar_tasks a). tk_status t = Passing \<longrightarrow>
         tk_steps t \<noteq> [] \<and> list_all (\<lambda>st. truthy (ts_passes st)) (tk_steps t))"
proof -
  have "system_ok (trs, s)"
    using ledger_run_ok [OF load_artifact_faithful [OF assms(1)] assms(2) system_ok_init] assms(3) by metis
  then have "artifact_ok a"
    using assms(4) by (auto simp: system_ok_def opt_ok_def list_all_iff List.map_filter_def split: option.splits)
  then show ?thesis by (auto simp: artifact_ok_def task_ok_def verified_def list_all_iff)
qed

text \<open>A session that records one task and verifies it.\<close>

definition demo_vbool :: "pyval \<Rightarrow> bool option" where
  "demo_vbool v = (case v of PyBool b \<Rightarrow> Some b | _ \<Rightarrow> None)"

definition demo_vstr :: "pyval \<Rightarrow> string option" where
  "demo_vstr v = (case v of PyStr s \<Rightarrow> Some s | _ \<Rightarrow> None)"

definition demo_session :: "ledger_event list" where
  "demo_session =
     [(0, ''t0'', L_bootstrap ''s1'' ''ship it'' False (\<lambda>_. True)),
      (0, ''t1'', L_add ''a'' ''write a'' ''planned'' High [new_step ''test a''] [] True),
      (0, ''t2'', L_claim ''s1'' True),
      (0, ''t3'', L_update ''a'' (Some Passing) None None
                 [\<lparr>sr_description = ''test a'', sr_passes = Some (PyBool True), sr_notes = None\<rparr>] True),
      (0, ''t4'', L_tool ''done'' True)]"

definition demo_ledger :: "tracker list \<times> lstore" where
  "demo_ledger = ledger_run (load_artifact demo_vbool demo_vstr) demo_session
     (map tracker_init [''agent'', ''helper''], store_init)"

lemma demo_validates: "validates_plain demo_vbool demo_vstr"
  by (simp add: validates_plain_def demo_vbool_def demo_vstr_def)

theorem passing_is_verified_witness:
  "\<exists>a. ls_disk (snd demo_ledger) = Some a \<and> with_status Passing a \<noteq> []
     \<and> distinct (map tk_id (ar_tasks a))
     \<and> (\<forall>t\<in>set (ar_tasks a). tk_status t = Passing \<longrightarrow>
          tk_steps t \<noteq> [] \<and> list_all (\<lambda>st. truthy (ts_passes st)) (tk_steps t))"
proof -
  have "case ls_disk (snd demo_ledger) of None \<Rightarrow> False | Some a \<Rightarrow> with_status Passing a \<noteq> []"
    by code_simp
  then obtain a where a: "ls_disk (snd demo_ledger) = Some a" "with_status Passing a \<noteq> []"
    by (auto split: option.splits)
  have plain: "list_all (\<lambda>ev. plain_op (snd (snd ev))) demo_session"
    by (simp add: demo_session_def plain_step_def new_step_def plain_result_def)
  have "ledger_run (load_artifact demo_vbool demo_vstr) demo_session
      (map tracker_init [''agent'', ''helper''], store_init) = (fst demo_ledger, snd demo_ledger)"
    by (simp add: demo_ledger_def)
  from passing_is_verified [OF demo_validates plain this, of a] a show ?thesis by auto
qed

section \<open>No lost update\<close>

text \<open>The store as a register of versioned artifacts; an empty one counts as version 1.\<close>

definition version_of :: "artifact option \<Rightarrow> int" where
  "version_of r = (case r of None \<Rightarrow> 1 | Some a \<Rightarrow> ar_version a)"

text \<open>
  The abstract operation: compare and swap. A writer that holds version \<open>v\<close> leaves the
  register alone, or finds version \<open>v\<close> in it and puts a larger one.
\<close>

definition compare_and_swap :: "int \<Rightarrow> artifact option \<Rightarrow> artifact option \<Rightarrow> bool" where
  "compare_and_swap v r r' \<longleftrightarrow> r' = r \<or> (version_of r = v \<and> version_of r < version_of r')"

abbreviation held :: "tracker \<Rightarrow> int" where
  "held tr \<equiv> version_of (tr_artifact tr)"

definition vinv :: "tracker \<times> lstore \<Rightarrow> bool" where
  "vinv st \<longleftrightarrow> 1 \<le> held (fst st) \<and> held (fst st) \<le> version_of (ls_artifact (snd st))
     \<and> (ls_artifact (snd st) \<noteq> None \<longrightarrow> 2 \<le> version_of (ls_artifact (snd st)))
     \<and> 1 \<le> version_of (ls_disk (snd st))"

definition advances :: "tracker \<times> lstore \<Rightarrow> tracker \<times> lstore \<Rightarrow> bool" where
  "advances st st' \<longleftrightarrow> st_ok st' \<and> vinv st' \<and>
     (ls_artifact (snd st') = ls_artifact (snd st) \<and> held (fst st') = held (fst st)
      \<or> held (fst st) = version_of (ls_artifact (snd st))
        \<and> held (fst st') = version_of (ls_artifact (snd st'))
        \<and> version_of (ls_artifact (snd st)) < version_of (ls_artifact (snd st')))"

lemma advances_trans: "advances a b \<Longrightarrow> advances b c \<Longrightarrow> advances a c"
  by (auto simp: advances_def)

lemma advances_refl: "st_ok st \<Longrightarrow> vinv st \<Longrightarrow> advances st st"
  by (simp add: advances_def)

lemma version_the_artifact [simp]: "ar_version (the_artifact now tr) = held tr"
  by (simp add: the_artifact_def version_of_def fresh_artifact_def split: option.split)

lemma held_put [simp]: "held (put_artifact a tr) = ar_version a"
  by (simp add: put_artifact_def version_of_def)

text \<open>What a step may assume of its start.\<close>

definition sound :: "loader \<Rightarrow> tracker \<times> lstore \<Rightarrow> bool" where
  "sound load st \<longleftrightarrow> faithful load \<and> st_ok st \<and> vinv st"

lemma advances_sound: "sound load st \<Longrightarrow> advances st st' \<Longrightarrow> sound load st'"
  by (simp add: sound_def advances_def)

named_theorems ledger_adv \<open>operations of the ledger compare and swap\<close>

lemma put_adv [ledger_adv]:
  assumes "sound load (tr, s)" and "artifact_ok a" and "ar_version a = held tr"
  shows "advances (tr, s) (put_artifact a tr, s)"
  using assms by (simp add: advances_def sound_def vinv_def put_artifact_ok)

lemma save_unlocked_adv:
  assumes "sound load st"
  shows "advances st (snd (save_unlocked load True now st))"
proof -
  obtain tr s where st: "st = (tr, s)" by fastforce
  have ok: "st_ok (snd (save_unlocked load True now st))"
    using assms save_unlocked_ok by (simp add: sound_def)
  have load: "Option.bind (ls_artifact s) load = ls_artifact s"
    using assms st by (intro faithful_load) (auto simp: sound_def st_ok_def)
  show ?thesis
    using ok load assms
    by (auto simp: save_unlocked_def Let_def st advances_def sound_def vinv_def version_of_def put_artifact_def
        split: option.splits)
qed

lemma put_save_adv:
  assumes "sound load (tr, s)" and "artifact_ok a" and "ar_version a = held tr"
  shows "advances (tr, s) (snd (save_unlocked load True now (put_artifact a tr, s)))"
  using put_adv [OF assms] save_unlocked_adv advances_sound [OF assms(1)] advances_trans by blast

lemma snd_after [simp]:
  "snd (case m of (Inl e, st') \<Rightarrow> (Inl e, st') | (Inr x, st') \<Rightarrow> (Inr y, st')) = snd m"
  by (simp split: prod.split sum.split)

lemma add_task_adv [ledger_adv]:
  assumes "sound load st" and "list_all plain_step ss"
  shows "advances st (snd (add_task load True i d c p ss n now st))"
proof -
  obtain tr s where st: "st = (tr, s)" by fastforce
  let ?a = "the_artifact now tr"
  let ?b = "?a\<lparr>ar_tasks := ar_tasks ?a @ [new_task i d c p ss n now]\<rparr>"
  have a: "artifact_ok ?a" using assms st the_artifact_ok [of tr s now] by (simp add: sound_def)
  then have "get_task i ?a = None \<Longrightarrow> artifact_ok ?b"
    using assms(2) get_task_None [of i ?a]
    by (auto simp: artifact_ok_def new_task_def task_ok_def verified_def)
  then show ?thesis
    using st assms(1) a put_adv [of load tr s ?a] put_save_adv [of load tr s ?b now]
    by (simp add: add_task_def Let_def split: option.split)
qed

lemma update_task_adv [ledger_adv]:
  assumes "sound load st" and "list_all plain_result rs"
  shows "advances st (snd (update_task load True i x notes err rs now st))"
proof -
  obtain tr s where st: "st = (tr, s)" by fastforce
  let ?a = "the_artifact now tr"
  have a: "artifact_ok ?a" using assms st the_artifact_ok [of tr s now] by (simp add: sound_def)
  define t1 where "t1 k = (case x of None \<Rightarrow> ar_tasks ?a ! k
      | Some y \<Rightarrow> change_status now tr y err rs (ar_tasks ?a ! k))" for k
  define t where "t k = (case notes of None \<Rightarrow> t1 k | Some n \<Rightarrow> t1 k\<lparr>tk_notes := n\<rparr>)" for k
  have t: "artifact_ok (set_task k (t k) ?a)" if "get_task i ?a = Some k" for k
  proof -
    note k = get_task_Some [OF that]
    have "task_ok (t1 k) \<and> tk_id (t1 k) = tk_id (ar_tasks ?a ! k)"
      using task_at_ok [OF a] k change_status_ok [OF _ assms(2)] by (auto simp: t1_def split: option.split)
    then show ?thesis
      using k a by (intro set_task_ok) (auto simp: t_def task_ok_def verified_def split: option.split)
  qed
  show ?thesis
  proof (cases "get_task i ?a")
    case None
    then show ?thesis
      using assms(1) st a put_adv [of load tr s ?a] by (simp add: update_task_def Let_def)
  next
    case (Some k)
    have "ar_version (set_task k (t k) ?a) = held tr" by (simp add: set_task_def)
    then have "advances (tr, s) (snd (save_unlocked load True now (put_artifact (set_task k (t k) ?a) tr, s)))"
      using put_save_adv t [OF Some] assms(1) st by blast
    then show ?thesis using Some st unfolding t_def t1_def by (simp add: update_task_def Let_def)
  qed
qed

lemma version_reclaim [simp]: "ar_version (reclaim sid a) = ar_version a"
  by (simp add: reclaim_def)

lemma version_set_task [simp]: "ar_version (set_task k t a) = ar_version a"
  by (simp add: set_task_def)

lemma claim_next_task_adv [ledger_adv]:
  assumes "sound load st"
  shows "advances st (snd (claim_next_task load True sid now st))"
proof -
  obtain tr s where st: "st = (tr, s)" by fastforce
  let ?a = "the_artifact now tr"
  have a: "artifact_ok (reclaim sid ?a)"
    using assms st the_artifact_ok [of tr s now] by (simp add: sound_def reclaim_ok)
  show ?thesis
  proof (cases rule: get_next_task_cases [of sid ?a])
    case 1
    then show ?thesis using assms st a put_adv [of load tr s "reclaim sid ?a"]
      by (simp add: claim_next_task_def)
  next
    case (2 k)
    let ?t = "mark_in_progress sid now (ar_tasks (reclaim sid ?a) ! k)"
    have "task_ok ?t" "tk_id ?t = tk_id (ar_tasks (reclaim sid ?a) ! k)"
      using task_at_ok [OF a, of k] 2(3) by (auto simp: mark_in_progress_def task_ok_def verified_def)
    then have "artifact_ok (set_task k ?t (reclaim sid ?a))" using a 2(3) by (intro set_task_ok) auto
    then show ?thesis
      using assms st 2(1) put_save_adv [of load tr s "set_task k ?t (reclaim sid ?a)" now]
      by (simp add: claim_next_task_def Let_def)
  qed
qed

lemma save_progress_adv [ledger_adv]: "sound load st \<Longrightarrow> advances st (snd (save_progress load True now st))"
  by (simp add: save_progress_def save_unlocked_adv)

lemma set_work_kind_adv [ledger_adv]: "sound load (tr, s) \<Longrightarrow> advances (tr, s) (set_work_kind k tr, s)"
  by (auto simp: set_work_kind_def advances_refl sound_def version_of_def artifact_ok_def st_ok_def opt_ok_def
      split: option.split intro!: put_adv [unfolded sound_def])

lemma write_session_state_adv: "sound load st \<Longrightarrow> advances st (write_session_state b st)"
  by (cases st) (simp add: write_session_state_def advances_def sound_def vinv_def st_ok_def Let_def)

lemma write_to_disk_adv: "sound load st \<Longrightarrow> write_to_disk st = Inr s' \<Longrightarrow> advances st (fst st, s')"
  by (auto simp: write_to_disk_def advances_def sound_def vinv_def st_ok_def opt_ok_def version_of_def
      split: option.splits)

lemma save_progress_tool_adv [ledger_adv]:
  assumes "sound load st"
  shows "advances st (save_progress_tool notes clean now st)"
proof -
  obtain tr s where st: "st = (tr, s)" by fastforce
  have a: "artifact_ok (the_artifact now tr)"
    using assms st the_artifact_ok [of tr s now] by (simp add: sound_def)
  have tool: "advances st st2"
    if b: "st1 = write_session_state b (put_artifact (snd (get_next_task sid (the_artifact now tr))) tr, s)"
      and st2: "st2 = (case write_to_disk st1 of Inl e \<Rightarrow> st1 | Inr s' \<Rightarrow> (fst st1, s'))" for b sid st1 st2
  proof -
    have "ar_version (snd (get_next_task sid (the_artifact now tr))) = held tr"
      by (cases rule: get_next_task_cases [of sid "the_artifact now tr"]) simp_all
    then have put: "advances st (put_artifact (snd (get_next_task sid (the_artifact now tr))) tr, s)"
      using assms st a put_adv get_next_task_ok by blast
    then have "advances st st1"
      using b write_session_state_adv advances_sound [OF assms] advances_trans by blast
    then show ?thesis
      using st2 write_to_disk_adv [of load st1] advances_sound [OF assms] advances_trans
      by (auto split: sum.splits)
  qed
  show ?thesis
    unfolding save_progress_tool_def Let_def st case_prod_unfold fst_conv snd_conv
    by (rule tool [unfolded st, OF refl refl])
qed

lemma add_plan_item_adv:
  assumes "sound load st"
  shows "advances st (snd (add_plan_item load True p now st))"
proof -
  have "list_all plain_step (snd (priority_and_steps p))"
    by (auto simp: priority_and_steps_def Let_def list_all_iff plain_step_def new_step_def)
  then show ?thesis
    using add_task_adv [OF assms] by (simp add: add_plan_item_def case_prod_unfold Let_def)
qed

lemma add_all_adv: "sound load st \<Longrightarrow> advances st (snd (add_all load True ps now st))"
proof (induction ps arbitrary: st)
  case Nil
  then show ?case by (simp add: advances_refl sound_def)
next
  case (Cons p ps)
  obtain r st' where a: "add_plan_item load True p now st = (r, st')" by (metis surj_pair)
  then have one: "advances st st'" using add_plan_item_adv [OF Cons.prems, of p now] by simp
  then have "advances st (snd (add_all load True ps now st'))"
    using Cons advances_sound advances_trans by blast
  then show ?case using a one by (auto split: sum.split prod.split)
qed

lemma append_items_adv: "sound load st \<Longrightarrow> advances st (snd (append_items load True ps now st))"
proof (induction ps arbitrary: st)
  case Nil
  then show ?case by (simp add: advances_refl sound_def)
next
  case (Cons p ps)
  have same: "advances st (snd (append_items load True ps now st))" by (rule Cons.IH [OF Cons.prems])
  obtain r st' where a: "add_plan_item load True p now st = (r, st')" by (metis surj_pair)
  then have one: "advances st st'" using add_plan_item_adv [OF Cons.prems, of p now] by simp
  then have rest: "advances st (snd (append_items load True ps now st'))"
    using Cons advances_sound advances_trans by blast
  obtain q st'' where b: "append_items load True ps now st' = (q, st'')" by (metis surj_pair)
  show ?case using a b rest same one by (cases r; cases q) simp_all
qed

lemma append_harness_plan_adv [ledger_adv]:
  assumes "sound load st"
  shows "advances st (snd (append_harness_plan load True ps now st))"
proof -
  obtain r st' where a: "append_items load True ps now st = (r, st')" by (metis surj_pair)
  have one: "advances st st'" using append_items_adv [OF assms, of ps now] a by simp
  then have "advances st (snd (save_progress load True now st'))"
    using save_progress_adv advances_sound [OF assms] advances_trans by blast
  then show ?thesis
    using a one by (auto simp: append_harness_plan_def split: sum.split prod.splits)
qed

lemma persist_harness_plan_adv [ledger_adv]:
  assumes "sound load st"
  shows "advances st (snd (persist_harness_plan load True ps an now st))"
proof -
  obtain r tr s where a: "add_all load True ps now st = (r, tr, s)" by (metis surj_pair)
  have one: "advances st (tr, s)" using add_all_adv [OF assms, of ps now] a by simp
  then have ok: "sound load (tr, s)" by (rule advances_sound [OF assms])
  have "artifact_ok (the_artifact now tr)"
    using ok the_artifact_ok [of tr s now] by (simp add: sound_def)
  then have "advances st (snd (save_progress load True now (put_artifact b tr, s)))"
    if "ar_tasks b = ar_tasks (the_artifact now tr)" and "ar_version b = held tr" for b
    using that one put_save_adv [OF ok, of b now] advances_trans artifact_ok_tasks
    unfolding save_progress_def by blast
  from this [of "the_artifact now tr"] this [of "the_artifact now tr\<lparr>ar_work_kind := k\<rparr>" for k]
  show ?thesis
    using a one by (auto simp: persist_harness_plan_def Let_def split: sum.split prod.split)
qed

lemma sync_harness_from_analysis_adv [ledger_adv]:
  assumes "sound load st"
  shows "advances st (snd (sync_harness_from_analysis load True an replan now st))"
proof -
  obtain tr s where st: "st = (tr, s)" by fastforce
  define am where "am = merge_harness_plan_from_subtasks an"
  define tr1 where "tr1 = (if blank (an_work_kind am) then tr else set_work_kind (an_work_kind am) tr)"
  define a where "a = the_artifact now tr1"
  define tr2 where "tr2 = put_artifact a tr1"
  define note1 where "note1 = (if an_work_kind am = [] then (Inr 0, tr2, s)
      else case save_progress load True now (tr2, s) of
             (Inl e, st'') \<Rightarrow> (Inl e, st'') | (Inr _, st'') \<Rightarrow> (Inr (0::nat), st''))"
  have "advances st (tr1, s)"
    using assms st set_work_kind_adv [of load tr s] by (simp add: tr1_def sound_def advances_refl)
  moreover from this have sd: "sound load (tr1, s)" by (rule advances_sound [OF assms])
  then have "advances (tr1, s) (tr2, s)"
    using put_adv [OF sd, of a] the_artifact_ok [of tr1 s now] by (simp add: tr2_def a_def sound_def)
  ultimately have two: "advances st (tr2, s)" by (rule advances_trans)
  note sd2 = advances_sound [OF assms two]
  have note_adv: "advances st (snd note1)"
    using two advances_trans [OF two save_progress_adv [OF sd2, of now]] by (simp add: note1_def)
  have "sync_harness_from_analysis load True an replan now st =
      (if ar_tasks a \<noteq> [] then
         (if \<not> replan then note1
          else if an_plan am \<noteq> [] then append_harness_plan load True (an_plan am) now (tr2, s)
          else (Inr 0, tr2, s))
       else if an_plan am \<noteq> [] then persist_harness_plan load True (an_plan am) am now (tr2, s)
       else note1)"
    unfolding sync_harness_from_analysis_def Let_def st note1_def tr2_def a_def tr1_def am_def
    by (simp only: prod.case)
  then show ?thesis
    using two note_adv advances_trans [OF two append_harness_plan_adv [OF sd2]]
      advances_trans [OF two persist_harness_plan_adv [OF sd2]] by simp
qed

text \<open>A tracker that bootstraps reads the store first: it compares with what it read.\<close>

definition reloads :: "tracker \<times> lstore \<Rightarrow> tracker \<times> lstore \<Rightarrow> bool" where
  "reloads st st' \<longleftrightarrow> st_ok st' \<and> vinv st'
     \<and> held (fst st') = version_of (ls_artifact (snd st'))
     \<and> version_of (ls_artifact (snd st)) < version_of (ls_artifact (snd st'))"

lemma save_current:
  assumes "sound load (tr, s)" and "tr_artifact tr \<noteq> None" and "held tr = version_of (ls_artifact s)"
  shows "\<exists>tr' s'. save_unlocked load True now (tr, s) = (Inr (), tr', s') \<and> reloads (tr, s) (tr', s')"
proof -
  have ok: "st_ok (snd (save_unlocked load True now (tr, s)))"
    using assms save_unlocked_ok by (simp add: sound_def)
  have load: "Option.bind (ls_artifact s) load = ls_artifact s"
    using assms by (intro faithful_load) (auto simp: sound_def st_ok_def)
  show ?thesis
    using ok load assms
    by (auto simp: save_unlocked_def Let_def reloads_def sound_def vinv_def version_of_def put_artifact_def
        split: option.splits)
qed

lemma begin_session_reloads:
  assumes "sound load (put_artifact a tr, s)" and "ar_version a = version_of (ls_artifact s)"
  shows "reloads (tr, s) (snd (begin_session load True now a (tr, s)))"
proof -
  let ?b = "a\<lparr>ar_sessions := ar_sessions a + 1, ar_updated := now\<rparr>"
  have "artifact_ok ?b"
    using assms(1) by (simp add: sound_def st_ok_def opt_ok_def put_artifact_def artifact_ok_def)
  then have "sound load (put_artifact ?b tr, s)"
    using assms(1) by (auto simp: sound_def vinv_def st_ok_def opt_ok_def put_artifact_def version_of_def)
  from save_current [OF this, of now] show ?thesis
    using assms(2) by (auto simp: begin_session_def put_artifact_def version_of_def reloads_def)
qed

lemma advances_reloads: "advances a b \<Longrightarrow> reloads b c \<Longrightarrow> reloads a c"
  by (auto simp: advances_def reloads_def)

lemma reloads_advances: "reloads a b \<Longrightarrow> advances b c \<Longrightarrow> reloads a c"
  by (auto simp: advances_def reloads_def)

lemma reloads_sound: "sound load st \<Longrightarrow> reloads st st' \<Longrightarrow> sound load st'"
  by (simp add: sound_def reloads_def)

lemma disk_start:
  assumes "sound load (tr, s)" and "ls_artifact s = None" and "ls_disk s = Some a"
  shows "\<exists>st'. save_unlocked load True now (put_artifact a (tr\<lparr>tr_session := Some sid\<rparr>), s) = (Inr (), st')
    \<and> reloads (tr, s) (snd (begin_session load True now (the_artifact now (fst st')) st'))"
proof -
  let ?a = "a\<lparr>ar_updated := now, ar_version := ar_version a + 1\<rparr>"
  let ?tr = "put_artifact ?a (tr\<lparr>tr_session := Some sid\<rparr>)"
  let ?s = "s\<lparr>ls_artifact := Some ?a\<rparr>"
  have a: "artifact_ok a" "1 \<le> ar_version a"
    using assms by (simp_all add: sound_def st_ok_def opt_ok_def vinv_def version_of_def)
  then have "artifact_ok ?a" by (simp add: artifact_ok_def)
  then have snd1: "sound load (?tr, ?s)"
    using assms a by (simp add: sound_def st_ok_def opt_ok_def vinv_def version_of_def put_artifact_def)
  then have "reloads (?tr, ?s) (snd (begin_session load True now ?a (?tr, ?s)))"
    by (intro begin_session_reloads) (simp_all add: put_artifact_def version_of_def)
  then have "reloads (tr, s) (snd (begin_session load True now ?a (?tr, ?s)))"
    using a(2) assms(2) by (simp add: reloads_def version_of_def)
  moreover have "save_unlocked load True now (put_artifact a (tr\<lparr>tr_session := Some sid\<rparr>), s) = (Inr (), ?tr, ?s)"
    using assms(2) by (simp add: save_unlocked_def put_artifact_def Let_def)
  moreover have "the_artifact now ?tr = ?a" by (simp add: the_artifact_def put_artifact_def)
  ultimately show ?thesis by (metis fst_conv)
qed

lemma bootstrap_reloads:
  assumes "sound load st"
  shows "reloads st (snd (bootstrap load (\<lambda>_. True) sid goal from_disk now st))"
proof -
  obtain tr0 s where st: "st = (tr0, s)" by fastforce
  let ?tr = "tr0\<lparr>tr_session := Some sid\<rparr>"
  let ?fresh = "fresh_artifact (tr_project tr0) goal now"
  have start: "sound load (?tr, s)" using assms st by (simp add: sound_def vinv_def session_ok)
  have same: "reloads (?tr, s) x \<longleftrightarrow> reloads st x" for x by (simp add: reloads_def st)
  have put: "sound load (put_artifact a ?tr, s)"
    if "artifact_ok a" "1 \<le> ar_version a" "ar_version a \<le> version_of (ls_artifact s)" for a
    using that start by (simp add: sound_def vinv_def put_artifact_ok)
  have begin_new: "reloads st (snd (begin_session load True now a (?tr, s)))"
    if "artifact_ok a" "1 \<le> ar_version a" "ar_version a = version_of (ls_artifact s)" for a
    using begin_session_reloads [OF put] that same by simp
  have disk: "Option.bind (ls_disk s) load = ls_disk s" "\<And>a. ls_disk s = Some a \<Longrightarrow> artifact_ok a"
    using start by (auto simp: sound_def st_ok_def opt_ok_def intro!: faithful_load)
  have fresh: "artifact_ok ?fresh" "ar_version ?fresh = 1"
    by (rule fresh_ok) (simp add: fresh_artifact_def)
  show ?thesis
  proof (cases "ls_artifact s")
    case (Some d)
    have "artifact_ok d" using start Some by (simp add: sound_def st_ok_def opt_ok_def)
    then have "load d = Some d" using start by (simp add: sound_def faithful_def)
    have "1 \<le> ar_version d" using start Some by (simp add: sound_def vinv_def version_of_def)
    have "bootstrap load (\<lambda>_. True) sid goal from_disk now st = begin_session load True now d (?tr, s)"
      using Some \<open>load d = Some d\<close> by (simp add: bootstrap_def st Let_def)
    moreover have "ar_version d = version_of (ls_artifact s)" using Some by (simp add: version_of_def)
    ultimately show ?thesis using begin_new \<open>artifact_ok d\<close> \<open>1 \<le> ar_version d\<close> by metis
  next
    case None
    show ?thesis
    proof (cases "if from_disk then ls_disk s else None")
      case no_disk: None
      then have "(if from_disk then Option.bind (ls_disk s) load else None) = None"
        using disk(1) by (simp split: if_splits)
      then have "bootstrap load (\<lambda>_. True) sid goal from_disk now st = begin_session load True now ?fresh (?tr, s)"
        using None by (simp add: bootstrap_def st Let_def)
      moreover have "ar_version ?fresh = version_of (ls_artifact s)"
        using None fresh(2) by (simp add: version_of_def)
      ultimately show ?thesis using begin_new fresh by (metis order_refl)
    next
      case (Some a)
      then have a: "ls_disk s = Some a" "from_disk" by (auto split: if_splits)
      obtain st' where st': "save_unlocked load True now (put_artifact a ?tr, s) = (Inr (), st')"
        and new: "reloads (tr0, s) (snd (begin_session load True now (the_artifact now (fst st')) st'))"
        using disk_start [OF assms [unfolded st] None a(1), of now sid] by blast
      have "bootstrap load (\<lambda>_. True) sid goal from_disk now st
          = begin_session load True now (the_artifact now (fst st')) st'"
        using None a disk(1) st' by (simp add: bootstrap_def st Let_def)
      then show ?thesis using new st by metis
    qed
  qed
qed

lemma seed_items_adv:
  "list_all plain_item xs \<Longrightarrow> sound load st \<Longrightarrow> advances st (snd (seed_items load True xs now st))"
proof (induction xs arbitrary: st)
  case Nil
  then show ?case by (simp add: advances_refl sound_def)
next
  case (Cons x xs)
  have step: "advances st (snd (case m of (Inl e, st') \<Rightarrow> (Inl e, st') | (Inr _, st') \<Rightarrow> seed_items load True xs now st'))"
    if "advances st (snd m)" for m :: "(pyerror + ltask) \<times> tracker \<times> lstore"
  proof -
    obtain r st' where m: "m = (r, st')" by (metis surj_pair)
    then have "advances st (snd (seed_items load True xs now st'))"
      using that Cons advances_sound advances_trans by auto
    then show ?thesis using m that by (auto split: sum.split)
  qed
  show ?case
  proof (cases x)
    case (Seed_task t)
    then show ?thesis
      using Cons.prems step [OF add_task_adv [OF Cons.prems(2)]] by simp
  next
    case (Seed_dict p n)
    have "list_all plain_step (map new_step (pi_steps p))"
      by (simp add: list_all_iff plain_step_def new_step_def)
    then show ?thesis
      using Seed_dict Cons.prems step [OF add_task_adv [OF Cons.prems(2)]]
      by (simp add: advances_refl sound_def del: priority_of.simps)
  qed
qed

lemma seed_harness_tasks_reloads:
  assumes "list_all plain_item xs" and "sound load st"
  shows "reloads st (snd (seed_harness_tasks load (\<lambda>_. True) xs goal sid replace now st))"
proof -
  obtain r tr s where a: "bootstrap load (\<lambda>_. True) sid goal True now st = (r, tr, s)" by (metis surj_pair)
  have boot: "reloads st (tr, s)" using bootstrap_reloads [OF assms(2), of sid goal True now] a by simp
  note sd = reloads_sound [OF assms(2) boot]
  let ?b = "if replace then the_artifact now tr\<lparr>ar_tasks := []\<rparr> else the_artifact now tr"
  have "artifact_ok ?b" using the_artifact_ok [of tr s now] sd by (simp add: sound_def artifact_ok_def)
  then have put: "advances (tr, s) (put_artifact ?b tr, s)" by (intro put_adv [OF sd]) simp_all
  then have items: "advances (tr, s) (snd (seed_items load True xs now (put_artifact ?b tr, s)))"
    using seed_items_adv [OF assms(1)] advances_sound [OF sd] advances_trans by blast
  obtain q tr' s' where b: "seed_items load True xs now (put_artifact ?b tr, s) = (q, tr', s')"
    by (metis surj_pair)
  have two: "advances (tr, s) (tr', s')" using items b by simp
  note sd' = advances_sound [OF sd two]
  have fin: "advances (tr, s) (snd (save_progress load True now (put_artifact c tr', s')))"
    if "ar_tasks c = ar_tasks (the_artifact now tr')" "ar_version c = held tr'" for c
    using that two put_save_adv [OF sd', of c now] the_artifact_ok [of tr' s' now] sd' artifact_ok_tasks
      advances_trans unfolding save_progress_def sound_def by blast
  have "advances (tr, s) (snd (seed_harness_tasks load (\<lambda>_. True) xs goal sid replace now st))
      \<or> snd (seed_harness_tasks load (\<lambda>_. True) xs goal sid replace now st) = (tr, s)"
    using a b two fin [of "the_artifact now tr'"] fin [of "the_artifact now tr'\<lparr>ar_description := goal\<rparr>"]
    by (auto simp: seed_harness_tasks_def Let_def split: sum.split prod.split)
  then show ?thesis using boot reloads_advances by metis
qed

text \<open>Every read of the store succeeds.\<close>

fun reads_succeed :: "ledger_op \<Rightarrow> bool" where
  "reads_succeed (L_bootstrap sid goal from_disk rd) = (rd = (\<lambda>_. True))"
| "reads_succeed (L_add i d c p ss n rd) = rd"
| "reads_succeed (L_update i x n e rs rd) = rd"
| "reads_succeed (L_claim sid rd) = rd"
| "reads_succeed (L_save rd) = rd"
| "reads_succeed (L_sync an replan rd) = rd"
| "reads_succeed (L_seed xs goal sid replace rd) = (rd = (\<lambda>_. True))"
| "reads_succeed _ = True"

fun rereads :: "ledger_op \<Rightarrow> bool" where
  "rereads (L_bootstrap sid goal from_disk rd) = True"
| "rereads (L_seed xs goal sid replace rd) = True"
| "rereads _ = False"

lemma ledger_op_adv:
  assumes "sound load st" and "plain_op op" and "reads_succeed op"
  shows "if rereads op then reloads st (ledger_op_run load now op st)
    else advances st (ledger_op_run load now op st)"
  using assms by (cases op; cases st)
    (simp_all add: ledger_adv bootstrap_reloads seed_harness_tasks_reloads)

definition versions_ok :: "loader \<Rightarrow> tracker list \<times> lstore \<Rightarrow> bool" where
  "versions_ok load sy \<longleftrightarrow> list_all (\<lambda>tr. sound load (tr, snd sy)) (fst sy)"

lemma ledger_step_cas:
  assumes "versions_ok load sy" and "plain_op op" and "reads_succeed op"
  shows "versions_ok load (ledger_step load (i, now, op) sy)
    \<and> (i < length (fst sy) \<longrightarrow> compare_and_swap
          (if rereads op then version_of (ls_artifact (snd sy)) else held (fst sy ! i))
          (ls_artifact (snd sy)) (ls_artifact (snd (ledger_step load (i, now, op) sy))))"
proof (cases "i < length (fst sy)")
  case True
  obtain trs s where sy: "sy = (trs, s)" by fastforce
  obtain tr s' where r: "ledger_op_run load now op (trs ! i, s) = (tr, s')" by fastforce
  have sd: "sound load (trs ! i, s)"
    using assms(1) True sy by (simp add: versions_ok_def list_all_length)
  have adv: "if rereads op then reloads (trs ! i, s) (tr, s') else advances (trs ! i, s) (tr, s')"
    using ledger_op_adv [OF sd assms(2,3), of now] unfolding r .
  have grow: "sound load (tr, s') \<and> version_of (ls_artifact s) \<le> version_of (ls_artifact s')
      \<and> (ls_artifact s \<noteq> None \<longrightarrow> 2 \<le> version_of (ls_artifact s'))
      \<and> opt_ok (ls_artifact s') \<and> opt_ok (ls_disk s') \<and> vinv (tr, s')"
    using adv sd by (auto simp: sound_def advances_def reloads_def st_ok_def vinv_def split: if_splits)
  then have "sound load (t, s')" if "sound load (t, s)" for t
    using that by (auto simp: sound_def st_ok_def vinv_def)
  then have "versions_ok load (trs[i := tr], s')"
    using assms(1) grow sy
    by (auto simp: versions_ok_def list_all_iff dest!: set_update_subset_insert [THEN subsetD])
  then show ?thesis
    using True sy r adv by (auto simp: ledger_step_def compare_and_swap_def advances_def reloads_def)
qed (use assms(1) in \<open>simp add: ledger_step_def case_prod_unfold\<close>)

lemma ledger_run_versions:
  "list_all (\<lambda>(_, _, op). plain_op op \<and> reads_succeed op) evs \<Longrightarrow> versions_ok load sy \<Longrightarrow>
    versions_ok load (ledger_run load evs sy)"
proof (induction evs arbitrary: sy)
  case (Cons ev evs)
  obtain i now op where ev: "ev = (i, now, op)" by (metis surj_pair)
  have "versions_ok load (ledger_step load ev sy)"
    using Cons.prems ledger_step_cas [of load sy op i now] by (simp add: ev)
  then show ?case using Cons by (simp add: ledger_run_def)
qed (simp add: ledger_run_def)



section \<open>Claiming\<close>

text \<open>
  Claiming hands out the open task of least priority rank, the oldest of those, among all
  pending tasks and the ones already in progress: it comes back in progress for the session
  that asked, with one attempt more. Every task some session had in progress changes to that
  session, whether or not its session is still alive.
\<close>

theorem claim_hands_out_best:
  assumes "claim_next_task load rd sid now (tr, s) = (Inr (Some t), tr', s')"
    and "the_artifact now tr = a"
  shows "(\<exists>k<length (ar_tasks a). tk_id t = tk_id (ar_tasks a ! k)
           \<and> tk_status (ar_tasks a ! k) \<in> {Pending, In_progress}
           \<and> tk_attempts t = tk_attempts (ar_tasks a ! k) + 1
           \<and> (\<forall>u\<in>set (ar_tasks a). tk_status u = Pending \<longrightarrow> task_key (ar_tasks a ! k) \<le> task_key u)
           \<and> tr_artifact tr' \<noteq> None \<and> ar_tasks (the_artifact now tr') ! k = t)
    \<and> tk_status t = In_progress \<and> tk_session t = Some sid
    \<and> (\<forall>u\<in>set (ar_tasks (the_artifact now tr')).
         tk_status u = In_progress \<longrightarrow> tk_session u \<in> {None, Some [], Some sid})"
proof (cases rule: get_next_task_cases [of sid a])
  case 1
  then show ?thesis using assms by (simp add: claim_next_task_def)
next
  case (2 k)
  let ?r = "reclaim sid a"
  let ?t = "mark_in_progress sid now (ar_tasks ?r ! k)"
  let ?b = "set_task k ?t ?r"
  have saved: "t = ?t \<and> ar_tasks (the_artifact now tr') = (ar_tasks ?r)[k := ?t] \<and> tr_artifact tr' \<noteq> None"
    using assms 2(1)
    by (auto simp: claim_next_task_def Let_def save_unlocked_def put_artifact_def set_task_def
        the_artifact_def split: prod.splits sum.splits option.splits if_splits)
  have rk: "tk_id (ar_tasks ?r ! j) = tk_id (ar_tasks a ! j) \<and> tk_status (ar_tasks ?r ! j) = tk_status (ar_tasks a ! j)
      \<and> tk_attempts (ar_tasks ?r ! j) = tk_attempts (ar_tasks a ! j)
      \<and> task_key (ar_tasks ?r ! j) = task_key (ar_tasks a ! j)" if "j < length (ar_tasks a)" for j
    using that by (auto simp: reclaim_def task_key_def split: option.split)
  have best: "task_key (ar_tasks a ! k) \<le> task_key (ar_tasks a ! j)"
    if "j < length (ar_tasks a)" "tk_status (ar_tasks a ! j) = Pending" for j
  proof -
    have "j \<in> set (candidates sid (ar_tasks ?r))" using that rk [OF that(1)] by (simp add: candidates_def)
    then show ?thesis using 2(4) rk [OF that(1)] rk [OF 2(3)] by metis
  qed
  have mine: "tk_session u \<in> {None, Some [], Some sid}" if "u \<in> set (ar_tasks ?r)" "tk_status u = In_progress" for u
    using that by (auto simp: reclaim_def split: option.splits if_splits)
  have "\<forall>u\<in>set (ar_tasks (the_artifact now tr')).
         tk_status u = In_progress \<longrightarrow> tk_session u \<in> {None, Some [], Some sid}"
  proof (intro ballI impI)
    fix u assume u: "u \<in> set (ar_tasks (the_artifact now tr'))" "tk_status u = In_progress"
    have "u \<in> insert ?t (set (ar_tasks ?r))"
      using u saved set_update_subset_insert [of "ar_tasks ?r" k ?t] by auto
    then show "tk_session u \<in> {None, Some [], Some sid}"
      using u mine [of u] by (auto simp: mark_in_progress_def)
  qed
  moreover have "\<forall>u\<in>set (ar_tasks a). tk_status u = Pending \<longrightarrow> task_key (ar_tasks a ! k) \<le> task_key u"
    using best by (auto simp: in_set_conv_nth)
  moreover have "tk_status (ar_tasks a ! k) \<in> {Pending, In_progress}"
    using 2(2,3) rk by (auto simp: candidates_def)
  ultimately show ?thesis
    using saved 2(3) rk [OF 2(3)] by (auto simp: mark_in_progress_def intro!: exI [of _ k])
qed

text \<open>A claim of the second session of the demonstration store, once it has read it.\<close>

definition demo_two :: "tracker list \<times> lstore" where
  "demo_two = ledger_run (load_artifact demo_vbool demo_vstr)
     [(0, ''t5'', L_add ''b'' ''write b'' ''planned'' Low [new_step ''test b''] [] True),
      (0, ''t6'', L_claim ''s1'' True),
      (1, ''t7'', L_bootstrap ''s2'' [] False (\<lambda>_. True))] demo_ledger"

theorem claim_hands_out_best_witness:
  "\<exists>t tr' s'. claim_next_task (load_artifact demo_vbool demo_vstr) True ''s2'' ''t8''
        (fst demo_two ! 1, snd demo_two) = (Inr (Some t), tr', s')
     \<and> tk_id t = ''b'' \<and> tk_status t = In_progress \<and> tk_session t = Some ''s2''"
proof -
  let ?r = "claim_next_task (load_artifact demo_vbool demo_vstr) True ''s2'' ''t8''
        (fst demo_two ! 1, snd demo_two)"
  have "case ?r of (Inr (Some t), _) \<Rightarrow> tk_id t = ''b'' | _ \<Rightarrow> False" by code_simp
  then obtain t tr' s' where r: "?r = (Inr (Some t), tr', s')" and i: "tk_id t = ''b''"
    by (auto split: prod.splits sum.splits option.splits)
  from claim_hands_out_best [OF r refl] r i show ?thesis by simp
qed

section \<open>What can go wrong\<close>

lemma fresh_no_tasks [simp]: "ar_tasks (fresh_artifact p g now) = []"
  by (simp add: fresh_artifact_def)

text \<open>
  A stored artifact that does not validate is discarded by the next session: it starts with
  an empty list of tasks and saves it over the stored one, whose version is not compared.
\<close>

theorem unreadable_ledger_discarded:
  assumes "ls_artifact s = Some d" and "load d = None"
  shows "\<exists>tr' s' a. bootstrap load (\<lambda>_. True) sid goal from_disk now (tr, s) = (Inr (), tr', s')
    \<and> ls_artifact s' = Some a \<and> ar_tasks a = []"
  using assms by (simp add: bootstrap_def begin_session_def save_unlocked_def Let_def put_artifact_def)

text \<open>
  One verification result whose \<open>notes\<close> are null makes the saved artifact such a one: the
  update stores the value unchecked.
\<close>

definition null_note :: "ledger_event" where
  "null_note = (0, ''t5'', L_update ''a'' (Some Passing) None None
     [\<lparr>sr_description = ''test a'', sr_passes = Some (PyBool True), sr_notes = Some PyNone\<rparr>] True)"

theorem unreadable_ledger_discarded_witness:
  "\<exists>tr' s' a d. ls_artifact (snd (ledger_step (load_artifact demo_vbool demo_vstr) null_note demo_ledger)) = Some d
     \<and> ar_tasks d \<noteq> []
     \<and> bootstrap (load_artifact demo_vbool demo_vstr) (\<lambda>_. True) ''s3'' [] True ''t6''
         (tracker_init ''agent'',
          snd (ledger_step (load_artifact demo_vbool demo_vstr) null_note demo_ledger)) = (Inr (), tr', s')
     \<and> ls_artifact s' = Some a \<and> ar_tasks a = []"
proof -
  let ?s = "snd (ledger_step (load_artifact demo_vbool demo_vstr) null_note demo_ledger)"
  have "case ls_artifact ?s of None \<Rightarrow> False
      | Some d \<Rightarrow> ar_tasks d \<noteq> [] \<and> load_artifact demo_vbool demo_vstr d = None" by code_simp
  then obtain d where d: "ls_artifact ?s = Some d" "ar_tasks d \<noteq> []"
    "load_artifact demo_vbool demo_vstr d = None" by (auto split: option.splits)
  from unreadable_ledger_discarded [of ?s d "load_artifact demo_vbool demo_vstr", OF d(1,3), of "''s3''"
      "[]" True "''t6''" "tracker_init ''agent''"] d
  show ?thesis by blast
qed

text \<open>Two failed reads of the store have the same effect on a readable artifact.\<close>

lemma failed_reads_discard_ledger:
  "\<exists>tr' s' a. bootstrap load (\<lambda>_. False) sid goal False now (tr, s) = (Inr (), tr', s')
    \<and> ls_artifact s' = Some a \<and> ar_tasks a = []"
  by (simp add: bootstrap_def begin_session_def save_unlocked_def Let_def put_artifact_def)

text \<open>A string counts as passing when it is not empty, \<open>"false"\<close> included.\<close>

lemma string_false_passes:
  "fst (mark_passing now (new_task i d c p
     (apply_results now [\<lparr>sr_description = x, sr_passes = Some (PyStr ''false''), sr_notes = None\<rparr>]
        [new_step x]) n t0))"
  by (simp add: mark_passing_def new_task_def apply_results_def apply_result_def new_step_def)

text \<open>
  A task put in progress by a tracker that never bootstrapped belongs to the empty session: no
  session reclaims it, and none but the empty one can claim it.
\<close>

lemma empty_session_task_stuck:
  assumes "get_next_task sid a = (Some k, b)" and "sid \<noteq> []"
    and "tk_status (ar_tasks a ! j) = In_progress" and "tk_session (ar_tasks a ! j) = Some []"
    and "j < length (ar_tasks a)"
  shows "j \<noteq> k \<and> ar_tasks b ! j = ar_tasks a ! j"
proof -
  have same: "ar_tasks (reclaim sid a) ! j = ar_tasks a ! j" using assms by (simp add: reclaim_def)
  show ?thesis
    using assms same
    by (cases rule: get_next_task_cases [of sid a]) (auto simp: candidates_def)
qed

text \<open>Seeding with \<open>replace\<close> clears the tasks before it looks at the new ones.\<close>

lemma seed_replace_clears_first:
  assumes "bootstrap load rd sid goal True now st = (Inr (), tr, s)" and "pi_task_id p = []"
  shows "\<exists>tr'. seed_harness_tasks load rd [Seed_dict p n] goal sid True now st
      = (Inl (ValueError ''each task dict must include an id key''), tr', s)
    \<and> ar_tasks (the_artifact now tr') = []"
  using assms by (simp add: seed_harness_tasks_def Let_def put_artifact_def the_artifact_def)

text \<open>After the merge, subtasks never come without a plan.\<close>

lemma merged_plan_present:
  "an_plan (merge_harness_plan_from_subtasks an) \<noteq> []
    \<or> an_subtasks (merge_harness_plan_from_subtasks an) = []"
proof (cases "an_plan an \<noteq> [] \<or> an_subtasks an = []")
  case False
  then have "List.enumerate 0 (an_subtasks an) \<noteq> []" by (cases "an_subtasks an") simp_all
  then show ?thesis using False
    by (simp add: merge_harness_plan_from_subtasks_def harness_plan_from_subtasks_def)
qed (auto simp: merge_harness_plan_from_subtasks_def)

end
