(* ===== verification/Worker_Dag.thy ===== *)
theory Worker_Dag
  imports Agloom_Prelude
begin

text \<open>
  The worker data model (\<open>src/agloom/src/models.py\<close>) and the level assignment of the
  HYBRID\_DAG pattern (\<open>src/agloom/patterns/_dag.py\<close>): \<open>group_by_level\<close> sorts workers
  into levels that may run in parallel, \<open>inject_dag_context\<close> appends the outputs of the
  direct dependencies to a worker's task.

  The lemmas show that the level assignment succeeds exactly on acyclic graphs whose
  dependencies are all known, that it loses and invents no worker, and that every worker
  sits one level above its deepest dependency.
\<close>

section \<open>Data model\<close>

datatype signal_type = HALT_ALL | CLARIFICATION_REQUEST | SUCCESS | FAILED | HALTED

datatype step_type =
    Step_classify | Step_llm_call | Step_tool_call | Step_tool_result | Step_worker_start | Step_worker_end
  | Step_cache_hit | Step_reflection | Step_fallback | Step_interrupt | Step_token

text \<open>An entry of the audit trail, without its times.\<close>

record agent_step =
  as_type :: step_type
  as_name :: string
  as_input :: string
  as_output :: string
  as_meta :: "string pydict"

record worker_config =
  cfg_worker_id :: string
  cfg_task :: string
  cfg_system_prompt :: string
  cfg_tools :: "string list"
  cfg_depends_on :: "string list"
  cfg_context :: "string pydict"
  cfg_llm_timeout :: rat
  cfg_recursion_limit :: int
  cfg_max_retries :: int
  cfg_retry_delay :: rat

record worker_result =
  wr_worker_id :: string
  wr_task :: string
  wr_output :: string
  wr_signal :: signal_type
  wr_error :: "string option"
  wr_elapsed_ms :: rat
  wr_attempt :: int
  wr_token_usage :: "int pydict"
  wr_steps :: "agent_step list"

section \<open>Level assignment\<close>

type_synonym level_map = "nat pydict"

text \<open>The validation loop: the first dependency that names no worker raises.\<close>

fun unknown_dep :: "string list \<Rightarrow> worker_config list \<Rightarrow> (string \<times> string) option" where
  "unknown_dep ids [] = None"
| "unknown_dep ids (c # cs) =
     (case filter (\<lambda>d. d \<notin> set ids) (cfg_depends_on c) of
        d # _ \<Rightarrow> Some (cfg_worker_id c, d)
      | [] \<Rightarrow> unknown_dep ids cs)"

text \<open>The largest level among the placed dependencies.\<close>

definition deepest_dep :: "level_map \<Rightarrow> string list \<Rightarrow> nat" where
  "deepest_dep lm deps = Max (set (map (\<lambda>d. the (map_of lm d)) deps))"

text \<open>
  One sweep over \<open>remaining\<close>. Placements are visible to later workers of the same sweep,
  as in the code. The results are the level map, \<open>made_progress\<close> and \<open>still_remaining\<close>.
\<close>

fun level_pass ::
    "level_map \<Rightarrow> worker_config list \<Rightarrow> level_map \<times> bool \<times> worker_config list" where
  "level_pass lm [] = (lm, False, [])"
| "level_pass lm (c # cs) =
     (if cfg_depends_on c = [] then
        (let (lm', made, rest) = level_pass (AList.update (cfg_worker_id c) 0 lm) cs
         in (lm', True, rest))
      else if list_all (\<lambda>d. map_of lm d \<noteq> None) (cfg_depends_on c) then
        (let (lm', made, rest) =
           level_pass (AList.update (cfg_worker_id c) (deepest_dep lm (cfg_depends_on c) + 1) lm) cs
         in (lm', True, rest))
      else (let (lm', made, rest) = level_pass lm cs in (lm', made, c # rest)))"

fun level_loop :: "nat \<Rightarrow> level_map \<Rightarrow> worker_config list \<Rightarrow> pyerror + level_map" where
  "level_loop 0 lm remaining = Inr lm"
| "level_loop (Suc n) lm remaining =
     (if remaining = [] then Inr lm
      else let (lm', made, rest) = level_pass lm remaining
           in if \<not> made \<and> rest \<noteq> []
              then Inl (ValueError (''Circular dependency detected among workers: ''
                                    @ py_repr_strs (map cfg_worker_id rest)))
              else level_loop n lm' rest)"

fun bucket_workers ::
    "level_map \<Rightarrow> worker_config list \<Rightarrow> worker_config list list \<Rightarrow> pyerror + worker_config list list"
    where
  "bucket_workers lm [] levels = Inr levels"
| "bucket_workers lm (c # cs) levels =
     (case map_of lm (cfg_worker_id c) of
        None \<Rightarrow> Inl (KeyError (cfg_worker_id c))
      | Some l \<Rightarrow> bucket_workers lm cs (levels[l := levels ! l @ [c]]))"

definition max_level :: "level_map \<Rightarrow> nat" where
  "max_level lm = Max (set (map snd lm))"

definition group_by_level :: "worker_config list \<Rightarrow> pyerror + worker_config list list" where
  "group_by_level configs =
     (if configs = [] then Inr []
      else case unknown_dep (map cfg_worker_id configs) configs of
        Some (w, d) \<Rightarrow> Inl (ValueError (''Worker '' @ py_quote w @ '' depends on unknown worker ''
                                      @ py_quote d))
      | None \<Rightarrow>
          (case level_loop (length configs + 1) [] configs of
             Inl e \<Rightarrow> Inl e
           | Inr lm \<Rightarrow>
               bucket_workers lm configs (replicate (max_level lm + 1) [])))"

section \<open>Dependency context\<close>

text \<open>The heavy bar U+2501 of the section headers, in UTF-8.\<close>

definition heavy_bar :: string where
  "heavy_bar = concat (replicate 3 [CHR 0xE2, CHR 0x94, CHR 0x81])"

definition newline :: string where
  "newline = [CHR 0x0A]"

fun dep_section :: "string \<Rightarrow> worker_result option \<Rightarrow> string list" where
  "dep_section dep None = []"
| "dep_section dep (Some r) =
     (case wr_signal r of
        SUCCESS \<Rightarrow>
          [heavy_bar @ '' OUTPUT FROM '' @ dep @ '' '' @ heavy_bar @ newline @ wr_output r]
      | FAILED \<Rightarrow>
          [heavy_bar @ '' OUTPUT FROM '' @ dep @ '' (FAILED) '' @ heavy_bar @ newline
           @ ''This dependency failed: ''
           @ (case wr_error r of Some e \<Rightarrow> (if e = [] then ''Unknown error'' else e)
              | None \<Rightarrow> ''Unknown error'')
           @ ''. Proceed with available information.'']
      | HALTED \<Rightarrow>
          [heavy_bar @ '' OUTPUT FROM '' @ dep @ '' (HALTED) '' @ heavy_bar @ newline @ wr_output r]
      | _ \<Rightarrow> [])"

definition inject_dag_context ::
    "worker_config \<Rightarrow> worker_result pydict \<Rightarrow> worker_config" where
  "inject_dag_context config completed =
     (if cfg_depends_on config = [] then config
      else let sections = concat (map (\<lambda>d. dep_section d (map_of completed d)) (cfg_depends_on config))
           in if sections = [] then config
              else config\<lparr>cfg_task := cfg_task config @ newline @ newline
                            @ join_with (newline @ newline) sections\<rparr>)"

section \<open>The abstract graph\<close>

text \<open>An edge runs from a dependency to the worker that names it.\<close>

definition dep_rel :: "worker_config list \<Rightarrow> (string \<times> string) set" where
  "dep_rel cs = {(d, cfg_worker_id c) | c d. c \<in> set cs \<and> d \<in> set (cfg_depends_on c)}"

definition deps_known :: "worker_config list \<Rightarrow> bool" where
  "deps_known cs \<longleftrightarrow> list_all (\<lambda>c. set (cfg_depends_on c) \<subseteq> set (map cfg_worker_id cs)) cs"

text \<open>\<open>placed_ok lm c\<close>: the level map gives \<open>c\<close> the level its dependencies ask for.\<close>

definition wanted_level :: "level_map \<Rightarrow> worker_config \<Rightarrow> nat" where
  "wanted_level lm c =
     (if cfg_depends_on c = [] then 0 else deepest_dep lm (cfg_depends_on c) + 1)"

definition placed_ok :: "level_map \<Rightarrow> worker_config \<Rightarrow> bool" where
  "placed_ok lm c \<longleftrightarrow>
     list_all (\<lambda>d. map_of lm d \<noteq> None) (cfg_depends_on c)
     \<and> map_of lm (cfg_worker_id c) = Some (wanted_level lm c)"

lemma unknown_dep_None:
  "unknown_dep ids cs = None \<longleftrightarrow> (\<forall>c\<in>set cs. set (cfg_depends_on c) \<subseteq> set ids)"
proof (induction cs)
  case (Cons c cs)
  show ?case
  proof (cases "filter (\<lambda>d. d \<notin> set ids) (cfg_depends_on c)")
    case Nil
    then have "set (cfg_depends_on c) \<subseteq> set ids" by (auto simp: filter_empty_conv)
    with Nil Cons show ?thesis by simp
  next
    case (Cons d ds)
    then have "d \<in> set (cfg_depends_on c)" "d \<notin> set ids"
      by (metis filter_eq_ConsD in_set_conv_decomp)+
    with Cons show ?thesis by auto
  qed
qed simp

lemma deepest_dep_cong:
  assumes "\<forall>d\<in>set ds. map_of lm d = map_of lm' d"
  shows "deepest_dep lm ds = deepest_dep lm' ds"
proof -
  have "map (\<lambda>d. the (map_of lm d)) ds = map (\<lambda>d. the (map_of lm' d)) ds"
    using assms by simp
  then show ?thesis by (simp add: deepest_dep_def)
qed

lemma placed_ok_mono:
  assumes "placed_ok lm c" and "map_of lm \<subseteq>\<^sub>m map_of lm'"
  shows "placed_ok lm' c"
proof -
  have eq: "\<forall>d\<in>set (cfg_depends_on c). map_of lm d = map_of lm' d"
    using assms by (auto simp: placed_ok_def map_le_def list_all_iff dom_def)
  have "wanted_level lm' c = wanted_level lm c"
    using deepest_dep_cong [OF eq] by (simp add: wanted_level_def)
  moreover have "map_of lm' (cfg_worker_id c) = map_of lm (cfg_worker_id c)"
    using assms by (metis domI map_le_def placed_ok_def)
  ultimately show ?thesis
    using assms eq by (auto simp: placed_ok_def list_all_iff)
qed

lemma map_le_fresh_update:
  assumes "map_of lm k = None"
  shows "map_of lm \<subseteq>\<^sub>m map_of (AList.update k v lm)"
  using assms by (auto simp: map_le_def update_conv' dom_def)

section \<open>One sweep\<close>

text \<open>What a sweep promises to the loop around it.\<close>

definition placeable :: "level_map \<Rightarrow> worker_config \<Rightarrow> bool" where
  "placeable lm c \<longleftrightarrow> list_all (\<lambda>d. map_of lm d \<noteq> None) (cfg_depends_on c)"

lemma level_pass_place:
  assumes "placeable lm c"
    and "level_pass (AList.update (cfg_worker_id c) (wanted_level lm c) lm) cs = (lm', made, rest)"
  shows "level_pass lm (c # cs) = (lm', True, rest)"
  using assms by (cases "cfg_depends_on c") (auto simp: placeable_def wanted_level_def)

lemma level_pass_keep:
  assumes "\<not> placeable lm c" and "level_pass lm cs = (lm', made, rest)"
  shows "level_pass lm (c # cs) = (lm', made, c # rest)"
  using assms by (cases "cfg_depends_on c") (auto simp: placeable_def)

lemma level_pass_induct [consumes 1, case_names Nil Place Keep]:
  assumes "level_pass lm cs = (lm', made, rest)"
    and "\<And>lm. P lm [] lm False []"
    and "\<And>lm c cs lm' made rest.
      \<lbrakk>placeable lm c; P (AList.update (cfg_worker_id c) (wanted_level lm c) lm) cs lm' made rest\<rbrakk>
      \<Longrightarrow> P lm (c # cs) lm' True rest"
    and "\<And>lm c cs lm' made rest.
      \<lbrakk>\<not> placeable lm c; P lm cs lm' made rest\<rbrakk> \<Longrightarrow> P lm (c # cs) lm' made (c # rest)"
  shows "P lm cs lm' made rest"
  using assms(1)
proof (induction cs arbitrary: lm lm' made rest)
  case Nil
  then show ?case using assms(2) by simp
next
  case (Cons c cs)
  show ?case
  proof (cases "placeable lm c")
    case True
    obtain l m r where lp:
      "level_pass (AList.update (cfg_worker_id c) (wanted_level lm c) lm) cs = (l, m, r)"
      by (metis prod_cases3)
    have "lm' = l" "made" "rest = r"
      using Cons.prems level_pass_place [OF True lp] by auto
    then show ?thesis using assms(3) [OF True Cons.IH [OF lp]] by simp
  next
    case False
    obtain l m r where lp: "level_pass lm cs = (l, m, r)" by (metis prod_cases3)
    have "lm' = l" "made = m" "rest = c # r"
      using Cons.prems level_pass_keep [OF False lp] by auto
    then show ?thesis using assms(4) [OF False Cons.IH [OF lp]] by simp
  qed
qed

lemma level_pass_rest: "level_pass lm cs = (lm', made, rest) \<Longrightarrow> subseq rest cs"
  by (induction rule: level_pass_induct) auto

lemma level_pass_idle:
  "level_pass lm cs = (lm', made, rest) \<Longrightarrow>
     \<not> made \<longrightarrow> lm' = lm \<and> rest = cs \<and> (\<forall>c\<in>set cs. \<not> placeable lm c)"
  by (induction rule: level_pass_induct) auto

lemma level_pass_progress:
  "level_pass lm cs = (lm', made, rest) \<Longrightarrow>
     length rest \<le> length cs \<and> (made \<longrightarrow> length rest < length cs)"
  by (induction rule: level_pass_induct) auto

lemma level_pass_dom:
  "level_pass lm cs = (lm', made, rest) \<Longrightarrow>
     dom (map_of lm') \<union> cfg_worker_id ` set rest
       = dom (map_of lm) \<union> cfg_worker_id ` set cs"
proof (induction rule: level_pass_induct)
  case (Place lm c cs lm' made rest)
  then show ?case by (auto simp: update_conv' dom_fun_upd)
next
  case (Keep lm c cs lm' made rest)
  then show ?case by (metis Un_insert_right image_insert list.simps(15))
qed simp

lemma level_pass_mono:
  "level_pass lm cs = (lm', made, rest) \<Longrightarrow>
     distinct (map cfg_worker_id cs) \<longrightarrow> dom (map_of lm) \<inter> cfg_worker_id ` set cs = {} \<longrightarrow>
     map_of lm \<subseteq>\<^sub>m map_of lm' \<and> dom (map_of lm') \<inter> cfg_worker_id ` set rest = {}
     \<and> (\<forall>c\<in>set cs. c \<in> set rest \<or> placed_ok lm' c)
     \<and> dom (map_of lm') \<subseteq> dom (map_of lm) \<union> cfg_worker_id ` set cs"
proof (induction rule: level_pass_induct)
  case (Place lm c cs lm' made rest)
  let ?lm0 = "AList.update (cfg_worker_id c) (wanted_level lm c) lm"
  have eq: "\<forall>d\<in>set (cfg_depends_on c). map_of lm d = map_of ?lm0 d"
    if "map_of lm (cfg_worker_id c) = None"
    using that Place.hyps by (auto simp: placeable_def list_all_iff update_conv')
  have ok: "placed_ok ?lm0 c" if "map_of lm (cfg_worker_id c) = None"
    using deepest_dep_cong [OF eq [OF that]] eq [OF that] Place.hyps
    by (auto simp: placed_ok_def placeable_def wanted_level_def update_conv' list_all_iff)
  show ?case
  proof (intro impI)
    assume d: "distinct (map cfg_worker_id (c # cs))"
      and e: "dom (map_of lm) \<inter> cfg_worker_id ` set (c # cs) = {}"
    then have fresh: "map_of lm (cfg_worker_id c) = None" by auto
    have "dom (map_of ?lm0) \<inter> cfg_worker_id ` set cs = {}"
      using d e by (auto simp: update_conv' split: if_splits)
    then have IH: "map_of ?lm0 \<subseteq>\<^sub>m map_of lm'" "dom (map_of lm') \<inter> cfg_worker_id ` set rest = {}"
        "\<forall>c\<in>set cs. c \<in> set rest \<or> placed_ok lm' c"
        "dom (map_of lm') \<subseteq> dom (map_of ?lm0) \<union> cfg_worker_id ` set cs"
      using Place.IH d by auto
    have "placed_ok lm' c" using placed_ok_mono [OF ok [OF fresh] IH(1)] .
    moreover have "map_of lm \<subseteq>\<^sub>m map_of lm'"
      using map_le_fresh_update [OF fresh] IH(1) map_le_trans by blast
    moreover have "dom (map_of lm') \<subseteq> dom (map_of lm) \<union> cfg_worker_id ` set (c # cs)"
      using IH(4) by (auto simp: update_conv' split: if_splits)
    ultimately show "map_of lm \<subseteq>\<^sub>m map_of lm' \<and> dom (map_of lm') \<inter> cfg_worker_id ` set rest = {}
      \<and> (\<forall>x\<in>set (c # cs). x \<in> set rest \<or> placed_ok lm' x)
      \<and> dom (map_of lm') \<subseteq> dom (map_of lm) \<union> cfg_worker_id ` set (c # cs)"
      using IH(2,3) by simp
  qed
next
  case (Keep lm c cs lm' made rest)
  show ?case
  proof (intro impI)
    assume d: "distinct (map cfg_worker_id (c # cs))"
      and e: "dom (map_of lm) \<inter> cfg_worker_id ` set (c # cs) = {}"
    have IH: "map_of lm \<subseteq>\<^sub>m map_of lm'" "dom (map_of lm') \<inter> cfg_worker_id ` set rest = {}"
        "\<forall>c\<in>set cs. c \<in> set rest \<or> placed_ok lm' c"
        "dom (map_of lm') \<subseteq> dom (map_of lm) \<union> cfg_worker_id ` set cs"
      using Keep.IH d e by auto
    have "cfg_worker_id c \<notin> dom (map_of lm')" using IH(4) d e by auto
    then show "map_of lm \<subseteq>\<^sub>m map_of lm' \<and> dom (map_of lm') \<inter> cfg_worker_id ` set (c # rest) = {}
      \<and> (\<forall>x\<in>set (c # cs). x \<in> set (c # rest) \<or> placed_ok lm' x)
      \<and> dom (map_of lm') \<subseteq> dom (map_of lm) \<union> cfg_worker_id ` set (c # cs)"
      using IH by auto
  qed
qed (simp add: map_le_refl)

section \<open>The whole assignment\<close>

text \<open>Fuel \<open>length configs + 1\<close> is enough: every sweep that does not raise places a worker.\<close>

lemma level_loop_ok:
  assumes "length rem < n" and "distinct (map cfg_worker_id rem)"
    and "dom (map_of lm) \<inter> cfg_worker_id ` set rem = {}"
    and "level_loop n lm rem = Inr lm'"
  shows "map_of lm \<subseteq>\<^sub>m map_of lm' \<and> (\<forall>c\<in>set rem. placed_ok lm' c)
         \<and> dom (map_of lm') = dom (map_of lm) \<union> cfg_worker_id ` set rem"
  using assms
proof (induction n arbitrary: lm rem)
  case (Suc n)
  show ?case
  proof (cases "rem = []")
    case True
    then show ?thesis using Suc.prems by (simp add: map_le_refl)
  next
    case False
    obtain l m r where lp: "level_pass lm rem = (l, m, r)" by (metis prod_cases3)
    have nostuck: "m \<or> r = []" and next_loop: "level_loop n l r = Inr lm'"
      using Suc.prems(4) False lp by (auto split: if_splits)
    have m: "m" using nostuck level_pass_idle [OF lp] False by auto
    have sub: "subseq r rem" by (rule level_pass_rest [OF lp])
    have d: "distinct (map cfg_worker_id r)"
      using sub Suc.prems(2) by (rule subseq_map_distinct)
    note mono = level_pass_mono [OF lp, rule_format, OF Suc.prems(2,3)]
    have "length r < n" using level_pass_progress [OF lp] m Suc.prems(1) by simp
    from Suc.IH [OF this d _ next_loop] mono
    have IH: "map_of l \<subseteq>\<^sub>m map_of lm'" "\<forall>c\<in>set r. placed_ok lm' c"
      "dom (map_of lm') = dom (map_of l) \<union> cfg_worker_id ` set r" by auto
    have "\<forall>c\<in>set rem. placed_ok lm' c"
      using mono IH(1,2) placed_ok_mono by blast
    moreover have "map_of lm \<subseteq>\<^sub>m map_of lm'" using mono IH(1) map_le_trans by blast
    ultimately show ?thesis using IH(3) level_pass_dom [OF lp] by simp
  qed
qed simp

lemma no_source_cyclic:
  assumes "finite A" and "A \<noteq> {}" and "\<forall>x\<in>A. \<exists>y\<in>A. (y, x) \<in> r"
  shows "\<not> acyclic r"
proof
  assume "acyclic r"
  then have "acyclic (r \<inter> A \<times> A)" by (rule acyclic_subset) auto
  moreover have "finite (r \<inter> A \<times> A)" using assms(1) by simp
  ultimately have "wf (r \<inter> A \<times> A)" by (rule finite_acyclic_wf [rotated])
  then obtain z where "z \<in> A" "\<forall>y. (y, z) \<in> r \<inter> A \<times> A \<longrightarrow> y \<notin> A"
    using assms(2) by (metis wf_eq_minimal ex_in_conv)
  then show False using assms(3) by blast
qed

lemma level_loop_stuck:
  assumes "length rem < n" and "level_loop n lm rem = Inl e"
    and "\<forall>c\<in>set rem. \<forall>d\<in>set (cfg_depends_on c). map_of lm d \<noteq> None \<or> d \<in> cfg_worker_id ` set rem"
  shows "\<not> acyclic (dep_rel rem)"
  using assms
proof (induction n arbitrary: lm rem)
  case (Suc n)
  have ne: "rem \<noteq> []" using Suc.prems(2) by auto
  obtain l m r where lp: "level_pass lm rem = (l, m, r)" by (metis prod_cases3)
  show ?case
  proof (cases "m")
    case False
    note idle = level_pass_idle [OF lp, rule_format, OF False]
    have "\<forall>w\<in>cfg_worker_id ` set rem. \<exists>d\<in>cfg_worker_id ` set rem. (d, w) \<in> dep_rel rem"
    proof
      fix w assume "w \<in> cfg_worker_id ` set rem"
      then obtain c where c: "c \<in> set rem" "w = cfg_worker_id c" by auto
      then obtain d where d: "d \<in> set (cfg_depends_on c)" "map_of lm d = None"
        using idle by (auto simp: placeable_def list_all_iff)
      then have "d \<in> cfg_worker_id ` set rem" using c(1) Suc.prems(3) by blast
      moreover have "(d, w) \<in> dep_rel rem" using c d(1) by (auto simp: dep_rel_def)
      ultimately show "\<exists>d\<in>cfg_worker_id ` set rem. (d, w) \<in> dep_rel rem" by blast
    qed
    then show ?thesis using no_source_cyclic [of "cfg_worker_id ` set rem"] ne by auto
  next
    case True
    then have nl: "level_loop n l r = Inl e" using Suc.prems(2) ne lp by auto
    have sub: "set r \<subseteq> set rem" using level_pass_rest [OF lp] by (metis subseq_subset)
    have "length r < n" using level_pass_progress [OF lp] True Suc.prems(1) by simp
    moreover have "\<forall>c\<in>set r. \<forall>d\<in>set (cfg_depends_on c). map_of l d \<noteq> None \<or> d \<in> cfg_worker_id ` set r"
    proof (intro ballI)
      fix c d assume "c \<in> set r" "d \<in> set (cfg_depends_on c)"
      then have "d \<in> dom (map_of lm) \<union> cfg_worker_id ` set rem"
        using Suc.prems(3) sub by auto
      then have "d \<in> dom (map_of l) \<union> cfg_worker_id ` set r"
        by (simp add: level_pass_dom [OF lp])
      then show "map_of l d \<noteq> None \<or> d \<in> cfg_worker_id ` set r" by auto
    qed
    ultimately have "\<not> acyclic (dep_rel r)" using Suc.IH nl by blast
    moreover have "dep_rel r \<subseteq> dep_rel rem" using sub by (auto simp: dep_rel_def)
    ultimately show ?thesis using acyclic_subset by blast
  qed
qed simp

lemma bucket_workers_ok:
  assumes "\<forall>c\<in>set cs. \<exists>l<length levels. map_of lm (cfg_worker_id c) = Some l"
  shows "\<exists>ls. bucket_workers lm cs levels = Inr ls \<and> length ls = length levels
     \<and> (\<forall>i<length levels. ls ! i
          = levels ! i @ filter (\<lambda>c. map_of lm (cfg_worker_id c) = Some i) cs)"
  using assms
proof (induction cs arbitrary: levels)
  case (Cons c cs)
  obtain l where l: "l < length levels" "map_of lm (cfg_worker_id c) = Some l"
    using Cons.prems by auto
  let ?lv = "levels[l := levels ! l @ [c]]"
  have "\<forall>c\<in>set cs. \<exists>l<length ?lv. map_of lm (cfg_worker_id c) = Some l" using Cons.prems by simp
  from Cons.IH [OF this] obtain ls where ls: "bucket_workers lm cs ?lv = Inr ls"
      "length ls = length ?lv"
      "\<forall>i<length ?lv. ls ! i = ?lv ! i @ filter (\<lambda>c. map_of lm (cfg_worker_id c) = Some i) cs"
    by blast
  then show ?case using l by (auto simp: nth_list_update)
qed simp

lemma bucket_workers_fresh:
  assumes "\<forall>c\<in>set cs. \<exists>l<n. map_of lm (cfg_worker_id c) = Some l"
  shows "\<exists>ls. bucket_workers lm cs (replicate n []) = Inr ls \<and> length ls = n
     \<and> (\<forall>i<n. ls ! i = filter (\<lambda>c. map_of lm (cfg_worker_id c) = Some i) cs)"
  using bucket_workers_ok [of cs "replicate n []" lm] assms by auto

lemma placed_level_le_max:
  assumes "placed_ok lm c"
  shows "\<exists>l<max_level lm + 1. map_of lm (cfg_worker_id c) = Some l"
proof -
  obtain l where l: "map_of lm (cfg_worker_id c) = Some l"
    using assms by (auto simp: placed_ok_def)
  then have "l \<in> snd ` set lm" by (force dest: map_of_SomeD)
  then have "l \<le> max_level lm" by (auto simp: max_level_def)
  with l show ?thesis by simp
qed

text \<open>What a successful run knows about its level map.\<close>

lemma group_by_level_Inr:
  assumes "distinct (map cfg_worker_id cs)" and "cs \<noteq> []" and "group_by_level cs = Inr ls"
  obtains lm where "\<forall>c\<in>set cs. placed_ok lm c"
    and "dom (map_of lm) = cfg_worker_id ` set cs"
    and "\<forall>c\<in>set cs. the (map_of lm (cfg_worker_id c)) < length ls"
    and "\<forall>i<length ls. ls ! i = filter (\<lambda>c. the (map_of lm (cfg_worker_id c)) = i) cs"
proof -
  from assms obtain lm where lm: "level_loop (length cs + 1) [] cs = Inr lm"
    and b: "bucket_workers lm cs (replicate (max_level lm + 1) []) = Inr ls"
    by (auto simp: group_by_level_def Let_def split: option.splits sum.splits)
  have placed: "\<forall>c\<in>set cs. placed_ok lm c" and dm: "dom (map_of lm) = cfg_worker_id ` set cs"
    using level_loop_ok [OF _ assms(1) _ lm] by auto
  have len: "length ls = max_level lm + 1"
    and nth: "\<forall>i<length ls. ls ! i = filter (\<lambda>c. map_of lm (cfg_worker_id c) = Some i) cs"
    using bucket_workers_fresh [of cs "max_level lm + 1" lm] b placed placed_level_le_max
    by auto
  have "filter (\<lambda>c. map_of lm (cfg_worker_id c) = Some i) cs
      = filter (\<lambda>c. the (map_of lm (cfg_worker_id c)) = i) cs" for i
    using placed by (intro filter_cong) (auto simp: placed_ok_def)
  moreover have "\<forall>c\<in>set cs. the (map_of lm (cfg_worker_id c)) < length ls"
    using placed placed_level_le_max len by fastforce
  ultimately show ?thesis using that [OF placed dm] nth by simp
qed

lemma placed_ok_edge:
  assumes "placed_ok lm c" and "d \<in> set (cfg_depends_on c)"
  shows "the (map_of lm d) < the (map_of lm (cfg_worker_id c))"
proof -
  have "the (map_of lm d) \<le> deepest_dep lm (cfg_depends_on c)"
    using assms(2) by (simp add: deepest_dep_def)
  then show ?thesis using assms by (auto simp: placed_ok_def wanted_level_def)
qed

lemma levels_acyclic:
  assumes "\<forall>c\<in>set cs. placed_ok lm c"
  shows "acyclic (dep_rel cs)"
proof (rule acyclicI_order [where f = "\<lambda>w. - int (the (map_of lm w))"])
  fix a b assume "(a, b) \<in> dep_rel cs"
  then show "- int (the (map_of lm b)) < - int (the (map_of lm a))"
    using assms placed_ok_edge by (auto simp: dep_rel_def)
qed

lemma group_by_level_total:
  assumes "distinct (map cfg_worker_id cs)" and "deps_known cs" and "acyclic (dep_rel cs)"
  shows "\<exists>ls. group_by_level cs = Inr ls"
proof (cases "cs = []")
  case False
  have "\<nexists>e. level_loop (length cs + 1) [] cs = Inl e"
    using level_loop_stuck [of cs "length cs + 1" "[]"] assms(2,3)
    by (fastforce simp: deps_known_def list_all_iff)
  then obtain lm where lm: "level_loop (length cs + 1) [] cs = Inr lm"
    by (metis obj_sumE)
  have placed: "\<forall>c\<in>set cs. placed_ok lm c" using level_loop_ok [OF _ assms(1) _ lm] by auto
  have "\<forall>c\<in>set cs. \<exists>l < max_level lm + 1. map_of lm (cfg_worker_id c) = Some l"
    using placed placed_level_le_max by blast
  from bucket_workers_fresh [OF this] obtain ls where
    "bucket_workers lm cs (replicate (max_level lm + 1) []) = Inr ls" by blast
  moreover have "unknown_dep (map cfg_worker_id cs) cs = None"
    using assms(2) by (simp add: unknown_dep_None deps_known_def list_all_iff)
  ultimately show ?thesis
    using False lm by (simp only: group_by_level_def Let_def if_False option.case sum.case) blast
qed (simp add: group_by_level_def)

lemma group_by_level_known:
  assumes "group_by_level cs = Inr ls"
  shows "deps_known cs"
  using assms by (cases "cs = []")
    (auto simp: group_by_level_def deps_known_def list_all_iff unknown_dep_None split: option.splits)

text \<open>
  \<open>group_by_level\<close> accepts a list of workers with distinct ids exactly when every
  dependency names a listed worker and the dependency graph has no cycle.
\<close>

theorem group_by_level_accepts:
  assumes "distinct (map cfg_worker_id cs)"
  shows "(\<exists>ls. group_by_level cs = Inr ls) \<longleftrightarrow> deps_known cs \<and> acyclic (dep_rel cs)"
proof
  assume "\<exists>ls. group_by_level cs = Inr ls"
  then obtain ls where ls: "group_by_level cs = Inr ls" by blast
  show "deps_known cs \<and> acyclic (dep_rel cs)"
  proof (cases "cs = []")
    case True
    then show ?thesis by (simp add: deps_known_def dep_rel_def acyclic_def)
  next
    case False
    then show ?thesis
      using group_by_level_Inr [OF assms False ls] levels_acyclic group_by_level_known [OF ls]
      by metis
  qed
next
  assume "deps_known cs \<and> acyclic (dep_rel cs)"
  then show "\<exists>ls. group_by_level cs = Inr ls" using group_by_level_total [OF assms] by blast
qed

definition demo_worker :: "string \<Rightarrow> string list \<Rightarrow> worker_config" where
  "demo_worker w deps =
     \<lparr>cfg_worker_id = w, cfg_task = ''t'', cfg_system_prompt = [], cfg_tools = [],
      cfg_depends_on = deps, cfg_context = [], cfg_llm_timeout = 120, cfg_recursion_limit = 15,
      cfg_max_retries = 2, cfg_retry_delay = 2\<rparr>"

definition demo_graph :: "worker_config list" where
  "demo_graph =
     [demo_worker ''c'' [''b'', ''a''], demo_worker ''a'' [], demo_worker ''b'' [''a'']]"

lemma demo_graph_levels:
  "group_by_level demo_graph
     = Inr [[demo_worker ''a'' []], [demo_worker ''b'' [''a'']],
            [demo_worker ''c'' [''b'', ''a'']]]"
  by (simp add: group_by_level_def demo_graph_def demo_worker_def max_level_def deepest_dep_def
      eval_nat_numeral)

lemma demo_graph_distinct: "distinct (map cfg_worker_id demo_graph)"
  by (simp add: demo_graph_def demo_worker_def)

lemma group_by_level_accepts_witness:
  "deps_known demo_graph \<and> acyclic (dep_rel demo_graph)"
  using group_by_level_accepts [OF demo_graph_distinct] demo_graph_levels by blast

text \<open>
  C34. When \<open>group_by_level\<close> succeeds on distinct ids, the levels hold exactly the given
  workers, each level keeps the input order, and a worker's level is 0 when it has no
  dependency and otherwise one more than the deepest level of its dependencies, every one
  of which sits in an earlier level.
\<close>

theorem group_by_level_levels:
  assumes "distinct (map cfg_worker_id cs)" and "group_by_level cs = Inr ls"
  shows "mset (concat ls) = mset cs
    \<and> (\<forall>i<length ls. subseq (ls ! i) cs
        \<and> (\<forall>c\<in>set (ls ! i).
             (if cfg_depends_on c = [] then i = 0
              else i = Suc (Max {j. j < length ls
                     \<and> (\<exists>d\<in>set (ls ! j). cfg_worker_id d \<in> set (cfg_depends_on c))}))
             \<and> (\<forall>w\<in>set (cfg_depends_on c). \<exists>j<i. w \<in> cfg_worker_id ` set (ls ! j))))"
proof (cases "cs = []")
  case True
  then show ?thesis using assms(2) by (simp add: group_by_level_def)
next
  case False
  obtain lm where placed: "\<forall>c\<in>set cs. placed_ok lm c"
    and dm: "dom (map_of lm) = cfg_worker_id ` set cs"
    and bnd: "\<forall>c\<in>set cs. the (map_of lm (cfg_worker_id c)) < length ls"
    and nth: "\<forall>i<length ls. ls ! i = filter (\<lambda>c. the (map_of lm (cfg_worker_id c)) = i) cs"
    using group_by_level_Inr [OF assms(1) False assms(2)] by blast
  let ?lvl = "\<lambda>c. the (map_of lm (cfg_worker_id c))"
  have "ls = map (\<lambda>i. filter (\<lambda>c. ?lvl c = i) cs) [0..<length ls]"
    using nth by (intro nth_equalityI) auto
  then have "mset (concat ls) = mset cs" using mset_buckets [OF bnd] by metis
  moreover have "subseq (ls ! i) cs" if "i < length ls" for i
    using nth that by (simp add: subseq_filter_left)
  moreover have "(if cfg_depends_on c = [] then i = 0
       else i = Suc (Max {j. j < length ls
              \<and> (\<exists>d\<in>set (ls ! j). cfg_worker_id d \<in> set (cfg_depends_on c))}))
     \<and> (\<forall>w\<in>set (cfg_depends_on c). \<exists>j<i. w \<in> cfg_worker_id ` set (ls ! j))"
    if i: "i < length ls" and c: "c \<in> set (ls ! i)" for i c
  proof -
    have cs: "c \<in> set cs" "?lvl c = i" using nth i c by auto
    note ok = bspec [OF placed cs(1)]
    have dep: "\<exists>e\<in>set cs. cfg_worker_id e = w \<and> ?lvl e < i \<and> e \<in> set (ls ! ?lvl e)"
      if w: "w \<in> set (cfg_depends_on c)" for w
    proof -
      have "w \<in> dom (map_of lm)" using ok w by (auto simp: placed_ok_def list_all_iff)
      then obtain e where e: "e \<in> set cs" "cfg_worker_id e = w" using dm by auto
      then show ?thesis using placed_ok_edge [OF ok w] cs(2) nth bnd by auto
    qed
    have "{j. j < length ls \<and> (\<exists>d\<in>set (ls ! j). cfg_worker_id d \<in> set (cfg_depends_on c))}
        = set (map (\<lambda>d. the (map_of lm d)) (cfg_depends_on c))"
    proof (intro set_eqI iffI)
      fix j assume "j \<in> set (map (\<lambda>d. the (map_of lm d)) (cfg_depends_on c))"
      then show "j \<in> {j. j < length ls
          \<and> (\<exists>d\<in>set (ls ! j). cfg_worker_id d \<in> set (cfg_depends_on c))}"
        using dep bnd by fastforce
    qed (use nth in auto)
    then have "cfg_depends_on c \<noteq> [] \<Longrightarrow> i = Suc (Max {j. j < length ls
              \<and> (\<exists>d\<in>set (ls ! j). cfg_worker_id d \<in> set (cfg_depends_on c))})"
      using ok cs(2) by (auto simp: placed_ok_def wanted_level_def deepest_dep_def)
    moreover have "cfg_depends_on c = [] \<Longrightarrow> i = 0"
      using ok cs(2) by (simp add: placed_ok_def wanted_level_def)
    moreover have "\<forall>w\<in>set (cfg_depends_on c). \<exists>j<i. w \<in> cfg_worker_id ` set (ls ! j)"
      using dep by blast
    ultimately show ?thesis
      by (cases "cfg_depends_on c = []") (simp_all only: simp_thms if_True if_False)
  qed
  ultimately show ?thesis by simp
qed

lemma group_by_level_levels_witness:
  "\<exists>ls. group_by_level demo_graph = Inr ls \<and> mset (concat ls) = mset demo_graph"
  using group_by_level_levels [OF demo_graph_distinct demo_graph_levels, THEN conjunct1]
    demo_graph_levels by (intro exI conjI)

end
