(* ===== verification/Topo_Sort.thy ===== *)
theory Topo_Sort
  imports Worker_Dag
begin

text \<open>
  The execution order of the sequential patterns: \<open>topological_sort\<close> of
  \<open>src/agloom/patterns/_sequential.py\<close>, Kahn's algorithm over two dictionaries (the number of
  dependencies still open, the workers that wait for a worker) and a queue.

  The lemmas show that every popped worker lowers a measure, so the loop ends; that on distinct
  ids the result is a permutation of the workers with every dependency before its dependents;
  and that the function accepts exactly what \<open>group_by_level\<close> accepts.
\<close>

section \<open>The algorithm\<close>

type_synonym degrees = "int pydict"
type_synonym waiting = "string list pydict"

definition cycle_error :: "string list \<Rightarrow> pyerror" where
  "cycle_error ids = ValueError (''Circular dependency detected among workers: '' @ py_repr_strs ids)"

definition id_map :: "worker_config list \<Rightarrow> worker_config pydict" where
  "id_map cs = fold (\<lambda>c m. AList.update (cfg_worker_id c) c m) cs []"

text \<open>The double loop over the workers and their dependencies.\<close>

fun link_deps ::
    "string list \<Rightarrow> string \<Rightarrow> string list \<Rightarrow> degrees \<times> waiting \<Rightarrow> pyerror + degrees \<times> waiting" where
  "link_deps ids w [] g = Inr g"
| "link_deps ids w (d # ds) (ind, ch) =
     (if d \<notin> set ids
      then Inl (ValueError (''Worker '' @ py_quote w @ '' depends on unknown worker '' @ py_quote d @ ''.''))
      else case (map_of ch d, map_of ind w) of
             (Some ks, Some v) \<Rightarrow> link_deps ids w ds (AList.update w (v + 1) ind, AList.update d (ks @ [w]) ch)
           | (None, _) \<Rightarrow> Inl (KeyError d)
           | (_, None) \<Rightarrow> Inl (KeyError w))"

fun link_all :: "string list \<Rightarrow> worker_config list \<Rightarrow> degrees \<times> waiting \<Rightarrow> pyerror + degrees \<times> waiting" where
  "link_all ids [] g = Inr g"
| "link_all ids (c # cs) g =
     (case link_deps ids (cfg_worker_id c) (cfg_depends_on c) g of
        Inl e \<Rightarrow> Inl e
      | Inr g1 \<Rightarrow> link_all ids cs g1)"

text \<open>The loop over the workers that wait for the popped one.\<close>

fun relax :: "string list \<Rightarrow> degrees \<Rightarrow> string list \<Rightarrow> pyerror + degrees \<times> string list" where
  "relax [] ind q = Inr (ind, q)"
| "relax (k # ks) ind q =
     (case map_of ind k of
        None \<Rightarrow> Inl (KeyError k)
      | Some v \<Rightarrow> relax ks (AList.update k (v - 1) ind) (if v - 1 = 0 then q @ [k] else q))"

text \<open>A worker enters the queue when its count falls to zero, which happens once.\<close>

definition positive :: "degrees \<Rightarrow> nat" where
  "positive ind = card {k. \<exists>v. map_of ind k = Some v \<and> 0 < v}"

lemma finite_positive [simp]: "finite {k. \<exists>v. map_of ind k = Some v \<and> P v}"
  by (rule finite_subset [OF _ finite_dom_map_of [of ind]]) auto

lemma relax_measure:
  "relax ks ind q = Inr (ind', q') \<Longrightarrow> length q' + positive ind' \<le> length q + positive ind"
proof (induction ks arbitrary: ind q)
  case (Cons k ks)
  then obtain v where v: "map_of ind k = Some v"
    and r: "relax ks (AList.update k (v - 1) ind) (if v - 1 = 0 then q @ [k] else q) = Inr (ind', q')"
    by (auto split: option.splits)
  let ?A = "{j. \<exists>w. map_of ind j = Some w \<and> 0 < w}"
  let ?B = "{j. \<exists>w. map_of (AList.update k (v - 1) ind) j = Some w \<and> 0 < w}"
  have "card ?B + (if v - 1 = 0 then 1 else 0) \<le> card ?A"
  proof (cases "v = 1")
    case True
    then have "?B \<subseteq> ?A" "k \<in> ?A" "k \<notin> ?B" using v by (auto simp: update_conv' split: if_splits)
    then have "card ?B < card ?A" by (intro psubset_card_mono) auto
    then show ?thesis using True by simp
  next
    case False
    then have "?B \<subseteq> ?A" using v by (auto simp: update_conv' split: if_splits)
    then show ?thesis using False by (auto intro: card_mono)
  qed
  then show ?case using Cons.IH [OF r] by (auto simp: positive_def split: if_splits)
qed simp

function kahn ::
    "worker_config pydict \<Rightarrow> waiting \<Rightarrow> degrees \<Rightarrow> string list \<Rightarrow> worker_config list
       \<Rightarrow> pyerror + worker_config list" where
  "kahn im ch ind [] res = Inr res"
| "kahn im ch ind (n # q) res =
     (case (map_of im n, map_of ch n) of
        (Some c, Some ks) \<Rightarrow>
          (case relax ks ind q of
             Inl e \<Rightarrow> Inl e
           | Inr g \<Rightarrow> kahn im ch (fst g) (snd g) (res @ [c]))
      | _ \<Rightarrow> Inl (KeyError n))"
  by pat_completeness auto

termination
  by (relation "measure (\<lambda>(im, ch, ind, q, res). length q + positive ind)")
    (auto dest: relax_measure)

definition topological_sort :: "worker_config list \<Rightarrow> pyerror + worker_config list" where
  "topological_sort cs =
     (let ids = map cfg_worker_id cs;
          zeros = fold (\<lambda>w m. AList.update w 0 m) ids [];
          none1 = fold (\<lambda>w m. AList.update w [] m) ids []
      in case link_all ids cs (zeros, none1) of
           Inl e \<Rightarrow> Inl e
         | Inr (ind, ch) \<Rightarrow>
             (case kahn (id_map cs) ch ind (filter (\<lambda>w. map_of ind w = Some 0) ids) [] of
                Inl e \<Rightarrow> Inl e
              | Inr res \<Rightarrow>
                  if length res \<noteq> length cs
                  then Inl (cycle_error (filter (\<lambda>w. w \<notin> cfg_worker_id ` set res) ids))
                  else Inr res))"

section \<open>What the loops compute\<close>

lemma fold_update_same: "map_of (fold (\<lambda>w m. AList.update w x m) ids m0) k
    = (if k \<in> set ids then Some x else map_of m0 k)"
  by (induction ids arbitrary: m0) (auto simp: update_conv')

lemma fold_update_other:
  "k \<notin> f ` set cs \<Longrightarrow> map_of (fold (\<lambda>c m. AList.update (f c) c m) cs m0) k = map_of m0 k"
  by (induction cs arbitrary: m0) (auto simp: update_conv')

lemma fold_update_key:
  "distinct (map f cs) \<Longrightarrow> c \<in> set cs \<Longrightarrow>
     map_of (fold (\<lambda>c m. AList.update (f c) c m) cs m0) (f c) = Some c"
  by (induction cs arbitrary: m0) (auto simp: fold_update_other update_conv')

lemma relax_spec:
  assumes "set ks \<subseteq> dom (map_of ind)"
  shows "\<exists>ind' new. relax ks ind q = Inr (ind', q @ new)
    \<and> (\<forall>k. map_of ind' k = map_option (\<lambda>v. v - int (count_list ks k)) (map_of ind k))
    \<and> distinct new \<and> set new = {k. \<exists>v. map_of ind k = Some v \<and> 0 < v \<and> v \<le> int (count_list ks k)}"
  using assms
proof (induction ks arbitrary: ind q)
  case Nil
  then show ?case by (auto intro!: exI [of _ ind] exI [of _ "[]"] simp: option.map_ident)
next
  case (Cons k ks)
  then obtain v where v: "map_of ind k = Some v" by auto
  let ?ind = "AList.update k (v - 1) ind"
  have "set ks \<subseteq> dom (map_of ?ind)" using Cons.prems by (auto simp: update_conv')
  from Cons.IH [OF this] obtain ind' new where r: "relax ks ?ind (q @ (if v = 1 then [k] else []))
        = Inr (ind', (q @ (if v = 1 then [k] else [])) @ new)"
    and m: "\<forall>j. map_of ind' j = map_option (\<lambda>w. w - int (count_list ks j)) (map_of ?ind j)"
    and n: "distinct new"
      "set new = {j. \<exists>w. map_of ?ind j = Some w \<and> 0 < w \<and> w \<le> int (count_list ks j)}" by blast
  have kn: "k \<in> set new \<longleftrightarrow> 1 < v \<and> v - 1 \<le> int (count_list ks k)"
    using n(2) by (auto simp: update_conv')
  show ?case
  proof (intro exI conjI)
    show "relax (k # ks) ind q = Inr (ind', q @ ((if v = 1 then [k] else []) @ new))"
      using v r by (cases "v = 1") auto
    show "\<forall>j. map_of ind' j = map_option (\<lambda>w. w - int (count_list (k # ks) j)) (map_of ind j)"
    proof
      fix j show "map_of ind' j = map_option (\<lambda>w. w - int (count_list (k # ks) j)) (map_of ind j)"
        using m [rule_format, of j] v by (cases "j = k") (simp_all add: update_conv')
    qed
    show "distinct ((if v = 1 then [k] else []) @ new)" using n(1) kn by auto
    show "set ((if v = 1 then [k] else []) @ new)
        = {j. \<exists>w. map_of ind j = Some w \<and> 0 < w \<and> w \<le> int (count_list (k # ks) j)}"
    proof (rule set_eqI)
      fix j
      show "j \<in> set ((if v = 1 then [k] else []) @ new)
          \<longleftrightarrow> j \<in> {j. \<exists>w. map_of ind j = Some w \<and> 0 < w \<and> w \<le> int (count_list (k # ks) j)}"
      proof (cases "j = k")
        case True
        then show ?thesis using v kn by auto
      next
        case False
        then show ?thesis using n(2) by (simp add: update_conv')
      qed
    qed
  qed
qed


lemma link_deps_spec:
  assumes "set ds \<subseteq> set ids" "set ids \<subseteq> dom (map_of ind)" "set ids \<subseteq> dom (map_of ch)" "w \<in> set ids"
  shows "\<exists>ind' ch'. link_deps ids w ds (ind, ch) = Inr (ind', ch')
    \<and> (\<forall>k. map_of ind' k = map_option (\<lambda>v. v + (if k = w then int (length ds) else 0)) (map_of ind k))
    \<and> (\<forall>k. map_of ch' k = map_option (\<lambda>ks. ks @ replicate (count_list ds k) w) (map_of ch k))"
  using assms
proof (induction ds arbitrary: ind ch)
  case Nil
  then show ?case by (auto simp: option.map_ident)
next
  case (Cons d ds)
  obtain v ks where v: "map_of ind w = Some v" "map_of ch d = Some ks" "d \<in> set ids"
  proof -
    have "w \<in> dom (map_of ind)" "d \<in> dom (map_of ch)" "d \<in> set ids" using Cons.prems by auto
    then show ?thesis using that by blast
  qed
  have "set ids \<subseteq> dom (map_of (AList.update w (v + 1) ind))" "set ids \<subseteq> dom (map_of (AList.update d (ks @ [w]) ch))"
    using Cons.prems by (auto simp: update_conv')
  from Cons.IH [OF _ this Cons.prems(4)] Cons.prems(1) obtain ind' ch' where
    r: "link_deps ids w ds (AList.update w (v + 1) ind, AList.update d (ks @ [w]) ch) = Inr (ind', ch')"
      "\<forall>k. map_of ind' k = map_option (\<lambda>u. u + (if k = w then int (length ds) else 0))
         (map_of (AList.update w (v + 1) ind) k)"
      "\<forall>k. map_of ch' k = map_option (\<lambda>xs. xs @ replicate (count_list ds k) w)
         (map_of (AList.update d (ks @ [w]) ch) k)" by auto
  have "map_of ind' k = map_option (\<lambda>u. u + (if k = w then int (length (d # ds)) else 0)) (map_of ind k)" for k
    using r(2) [rule_format, of k] v(1) by (cases "k = w") (simp_all add: update_conv')
  moreover have "map_of ch' k = map_option (\<lambda>xs. xs @ replicate (count_list (d # ds) k) w) (map_of ch k)" for k
    using r(3) [rule_format, of k] v(2) by (cases "k = d") (simp_all add: update_conv')
  ultimately show ?case using r(1) v by auto
qed

lemma link_deps_known:
  "link_deps ids w ds g = Inr g' \<Longrightarrow> set ds \<subseteq> set ids"
  by (induction ids w ds g rule: link_deps.induct) (auto split: if_splits option.splits)

lemma link_all_known:
  "link_all ids cs g = Inr g' \<Longrightarrow> \<forall>c\<in>set cs. set (cfg_depends_on c) \<subseteq> set ids"
  by (induction ids cs g rule: link_all.induct) (auto dest: link_deps_known split: sum.splits)

text \<open>The edges that leave a worker, with their multiplicity, and the size of a dependency list.\<close>

definition waits_for :: "worker_config list \<Rightarrow> string \<Rightarrow> string list" where
  "waits_for cs d = concat (map (\<lambda>c. replicate (count_list (cfg_depends_on c) d) (cfg_worker_id c)) cs)"

definition open_deps :: "worker_config list \<Rightarrow> string \<Rightarrow> int" where
  "open_deps cs w = (\<Sum>c\<leftarrow>cs. if cfg_worker_id c = w then int (length (cfg_depends_on c)) else 0)"

lemma link_all_spec:
  assumes "\<forall>c\<in>set cs. set (cfg_depends_on c) \<subseteq> set ids \<and> cfg_worker_id c \<in> set ids"
    and "set ids \<subseteq> dom (map_of ind)" "set ids \<subseteq> dom (map_of ch)"
  shows "\<exists>ind' ch'. link_all ids cs (ind, ch) = Inr (ind', ch')
    \<and> (\<forall>k. map_of ind' k = map_option (\<lambda>v. v + open_deps cs k) (map_of ind k))
    \<and> (\<forall>k. map_of ch' k = map_option (\<lambda>ks. ks @ waits_for cs k) (map_of ch k))"
  using assms
proof (induction cs arbitrary: ind ch)
  case Nil
  then show ?case by (auto simp: option.map_ident open_deps_def waits_for_def)
next
  case (Cons c cs)
  from link_deps_spec [of "cfg_depends_on c" ids ind ch "cfg_worker_id c"] Cons.prems obtain i1 c1 where
    one: "link_deps ids (cfg_worker_id c) (cfg_depends_on c) (ind, ch) = Inr (i1, c1)"
      "\<And>k. map_of i1 k = map_option (\<lambda>v. v + (if k = cfg_worker_id c then int (length (cfg_depends_on c)) else 0))
         (map_of ind k)"
      "\<And>k. map_of c1 k = map_option (\<lambda>ks. ks @ replicate (count_list (cfg_depends_on c) k) (cfg_worker_id c))
         (map_of ch k)" by auto
  have "dom (map_of i1) = dom (map_of ind)" "dom (map_of c1) = dom (map_of ch)"
    by (simp_all add: one(2,3) dom_def)
  with Cons.IH [of i1 c1] Cons.prems obtain i2 c2 where
    two: "link_all ids cs (i1, c1) = Inr (i2, c2)"
      "\<And>k. map_of i2 k = map_option (\<lambda>v. v + open_deps cs k) (map_of i1 k)"
      "\<And>k. map_of c2 k = map_option (\<lambda>ks. ks @ waits_for cs k) (map_of c1 k)" by auto
  have "link_all ids (c # cs) (ind, ch) = Inr (i2, c2)" using one(1) two(1) by simp
  moreover have "map_of i2 k = map_option (\<lambda>v. v + open_deps (c # cs) k) (map_of ind k)" for k
    by (cases "map_of ind k") (simp_all add: one(2) two(2) open_deps_def)
  moreover have "map_of c2 k = map_option (\<lambda>ks. ks @ waits_for (c # cs) k) (map_of ch k)" for k
    by (simp add: one(3) two(3) option.map_comp comp_def waits_for_def)
  ultimately show ?case by blast
qed

lemma open_deps_none: "w \<notin> cfg_worker_id ` set cs \<Longrightarrow> open_deps cs w = 0"
  by (induction cs) (auto simp: open_deps_def)

lemma open_deps_at:
  assumes "distinct (map cfg_worker_id cs)" "c \<in> set cs"
  shows "open_deps cs (cfg_worker_id c) = int (length (cfg_depends_on c))"
  using assms
proof (induction cs)
  case (Cons a cs)
  have "open_deps (a # cs) w = (if cfg_worker_id a = w then int (length (cfg_depends_on a)) else 0) + open_deps cs w"
    for w by (simp add: open_deps_def)
  then show ?case using Cons open_deps_none [of "cfg_worker_id a" cs] by (cases "c = a") (auto simp: rev_image_eqI)
qed simp

lemma count_list_replicate: "count_list (replicate n x) y = (if x = y then n else 0)"
  by (induction n) auto

lemma waits_for_Cons:
  "waits_for (a # cs) d = replicate (count_list (cfg_depends_on a) d) (cfg_worker_id a) @ waits_for cs d"
  by (simp add: waits_for_def)

lemma waits_for_none: "w \<notin> cfg_worker_id ` set cs \<Longrightarrow> count_list (waits_for cs d) w = 0"
  by (induction cs) (auto simp: waits_for_def count_list_replicate)

lemma waits_for_count:
  assumes "distinct (map cfg_worker_id cs)" "c \<in> set cs"
  shows "count_list (waits_for cs d) (cfg_worker_id c) = count_list (cfg_depends_on c) d"
  using assms
proof (induction cs)
  case (Cons a cs)
  then show ?case using waits_for_none [of "cfg_worker_id a" cs d]
    by (cases "c = a") (auto simp: waits_for_Cons count_list_replicate rev_image_eqI)
qed simp

lemma waits_for_ids: "set (waits_for cs d) \<subseteq> cfg_worker_id ` set cs"
  by (auto simp: waits_for_def split: if_splits)


section \<open>The order\<close>

text \<open>Every dependency of a worker comes before it.\<close>

definition deps_before :: "worker_config list \<Rightarrow> bool" where
  "deps_before res \<longleftrightarrow>
     (\<forall>i<length res. set (cfg_depends_on (res ! i)) \<subseteq> cfg_worker_id ` set (take i res))"

lemma deps_before_snoc:
  "deps_before (xs @ [c]) \<longleftrightarrow> deps_before xs \<and> set (cfg_depends_on c) \<subseteq> cfg_worker_id ` set xs"
  by (auto simp: deps_before_def nth_append less_Suc_eq)

text \<open>
  The invariant of the loop: a worker has left or waits in the queue exactly when its
  dependencies have left, and its count is that of the dependencies that have not.
\<close>

definition kahn_inv :: "worker_config list \<Rightarrow> degrees \<Rightarrow> string list \<Rightarrow> worker_config list \<Rightarrow> bool" where
  "kahn_inv cs ind q res \<longleftrightarrow>
     distinct (map cfg_worker_id res @ q) \<and> set res \<subseteq> set cs \<and> set q \<subseteq> cfg_worker_id ` set cs
     \<and> deps_before res
     \<and> (\<forall>c\<in>set cs. map_of ind (cfg_worker_id c)
          = Some (int (length (filter (\<lambda>d. d \<notin> cfg_worker_id ` set res) (cfg_depends_on c)))))
     \<and> (\<forall>c\<in>set cs. cfg_worker_id c \<in> cfg_worker_id ` set res \<union> set q
          \<longleftrightarrow> set (cfg_depends_on c) \<subseteq> cfg_worker_id ` set res)"

lemma length_filter_split:
  assumes "n \<notin> P"
  shows "length (filter (\<lambda>d. d \<notin> P) xs)
    = length (filter (\<lambda>d. d \<notin> insert n P) xs) + count_list xs n"
  using assms by (induction xs) auto

lemma kahn_inv_step:
  assumes dist: "distinct (map cfg_worker_id cs)" and inv: "kahn_inv cs ind (cfg_worker_id c # q) res"
    and c: "c \<in> set cs"
    and ind': "\<forall>k. map_of ind' k
      = map_option (\<lambda>v. v - int (count_list (waits_for cs (cfg_worker_id c)) k)) (map_of ind k)"
    and new: "distinct new" "set new
      = {k. \<exists>v. map_of ind k = Some v \<and> 0 < v \<and> v \<le> int (count_list (waits_for cs (cfg_worker_id c)) k)}"
    and dom: "set new \<subseteq> cfg_worker_id ` set cs"
  shows "kahn_inv cs ind' (q @ new) (res @ [c])"
proof -
  let ?n = "cfg_worker_id c" and ?P = "cfg_worker_id ` set res"
  let ?left = "\<lambda>a. length (filter (\<lambda>d. d \<notin> ?P) (cfg_depends_on a))"
  let ?left' = "\<lambda>a. length (filter (\<lambda>d. d \<notin> insert ?n ?P) (cfg_depends_on a))"
  have n: "?n \<notin> ?P" using inv by (auto simp: kahn_inv_def)
  have split: "?left a = ?left' a + count_list (cfg_depends_on a) ?n" for a
    by (rule length_filter_split [OF n])
  have deg: "map_of ind (cfg_worker_id a) = Some (int (?left a))" if "a \<in> set cs" for a
    using inv that by (simp add: kahn_inv_def)
  have iff: "cfg_worker_id a \<in> ?P \<union> insert ?n (set q) \<longleftrightarrow> set (cfg_depends_on a) \<subseteq> ?P" if "a \<in> set cs" for a
    using inv that by (simp add: kahn_inv_def)
  have fresh: "cfg_worker_id a \<in> set new \<longleftrightarrow> \<not> set (cfg_depends_on a) \<subseteq> ?P
      \<and> set (cfg_depends_on a) \<subseteq> insert ?n ?P" if a: "a \<in> set cs" for a
  proof -
    have "cfg_worker_id a \<in> set new \<longleftrightarrow> 0 < ?left a \<and> ?left' a = 0"
      using deg [OF a] waits_for_count [OF dist a] split [of a] by (auto simp: new(2))
    then show ?thesis by (auto simp: filter_empty_conv length_greater_0_conv)
  qed
  have ids: "\<exists>a\<in>set cs. w = cfg_worker_id a" if "w \<in> ?P \<union> set (?n # q) \<union> set new" for w
    using that inv c dom by (auto simp: kahn_inv_def)
  have "distinct (map cfg_worker_id (res @ [c]) @ q @ new)"
  proof -
    have "w \<notin> ?P \<union> insert ?n (set q)" if w: "w \<in> set new" for w
    proof -
      obtain a where "a \<in> set cs" "w = cfg_worker_id a" using ids w by blast
      then show ?thesis using fresh iff w by metis
    qed
    then show ?thesis using inv new(1) by (auto simp: kahn_inv_def)
  qed
  moreover have "deps_before (res @ [c])"
    using inv iff [OF c] by (simp add: deps_before_snoc kahn_inv_def)
  moreover have "map_of ind' (cfg_worker_id a) = Some (int (?left' a))" if a: "a \<in> set cs" for a
    using ind' deg [OF a] waits_for_count [OF dist a] split [of a] by simp
  moreover have "cfg_worker_id a \<in> insert ?n ?P \<union> set (q @ new)
      \<longleftrightarrow> set (cfg_depends_on a) \<subseteq> insert ?n ?P" if a: "a \<in> set cs" for a
    using iff [OF a] fresh [OF a] by auto
  ultimately show ?thesis
    using inv c dom by (auto simp: kahn_inv_def)
qed

lemma kahn_ok:
  assumes "distinct (map cfg_worker_id cs)" and "kahn_inv cs ind q res"
    and "\<forall>c\<in>set cs. map_of im (cfg_worker_id c) = Some c"
    and "\<forall>c\<in>set cs. map_of ch (cfg_worker_id c) = Some (waits_for cs (cfg_worker_id c))"
    and "dom (map_of ind) = cfg_worker_id ` set cs"
  shows "\<exists>ind' res'. kahn im ch ind q res = Inr res' \<and> kahn_inv cs ind' [] res'"
  using assms(2,5)
proof (induction "length q + positive ind" arbitrary: ind q res rule: less_induct)
  case less
  show ?case
  proof (cases q)
    case (Cons n q1)
    then obtain c where c: "c \<in> set cs" "n = cfg_worker_id c" using less.prems by (auto simp: kahn_inv_def)
    have "set (waits_for cs n) \<subseteq> dom (map_of ind)" using less.prems(2) waits_for_ids by metis
    from relax_spec [OF this, of q1] obtain ind1 new where r: "relax (waits_for cs n) ind q1 = Inr (ind1, q1 @ new)"
      and i: "\<forall>k. map_of ind1 k = map_option (\<lambda>v. v - int (count_list (waits_for cs n) k)) (map_of ind k)"
      and n: "distinct new"
        "set new = {k. \<exists>v. map_of ind k = Some v \<and> 0 < v \<and> v \<le> int (count_list (waits_for cs n) k)}" by blast
    have "set new \<subseteq> cfg_worker_id ` set cs" using n(2) less.prems(2) by (auto simp: dom_def)
    then have inv: "kahn_inv cs ind1 (q1 @ new) (res @ [c])"
      using kahn_inv_step [OF assms(1)] less.prems(1) c i n Cons by blast
    have "dom (map_of ind1) = cfg_worker_id ` set cs" using i less.prems(2) by (simp add: dom_def)
    moreover have "length (q1 @ new) + positive ind1 < length q + positive ind"
      using relax_measure [OF r] Cons by simp
    ultimately have "\<exists>ind' res'. kahn im ch ind1 (q1 @ new) (res @ [c]) = Inr res' \<and> kahn_inv cs ind' [] res'"
      using less.hyps inv by blast
    then show ?thesis using Cons r c assms(3,4) by simp
  qed (use less.prems in auto)
qed


lemma topological_sort_run:
  assumes dist: "distinct (map cfg_worker_id cs)" and known: "deps_known cs"
  shows "\<exists>ind res. kahn_inv cs ind [] res \<and> topological_sort cs
    = (if length res \<noteq> length cs
       then Inl (cycle_error (filter (\<lambda>w. w \<notin> cfg_worker_id ` set res) (map cfg_worker_id cs))) else Inr res)"
proof -
  let ?ids = "map cfg_worker_id cs"
  let ?zeros = "fold (\<lambda>w m. AList.update w (0::int) m) ?ids []"
  let ?none = "fold (\<lambda>w m. AList.update w ([]::string list) m) ?ids []"
  have "\<forall>c\<in>set cs. set (cfg_depends_on c) \<subseteq> set ?ids \<and> cfg_worker_id c \<in> set ?ids"
    using known by (auto simp: deps_known_def list_all_iff)
  moreover have "set ?ids \<subseteq> dom (map_of ?zeros)" "set ?ids \<subseteq> dom (map_of ?none)"
    by (auto simp: fold_update_same)
  ultimately obtain ind ch where g: "link_all ?ids cs (?zeros, ?none) = Inr (ind, ch)"
    and ind: "\<And>k. map_of ind k = map_option (\<lambda>v. v + open_deps cs k) (map_of ?zeros k)"
    and ch: "\<And>k. map_of ch k = map_option (\<lambda>ks. ks @ waits_for cs k) (map_of ?none k)"
    using link_all_spec [of cs ?ids ?zeros ?none] by blast
  have at: "map_of ind (cfg_worker_id c) = Some (int (length (cfg_depends_on c)))"
    "map_of ch (cfg_worker_id c) = Some (waits_for cs (cfg_worker_id c))" if "c \<in> set cs" for c
    using that open_deps_at [OF dist that] by (simp_all add: ind ch fold_update_same)
  let ?q = "filter (\<lambda>w. map_of ind w = Some 0) ?ids"
  have inv: "kahn_inv cs ind ?q []"
    using dist at by (auto simp: kahn_inv_def deps_before_def)
  have im: "\<forall>c\<in>set cs. map_of (id_map cs) (cfg_worker_id c) = Some c"
    using fold_update_key [OF dist] by (simp add: id_map_def)
  have dom: "dom (map_of ind) = cfg_worker_id ` set cs"
    by (auto simp: dom_def ind fold_update_same split: if_splits)
  obtain ind' res where "kahn (id_map cs) ch ind ?q [] = Inr res" "kahn_inv cs ind' [] res"
    using kahn_ok [OF dist inv im _ dom] at by blast
  then show ?thesis using g by (intro exI [of _ ind'] exI [of _ res]) (simp add: topological_sort_def Let_def)
qed

lemma deps_before_acyclic:
  assumes "deps_before res" and "distinct (map cfg_worker_id res)"
  shows "acyclic (dep_rel res)"
proof -
  let ?pos = "\<lambda>w. LEAST i. i < length res \<and> cfg_worker_id (res ! i) = w"
  have pos: "?pos (cfg_worker_id (res ! i)) = i" if "i < length res" for i
    using that assms(2) by (intro Least_equality) (auto simp: distinct_conv_nth dest: nat_neq_iff [THEN iffD1])
  show ?thesis
  proof (rule acyclicI_order [where f = "\<lambda>w. - int (?pos w)"])
    fix a b assume "(a, b) \<in> dep_rel res"
    then obtain i where i: "i < length res" "b = cfg_worker_id (res ! i)" "a \<in> set (cfg_depends_on (res ! i))"
      by (auto simp: dep_rel_def in_set_conv_nth)
    then have "a \<in> cfg_worker_id ` set (take i res)" using assms(1) by (auto simp: deps_before_def)
    then obtain j where "j < i" "a = cfg_worker_id (res ! j)"
      using i(1) by (auto simp: in_set_conv_nth)
    then have "?pos a < ?pos b" using i(1,2) pos [of i] pos [of j] by (simp only: order.strict_trans)
    then show "- int (?pos b) < - int (?pos a)" by linarith
  qed
qed

lemma kahn_complete:
  assumes dist: "distinct (map cfg_worker_id cs)" and known: "deps_known cs" and inv: "kahn_inv cs ind [] res"
  shows "length res = length cs \<longleftrightarrow> acyclic (dep_rel cs)" and "length res = length cs \<Longrightarrow> mset res = mset cs"
proof -
  have dres: "distinct (map cfg_worker_id res)" "set res \<subseteq> set cs" using inv by (auto simp: kahn_inv_def)
  then have ds: "distinct res" "distinct cs" using dist by (auto simp: distinct_map)
  have full: "length res = length cs \<longleftrightarrow> set res = set cs"
    using ds dres(2) by (metis card_subset_eq distinct_card finite_set)
  show "mset res = mset cs" if "length res = length cs"
    using that full ds by (simp add: set_eq_iff_mset_eq_distinct)
  show "length res = length cs \<longleftrightarrow> acyclic (dep_rel cs)"
  proof
    assume "length res = length cs"
    then have "dep_rel res = dep_rel cs" using full by (simp add: dep_rel_def)
    then show "acyclic (dep_rel cs)" using deps_before_acyclic dres(1) inv by (metis kahn_inv_def)
  next
    assume ac: "acyclic (dep_rel cs)"
    let ?A = "cfg_worker_id ` set cs - cfg_worker_id ` set res"
    have "\<forall>x\<in>?A. \<exists>y\<in>?A. (y, x) \<in> dep_rel cs"
    proof
      fix x assume "x \<in> ?A"
      then obtain c where c: "c \<in> set cs" "x = cfg_worker_id c" "x \<notin> cfg_worker_id ` set res" by blast
      then obtain d where "d \<in> set (cfg_depends_on c)" "d \<notin> cfg_worker_id ` set res"
        using inv by (auto simp: kahn_inv_def)
      then show "\<exists>y\<in>?A. (y, x) \<in> dep_rel cs"
        using c known by (intro bexI [of _ d]) (auto simp: dep_rel_def deps_known_def list_all_iff)
    qed
    then have "?A = {}" using no_source_cyclic [of ?A "dep_rel cs"] ac by auto
    then have "set cs \<subseteq> set res" using dist dres(2) by (auto simp: distinct_map inj_on_def)
    then show "length res = length cs" using full dres(2) by blast
  qed
qed

lemma topological_sort_ok:
  assumes dist: "distinct (map cfg_worker_id cs)" and known: "deps_known cs" and ac: "acyclic (dep_rel cs)"
  shows "\<exists>res. topological_sort cs = Inr res \<and> mset res = mset cs \<and> deps_before res"
proof -
  obtain ind res where inv: "kahn_inv cs ind [] res" and ts: "topological_sort cs
      = (if length res \<noteq> length cs
         then Inl (cycle_error (filter (\<lambda>w. w \<notin> cfg_worker_id ` set res) (map cfg_worker_id cs))) else Inr res)"
    using topological_sort_run [OF dist known] by blast
  have "length res = length cs" using kahn_complete(1) [OF dist known inv] ac by simp
  then show ?thesis
    using ts kahn_complete(2) [OF dist known inv] inv by (simp add: kahn_inv_def)
qed

text \<open>
  C11. On distinct worker ids, \<open>topological_sort\<close> succeeds exactly when every dependency is listed
  and the graph has no cycle, which is also when \<open>group_by_level\<close> succeeds; its result has the
  same workers, each one after all of its dependencies.
\<close>

theorem topological_sort_correct:
  assumes "distinct (map cfg_worker_id cs)"
  shows "((\<exists>res. topological_sort cs = Inr res) \<longleftrightarrow> deps_known cs \<and> acyclic (dep_rel cs))
    \<and> ((\<exists>res. topological_sort cs = Inr res) \<longleftrightarrow> (\<exists>ls. group_by_level cs = Inr ls))
    \<and> (\<forall>res. topological_sort cs = Inr res \<longrightarrow> mset res = mset cs \<and> deps_before res)"
proof -
  have known: "deps_known cs" if "topological_sort cs = Inr res" for res
    using that link_all_known by (fastforce simp: topological_sort_def Let_def deps_known_def list_all_iff
        split: sum.splits)
  have run: "((\<exists>res. topological_sort cs = Inr res) \<longleftrightarrow> acyclic (dep_rel cs))
      \<and> (\<forall>res. topological_sort cs = Inr res \<longrightarrow> mset res = mset cs \<and> deps_before res)" if k: "deps_known cs"
  proof -
    obtain ind res where inv: "kahn_inv cs ind [] res" and ts: "topological_sort cs
        = (if length res \<noteq> length cs
           then Inl (cycle_error (filter (\<lambda>w. w \<notin> cfg_worker_id ` set res) (map cfg_worker_id cs))) else Inr res)"
      using topological_sort_run [OF assms k] by blast
    show ?thesis
      using kahn_complete [OF assms k inv] inv unfolding ts by (auto simp: kahn_inv_def)
  qed
  have "(\<exists>ls. group_by_level cs = Inr ls) \<longleftrightarrow> deps_known cs \<and> acyclic (dep_rel cs)"
  proof (cases "cs = []")
    case False
    then show ?thesis
      using group_by_level_total [OF assms] group_by_level_known group_by_level_Inr [OF assms False] levels_acyclic
      by metis
  qed (simp add: group_by_level_def deps_known_def dep_rel_def acyclic_def)
  then show ?thesis using known run by blast
qed

lemma demo_graph_sorted:
  "topological_sort demo_graph = Inr [demo_worker ''a'' [], demo_worker ''b'' [''a''], demo_worker ''c'' [''b'', ''a'']]"
  by code_simp

theorem topological_sort_correct_witness:
  "acyclic (dep_rel demo_graph) \<and> deps_before [demo_worker ''a'' [], demo_worker ''b'' [''a''], demo_worker ''c'' [''b'', ''a'']]"
  using topological_sort_correct [OF demo_graph_distinct] demo_graph_sorted by blast

text \<open>
  With a repeated id the first of the two workers is lost and the last one runs twice: the count
  of the results is right, so no error is raised.
\<close>

lemma repeated_id_runs_last_twice:
  "topological_sort [demo_worker ''a'' [], (demo_worker ''a'' [])\<lparr>cfg_task := ''other''\<rparr>]
     = Inr [(demo_worker ''a'' [])\<lparr>cfg_task := ''other''\<rparr>, (demo_worker ''a'' [])\<lparr>cfg_task := ''other''\<rparr>]"
  by code_simp

end
