(* ===== verification/Orchestration.thy ===== *)
theory Orchestration
  imports Worker_Dag
begin

text \<open>
  Recursive pattern dispatch (\<open>src/agloom/orchestrator\<close> and the orchestration classes of
  \<open>src/agloom/src/models.py\<close>): the limits of a turn, the budget and cycle checks, the escalation
  rules, and \<open>dispatch_pattern\<close>, which runs the handler of a pattern and the patterns it spawns.

  A pattern handler is Python code outside this theory. Here it is a value of \<open>prog\<close>: it
  returns, raises, or spawns a pattern and goes on with what that run returned or raised, which
  is all that \<open>SpawnAPI\<close> lets it do to the orchestration. The LLM (classification, scores) is
  an argument. The recursion takes fuel, one unit for each level; \<open>dispatch_terminates\<close> gives
  the amount that is enough. Times and the identifiers of trace records are left out.
\<close>

section \<open>Data\<close>

datatype pattern_type =
    DIRECT | REACT | SUPERVISOR | PIPELINE | PLANNER_EXECUTOR | REFLECTION | SWARM | BLACKBOARD
  | HYBRID_DAG

fun pattern_value :: "pattern_type \<Rightarrow> string" where
  "pattern_value DIRECT = ''DIRECT''"
| "pattern_value REACT = ''REACT''"
| "pattern_value SUPERVISOR = ''SUPERVISOR''"
| "pattern_value PIPELINE = ''PIPELINE''"
| "pattern_value PLANNER_EXECUTOR = ''PLANNER_EXECUTOR''"
| "pattern_value REFLECTION = ''REFLECTION''"
| "pattern_value SWARM = ''SWARM''"
| "pattern_value BLACKBOARD = ''BLACKBOARD''"
| "pattern_value HYBRID_DAG = ''HYBRID_DAG''"

definition all_patterns :: "pattern_type list" where
  "all_patterns = [DIRECT, REACT, SUPERVISOR, PIPELINE, PLANNER_EXECUTOR, REFLECTION, SWARM,
     BLACKBOARD, HYBRID_DAG]"

record subtask =
  st_worker_id :: string
  st_task :: string
  st_tools :: "string list"
  st_depends_on :: "string list"
  st_system :: string
  st_context :: "string pydict"

record query_analysis =
  qa_pattern :: pattern_type
  qa_complexity :: int
  qa_reasoning :: string
  qa_subtasks :: "subtask list"
  qa_depth :: "int option"
  qa_token_budget :: "int option"
  qa_call_budget :: "int option"
  qa_escalation :: "bool option"

record spawn_instr =
  si_pattern :: pattern_type
  si_task :: string
  si_system :: string
  si_tools :: "string list"
  si_context :: "string pydict"
  si_worker :: string
  si_reason :: string
  si_reclassify :: bool

record orch_step =
  os_depth :: int
  os_pattern :: pattern_type
  os_worker :: string
  os_action :: string
  os_input :: string
  os_output :: string
  os_reason :: string
  os_usage :: "int pydict"
  os_error :: "string option"
  os_confidence :: "rat option"
  os_quality :: "rat option"

record spawn_record =
  sr_pattern :: pattern_type
  sr_hash :: string
  sr_worker :: string
  sr_parent :: "pattern_type option"
  sr_reason :: string
  sr_depth :: int

record turn_plan =
  tp_depth :: int
  tp_tokens :: int
  tp_calls :: int
  tp_escalation :: bool
  tp_source :: string

datatype orch_meta =
    Meta_str string
  | Meta_flag bool
  | Meta_trace "orch_step list"
  | Meta_plan turn_plan
  | Meta_val pyval

record exec_result =
  er_pattern :: pattern_type
  er_query :: string
  er_output :: string
  er_success :: bool
  er_error :: "string option"
  er_workers :: "worker_result list"
  er_steps_taken :: int
  er_steps :: "agent_step list"
  er_usage :: "int pydict"
  er_metadata :: "orch_meta pydict"
  er_failure_class :: "string option"
  er_retryable :: bool

record orch_context =
  oc_depth :: int
  oc_max_depth :: int
  oc_root :: string
  oc_active :: "pattern_type option"
  oc_parent :: "pattern_type option"
  oc_grandparent :: "pattern_type option"
  oc_worker :: "string option"
  oc_trace :: "orch_step list"
  oc_history :: "spawn_record list"
  oc_tokens :: int
  oc_max_tokens :: int
  oc_calls :: int
  oc_max_calls :: int
  oc_auto :: bool
  oc_source :: string
  oc_scores :: "(rat \<times> rat) list"
  oc_failures :: "(string \<times> string) list"

text \<open>The entries of the agent dictionary that the orchestrator reads.\<close>

record orch_agent =
  oa_max_depth :: int
  oa_max_tokens :: int
  oa_max_calls :: int
  oa_auto :: bool
  oa_from_classifier :: bool
  oa_rules :: "string list"
  oa_timeout :: rat
  oa_frozen :: bool
  oa_llm_eval :: bool
  oa_spawns :: bool
  oa_dynamic_nodes :: bool
  oa_strict :: bool
  oa_tools :: "string list"

section \<open>The limits of a turn\<close>

definition clamp_int :: "int \<Rightarrow> int \<Rightarrow> int" where
  "clamp_int v ceiling1 = (if ceiling1 \<le> 0 then max 0 v else max 0 (min v ceiling1))"

definition parse_optional_int :: "int option \<Rightarrow> int option" where
  "parse_optional_int raw = map_option (max 0) raw"

definition derive_orchestration_from_complexity :: "int \<Rightarrow> turn_plan" where
  "derive_orchestration_from_complexity c =
     (let p = \<lambda>d t n e. \<lparr>tp_depth = d, tp_tokens = t, tp_calls = n, tp_escalation = e,
                         tp_source = ''derived''\<rparr>
      in if c \<le> 2 then p 0 0 0 False
         else if c \<le> 4 then p 1 8000 15 False
         else if c \<le> 6 then p 2 20000 30 False
         else if c \<le> 8 then p 3 50000 50 True
         else p 4 100000 80 True)"

definition resolve_turn_orchestration :: "orch_agent \<Rightarrow> query_analysis option \<Rightarrow> turn_plan" where
  "resolve_turn_orchestration ag an =
     (let max_calls = (if oa_max_calls ag = 0 then 100 else oa_max_calls ag)
      in if oa_max_depth ag \<le> 0 then
           \<lparr>tp_depth = 0, tp_tokens = 0, tp_calls = 0, tp_escalation = False, tp_source = ''disabled''\<rparr>
         else case (if oa_from_classifier ag then an else None) of
           None \<Rightarrow> \<lparr>tp_depth = oa_max_depth ag, tp_tokens = oa_max_tokens ag, tp_calls = max_calls,
                    tp_escalation = oa_auto ag, tp_source = ''agent_static''\<rparr>
         | Some a \<Rightarrow>
             (let d = derive_orchestration_from_complexity (qa_complexity a);
                  pick = \<lambda>raw dflt ceil. clamp_int (case parse_optional_int raw of None \<Rightarrow> dflt | Some v \<Rightarrow> v) ceil;
                  depth = pick (qa_depth a) (tp_depth d) (oa_max_depth ag);
                  esc = (case qa_escalation a of None \<Rightarrow> tp_escalation d | Some b \<Rightarrow> b)
              in \<lparr>tp_depth = depth,
                  tp_tokens = pick (qa_token_budget a) (tp_tokens d) (oa_max_tokens ag),
                  tp_calls = pick (qa_call_budget a) (tp_calls d) max_calls,
                  tp_escalation = oa_auto ag \<and> esc \<and> 0 < depth,
                  tp_source = (if qa_depth a = None then tp_source d else ''classifier'')\<rparr>))"

definition orchestration_enabled :: "orch_agent \<Rightarrow> query_analysis option \<Rightarrow> bool" where
  "orchestration_enabled ag an \<longleftrightarrow> 0 < tp_depth (resolve_turn_orchestration ag an)"

definition fresh_orchestration_context ::
    "orch_agent \<Rightarrow> string \<Rightarrow> query_analysis option \<Rightarrow> orch_context" where
  "fresh_orchestration_context ag root_query an =
     (let p = resolve_turn_orchestration ag an
      in \<lparr>oc_depth = 0, oc_max_depth = tp_depth p, oc_root = root_query, oc_active = None, oc_parent = None,
          oc_grandparent = None, oc_worker = None, oc_trace = [], oc_history = [], oc_tokens = 0,
          oc_max_tokens = tp_tokens p, oc_calls = 0, oc_max_calls = tp_calls p,
          oc_auto = tp_escalation p, oc_source = tp_source p, oc_scores = [], oc_failures = []\<rparr>)"

section \<open>Checks\<close>

definition child_context :: "pattern_type \<Rightarrow> string \<Rightarrow> orch_context \<Rightarrow> orch_context" where
  "child_context active worker c =
     c\<lparr>oc_depth := oc_depth c + 1, oc_grandparent := oc_parent c, oc_parent := oc_active c,
       oc_active := Some active, oc_worker := (if worker = [] then oc_worker c else Some worker)\<rparr>"

definition check_budget :: "orch_context \<Rightarrow> pyerror option" where
  "check_budget c =
     (if 0 < oc_max_depth c \<and> oc_max_depth c \<le> oc_depth c then
        Some (BudgetExceeded (''Max depth '' @ py_str_int (oc_max_depth c) @ '' reached at depth ''
                @ py_str_int (oc_depth c)))
      else if 0 < oc_max_calls c \<and> oc_max_calls c \<le> oc_calls c then
        Some (BudgetExceeded (''Max LLM calls '' @ py_str_int (oc_max_calls c) @ '' reached''))
      else if 0 < oc_max_tokens c \<and> oc_max_tokens c \<le> oc_tokens c then
        Some (BudgetExceeded (''Max tokens '' @ py_str_int (oc_max_tokens c) @ '' reached''))
      else None)"

text \<open>The text that is hashed; \<open>sha256\<close> itself is an argument of the dispatcher.\<close>

definition normalized_task :: "string \<Rightarrow> string" where
  "normalized_task task = py_lower (py_strip (join_with '' '' (py_split task)))"

definition record_key :: "spawn_record \<Rightarrow> string \<times> string" where
  "record_key r = (pattern_value (sr_pattern r), sr_hash r)"

definition check_cycle :: "(spawn_record \<Rightarrow> string) \<Rightarrow> pattern_type \<Rightarrow> string \<Rightarrow> orch_context \<Rightarrow> pyerror option"
  where
  "check_cycle spawn_id p h c =
     (case filter (\<lambda>r. sr_depth r < oc_depth c \<and> record_key r = (pattern_value p, h)) (oc_history c) of
        r # _ \<Rightarrow> Some (CycleDetected (''Cycle detected: pattern='' @ pattern_value p @ '' at depth=''
                   @ py_str_int (oc_depth c) @ '' already executed at depth='' @ py_str_int (sr_depth r)
                   @ '' (spawn_id='' @ spawn_id r @ '')''))
      | [] \<Rightarrow>
          (let recent = filter (\<lambda>r. oc_depth c - 2 \<le> sr_depth r) (oc_history c);
               last3 = map record_key (drop (length recent - 3) recent)
           in if 3 \<le> length recent \<and> length (remdups last3) = 1
              then Some (CycleDetected (''Cycle detected: same pattern+task 3 times in last ''
                     @ digits (length recent) @ '' spawns''))
              else None))"

definition record_spawn :: "pattern_type \<Rightarrow> string \<Rightarrow> string \<Rightarrow> string \<Rightarrow> orch_context \<Rightarrow> orch_context" where
  "record_spawn p h worker reason c =
     c\<lparr>oc_history := oc_history c @
        [\<lparr>sr_pattern = p, sr_hash = h, sr_worker = worker, sr_parent = oc_parent c, sr_reason = reason,
          sr_depth = oc_depth c\<rparr>]\<rparr>"

definition record_step :: "orch_step \<Rightarrow> orch_context \<Rightarrow> orch_context" where
  "record_step s c = c\<lparr>oc_trace := oc_trace c @ [s]\<rparr>"

definition apply_timeout :: "orch_agent \<Rightarrow> orch_context \<Rightarrow> rat" where
  "apply_timeout ag c = max (oa_timeout ag * (8 / 10) ^ nat (oc_depth c)) 15"

section \<open>Usage\<close>

definition usage_count :: "int pydict \<Rightarrow> string \<Rightarrow> int" where
  "usage_count u k = (case map_of u k of None \<Rightarrow> 0 | Some v \<Rightarrow> v)"

definition apply_usage_to_context :: "int pydict \<Rightarrow> orch_context \<Rightarrow> orch_context" where
  "apply_usage_to_context u c =
     (if u = [] then c
      else let t = usage_count u ''total_tokens''
           in c\<lparr>oc_tokens := oc_tokens c + (if t = 0 then usage_count u ''input_tokens''
                                              + usage_count u ''output_tokens'' else t),
                oc_calls := oc_calls c + 1\<rparr>)"

definition merge_token_usage :: "int pydict \<Rightarrow> int pydict \<Rightarrow> int pydict" where
  "merge_token_usage base addition =
     fold (\<lambda>(k, v) m. AList.update k (usage_count m k + v) m) addition base"

section \<open>Evaluation and escalation\<close>

text \<open>What the LLM scores; a score that cannot be had is missing.\<close>

record eval_score =
  es_confidence :: rat
  es_quality :: rat
  es_conflicts :: bool
  es_incomplete :: bool
  es_failure :: bool
  es_suggested :: "string option"
  es_reason :: string

record evaluation =
  ev_confidence :: rat
  ev_quality :: rat
  ev_conflicts :: bool
  ev_incomplete :: bool
  ev_disagreement :: bool
  ev_failure :: bool
  ev_suggested :: "pattern_type option"
  ev_reason :: string

definition parse_suggested_pattern :: "string option \<Rightarrow> pattern_type option" where
  "parse_suggested_pattern raw =
     (case raw of
        None \<Rightarrow> None
      | Some s \<Rightarrow>
          if s = [] then None
          else let key = map (\<lambda>c. if c = CHR ''-'' then CHR ''_'' else py_upper_char c) (py_strip s)
               in find (\<lambda>p. pattern_value p = key) all_patterns)"

definition minimal_fallback_evaluation :: "exec_result \<Rightarrow> evaluation" where
  "minimal_fallback_evaluation r =
     (let failure = (\<not> er_success r \<or> (case er_error r of None \<Rightarrow> False | Some e \<Rightarrow> e \<noteq> []));
          incomplete = (er_success r \<and> blank (er_output r));
          q = (if failure then 2 / 10 else if incomplete then 35 / 100 else 5 / 10)
      in \<lparr>ev_confidence = q, ev_quality = q, ev_conflicts = False, ev_incomplete = incomplete,
          ev_disagreement = False, ev_failure = failure, ev_suggested = None, ev_reason = []\<rparr>)"

definition llm_evaluation ::
    "(exec_result \<Rightarrow> spawn_instr \<Rightarrow> eval_score option) \<Rightarrow> exec_result \<Rightarrow> spawn_instr \<Rightarrow> evaluation option" where
  "llm_evaluation scores r q =
     (if blank (er_output r) \<and> er_success r then None
      else map_option (\<lambda>s. \<lparr>ev_confidence = es_confidence s, ev_quality = es_quality s,
             ev_conflicts = es_conflicts s, ev_incomplete = es_incomplete s,
             ev_disagreement = es_conflicts s, ev_failure = es_failure s,
             ev_suggested = parse_suggested_pattern (es_suggested s), ev_reason = es_reason s\<rparr>)
           (scores r q))"

definition evaluate_execution ::
    "orch_agent \<Rightarrow> (exec_result \<Rightarrow> spawn_instr \<Rightarrow> eval_score option) \<Rightarrow> exec_result \<Rightarrow> spawn_instr
       \<Rightarrow> orch_context \<Rightarrow> evaluation \<times> orch_context" where
  "evaluate_execution ag scores r q c =
     (let e = (case (if oa_llm_eval ag then llm_evaluation scores r q else None) of
                 None \<Rightarrow> minimal_fallback_evaluation r | Some e \<Rightarrow> e);
          c1 = c\<lparr>oc_scores := oc_scores c @ [(ev_confidence e, ev_quality e)]\<rparr>
      in (e, if ev_failure e
             then c1\<lparr>oc_failures := oc_failures c1 @
                    [(si_worker q, case er_error r of
                                     Some m \<Rightarrow> if m = [] then take 200 (er_output r) else m
                                   | None \<Rightarrow> take 200 (er_output r))]\<rparr>
             else c1))"

definition escalated :: "spawn_instr \<Rightarrow> pattern_type \<Rightarrow> string \<Rightarrow> spawn_instr" where
  "escalated q p reason = q\<lparr>si_pattern := p, si_reason := reason, si_reclassify := False\<rparr>"

definition check_escalation :: "orch_agent \<Rightarrow> evaluation \<Rightarrow> spawn_instr \<Rightarrow> orch_context \<Rightarrow> spawn_instr list" where
  "check_escalation ag e q c =
     (if \<not> oa_auto ag then []
      else if 0 < oc_max_depth c \<and> oc_max_depth c \<le> oc_depth c + 1 then []
      else if ev_conflicts e \<or> ev_disagreement e then
        escalated q SWARM ''conflict_deliberation''
        # (if (case oa_rules ag of [] \<Rightarrow> ''default'' | r # _ \<Rightarrow> r) = ''aggressive'' \<and> ev_failure e
           then [escalated q BLACKBOARD ''conflict_plus_failure''] else [])
      else if ev_confidence e < 4 / 10 then [escalated q REFLECTION ''low_confidence'']
      else if ev_failure e then
        [if si_pattern q = REACT then escalated q REFLECTION ''react_failure_recovery''
         else if si_pattern q = SUPERVISOR then escalated q HYBRID_DAG ''supervisor_structured_retry''
         else escalated q REFLECTION ''execution_failure'']
      else if ev_incomplete e then [escalated q BLACKBOARD ''iterative_completion'']
      else if ev_quality e < 5 / 10 then [escalated q REFLECTION ''quality_improvement'']
      else case ev_suggested e of
             Some p \<Rightarrow> [escalated q p (if ev_reason e = [] then ''evaluator_suggestion'' else ev_reason e)]
           | None \<Rightarrow> [])"

section \<open>Dispatch\<close>

datatype prog =
    Return exec_result
  | Fail pyerror
  | Spawn spawn_instr "pyerror + exec_result \<Rightarrow> prog"

type_synonym handler = "string \<Rightarrow> query_analysis \<Rightarrow> orch_context \<Rightarrow> rat \<Rightarrow> prog"

type_synonym dispatcher = "orch_context \<Rightarrow> spawn_instr \<Rightarrow> pyerror + exec_result"

text \<open>What a dispatch uses: the agent, its registry of handlers, and what is not modelled.\<close>

record orch_world =
  ow_agent :: orch_agent
  ow_registry :: "pattern_type \<Rightarrow> handler option"
  ow_react :: handler
  ow_hash :: "string \<Rightarrow> string"
  ow_spawn_id :: "spawn_record \<Rightarrow> string"
  ow_scores :: "exec_result \<Rightarrow> spawn_instr \<Rightarrow> eval_score option"
  ow_classify :: "string \<Rightarrow> string list \<Rightarrow> query_analysis"

primrec run_prog :: "(spawn_instr \<Rightarrow> pyerror + exec_result) \<Rightarrow> prog \<Rightarrow> pyerror + exec_result" where
  "run_prog d (Return r) = Inr r"
| "run_prog d (Fail e) = Inl e"
| "run_prog d (Spawn q k) = run_prog d (k (d q))"

definition plain_analysis :: "pattern_type \<Rightarrow> string \<Rightarrow> query_analysis" where
  "plain_analysis p reason =
     \<lparr>qa_pattern = p, qa_complexity = 5, qa_reasoning = reason, qa_subtasks = [], qa_depth = None,
      qa_token_budget = None, qa_call_budget = None, qa_escalation = None\<rparr>"

definition reclassify_if_needed :: "orch_world \<Rightarrow> spawn_instr \<Rightarrow> query_analysis option \<Rightarrow> query_analysis" where
  "reclassify_if_needed w q an =
     (if oa_frozen (ow_agent w) then
        (case an of Some a \<Rightarrow> a
         | None \<Rightarrow> plain_analysis (si_pattern q) (if si_reason q = [] then ''frozen_replay'' else si_reason q))
      else case (if si_reclassify q then None else an) of
        Some a \<Rightarrow> a
      | None \<Rightarrow>
          if \<not> si_reclassify q then
            plain_analysis (si_pattern q) (if si_reason q = [] then ''orchestration_spawn'' else si_reason q)
          else ow_classify w (si_task q)
                 (if si_tools q = [] then oa_tools (ow_agent w) else si_tools q))"

definition resolve_handler :: "orch_world \<Rightarrow> pattern_type \<Rightarrow> handler" where
  "resolve_handler w p = (case ow_registry w p of Some h \<Rightarrow> h | None \<Rightarrow> ow_react w)"

text \<open>A run stopped by a limit or a cycle is a failed result that names the reason.\<close>

definition error_text :: "pyerror \<Rightarrow> string" where
  "error_text e =
     (case e of BudgetExceeded m \<Rightarrow> m | CycleDetected m \<Rightarrow> m | ValueError m \<Rightarrow> m | TypeError m \<Rightarrow> m
      | AttributeError m \<Rightarrow> m | KeyError m \<Rightarrow> m | OverflowError m \<Rightarrow> m | ValidationError m \<Rightarrow> m | _ \<Rightarrow> [])"

definition stopped :: "spawn_instr \<Rightarrow> pyerror \<Rightarrow> exec_result" where
  "stopped q e =
     \<lparr>er_pattern = si_pattern q, er_query = si_task q,
      er_output = ''Orchestration stopped: '' @ error_text e, er_success = False,
      er_error = Some (error_text e), er_workers = [], er_steps_taken = 0, er_steps = [], er_usage = [],
      er_metadata = [(''orchestration_degraded'', Meta_str (error_text e))],
      er_failure_class = None, er_retryable = False\<rparr>"

definition orch_stop :: "pyerror \<Rightarrow> bool" where
  "orch_stop e = (case e of BudgetExceeded _ \<Rightarrow> True | CycleDetected _ \<Rightarrow> True | _ \<Rightarrow> False)"

definition merge_child_result :: "exec_result \<Rightarrow> exec_result \<Rightarrow> spawn_instr \<Rightarrow> exec_result" where
  "merge_child_result parent child q =
     (let label = pattern_value (si_pattern q);
          nl = [CHR 0x0A];
          block = nl @ nl @ ''---'' @ nl @ ''['' @ label @ '': ''
            @ (if si_reason q = [] then ''follow-up'' else si_reason q) @ '']'' @ nl @ er_output child
      in parent\<lparr>er_output := (if er_output child = [] then er_output parent
                              else if er_output parent = [] then er_output child
                              else py_strip (er_output parent @ block)),
                er_success := er_success parent \<or> er_success child,
                er_workers := er_workers parent @ er_workers child,
                er_steps_taken := er_steps_taken parent + er_steps_taken child,
                er_usage := merge_token_usage (er_usage parent) (er_usage child),
                er_steps := er_steps parent @ er_steps child,
                er_metadata := AList.update ''orchestration_child'' (Meta_str label) (er_metadata parent)\<rparr>)"

definition mk_step :: "orch_context \<Rightarrow> spawn_instr \<Rightarrow> string \<Rightarrow> orch_step" where
  "mk_step c q action =
     \<lparr>os_depth = oc_depth c, os_pattern = si_pattern q,
      os_worker = (if si_worker q = [] then ''root'' else si_worker q), os_action = action,
      os_input = [], os_output = [], os_reason = [], os_usage = [], os_error = None,
      os_confidence = None, os_quality = None\<rparr>"

text \<open>
  The follow-up runs, one after the other; a limit or a cycle raised by one would end them with
  a note in the result.
\<close>

fun run_escalations ::
    "dispatcher \<Rightarrow> spawn_instr \<Rightarrow> spawn_instr list \<Rightarrow> orch_context \<Rightarrow> exec_result
       \<Rightarrow> pyerror + string option \<times> exec_result \<times> orch_context" where
  "run_escalations d q [] c r = Inr (None, r, c)"
| "run_escalations d q (x # xs) c r =
     (let c1 = record_step ((mk_step c q ''escalate'')\<lparr>os_reason := si_reason x, os_input := si_task x\<rparr>) c
      in case d c1 x of
           Inl e \<Rightarrow>
             if orch_stop e then
               Inr (Some (error_text e),
                    r\<lparr>er_metadata := AList.update ''orchestration_degraded'' (Meta_str (error_text e))
                         (er_metadata r)\<rparr>, c1)
             else Inl e
         | Inr child \<Rightarrow>
             run_escalations d q xs (apply_usage_to_context (er_usage child) c1)
               (merge_child_result r child x))"

definition finish_dispatch ::
    "orch_world \<Rightarrow> query_analysis option \<Rightarrow> spawn_instr \<Rightarrow> evaluation
       \<Rightarrow> string option \<times> exec_result \<times> orch_context \<Rightarrow> exec_result" where
  "finish_dispatch w an q e fin =
     (let (degraded, r, c0) = fin;
          c = record_step ((mk_step c0 q ''complete'')\<lparr>os_output := er_output r, os_reason := si_reason q,
                 os_usage := er_usage r, os_error := er_error r, os_confidence := Some (ev_confidence e),
                 os_quality := Some (ev_quality e)\<rparr>) c0;
          m1 = AList.update ''orchestration_trace'' (Meta_trace (oc_trace c)) (er_metadata r);
          m2 = (if oc_depth c = 0
                then AList.update ''orchestration_turn_plan''
                       (Meta_plan (resolve_turn_orchestration (ow_agent w) an)) m1 else m1);
          m3 = (case degraded of Some m \<Rightarrow> if m = [] then m2
                                           else AList.update ''orchestration_degraded'' (Meta_str m) m2
                | None \<Rightarrow> m2)
      in r\<lparr>er_metadata := m3\<rparr>)"

text \<open>The context a run starts with: that of the turn, or a child of its parent's.\<close>

definition start_context ::
    "orch_world \<Rightarrow> int option \<Rightarrow> query_analysis option \<Rightarrow> orch_context option \<Rightarrow> spawn_instr \<Rightarrow> orch_context"
    where
  "start_context w over an parent q =
     (let c = (case parent of
                 None \<Rightarrow> (fresh_orchestration_context (ow_agent w) (si_task q) an)\<lparr>oc_active := Some (si_pattern q)\<rparr>
               | Some p \<Rightarrow> child_context (si_pattern q) (si_worker q) p)
      in case over of None \<Rightarrow> c | Some m \<Rightarrow> c\<lparr>oc_max_depth := m\<rparr>)"

definition enter_context :: "orch_world \<Rightarrow> spawn_instr \<Rightarrow> string \<Rightarrow> orch_context \<Rightarrow> orch_context" where
  "enter_context w q h c =
     (let c1 = record_spawn (si_pattern q) h (si_worker q)
                 (if si_reason q = [] then ''dispatch'' else si_reason q) c
      in record_step ((mk_step c1 q ''enter'')\<lparr>os_input := si_task q, os_reason := si_reason q\<rparr>) c1)"

text \<open>The analysis the handler gets: of an unknown pattern, with the pattern of the instruction.\<close>

definition handler_analysis :: "orch_world \<Rightarrow> spawn_instr \<Rightarrow> query_analysis option \<Rightarrow> query_analysis" where
  "handler_analysis w q an =
     (let a = reclassify_if_needed w q an
      in if ow_registry w (qa_pattern a) = None \<and> qa_pattern a \<noteq> si_pattern q
         then a\<lparr>qa_pattern := si_pattern q\<rparr> else a)"

text \<open>From the checked context on: the handler, its evaluation, the escalations.\<close>

definition run_pattern ::
    "orch_world \<Rightarrow> dispatcher \<Rightarrow> query_analysis option \<Rightarrow> spawn_instr \<Rightarrow> orch_context \<Rightarrow> pyerror + exec_result"
    where
  "run_pattern w d an q c =
     (let a = handler_analysis w q an
      in case run_prog (d c) (resolve_handler w (qa_pattern a) (si_task q) a c (apply_timeout (ow_agent w) c)) of
           Inl e \<Rightarrow> if orch_stop e then Inr (stopped q e) else Inl e
         | Inr r \<Rightarrow>
             (let (e, c1) = evaluate_execution (ow_agent w) (ow_scores w) r q (apply_usage_to_context (er_usage r) c);
                  xs = (if oc_auto c1 \<and> \<not> oa_frozen (ow_agent w)
                        then check_escalation (ow_agent w) e q c1 else [])
              in case run_escalations d q xs c1 r of
                   Inl e1 \<Rightarrow> if orch_stop e1 then Inr (stopped q e1) else Inl e1
                 | Inr fin \<Rightarrow> Inr (finish_dispatch w an q e fin)))"

definition dispatch_checked ::
    "orch_world \<Rightarrow> dispatcher \<Rightarrow> query_analysis option \<Rightarrow> spawn_instr \<Rightarrow> orch_context \<Rightarrow> pyerror + exec_result"
    where
  "dispatch_checked w d an q c =
     (let h = ow_hash w (normalized_task (si_task q))
      in case check_budget c of
           Some e \<Rightarrow> Inr (stopped q e)
         | None \<Rightarrow>
             (case check_cycle (ow_spawn_id w) (si_pattern q) h c of
                Some e \<Rightarrow> Inr (stopped q e)
              | None \<Rightarrow> run_pattern w d an q (enter_context w q h c)))"

text \<open>\<open>over\<close> is the \<open>max_depth\<close> of the instruction; a spawned one has none and no analysis.\<close>

primrec dispatch_pattern ::
    "nat \<Rightarrow> orch_world \<Rightarrow> int option \<Rightarrow> query_analysis option \<Rightarrow> orch_context option \<Rightarrow> spawn_instr
       \<Rightarrow> pyerror + exec_result" where
  "dispatch_pattern 0 w over an parent q = Inl OutOfFuel"
| "dispatch_pattern (Suc n) w over an parent q =
     dispatch_checked w (\<lambda>c x. dispatch_pattern n w None None (Some c) x) an q (start_context w over an parent q)"

text \<open>The methods of \<open>SpawnAPI\<close>, as instructions and programs.\<close>

definition spawn_pattern :: "orch_context \<Rightarrow> spawn_instr \<Rightarrow> (pyerror + exec_result \<Rightarrow> prog) \<Rightarrow> prog" where
  "spawn_pattern c q k =
     Spawn (q\<lparr>si_worker := (if si_worker q \<noteq> [] then si_worker q
                            else case oc_worker c of Some x \<Rightarrow> x | None \<Rightarrow> [])\<rparr>) k"

definition reclassify_subtask :: "orch_world \<Rightarrow> string \<Rightarrow> string list option \<Rightarrow> query_analysis" where
  "reclassify_subtask w task tools =
     ow_classify w task (case tools of None \<Rightarrow> oa_tools (ow_agent w) | Some ts \<Rightarrow> ts)"

fun spawn_all :: "spawn_instr list \<Rightarrow> exec_result \<Rightarrow> prog" where
  "spawn_all [] r = Return r"
| "spawn_all (x # xs) r =
     Spawn x (\<lambda>o1. case o1 of Inl e \<Rightarrow> Fail e | Inr child \<Rightarrow> spawn_all xs (merge_child_result r child x))"

definition escalate_pattern :: "orch_world \<Rightarrow> orch_context \<Rightarrow> exec_result \<Rightarrow> string \<Rightarrow> prog" where
  "escalate_pattern w c r reason =
     (let q = \<lparr>si_pattern = er_pattern r, si_task = er_query r, si_system = [], si_tools = [],
               si_context = [], si_worker = [], si_reason = reason, si_reclassify = False\<rparr>
      in spawn_all (check_escalation (ow_agent w) (fst (evaluate_execution (ow_agent w) (ow_scores w) r q c)) q c) r)"

section \<open>Termination\<close>

named_theorems orch_simps \<open>fields that the bookkeeping of a run leaves alone\<close>

text \<open>What the bookkeeping of a run keeps: its place, its limits and the record of its chain.\<close>

definition same_place :: "orch_context \<Rightarrow> orch_context \<Rightarrow> bool" where
  "same_place c c' \<longleftrightarrow> oc_depth c' = oc_depth c \<and> oc_max_depth c' = oc_max_depth c
     \<and> oc_max_calls c' = oc_max_calls c \<and> oc_max_tokens c' = oc_max_tokens c \<and> oc_history c' = oc_history c"

lemma same_place_refl [orch_simps]: "same_place c c"
  by (simp add: same_place_def)

lemma same_place_step [orch_simps]: "same_place c (record_step s c)"
  by (simp add: same_place_def record_step_def)

lemma same_place_usage [orch_simps]: "same_place c (apply_usage_to_context u c)"
  by (simp add: same_place_def apply_usage_to_context_def Let_def)

lemma same_place_trans: "same_place a b \<Longrightarrow> same_place b c \<Longrightarrow> same_place a c"
  by (simp add: same_place_def)

lemma same_place_evaluate [orch_simps]: "same_place c (snd (evaluate_execution ag scores r q c))"
  by (simp add: same_place_def evaluate_execution_def Let_def)

lemma run_escalations_cong:
  assumes "\<And>c' x. same_place c c' \<Longrightarrow> d c' x = d' c' x"
  shows "run_escalations d q xs c r = run_escalations d' q xs c r"
  using assms
proof (induction xs arbitrary: c r)
  case (Cons x xs)
  define c1 where "c1 = record_step ((mk_step c q ''escalate'')\<lparr>os_reason := si_reason x, os_input := si_task x\<rparr>) c"
  have c1: "same_place c c1" unfolding c1_def by (rule same_place_step)
  then have first: "d c1 x = d' c1 x" by (rule Cons.prems)
  have rest: "run_escalations d q xs (apply_usage_to_context u c1) r'
      = run_escalations d' q xs (apply_usage_to_context u c1) r'" for u r'
  proof (rule Cons.IH)
    fix c' y assume "same_place (apply_usage_to_context u c1) c'"
    then have "same_place c c'" using c1 same_place_usage same_place_trans by blast
    then show "d c' y = d' c' y" by (rule Cons.prems)
  qed
  show ?case
    unfolding run_escalations.simps Let_def c1_def [symmetric] first rest ..
qed simp

lemma run_pattern_cong:
  assumes "\<And>c' x. same_place c c' \<Longrightarrow> d c' x = d' c' x"
  shows "run_pattern w d an q c = run_pattern w d' an q c"
proof -
  have d: "d c = d' c" by (intro ext assms orch_simps)
  have esc: "run_escalations d q xs (snd (evaluate_execution (ow_agent w) (ow_scores w) r q
        (apply_usage_to_context (er_usage r) c))) r
      = run_escalations d' q xs (snd (evaluate_execution (ow_agent w) (ow_scores w) r q
        (apply_usage_to_context (er_usage r) c))) r" for xs r
    by (intro run_escalations_cong assms)
      (rule same_place_trans [OF same_place_trans [OF same_place_usage same_place_evaluate]])
  show ?thesis unfolding run_pattern_def Let_def case_prod_unfold d esc ..
qed

lemma enter_context_place [simp]:
  "oc_depth (enter_context w q h c) = oc_depth c" "oc_max_depth (enter_context w q h c) = oc_max_depth c"
  "oc_max_calls (enter_context w q h c) = oc_max_calls c" "oc_calls (enter_context w q h c) = oc_calls c"
  "oc_max_tokens (enter_context w q h c) = oc_max_tokens c" "oc_tokens (enter_context w q h c) = oc_tokens c"
  "oc_history (enter_context w q h c) = oc_history c @
     [\<lparr>sr_pattern = si_pattern q, sr_hash = h, sr_worker = si_worker q, sr_parent = oc_parent c,
       sr_reason = (if si_reason q = [] then ''dispatch'' else si_reason q), sr_depth = oc_depth c\<rparr>]"
  by (simp_all add: enter_context_def record_spawn_def record_step_def Let_def)

lemma start_child [simp]:
  "oc_depth (start_context w None an (Some p) q) = oc_depth p + 1"
  "oc_max_depth (start_context w None an (Some p) q) = oc_max_depth p"
  "oc_history (start_context w None an (Some p) q) = oc_history p"
  by (simp_all add: start_context_def child_context_def Let_def)

lemma fuel_enough:
  assumes "0 < oc_max_depth (start_context w over an parent q)"
    and "nat (oc_max_depth (start_context w over an parent q) - oc_depth (start_context w over an parent q)) < n"
    and "n \<le> m"
  shows "dispatch_pattern n w over an parent q = dispatch_pattern m w over an parent q"
  using assms
proof (induction n arbitrary: m over an parent q)
  case (Suc n)
  obtain m' where m: "m = Suc m'" "n \<le> m'" using Suc.prems(3) by (cases m) auto
  let ?c = "start_context w over an parent q"
  have "run_pattern w (\<lambda>c x. dispatch_pattern n w None None (Some c) x) an q (enter_context w q h ?c)
      = run_pattern w (\<lambda>c x. dispatch_pattern m' w None None (Some c) x) an q (enter_context w q h ?c)"
    if "check_budget ?c = None" for h
  proof (rule run_pattern_cong)
    fix c' x assume "same_place (enter_context w q h ?c) c'"
    moreover have "oc_depth ?c < oc_max_depth ?c"
      using that Suc.prems(1) by (auto simp: check_budget_def split: if_splits)
    ultimately show "dispatch_pattern n w None None (Some c') x = dispatch_pattern m' w None None (Some c') x"
      using Suc.prems(1,2) m(2) by (intro Suc.IH) (auto simp: same_place_def)
  qed
  then show ?case
    unfolding m dispatch_pattern.simps dispatch_checked_def Let_def by (cases "check_budget ?c";
      cases "check_cycle (ow_spawn_id w) (si_pattern q) (ow_hash w (normalized_task (si_task q))) ?c") simp_all
qed simp

text \<open>
  C1. Recursive dispatch ends whenever there is a depth limit, whatever the handlers spawn: with
  one unit of fuel more than the levels left, more fuel changes nothing, so the recursion never
  runs out. The root run of a turn that orchestrates has such a limit.
\<close>

theorem dispatch_terminates:
  assumes "orchestration_enabled (ow_agent w) an"
    and "nat (tp_depth (resolve_turn_orchestration (ow_agent w) an)) < fuel"
  shows "dispatch_pattern fuel w None an None q
       = dispatch_pattern (nat (tp_depth (resolve_turn_orchestration (ow_agent w) an)) + 1) w None an None q"
proof -
  have "oc_max_depth (start_context w None an None q) = tp_depth (resolve_turn_orchestration (ow_agent w) an)"
    "oc_depth (start_context w None an None q) = 0"
    by (simp_all add: start_context_def fresh_orchestration_context_def Let_def)
  then show ?thesis
    using assms by (intro fuel_enough [symmetric]) (simp_all add: orchestration_enabled_def)
qed

section \<open>Where handlers run\<close>

text \<open>Within every limit, with no pattern and task twice on the chain of runs above.\<close>

definition admissible :: "orch_context \<Rightarrow> bool" where
  "admissible c \<longleftrightarrow> (0 < oc_max_depth c \<longrightarrow> oc_depth c < oc_max_depth c)
     \<and> (0 < oc_max_calls c \<longrightarrow> oc_calls c < oc_max_calls c)
     \<and> (0 < oc_max_tokens c \<longrightarrow> oc_tokens c < oc_max_tokens c)
     \<and> 0 \<le> oc_depth c \<and> map sr_depth (oc_history c) = [0..oc_depth c]
     \<and> distinct (map record_key (oc_history c))"

text \<open>The runs above a new one, none of them on its level.\<close>

definition chain_above :: "orch_context \<Rightarrow> bool" where
  "chain_above c \<longleftrightarrow> 0 \<le> oc_depth c \<and> map sr_depth (oc_history c) = [0..oc_depth c - 1]
     \<and> distinct (map record_key (oc_history c))"

lemma enter_admissible:
  assumes "chain_above c" and "check_budget c = None" and "check_cycle sid (si_pattern q) h c = None"
  shows "admissible (enter_context w q h c)"
proof -
  have "(pattern_value (si_pattern q), h) \<notin> record_key ` set (oc_history c)"
  proof
    assume "(pattern_value (si_pattern q), h) \<in> record_key ` set (oc_history c)"
    then obtain r where r: "r \<in> set (oc_history c)" "record_key r = (pattern_value (si_pattern q), h)" by auto
    then have "sr_depth r \<in> set [0..oc_depth c - 1]"
      using assms(1) unfolding chain_above_def by (metis image_eqI list.set_map)
    then have "r \<in> set (filter (\<lambda>r. sr_depth r < oc_depth c \<and> record_key r = (pattern_value (si_pattern q), h))
        (oc_history c))" using r by simp
    then obtain r' rs where "filter (\<lambda>r. sr_depth r < oc_depth c \<and> record_key r = (pattern_value (si_pattern q), h))
        (oc_history c) = r' # rs" by (metis list.exhaust list.set(1) empty_iff)
    then show False using assms(3) by (simp add: check_cycle_def)
  qed
  moreover have "[0..oc_depth c] = [0..oc_depth c - 1] @ [oc_depth c]"
    using assms(1) upto_rec2 [of 0 "oc_depth c"] by (simp add: chain_above_def)
  ultimately show ?thesis
    using assms(1,2)
    by (auto simp: admissible_def chain_above_def check_budget_def record_key_def split: if_splits)
qed

lemma admissible_place:
  assumes "admissible c" and "same_place c c'"
  shows "chain_above (start_context w None an (Some c') q)"
  using assms by (simp add: admissible_def chain_above_def same_place_def)

text \<open>Other handlers in the same world.\<close>

definition with_handlers :: "(pattern_type \<Rightarrow> handler option) \<Rightarrow> handler \<Rightarrow> orch_world \<Rightarrow> orch_world" where
  "with_handlers reg react w = w\<lparr>ow_registry := reg, ow_react := react\<rparr>"

lemma with_handlers_fields [simp]:
  "ow_agent (with_handlers reg react w) = ow_agent w" "ow_hash (with_handlers reg react w) = ow_hash w"
  "ow_spawn_id (with_handlers reg react w) = ow_spawn_id w" "ow_scores (with_handlers reg react w) = ow_scores w"
  "ow_classify (with_handlers reg react w) = ow_classify w" "ow_registry (with_handlers reg react w) = reg"
  by (simp_all add: with_handlers_def)

lemma with_handlers_contexts [simp]:
  "start_context (with_handlers reg react w) = start_context w"
  "enter_context (with_handlers reg react w) = enter_context w"
  "finish_dispatch (with_handlers reg react w) = finish_dispatch w"
  "reclassify_if_needed (with_handlers reg react w) = reclassify_if_needed w"
  by (intro ext; unfold reclassify_if_needed_def start_context_def enter_context_def finish_dispatch_def with_handlers_fields; rule refl)+

lemmas with_handlers_simps = with_handlers_fields with_handlers_contexts

definition same_where_admissible :: "orch_world \<Rightarrow> orch_world \<Rightarrow> bool" where
  "same_where_admissible w w' \<longleftrightarrow>
     (\<forall>p. ow_registry w p = None \<longleftrightarrow> ow_registry w' p = None)
     \<and> (\<forall>p task a c t. admissible c \<longrightarrow> resolve_handler w p task a c t = resolve_handler w' p task a c t)"

lemma confined:
  assumes "same_where_admissible w (with_handlers reg react w)"
    and "chain_above (start_context w over an parent q)"
  shows "dispatch_pattern n w over an parent q = dispatch_pattern n (with_handlers reg react w) over an parent q"
  using assms(2)
proof (induction n arbitrary: over an parent q)
  case (Suc n)
  let ?w = "with_handlers reg react w" and ?c = "start_context w over an parent q"
  let ?h = "ow_hash w (normalized_task (si_task q))"
  have known: "ow_registry w p = None \<longleftrightarrow> reg p = None" for p
    using assms(1) unfolding same_where_admissible_def with_handlers_fields by blast
  have analysis: "handler_analysis ?w q an = handler_analysis w q an"
    unfolding handler_analysis_def with_handlers_simps known ..
  have "run_pattern w (\<lambda>c x. dispatch_pattern n w None None (Some c) x) an q (enter_context w q ?h ?c)
      = run_pattern ?w (\<lambda>c x. dispatch_pattern n ?w None None (Some c) x) an q (enter_context w q ?h ?c)"
    if ok: "check_budget ?c = None" "check_cycle (ow_spawn_id w) (si_pattern q) ?h ?c = None"
  proof -
    have adm: "admissible (enter_context w q ?h ?c)" by (rule enter_admissible [OF Suc.prems ok])
    have handler_same: "resolve_handler ?w p task a (enter_context w q ?h ?c) t
        = resolve_handler w p task a (enter_context w q ?h ?c) t" for p task a t
      using assms(1) adm unfolding same_where_admissible_def by metis
    have "run_pattern w (\<lambda>c x. dispatch_pattern n w None None (Some c) x) an q (enter_context w q ?h ?c)
        = run_pattern w (\<lambda>c x. dispatch_pattern n ?w None None (Some c) x) an q (enter_context w q ?h ?c)"
      by (rule run_pattern_cong, rule Suc.IH, erule admissible_place [OF adm])
    also have "\<dots> = run_pattern ?w (\<lambda>c x. dispatch_pattern n ?w None None (Some c) x) an q (enter_context w q ?h ?c)"
      unfolding run_pattern_def analysis handler_same Let_def with_handlers_simps ..
    finally show ?thesis .
  qed
  then show ?case
    unfolding dispatch_pattern.simps dispatch_checked_def Let_def with_handlers_simps
    by (cases "check_budget ?c"; cases "check_cycle (ow_spawn_id w) (si_pattern q) ?h ?c") simp_all
qed simp

text \<open>
  C2. What a turn returns depends on the handlers only where they may run: below the depth limit,
  under the call and token budgets as their context counts them, and with no pattern and task
  repeated on the chain of runs above. Handlers that agree there give the same result: the
  dispatcher never calls one anywhere else.
\<close>

theorem dispatch_confined:
  assumes "same_where_admissible w (with_handlers reg react w)"
  shows "dispatch_pattern n w over an None q = dispatch_pattern n (with_handlers reg react w) over an None q"
proof (rule confined [OF assms])
  show "chain_above (start_context w over an None q)"
    by (simp add: chain_above_def start_context_def fresh_orchestration_context_def Let_def split: option.split)
qed

section \<open>A concrete turn\<close>

definition demo_agent :: "int \<Rightarrow> int \<Rightarrow> orch_agent" where
  "demo_agent depth calls =
     \<lparr>oa_max_depth = depth, oa_max_tokens = 1000, oa_max_calls = calls, oa_auto = False,
      oa_from_classifier = False, oa_rules = [], oa_timeout = 120, oa_frozen = False, oa_llm_eval = False,
      oa_spawns = True, oa_dynamic_nodes = True, oa_strict = False, oa_tools = []\<rparr>"

definition demo_instr :: "string \<Rightarrow> spawn_instr" where
  "demo_instr task =
     \<lparr>si_pattern = REACT, si_task = task, si_system = [], si_tools = [], si_context = [], si_worker = [],
      si_reason = [], si_reclassify = False\<rparr>"

definition demo_result :: "string \<Rightarrow> exec_result" where
  "demo_result out =
     \<lparr>er_pattern = REACT, er_query = [], er_output = out, er_success = True, er_error = None, er_workers = [],
      er_steps_taken = 1, er_steps = [], er_usage = [(''total_tokens'', 7)], er_metadata = [],
      er_failure_class = None, er_retryable = False\<rparr>"

text \<open>It spawns the given follow-ups one by one and adds up their steps.\<close>

fun demo_spawns :: "string list \<Rightarrow> exec_result \<Rightarrow> prog" where
  "demo_spawns [] r = Return r"
| "demo_spawns (t # ts) r =
     Spawn (demo_instr t) (\<lambda>o1. case o1 of
        Inl e \<Rightarrow> Fail e
      | Inr child \<Rightarrow> demo_spawns ts (r\<lparr>er_steps_taken := er_steps_taken r + er_steps_taken child\<rparr>))"

definition demo_handler :: handler where
  "demo_handler task a c t =
     demo_spawns (if oc_depth c = 0 then [''one'', ''two'', ''three''] else [task @ ''+'']) (demo_result task)"

definition demo_orch :: "int \<Rightarrow> int \<Rightarrow> orch_world" where
  "demo_orch depth calls =
     \<lparr>ow_agent = demo_agent depth calls, ow_registry = (\<lambda>_. None), ow_react = demo_handler,
      ow_hash = (\<lambda>s. s), ow_spawn_id = (\<lambda>_. ''id''), ow_scores = (\<lambda>_ _. None),
      ow_classify = (\<lambda>_ _. plain_analysis REACT [])\<rparr>"

theorem dispatch_terminates_witness:
  "dispatch_pattern 100 (demo_orch 3 50) None None None (demo_instr ''go'')
     = dispatch_pattern 4 (demo_orch 3 50) None None None (demo_instr ''go'')
   \<and> (case dispatch_pattern 4 (demo_orch 3 50) None None None (demo_instr ''go'') of
        Inr r \<Rightarrow> er_steps_taken r = 7 | Inl _ \<Rightarrow> False)"
proof
  have "tp_depth (resolve_turn_orchestration (ow_agent (demo_orch 3 50)) None) = 3" by code_simp
  moreover from this have "orchestration_enabled (ow_agent (demo_orch 3 50)) None"
    by (simp add: orchestration_enabled_def)
  ultimately show "dispatch_pattern 100 (demo_orch 3 50) None None None (demo_instr ''go'')
     = dispatch_pattern 4 (demo_orch 3 50) None None None (demo_instr ''go'')"
    using dispatch_terminates [of "demo_orch 3 50" None 100 "demo_instr ''go''"] by (simp add: numeral_eq_Suc)
qed code_simp

text \<open>A handler that would misbehave beyond the depth limit makes no difference.\<close>

definition reckless_handler :: handler where
  "reckless_handler task a c t =
     (if 0 < oc_max_depth c \<and> oc_max_depth c \<le> oc_depth c then Fail (ValueError ''beyond the limit'')
      else demo_handler task a c t)"

theorem dispatch_confined_witness:
  "dispatch_pattern 9 (demo_orch 3 50) None None None (demo_instr ''go'')
     = dispatch_pattern 9 (with_handlers (\<lambda>_. None) reckless_handler (demo_orch 3 50)) None None None
         (demo_instr ''go'')"
proof (rule dispatch_confined)
  show "same_where_admissible (demo_orch 3 50) (with_handlers (\<lambda>_. None) reckless_handler (demo_orch 3 50))"
    by (auto simp: same_where_admissible_def demo_orch_def resolve_handler_def with_handlers_def
        reckless_handler_def admissible_def)
qed

section \<open>Limits\<close>

text \<open>
  The limits of a turn stay within those of the agent, and a turn escalates by itself only
  if the agent allows it and the turn may recurse. A check of the budget then admits at most as
  many levels as the agent's ceiling.
\<close>

theorem turn_plan_within_ceilings:
  assumes "p = resolve_turn_orchestration ag an"
  shows "0 \<le> tp_depth p \<and> tp_depth p \<le> max 0 (oa_max_depth ag)
    \<and> (0 < oa_max_tokens ag \<longrightarrow> 0 \<le> tp_tokens p \<and> tp_tokens p \<le> oa_max_tokens ag)
    \<and> (0 < oa_max_calls ag \<longrightarrow> 0 \<le> tp_calls p \<and> tp_calls p \<le> oa_max_calls ag)
    \<and> (tp_escalation p \<longrightarrow> oa_auto ag \<and> 0 < tp_depth p)
    \<and> (0 < tp_depth p \<longrightarrow> check_budget ((fresh_orchestration_context ag t an)\<lparr>oc_depth := d\<rparr>) = None
         \<longrightarrow> d < max 0 (oa_max_depth ag))"
proof -
  have depth: "0 \<le> tp_depth p" "tp_depth p \<le> max 0 (oa_max_depth ag)"
    using assms by (auto simp: resolve_turn_orchestration_def clamp_int_def Let_def split: option.split)
  moreover have "d < tp_depth p" if "0 < tp_depth p"
      "check_budget ((fresh_orchestration_context ag t an)\<lparr>oc_depth := d\<rparr>) = None"
    using that assms by (auto simp: check_budget_def fresh_orchestration_context_def Let_def split: if_splits)
  moreover have "(0 < oa_max_tokens ag \<longrightarrow> 0 \<le> tp_tokens p \<and> tp_tokens p \<le> oa_max_tokens ag)
      \<and> (0 < oa_max_calls ag \<longrightarrow> 0 \<le> tp_calls p \<and> tp_calls p \<le> oa_max_calls ag)
      \<and> (tp_escalation p \<longrightarrow> oa_auto ag \<and> 0 < tp_depth p)"
    using assms
    by (auto simp: resolve_turn_orchestration_def clamp_int_def Let_def split: option.split)
  ultimately show ?thesis by fastforce
qed

theorem turn_plan_within_ceilings_witness:
  "tp_tokens (resolve_turn_orchestration (demo_agent 3 50) None) \<le> 1000
     \<and> tp_calls (resolve_turn_orchestration (demo_agent 3 50) None) \<le> 50"
  using turn_plan_within_ceilings [OF refl, of "demo_agent 3 50" None] by (simp add: demo_agent_def)

text \<open>An escalation follows its instruction, and there are at most two, none on the last level.\<close>

lemma check_escalation_bounds:
  "length (check_escalation ag e q c) \<le> 2
   \<and> (\<forall>x\<in>set (check_escalation ag e q c). si_task x = si_task q \<and> oa_auto ag
        \<and> (0 < oc_max_depth c \<longrightarrow> oc_depth c + 1 < oc_max_depth c))"
  by (auto simp: check_escalation_def escalated_def Let_def split: option.splits)

section \<open>What can go wrong\<close>

text \<open>
  A token budget of 0 suggested by the classifier (or derived, at low complexity, for a turn
  it lets recurse) is read as no limit at all, so the ceiling of the agent is not enforced.
\<close>

definition eager_agent :: orch_agent where
  "eager_agent = (demo_agent 3 50)\<lparr>oa_from_classifier := True\<rparr>"

definition eager_analysis :: query_analysis where
  "eager_analysis = (plain_analysis REACT [])\<lparr>qa_complexity := 1, qa_depth := Some 3\<rparr>"

lemma zero_budget_is_unlimited:
  "orchestration_enabled eager_agent (Some eager_analysis)
   \<and> check_budget ((fresh_orchestration_context eager_agent [] (Some eager_analysis))
        \<lparr>oc_tokens := 1000000000, oc_calls := 1000000\<rparr>) = None"
  by code_simp

text \<open>
  The call budget is not shared: with one call allowed, the four runs of this turn all pass
  the check, since the runs a handler spawns start from the count of their parent.
\<close>

lemma call_budget_not_shared:
  "case dispatch_pattern 9 (demo_orch 2 1) None None None (demo_instr ''go'') of
     Inr r \<Rightarrow> er_steps_taken r = 4 \<and> er_success r | Inl _ \<Rightarrow> False"
  by code_simp

text \<open>
  The history of a context holds the runs above it and no others: the test for three equal runs
  in a row never decides, and a handler may spawn the same pattern and task any number of times.
\<close>

lemma cycle_check_ancestors_only:
  assumes "chain_above c"
  shows "check_cycle sid p h c = None \<longleftrightarrow> (pattern_value p, h) \<notin> record_key ` set (oc_history c)"
proof -
  let ?recent = "filter (\<lambda>r. oc_depth c - 2 \<le> sr_depth r) (oc_history c)"
  let ?last3 = "map record_key (drop (length ?recent - 3) ?recent)"
  have below: "sr_depth r < oc_depth c" if "r \<in> set (oc_history c)" for r
  proof -
    have "sr_depth r \<in> set [0..oc_depth c - 1]"
      using assms that unfolding chain_above_def by (metis image_eqI list.set_map)
    then show ?thesis by simp
  qed
  have "distinct (map record_key ?recent)"
    using assms by (simp add: chain_above_def distinct_map_filter)
  then have "distinct ?last3" by (metis distinct_drop drop_map)
  then have "length (remdups ?last3) = length ?last3" by (simp add: distinct_remdups_id)
  then have "\<not> (3 \<le> length ?recent \<and> length (remdups ?last3) = 1)" by auto
  moreover have "filter (\<lambda>r. sr_depth r < oc_depth c \<and> record_key r = (pattern_value p, h)) (oc_history c) = []
      \<longleftrightarrow> (pattern_value p, h) \<notin> record_key ` set (oc_history c)"
    using below by (force simp: filter_empty_conv)
  ultimately show ?thesis
    by (auto simp: check_cycle_def Let_def split: list.split)
qed

section \<open>Spawns of the patterns\<close>

text \<open>
  \<open>orchestrator/hooks.py\<close>, as programs in continuation-passing style: \<open>k\<close> is the rest of the
  handler. \<open>api\<close> is the context of the run, when there is a \<open>SpawnAPI\<close>.
\<close>

definition pattern_spawns_enabled :: "orch_agent \<Rightarrow> orch_context option \<Rightarrow> bool" where
  "pattern_spawns_enabled ag api \<longleftrightarrow> api \<noteq> None \<and> oa_spawns ag"

definition worker_result_from_spawn :: "exec_result \<Rightarrow> string \<Rightarrow> string \<Rightarrow> worker_result" where
  "worker_result_from_spawn child worker task =
     \<lparr>wr_worker_id = worker, wr_task = task, wr_output = er_output child,
      wr_signal = (if er_success child then SUCCESS else FAILED), wr_error = er_error child,
      wr_elapsed_ms = 0, wr_attempt = 1, wr_token_usage = er_usage child,
      wr_steps = er_steps child\<rparr>"

definition spawn_request :: "pattern_type \<Rightarrow> string \<Rightarrow> string list \<Rightarrow> string \<Rightarrow> string \<Rightarrow> spawn_instr" where
  "spawn_request p task tools worker reason =
     \<lparr>si_pattern = p, si_task = task, si_system = [], si_tools = tools, si_context = [], si_worker = worker,
      si_reason = reason, si_reclassify = False\<rparr>"

fun recover_each ::
    "orch_context \<Rightarrow> pattern_type \<Rightarrow> worker_result list \<Rightarrow> worker_result list \<Rightarrow> (worker_result list \<Rightarrow> prog) \<Rightarrow> prog"
    where
  "recover_each c p [] acc k = k (rev acc)"
| "recover_each c p (x # xs) acc k =
     (if wr_signal x = SUCCESS then recover_each c p xs (x # acc) k
      else spawn_pattern c (spawn_request p (wr_task x) [] (wr_worker_id x) ''worker_failure_recovery'')
             (\<lambda>o1. case o1 of
                Inl e \<Rightarrow> recover_each c p xs (x # acc) k
              | Inr child \<Rightarrow>
                  if er_success child
                  then recover_each c p xs (worker_result_from_spawn child (wr_worker_id x) (wr_task x) # acc) k
                  else recover_each c p xs (x # acc) k))"

definition recover_failed_workers ::
    "orch_agent \<Rightarrow> orch_context option \<Rightarrow> worker_result list \<Rightarrow> (worker_result list \<Rightarrow> prog) \<Rightarrow> prog" where
  "recover_failed_workers ag api rs k =
     (case (if oa_frozen ag \<or> \<not> pattern_spawns_enabled ag api then None else api) of
        None \<Rightarrow> k rs
      | Some c \<Rightarrow> recover_each c REFLECTION rs [] k)"

definition maybe_recover_react_failure ::
    "orch_agent \<Rightarrow> orch_context option \<Rightarrow> bool \<Rightarrow> string \<Rightarrow> exec_result \<Rightarrow> prog" where
  "maybe_recover_react_failure ag api strict_config query r =
     (case (if er_success r \<or> oa_frozen ag \<or> \<not> pattern_spawns_enabled ag api \<or> oa_strict ag \<or> strict_config
            then None else api) of
        None \<Rightarrow> Return r
      | Some c \<Rightarrow>
          spawn_pattern c (spawn_request REFLECTION query [] [] ''react_failure_recovery'')
            (\<lambda>o1. case o1 of
               Inl e \<Rightarrow> Return r
             | Inr child \<Rightarrow>
                 if \<not> er_success child then Return r
                 else Return (child\<lparr>er_pattern := REACT, er_steps := er_steps r @ er_steps child,
                        er_usage := merge_token_usage (er_usage r) (er_usage child),
                        er_metadata := AList.update ''orchestration_react_recovery'' (Meta_flag True)
                                         (er_metadata r)\<rparr>)))"

text \<open>Token overlap of long outputs; a word list is the lower-cased \<open>split\<close>.\<close>

definition words_of :: "string \<Rightarrow> string list" where
  "words_of s = remdups (py_split (py_lower s))"

definition little_overlap :: "string list \<Rightarrow> string list \<Rightarrow> bool" where
  "little_overlap a b \<longleftrightarrow>
     (let inter = length (filter (\<lambda>x. x \<in> set b) a); union = length (remdups (a @ b))
      in 0 < union \<and> (of_nat inter :: rat) / of_nat union < 12 / 100)"

fun any_pair :: "('a \<Rightarrow> 'a \<Rightarrow> bool) \<Rightarrow> 'a list \<Rightarrow> bool" where
  "any_pair P [] = False"
| "any_pair P (x # xs) = (list_ex (P x) xs \<or> any_pair P xs)"

definition detect_perspective_conflict :: "string list \<Rightarrow> bool" where
  "detect_perspective_conflict outputs =
     (let texts = filter (\<lambda>t. 60 \<le> length t) (map py_strip outputs)
      in 2 \<le> length texts \<and> any_pair little_overlap (map words_of texts))"

definition maybe_spawn_conflict_resolution ::
    "pattern_type \<Rightarrow> orch_agent \<Rightarrow> orch_context option \<Rightarrow> string \<Rightarrow> string list \<Rightarrow> (exec_result option \<Rightarrow> prog) \<Rightarrow> prog" where
  "maybe_spawn_conflict_resolution target ag api query outputs k =
     (case (if oa_frozen ag \<or> \<not> detect_perspective_conflict outputs \<or> \<not> pattern_spawns_enabled ag api
            then None else api) of
        None \<Rightarrow> k None
      | Some c \<Rightarrow>
          (let nl = [CHR 0x0A];
               task = ''Resolve conflicting perspectives for the original goal.'' @ nl @ nl
                 @ ''ORIGINAL QUERY:'' @ nl @ query @ nl @ nl
                 @ ''Conflicting outputs were detected among parallel workers. ''
                 @ ''Produce a single reconciled answer.''
           in spawn_pattern c (spawn_request target task [] [] ''conflict_resolution'')
                (\<lambda>o1. k (case o1 of Inl e \<Rightarrow> None | Inr r \<Rightarrow> Some r))))"

text \<open>
  A worker of a pattern: run as it is (\<open>run\<close>, with an error text added when the spawn raised),
  or as a pattern of its own.
\<close>

definition run_worker_or_dispatch ::
    "orch_world \<Rightarrow> orch_context option \<Rightarrow> (worker_config \<Rightarrow> worker_result) \<Rightarrow> query_analysis \<Rightarrow> string
       \<Rightarrow> worker_config \<Rightarrow> (worker_result \<Rightarrow> prog) \<Rightarrow> prog" where
  "run_worker_or_dispatch w api run an reason cfg k =
     (case (if \<not> oa_frozen (ow_agent w) \<and> pattern_spawns_enabled (ow_agent w) api
               \<and> (7 \<le> qa_complexity an \<or> cfg_tools cfg \<noteq> []) then api else None) of
        None \<Rightarrow> k (run cfg)
      | Some c \<Rightarrow>
          spawn_pattern c (spawn_request (qa_pattern (reclassify_subtask w (cfg_task cfg) (Some (cfg_tools cfg))))
              (cfg_task cfg) (cfg_tools cfg) (cfg_worker_id cfg) reason)
            (\<lambda>o1. k (case o1 of
               Inl e \<Rightarrow> (let r = run cfg
                        in r\<lparr>wr_error := (case wr_error r of
                                            None \<Rightarrow> Some (error_text e)
                                          | Some m \<Rightarrow> if m = [] then Some (error_text e) else Some m)\<rparr>)
             | Inr child \<Rightarrow> worker_result_from_spawn child (cfg_worker_id cfg) (cfg_task cfg))))"

text \<open>
  Recovery replaces only failed results: whatever the spawned runs do, the handler goes on
  with a list of the same workers and tasks in the same order, in which a result that succeeded
  is untouched and a failed one is either kept or now a success.
\<close>

theorem recovery_keeps_results:
  "\<exists>zs. run_prog d (recover_failed_workers ag api rs k) = run_prog d (k zs)
     \<and> list_all2 (\<lambda>x z. wr_worker_id z = wr_worker_id x \<and> wr_task z = wr_task x
           \<and> (wr_signal x = SUCCESS \<longrightarrow> z = x) \<and> (z \<noteq> x \<longrightarrow> wr_signal z = SUCCESS)) rs zs"
proof -
  let ?R = "\<lambda>x z. wr_worker_id z = wr_worker_id x \<and> wr_task z = wr_task x
           \<and> (wr_signal x = SUCCESS \<longrightarrow> z = x) \<and> (z \<noteq> x \<longrightarrow> wr_signal z = SUCCESS)"
  have each: "\<exists>ys. run_prog d (recover_each c p xs acc k) = run_prog d (k (rev acc @ ys)) \<and> list_all2 ?R xs ys"
    for c p xs acc
  proof (induction xs arbitrary: acc)
    case (Cons x xs)
    have "\<exists>z. ?R x z \<and> run_prog d (recover_each c p (x # xs) acc k) = run_prog d (recover_each c p xs (z # acc) k)"
    proof -
      obtain q where q: "\<And>K. spawn_pattern c (spawn_request p (wr_task x) [] (wr_worker_id x)
            ''worker_failure_recovery'') K = Spawn q K" by (simp add: spawn_pattern_def)
      show ?thesis
      proof (cases "d q")
        case (Inr child)
        show ?thesis
        proof (cases "wr_signal x \<noteq> SUCCESS \<and> er_success child")
          case True
          then show ?thesis using Inr q
            by (intro exI [of _ "worker_result_from_spawn child (wr_worker_id x) (wr_task x)"])
              (simp add: worker_result_from_spawn_def)
        qed (use Inr q in \<open>auto intro!: exI [of _ x]\<close>)
      qed (use q in \<open>auto intro!: exI [of _ x]\<close>)
    qed
    then obtain z where z: "?R x z"
      "run_prog d (recover_each c p (x # xs) acc k) = run_prog d (recover_each c p xs (z # acc) k)" by blast
    obtain ys where "run_prog d (recover_each c p xs (z # acc) k) = run_prog d (k (rev (z # acc) @ ys))"
      "list_all2 ?R xs ys" using Cons by blast
    then show ?case using z by (intro exI [of _ "z # ys"]) simp
  qed simp
  show ?thesis
    using each [of _ REFLECTION rs "[]"]
    by (auto simp: recover_failed_workers_def list_all2_refl split: option.splits if_splits intro: exI [of _ rs])
qed


definition demo_failed_worker :: worker_result where
  "demo_failed_worker =
     \<lparr>wr_worker_id = ''w'', wr_task = ''t'', wr_output = [], wr_signal = FAILED, wr_error = Some ''boom'',
      wr_elapsed_ms = 0, wr_attempt = 3, wr_token_usage = [], wr_steps = []\<rparr>"

theorem recovery_keeps_results_witness:
  "\<exists>z. run_prog (\<lambda>q. Inr (demo_result ''fixed''))
         (recover_failed_workers (demo_agent 3 50) (Some (fresh_orchestration_context (demo_agent 3 50) [] None))
            [demo_failed_worker] (\<lambda>zs. Return ((demo_result [])\<lparr>er_workers := zs\<rparr>)))
       = Inr ((demo_result [])\<lparr>er_workers := [z]\<rparr>) \<and> wr_worker_id z = ''w''"
  using recovery_keeps_results [of "\<lambda>q. Inr (demo_result ''fixed'')" "demo_agent 3 50"
      "Some (fresh_orchestration_context (demo_agent 3 50) [] None)" "[demo_failed_worker]"
      "\<lambda>zs. Return ((demo_result [])\<lparr>er_workers := zs\<rparr>)"]
  by (auto simp: list_all2_Cons1 demo_failed_worker_def)

section \<open>Nodes of a DAG\<close>

text \<open>
  A node of a DAG level: as the batch of one worker that the approval module runs (\<open>batch\<close>,
  its first result), or as a pattern of its own, and again as it is when the spawn raised.
\<close>

definition dag_node_spawn ::
    "orch_world \<Rightarrow> orch_context \<Rightarrow> (worker_config \<Rightarrow> worker_result) \<Rightarrow> worker_config
       \<Rightarrow> (worker_result \<Rightarrow> prog) \<Rightarrow> prog" where
  "dag_node_spawn w c run cfg k =
     spawn_pattern c (spawn_request (qa_pattern (reclassify_subtask w (cfg_task cfg) (Some (cfg_tools cfg))))
         (cfg_task cfg) (cfg_tools cfg) (cfg_worker_id cfg) ''dag_dynamic_node'')
       (\<lambda>o1. k (case o1 of
          Inl e \<Rightarrow> (let r = run cfg
                   in r\<lparr>wr_error := (case wr_error r of
                                       None \<Rightarrow> Some (error_text e)
                                     | Some m \<Rightarrow> if m = [] then Some (error_text e) else Some m)\<rparr>)
        | Inr child \<Rightarrow> worker_result_from_spawn child (cfg_worker_id cfg) (cfg_task cfg)))"

definition run_dag_node_or_dispatch ::
    "orch_world \<Rightarrow> orch_context option \<Rightarrow> (worker_config list \<Rightarrow> worker_result list \<times> string list)
       \<Rightarrow> (worker_config \<Rightarrow> worker_result) \<Rightarrow> query_analysis \<Rightarrow> worker_config \<Rightarrow> (worker_result \<Rightarrow> prog) \<Rightarrow> prog"
    where
  "run_dag_node_or_dispatch w api batch run an cfg k =
     (case (if \<not> oa_frozen (ow_agent w) \<and> oa_dynamic_nodes (ow_agent w) \<and> pattern_spawns_enabled (ow_agent w) api
               \<and> (cfg_tools cfg \<noteq> [] \<or> 7 \<le> qa_complexity an) then api else None) of
        None \<Rightarrow> k (case fst (batch [cfg]) of
                   r # _ \<Rightarrow> r
                 | [] \<Rightarrow> \<lparr>wr_worker_id = cfg_worker_id cfg, wr_task = cfg_task cfg,
                          wr_output = ''No worker result.'', wr_signal = FAILED, wr_error = None,
                          wr_elapsed_ms = 0, wr_attempt = 1, wr_token_usage = [],
      wr_steps = []\<rparr>)
      | Some c \<Rightarrow> dag_node_spawn w c run cfg k)"

text \<open>
  The nodes of a level run at once; each of them only reads the context of the level, so the
  order of their steps makes no difference and they are written one after the other.
\<close>

fun run_dag_nodes ::
    "(worker_config \<Rightarrow> (worker_result \<Rightarrow> prog) \<Rightarrow> prog) \<Rightarrow> worker_config list \<Rightarrow> worker_result list
       \<Rightarrow> (worker_result list \<Rightarrow> prog) \<Rightarrow> prog" where
  "run_dag_nodes node [] acc k = k (rev acc)"
| "run_dag_nodes node (x # xs) acc k = node x (\<lambda>r. run_dag_nodes node xs (r # acc) k)"

definition halted_result :: "worker_config \<Rightarrow> worker_result" where
  "halted_result cfg =
     \<lparr>wr_worker_id = cfg_worker_id cfg, wr_task = cfg_task cfg, wr_output = ''Skipped '' @ em_dash @ '' HALT_ALL.'',
      wr_signal = HALTED, wr_error = Some ''HALT_ALL'', wr_elapsed_ms = 0, wr_attempt = 1, wr_token_usage = [],
      wr_steps = []\<rparr>"

definition run_dag_level_workers ::
    "orch_world \<Rightarrow> orch_context option \<Rightarrow> (worker_config list \<Rightarrow> worker_result list \<times> string list)
       \<Rightarrow> (worker_config \<Rightarrow> worker_result) \<Rightarrow> query_analysis \<Rightarrow> bool \<Rightarrow> worker_config list
       \<Rightarrow> (worker_result list \<times> string list \<Rightarrow> prog) \<Rightarrow> prog" where
  "run_dag_level_workers w api batch run an halt cfgs k =
     (if \<not> (oa_dynamic_nodes (ow_agent w) \<and> pattern_spawns_enabled (ow_agent w) api) then k (batch cfgs)
      else if halt then k (map halted_result cfgs, [])
      else run_dag_nodes (run_dag_node_or_dispatch w api batch run an) cfgs [] (\<lambda>rs. k (rs, [])))"

end
