(* ===== verification/Sequential_Patterns.thy ===== *)
theory Sequential_Patterns
  imports Worker_Runs
begin

text \<open>
  The sequential runner \<open>run_sequential_workers\<close> (\<open>src/agloom/patterns/_sequential.py\<close>) and the
  two patterns built on it: \<open>handle_pipeline\<close> (\<open>patterns/pipeline.py\<close>) and
  \<open>handle_planner_executor\<close> (\<open>patterns/planner_executor.py\<close>), as handlers that the dispatcher of
  \<open>Orchestration\<close> can run.

  The queue of signals is given as the batches that the successive drains find. Workers are run
  by an argument (\<open>run_worker\<close> of \<open>Worker_Runs\<close> applied to a model). The audit trail holds what the
  handler itself writes; entries that spawned runs add to the same list are left out.
\<close>

section \<open>The runner\<close>

record seq_env =
  sq_world :: orch_world
  sq_api :: "orch_context option"
  sq_run :: "worker_config \<Rightarrow> worker_result"
  sq_analysis :: query_analysis
  sq_mode :: string
  sq_stop :: bool
  sq_cap :: int

definition worker_execution_failed :: "signal_type \<Rightarrow> bool" where
  "worker_execution_failed s \<longleftrightarrow> s = FAILED"

definition halted_worker_result :: "string \<Rightarrow> string \<Rightarrow> worker_config \<Rightarrow> worker_result" where
  "halted_worker_result output err cfg = worker_row cfg output HALTED (Some err) 1"

definition skipped_upstream :: "string \<Rightarrow> worker_config \<Rightarrow> worker_result" where
  "skipped_upstream up cfg =
     worker_row cfg (''Skipped '' @ em_dash @ '' upstream worker '' @ py_quote (py_quote up) @ '' failed.'') FAILED
       (Some ''UpstreamFailure'') 1"

definition skipped_halt :: "worker_config \<Rightarrow> worker_result" where
  "skipped_halt = halted_worker_result (''Skipped '' @ em_dash @ '' HALT_ALL received before this step.'') ''HALT_ALL''"

definition trunc :: "int \<Rightarrow> string \<Rightarrow> string" where
  "trunc cap s = (if cap \<le> 0 then s else take (nat cap) s)"

definition make_step ::
    "step_type \<Rightarrow> string \<Rightarrow> string \<Rightarrow> string \<Rightarrow> int \<Rightarrow> string pydict \<Rightarrow> agent_step" where
  "make_step typ1 name inp out cap meta =
     \<lparr>as_type = typ1, as_name = name, as_input = trunc cap inp, as_output = trunc cap out, as_meta = meta\<rparr>"

definition end_step :: "int \<Rightarrow> worker_result \<Rightarrow> agent_step" where
  "end_step cap r =
     make_step Step_worker_end (wr_worker_id r) (wr_task r) (wr_output r) cap [(''signal'', signal_value (wr_signal r))]"

text \<open>
  The entries of one step of the chain. They go to the list of the invocation if it has entries;
  an empty one is replaced by a fresh list, and what is written to that is lost.
\<close>

definition audit_step :: "int \<Rightarrow> worker_config \<Rightarrow> worker_result \<Rightarrow> agent_step list \<Rightarrow> agent_step list" where
  "audit_step cap cfg r audit =
     (if audit = [] then []
      else audit @ [make_step Step_worker_start (cfg_worker_id cfg) (cfg_task cfg) [] cap []]
        @ filter (\<lambda>s. as_type s = Step_tool_call \<or> as_type s = Step_tool_result) (wr_steps r)
        @ [end_step cap r])"

text \<open>The worker as it is run: with the results of its dependencies in its task.\<close>

definition prepare_step :: "seq_env \<Rightarrow> worker_result pydict \<Rightarrow> worker_config \<Rightarrow> worker_config" where
  "prepare_step E results cfg =
     (let seen = List.map_filter (map_of results) (cfg_depends_on cfg);
          oks = filter (\<lambda>r. wr_signal r = SUCCESS) seen
      in if sq_mode E = ''pipeline'' \<and> cfg_depends_on cfg \<noteq> [] then
           (case oks of [] \<Rightarrow> cfg | [r] \<Rightarrow> inject_pipeline_input cfg r | _ \<Rightarrow> inject_pipeline_inputs cfg oks)
         else if sq_mode E = ''planner_executor'' then inject_planner_context cfg seen
         else cfg)"

definition halts_now :: "queue_item list list option \<Rightarrow> bool" where
  "halts_now bs = (case bs of Some (b # _) \<Rightarrow> fst (drain_for_halt None [] b) | _ \<Rightarrow> False)"

fun run_steps ::
    "seq_env \<Rightarrow> queue_item list list option \<Rightarrow> worker_result pydict \<Rightarrow> string list \<Rightarrow> agent_step list
       \<Rightarrow> worker_result list \<Rightarrow> worker_config list \<Rightarrow> (worker_result list \<times> agent_step list \<Rightarrow> prog) \<Rightarrow> prog" where
  "run_steps E bs results failed audit acc [] k = k (acc, audit)"
| "run_steps E bs results failed audit acc (c # cs) k =
     (let bad = filter (\<lambda>d. d \<in> set failed) (cfg_depends_on c);
          cfg = prepare_step E results c;
          bs' = map_option (drop 1) bs
      in if halts_now bs then k (acc @ map skipped_halt (c # cs), audit)
         else if bad \<noteq> [] \<and> sq_stop E then
           k (acc @ skipped_upstream (hd bad) c # map (skipped_upstream (cfg_worker_id c)) cs, audit)
         else run_worker_or_dispatch (sq_world E) (sq_api E) (sq_run E) (sq_analysis E) ''sequential_dynamic_dispatch'' cfg
           (\<lambda>r. let audit' = audit_step (sq_cap E) cfg r audit;
                    results' = AList.update (cfg_worker_id c) r results
                in if worker_execution_failed (wr_signal r) then
                     (if sq_stop E
                      then k (acc @ r # map (skipped_upstream (cfg_worker_id c)) cs, audit')
                      else run_steps E bs' results' (cfg_worker_id c # failed) audit' (acc @ [r]) cs k)
                   else run_steps E bs' results' failed audit' (acc @ [r]) cs k))"

definition run_sequential_workers ::
    "seq_env \<Rightarrow> queue_item list list option \<Rightarrow> agent_step list \<Rightarrow> worker_config list
       \<Rightarrow> (worker_result list \<times> agent_step list \<Rightarrow> prog) \<Rightarrow> prog" where
  "run_sequential_workers E bs audit configs k =
     (case topological_sort configs of
        Inl e \<Rightarrow> Fail e
      | Inr sorted_configs \<Rightarrow> run_steps E bs [] [] audit [] sorted_configs k)"

section \<open>Results of a chain\<close>

definition upstream_failure :: "worker_result \<Rightarrow> bool" where
  "upstream_failure r \<longleftrightarrow> wr_signal r = FAILED \<and> wr_error r = Some ''UpstreamFailure''"

text \<open>After a failure nothing runs any more.\<close>

fun chain_stops :: "worker_result list \<Rightarrow> bool" where
  "chain_stops [] = True"
| "chain_stops (r # rs) = ((wr_signal r = FAILED \<longrightarrow> list_all upstream_failure rs) \<and> chain_stops rs)"

lemma chain_stops_upstream: "list_all upstream_failure rs \<Longrightarrow> chain_stops rs"
  by (induction rs) auto

lemma chain_stops_halted: "chain_stops (map skipped_halt cs)"
  by (induction cs) (auto simp: skipped_halt_def halted_worker_result_def worker_row_def)

lemma skipped_rows [simp]:
  "wr_worker_id (skipped_halt c) = cfg_worker_id c" "wr_worker_id (skipped_upstream u c) = cfg_worker_id c"
  "upstream_failure (skipped_upstream u c)" "wr_signal (skipped_upstream u c) = FAILED"
  by (simp_all add: skipped_halt_def halted_worker_result_def skipped_upstream_def worker_row_def upstream_failure_def)

lemma skipped_list: "list_all upstream_failure (map (skipped_upstream u) cs)"
  by (simp add: list_all_iff)

lemma prepare_keeps [simp]:
  "cfg_worker_id (prepare_step E results c) = cfg_worker_id c"
  "cfg_depends_on (prepare_step E results c) = cfg_depends_on c"
  "cfg_tools (prepare_step E results c) = cfg_tools c"
  by (auto simp: prepare_step_def inject_pipeline_input_def inject_pipeline_inputs_def inject_planner_context_def
      Let_def split: list.split)

lemma worker_or_dispatch_result:
  assumes "\<And>c. wr_worker_id (run c) = cfg_worker_id c"
  shows "\<exists>r. (\<forall>k. run_prog d (run_worker_or_dispatch w api run an reason cfg k) = run_prog d (k r))
    \<and> wr_worker_id r = cfg_worker_id cfg"
proof (cases "if \<not> oa_frozen (ow_agent w) \<and> pattern_spawns_enabled (ow_agent w) api
               \<and> (7 \<le> qa_complexity an \<or> cfg_tools cfg \<noteq> []) then api else None")
  case None
  then show ?thesis unfolding run_worker_or_dispatch_def None option.case using assms by blast
next
  case (Some c)
  show ?thesis
    unfolding run_worker_or_dispatch_def Some option.case spawn_pattern_def run_prog.simps
    by (rule exI, rule conjI, rule allI, rule refl)
      (simp add: assms worker_result_from_spawn_def Let_def split: sum.split)
qed

lemma run_steps_results:
  assumes "\<And>c. wr_worker_id (sq_run E c) = cfg_worker_id c"
  shows "\<exists>rs au. run_prog d (run_steps E bs results failed audit acc cs k) = run_prog d (k (acc @ rs, au))
    \<and> map wr_worker_id rs = map cfg_worker_id cs \<and> (sq_stop E \<longrightarrow> chain_stops rs)"
proof (induction cs arbitrary: bs results failed audit acc)
  case (Cons c cs)
  let ?bad = "filter (\<lambda>d. d \<in> set failed) (cfg_depends_on c)"
  consider (halt) "halts_now bs" | (skip) "\<not> halts_now bs" "?bad \<noteq> []" "sq_stop E"
    | (run) "\<not> halts_now bs" "\<not> (?bad \<noteq> [] \<and> sq_stop E)" by blast
  then show ?case
  proof cases
    case halt
    then show ?thesis using chain_stops_halted [of "c # cs"]
      by (intro exI [of _ "map skipped_halt (c # cs)"] exI [of _ audit]) simp
  next
    case skip
    then show ?thesis using chain_stops_upstream [OF skipped_list, of "cfg_worker_id c" cs]
      by (intro exI [of _ "skipped_upstream (hd ?bad) c # map (skipped_upstream (cfg_worker_id c)) cs"]
          exI [of _ audit]) (simp add: list_all_iff)
  next
    case run
    let ?cfg = "prepare_step E results c"
    obtain r where eq: "\<And>k. run_prog d
        (run_worker_or_dispatch (sq_world E) (sq_api E) (sq_run E) (sq_analysis E) ''sequential_dynamic_dispatch'' ?cfg k)
        = run_prog d (k r)" and r: "wr_worker_id r = cfg_worker_id c"
      using worker_or_dispatch_result [of "sq_run E" d "sq_world E" "sq_api E" "sq_analysis E" _ ?cfg] assms by fastforce
    define au where "au = audit_step (sq_cap E) ?cfg r audit"
    define res where "res = AList.update (cfg_worker_id c) r results"
    have step: "run_prog d (run_steps E bs results failed audit acc (c # cs) k)
        = run_prog d (if worker_execution_failed (wr_signal r) then
             (if sq_stop E then k (acc @ r # map (skipped_upstream (cfg_worker_id c)) cs, au)
              else run_steps E (map_option (drop 1) bs) res (cfg_worker_id c # failed) au (acc @ [r]) cs k)
           else run_steps E (map_option (drop 1) bs) res failed au (acc @ [r]) cs k)"
      using run unfolding run_steps.simps Let_def au_def res_def by (simp only: if_False eq)
    show ?thesis
    proof (cases "worker_execution_failed (wr_signal r) \<and> sq_stop E")
      case True
      then show ?thesis unfolding step using chain_stops_upstream [OF skipped_list, of "cfg_worker_id c" cs] r
        by (intro exI [of _ "r # map (skipped_upstream (cfg_worker_id c)) cs"] exI [of _ au])
          (simp add: skipped_list)
    next
      case False
      obtain rs au' where "run_prog d (run_steps E bs results failed audit acc (c # cs) k) = run_prog d (k ((acc @ [r]) @ rs, au'))"
        "map wr_worker_id rs = map cfg_worker_id cs" "sq_stop E \<longrightarrow> chain_stops rs"
      proof -
        have "run_prog d (run_steps E bs results failed audit acc (c # cs) k)
            = run_prog d (run_steps E (map_option (drop 1) bs) res
                (if worker_execution_failed (wr_signal r) then cfg_worker_id c # failed else failed) au (acc @ [r]) cs k)"
          unfolding step using False by auto
        then show ?thesis using that Cons.IH by metis
      qed
      then show ?thesis using False r
        by (intro exI [of _ "r # rs"] exI [of _ au']) (auto simp: worker_execution_failed_def)
    qed
  qed
qed auto


lemma run_sequential_results:
  assumes "distinct (map cfg_worker_id cs)" "deps_known cs" "acyclic (dep_rel cs)"
    and "\<And>c. wr_worker_id (sq_run E c) = cfg_worker_id c"
  shows "\<exists>order rs au. run_prog d (run_sequential_workers E bs audit cs k) = run_prog d (k (rs, au))
    \<and> topological_sort cs = Inr order \<and> mset order = mset cs \<and> deps_before order
    \<and> map wr_worker_id rs = map cfg_worker_id order \<and> (sq_stop E \<longrightarrow> chain_stops rs)"
proof -
  obtain order where o: "topological_sort cs = Inr order" "mset order = mset cs" "deps_before order"
    using topological_sort_ok assms(1-3) by blast
  then show ?thesis
    using run_steps_results [OF assms(4), of d bs "[]" "[]" audit "[]" order k]
    by (auto simp: run_sequential_workers_def)
qed

section \<open>Failure classes\<close>

text \<open>\<open>patterns/_failure.py\<close>; the kinds of exception it tells apart.\<close>

datatype failure_cause = No_exception | Transport_exception | Context_exception | Other_exception

definition failure_class_for_error :: "string option \<Rightarrow> failure_cause \<Rightarrow> string \<Rightarrow> string \<times> bool" where
  "failure_class_for_error err cause kind =
     (let txt = py_lower (case err of None \<Rightarrow> [] | Some e \<Rightarrow> e)
      in if cause = Transport_exception then (''transport'', True)
         else if cause = Context_exception then (''context'', False)
         else if contains_sub txt ''context budget exceeded'' then (''context'', False)
         else if contains_sub txt ''timeout'' \<or> kind = ''timeout'' then (''timeout'', True)
         else if kind \<in> set [''planning'', ''worker'', ''tool_error'', ''transport'', ''timeout'', ''execution'', ''context'']
              then (kind, kind \<in> set [''transport'', ''timeout''])
         else if contains_sub txt ''upstream'' \<or> contains_sub txt ''worker'' then (''worker'', False)
         else (kind, False))"

definition exec_failure_kwargs :: "string option \<Rightarrow> string \<Rightarrow> exec_result \<Rightarrow> exec_result" where
  "exec_failure_kwargs err kind r =
     (let (fc, retry) = failure_class_for_error err No_exception kind
      in r\<lparr>er_failure_class := Some fc, er_retryable := retry\<rparr>)"

text \<open>A failure is worth a retry exactly if it is classed as one of transport or timeout.\<close>

lemma retryable_classes:
  "snd (failure_class_for_error err cause kind) \<longleftrightarrow> fst (failure_class_for_error err cause kind) \<in> {''transport'', ''timeout''}"
  by (simp add: failure_class_for_error_def Let_def)

section \<open>Results of a pattern\<close>

definition steps_taken_from_audit :: "agent_step list \<Rightarrow> int" where
  "steps_taken_from_audit steps = (if steps = [] then 1 else int (length steps))"

definition any_worker_succeeded :: "worker_result list \<Rightarrow> bool" where
  "any_worker_succeeded rs = list_ex (\<lambda>r. wr_signal r = SUCCESS) rs"

definition pattern_synthesis_success :: "worker_result list \<Rightarrow> bool \<Rightarrow> bool" where
  "pattern_synthesis_success rs degraded \<longleftrightarrow> any_worker_succeeded rs \<and> \<not> degraded"

definition all_workers_failed_error :: string where
  "all_workers_failed_error = ''AllPatternWorkersFailed''"

text \<open>The constructor of \<open>ExecutionResult\<close>: a failure without an error takes its output for one.\<close>

definition execution_result ::
    "pattern_type \<Rightarrow> string \<Rightarrow> string \<Rightarrow> int \<Rightarrow> bool \<Rightarrow> string option \<Rightarrow> worker_result list \<Rightarrow> agent_step list
       \<Rightarrow> int pydict \<Rightarrow> orch_meta pydict \<Rightarrow> exec_result" where
  "execution_result p query out taken ok err rs steps usage meta =
     \<lparr>er_pattern = p, er_query = query, er_output = out, er_success = ok,
      er_error = (if \<not> ok \<and> (err = None \<or> err = Some []) \<and> out \<noteq> [] then Some (take 500 out) else err),
      er_workers = rs, er_steps_taken = taken, er_steps = steps, er_usage = usage, er_metadata = meta,
      er_failure_class = None, er_retryable = False\<rparr>"

definition worker_usage :: "int pydict \<Rightarrow> worker_result list \<Rightarrow> int pydict" where
  "worker_usage u rs = fold (\<lambda>r m. if wr_token_usage r = [] then m else merge_token_usage m (wr_token_usage r)) rs u"

text \<open>What a pattern reads of the agent and of the invocation.\<close>

record pattern_env =
  pe_world :: orch_world
  pe_resolve :: resolve_settings
  pe_needs :: "string \<Rightarrow> bool"
  pe_run :: "worker_config \<Rightarrow> worker_result"
  pe_signals :: "queue_item list list option"
  pe_audit :: "agent_step list"
  pe_cap :: int

definition pattern_configs :: "pattern_env \<Rightarrow> subtask list \<Rightarrow> worker_config list" where
  "pattern_configs V = resolve_worker_configs (pe_needs V) (pe_resolve V)"

definition no_plan :: "pattern_env \<Rightarrow> pattern_type \<Rightarrow> string \<Rightarrow> string \<Rightarrow> exec_result" where
  "no_plan V p query out =
     exec_failure_kwargs None ''planning'' (execution_result p query out 1 False None [] (pe_audit V) [] [])"

lemma worker_ids_resolved [simp]:
  "map cfg_worker_id (pattern_configs V sts) = map st_worker_id sts"
  by (simp add: pattern_configs_def resolve_worker_configs_def resolve_one_def Let_def comp_def)

section \<open>Pipeline\<close>

definition pipeline_system_prompt :: string where
  "pipeline_system_prompt = join_with newline
     [''You are a transformation specialist in a data processing pipeline.'',
      ''Your job: receive the input from the previous step and transform it'',
      ''according to your specific task.'',
      ''Output ONLY the transformed result '' @ em_dash @ '' no meta-commentary, no explanations.'',
      ''Your output is passed directly as input to the next step.'']"

definition pipeline_first_worker_prompt :: string where
  "pipeline_first_worker_prompt = join_with newline
     [''You are the first step in a data processing pipeline.'',
      ''Your job: process the initial input and produce output for the next step.'',
      ''Output ONLY the processed result '' @ em_dash @ '' no meta-commentary.'']"

definition pipeline_prompt :: "resolve_settings \<Rightarrow> nat \<Rightarrow> worker_config \<Rightarrow> worker_config" where
  "pipeline_prompt rs i cfg =
     (let agent_default = (case rs_system rs of None \<Rightarrow> [] | Some s \<Rightarrow> py_strip s);
          prompt = py_strip (cfg_system_prompt cfg);
          generic = ''You are a helpful AI assistant.'' # (if agent_default = [] then [] else [agent_default])
      in cfg\<lparr>cfg_system_prompt :=
           (if prompt = [] \<or> prompt \<in> set generic
            then (if i = 0 then pipeline_first_worker_prompt else pipeline_system_prompt) else prompt)\<rparr>)"

definition pipeline_configs :: "pattern_env \<Rightarrow> subtask list \<Rightarrow> worker_config list" where
  "pipeline_configs V sts =
     map (\<lambda>(i, cfg). pipeline_prompt (pe_resolve V) i cfg) (zip [0..<length sts] (pattern_configs V sts))"

definition pipeline_result ::
    "pattern_env \<Rightarrow> string \<Rightarrow> worker_result list \<Rightarrow> agent_step list \<Rightarrow> exec_result" where
  "pipeline_result V query rs audit =
     (let steps = audit @ map (end_step (pe_cap V)) rs;
          oks = filter (\<lambda>r. wr_signal r = SUCCESS) rs;
          errs = List.map_filter (\<lambda>r. case wr_error r of
                    Some e \<Rightarrow> if e = [] then None else Some (wr_worker_id r @ '': '' @ e) | None \<Rightarrow> None) rs;
          bullet = newline @ ''  - '';
          make = (\<lambda>out ok. execution_result PIPELINE query out (steps_taken_from_audit steps) ok None rs steps
                    (worker_usage [] rs) [])
      in if oks \<noteq> [] then make (wr_output (last oks)) True
         else exec_failure_kwargs None ''worker'' (make
           (if errs = [] then ''All steps failed without error details.''
            else ''Pipeline failed '' @ em_dash @ '' no successful steps completed.'' @ newline @ ''Errors:'' @ bullet
                 @ join_with bullet errs) False))"

definition handle_pipeline :: "pattern_env \<Rightarrow> handler" where
  "handle_pipeline V query an c t =
     (if qa_subtasks an = []
      then Return (no_plan V PIPELINE query ''No pipeline steps could be planned for this query.'')
      else run_sequential_workers
             \<lparr>sq_world = pe_world V, sq_api = Some c, sq_run = pe_run V, sq_analysis = an, sq_mode = ''pipeline'',
              sq_stop = True, sq_cap = pe_cap V\<rparr>
             (pe_signals V) (pe_audit V) (pipeline_configs V (qa_subtasks an))
             (\<lambda>(rs, audit). Return (pipeline_result V query rs audit)))"

lemma map_numbered:
  assumes "\<And>i x. g (h i x) = g' x" and "length xs = n"
  shows "map g (map (\<lambda>(i, x). h i x) (zip [0..<n] xs)) = map g' xs"
  using assms by (intro nth_equalityI) auto

lemma pipeline_prompt_keeps [simp]:
  "cfg_worker_id (pipeline_prompt rs i c) = cfg_worker_id c"
  "cfg_depends_on (pipeline_prompt rs i c) = cfg_depends_on c"
  by (simp_all add: pipeline_prompt_def Let_def)

text \<open>The graph of a plan: that of the workers it is resolved to.\<close>

definition plan_graph :: "subtask list \<Rightarrow> (string \<times> string list) list" where
  "plan_graph sts = map (\<lambda>st. (st_worker_id st, st_depends_on st)) sts"

definition config_graph :: "worker_config list \<Rightarrow> (string \<times> string list) list" where
  "config_graph cs = map (\<lambda>c. (cfg_worker_id c, cfg_depends_on c)) cs"

lemma pattern_configs_graph: "config_graph (pattern_configs V sts) = plan_graph sts"
  by (simp add: config_graph_def plan_graph_def pattern_configs_def resolve_worker_configs_def resolve_one_def
      Let_def comp_def)

lemma pipeline_configs_graph: "config_graph (pipeline_configs V sts) = plan_graph sts"
proof -
  have "length (pattern_configs V sts) = length sts" by (metis length_map worker_ids_resolved)
  then show ?thesis
    unfolding pattern_configs_graph [of V, symmetric] pipeline_configs_def config_graph_def
    by (intro map_numbered) simp_all
qed

text \<open>A plan that can be run: distinct ids, known dependencies, no cycle.\<close>

definition plan_ok :: "(string \<times> string list) list \<Rightarrow> bool" where
  "plan_ok g \<longleftrightarrow> distinct (map fst g) \<and> list_all (\<lambda>(w, ds). set ds \<subseteq> fst ` set g) g
     \<and> acyclic {(d, w) | d w ds. (w, ds) \<in> set g \<and> d \<in> set ds}"

lemma plan_ok_configs:
  "plan_ok (config_graph cs) \<longleftrightarrow> distinct (map cfg_worker_id cs) \<and> deps_known cs \<and> acyclic (dep_rel cs)"
proof -
  have "{(d, w) | d w ds. (w, ds) \<in> set (config_graph cs) \<and> d \<in> set ds} = dep_rel cs"
    by (auto simp: config_graph_def dep_rel_def)
  then show ?thesis
    by (simp add: plan_ok_def config_graph_def deps_known_def list_all_iff image_image comp_def)
qed


lemma pipeline_result_facts:
  "er_workers (pipeline_result V query rs au) = rs"
  "er_success (pipeline_result V query rs au) \<longleftrightarrow> any_worker_succeeded rs"
  "any_worker_succeeded rs \<Longrightarrow>
     er_output (pipeline_result V query rs au) = wr_output (last (filter (\<lambda>w. wr_signal w = SUCCESS) rs))"
  "\<not> any_worker_succeeded rs \<Longrightarrow> er_error (pipeline_result V query rs au) \<noteq> None
     \<and> er_failure_class (pipeline_result V query rs au) = Some ''worker'' \<and> \<not> er_retryable (pipeline_result V query rs au)"
proof -
  have any: "filter (\<lambda>w. wr_signal w = SUCCESS) rs \<noteq> [] \<longleftrightarrow> any_worker_succeeded rs"
    by (auto simp: any_worker_succeeded_def list_ex_iff filter_empty_conv)
  show "er_workers (pipeline_result V query rs au) = rs"
    "er_success (pipeline_result V query rs au) \<longleftrightarrow> any_worker_succeeded rs"
    unfolding any [symmetric] by (simp_all add: pipeline_result_def execution_result_def exec_failure_kwargs_def
        failure_class_for_error_def Let_def)
  show "er_output (pipeline_result V query rs au) = wr_output (last (filter (\<lambda>w. wr_signal w = SUCCESS) rs))"
    if "any_worker_succeeded rs"
    using that any by (simp add: pipeline_result_def execution_result_def Let_def)
  show "er_error (pipeline_result V query rs au) \<noteq> None
     \<and> er_failure_class (pipeline_result V query rs au) = Some ''worker'' \<and> \<not> er_retryable (pipeline_result V query rs au)"
    if "\<not> any_worker_succeeded rs"
    using that any by (simp add: pipeline_result_def execution_result_def exec_failure_kwargs_def
        failure_class_for_error_def py_lower_def Let_def)
qed

text \<open>
  C12. A pipeline over a plan that can be run gives one result for each worker, in topological
  order, whatever the spawned runs do; after the first failed worker nothing runs. It succeeds
  exactly if some worker did, with the output of the last one that did; otherwise it carries an
  error and is classed as a failure of a worker that is not worth a retry.
\<close>

theorem pipeline_outcome:
  assumes "plan_ok (plan_graph (qa_subtasks an))" and "qa_subtasks an \<noteq> []"
    and "\<And>c. wr_worker_id (pe_run V c) = cfg_worker_id c"
  shows "\<exists>r order. run_prog d (handle_pipeline V query an c t) = Inr r
    \<and> topological_sort (pipeline_configs V (qa_subtasks an)) = Inr order
    \<and> mset (map cfg_worker_id order) = mset (map st_worker_id (qa_subtasks an)) \<and> deps_before order
    \<and> map wr_worker_id (er_workers r) = map cfg_worker_id order \<and> chain_stops (er_workers r)
    \<and> (er_success r \<longleftrightarrow> any_worker_succeeded (er_workers r))
    \<and> (er_success r \<longrightarrow> er_output r = wr_output (last (filter (\<lambda>w. wr_signal w = SUCCESS) (er_workers r))))
    \<and> (\<not> er_success r \<longrightarrow> er_error r \<noteq> None \<and> er_failure_class r = Some ''worker'' \<and> \<not> er_retryable r)"
proof -
  let ?cs = "pipeline_configs V (qa_subtasks an)"
  let ?E = "\<lparr>sq_world = pe_world V, sq_api = Some c, sq_run = pe_run V, sq_analysis = an, sq_mode = ''pipeline'',
              sq_stop = True, sq_cap = pe_cap V\<rparr>"
  have ok: "distinct (map cfg_worker_id ?cs)" "deps_known ?cs" "acyclic (dep_rel ?cs)"
    using assms(1) plan_ok_configs by (metis pipeline_configs_graph)+
  obtain order rs au where run: "run_prog d (run_sequential_workers ?E (pe_signals V) (pe_audit V) ?cs
        (\<lambda>(rs, audit). Return (pipeline_result V query rs audit))) = Inr (pipeline_result V query rs au)"
    and o: "topological_sort ?cs = Inr order" "mset order = mset ?cs" "deps_before order"
    and rs: "map wr_worker_id rs = map cfg_worker_id order" "chain_stops rs"
    using run_sequential_results [OF ok, of ?E d "pe_signals V" "pe_audit V"
        "\<lambda>(rs, audit). Return (pipeline_result V query rs audit)"] assms(3) by auto
  have "map cfg_worker_id ?cs = map st_worker_id (qa_subtasks an)"
    using arg_cong [OF pipeline_configs_graph, of "map fst" V "qa_subtasks an"]
    by (simp add: config_graph_def plan_graph_def comp_def)
  then have "mset (map cfg_worker_id order) = mset (map st_worker_id (qa_subtasks an))"
    using o(2) by (metis mset_map)
  moreover have "run_prog d (handle_pipeline V query an c t) = Inr (pipeline_result V query rs au)"
    using run assms(2) by (simp only: handle_pipeline_def if_False)
  ultimately show ?thesis
    using o rs pipeline_result_facts [where V = V and query = query and rs = rs and au = au]
    by (intro exI [of _ "pipeline_result V query rs au"] exI [of _ order]) simp
qed

section \<open>Planner and executor\<close>

definition planner_worker_prompt :: string where
  "planner_worker_prompt = join_with newline
     [''You are an execution specialist in a multi-step reasoning chain.'',
      ''You will receive the full execution history of all previous steps.'',
      ''Your job: reason from that history to accomplish your specific task.'',
      ''Build on prior findings '' @ em_dash @ '' do not repeat work already done.'',
      ''Be specific and actionable.'']"

definition planner_plan :: "subtask \<Rightarrow> subtask" where
  "planner_plan st = (if blank (st_system st) then st\<lparr>st_system := planner_worker_prompt\<rparr> else st)"

definition steps_text :: "worker_result list \<Rightarrow> string" where
  "steps_text rs = join_with (newline @ newline)
     (map (\<lambda>(i, r). ''Step '' @ digits (i + 1) @ '' '' @ em_dash @ '' '' @ wr_worker_id r @ '' | Status: ''
        @ signal_value (wr_signal r) @ newline @ ''Task  : '' @ wr_task r @ newline @ ''Result: '' @ wr_output r)
        (zip [0..<length rs] rs))"

definition synthesis_input :: "string \<Rightarrow> worker_result list \<Rightarrow> string" where
  "synthesis_input query rs =
     ''Original query: '' @ query @ newline @ newline @ ''Execution steps:'' @ newline @ steps_text rs
     @ newline @ newline @ ''Synthesize all results into a comprehensive final answer:''"

text \<open>The first of the longest outputs.\<close>

fun longest_output :: "worker_result \<Rightarrow> worker_result list \<Rightarrow> worker_result" where
  "longest_output b [] = b"
| "longest_output b (r # rs) = longest_output (if length (wr_output b) < length (wr_output r) then r else b) rs"

text \<open>\<open>llm\<close> answers a prompt with a text and its usage, or raises.\<close>

type_synonym synthesizer = "string \<Rightarrow> string + string \<times> int pydict"

definition synthesize :: "synthesizer \<Rightarrow> string \<Rightarrow> worker_result list \<Rightarrow> string \<times> bool \<times> int pydict" where
  "synthesize llm query rs =
     (case llm (synthesis_input query rs) of
        Inr (txt, usage) \<Rightarrow> (txt, False, usage)
      | Inl e \<Rightarrow>
          (case filter (\<lambda>r. wr_signal r = SUCCESS) rs of
             [] \<Rightarrow> (''All execution steps failed.'', True, [])
           | b # bs \<Rightarrow> (wr_output (longest_output b bs), True, [])))"

definition planner_result ::
    "pattern_env \<Rightarrow> synthesizer \<Rightarrow> string \<Rightarrow> worker_result list \<Rightarrow> agent_step list \<Rightarrow> exec_result" where
  "planner_result V llm query rs audit =
     (let (out, degraded, usage) = synthesize llm query rs;
          steps = audit @ map (end_step (pe_cap V)) rs
            @ [make_step Step_llm_call ''planner_synthesize'' query out (pe_cap V) [(''phase'', ''planner_synthesize'')]];
          u = worker_usage [] rs;
          err = (if \<not> any_worker_succeeded rs then Some all_workers_failed_error
                 else if degraded then Some ''SynthesisFailed'' else None)
      in execution_result PLANNER_EXECUTOR query out (steps_taken_from_audit steps)
           (pattern_synthesis_success rs degraded) err rs steps (if usage = [] then u else merge_token_usage u usage)
           [(''synthesis_degraded'', Meta_flag degraded)])"

definition handle_planner_executor :: "pattern_env \<Rightarrow> synthesizer \<Rightarrow> handler" where
  "handle_planner_executor V llm query an c t =
     (if qa_subtasks an = []
      then Return (no_plan V PLANNER_EXECUTOR query ''No execution steps could be planned for this query.'')
      else run_sequential_workers
             \<lparr>sq_world = pe_world V, sq_api = Some c, sq_run = pe_run V, sq_analysis = an,
              sq_mode = ''planner_executor'', sq_stop = False, sq_cap = pe_cap V\<rparr>
             (pe_signals V) (pe_audit V) (pattern_configs V (map planner_plan (qa_subtasks an)))
             (\<lambda>(rs, audit). Return (planner_result V llm query rs audit)))"

lemma planner_plan_graph: "plan_graph (map planner_plan sts) = plan_graph sts"
  by (simp add: plan_graph_def planner_plan_def)

lemma longest_output_in: "longest_output b rs \<in> set (b # rs)"
proof (induction rs arbitrary: b)
  case (Cons r rs)
  show ?case using Cons [of r] Cons [of b] by auto
qed simp

lemma longest_output_fallback:
  "filter (\<lambda>r. wr_signal r = SUCCESS) rs = b # bs \<Longrightarrow>
     wr_output (longest_output b bs) \<in> wr_output ` {w \<in> set rs. wr_signal w = SUCCESS}"
  using longest_output_in [of b bs] by (metis imageI mem_Collect_eq set_filter)

text \<open>
  C31. A planned chain over a plan that can be run gives one result for each worker, in
  topological order. Its answer counts as a success exactly if some worker succeeded and the
  synthesis was written by the model; a fallback answer is the output of a worker that succeeded,
  when there is one, and every failure carries its error.
\<close>

theorem planner_outcome:
  assumes "plan_ok (plan_graph (qa_subtasks an))" and "qa_subtasks an \<noteq> []"
    and "\<And>c. wr_worker_id (pe_run V c) = cfg_worker_id c"
  shows "\<exists>r order. run_prog d (handle_planner_executor V llm query an c t) = Inr r
    \<and> deps_before order \<and> mset (map cfg_worker_id order) = mset (map st_worker_id (qa_subtasks an))
    \<and> map wr_worker_id (er_workers r) = map cfg_worker_id order
    \<and> (er_success r \<longleftrightarrow> any_worker_succeeded (er_workers r)
         \<and> (\<exists>txt u. llm (synthesis_input query (er_workers r)) = Inr (txt, u) \<and> er_output r = txt))
    \<and> (\<not> er_success r \<and> any_worker_succeeded (er_workers r)
         \<longrightarrow> er_output r \<in> wr_output ` {w \<in> set (er_workers r). wr_signal w = SUCCESS})
    \<and> (\<not> er_success r \<longleftrightarrow> er_error r \<noteq> None)"
proof -
  let ?cs = "pattern_configs V (map planner_plan (qa_subtasks an))"
  let ?E = "\<lparr>sq_world = pe_world V, sq_api = Some c, sq_run = pe_run V, sq_analysis = an,
              sq_mode = ''planner_executor'', sq_stop = False, sq_cap = pe_cap V\<rparr>"
  have ok: "distinct (map cfg_worker_id ?cs)" "deps_known ?cs" "acyclic (dep_rel ?cs)"
    using assms(1) plan_ok_configs by (metis pattern_configs_graph planner_plan_graph)+
  obtain order rs au where run: "run_prog d (run_sequential_workers ?E (pe_signals V) (pe_audit V) ?cs
        (\<lambda>(rs, audit). Return (planner_result V llm query rs audit))) = Inr (planner_result V llm query rs au)"
    and o: "mset order = mset ?cs" "deps_before order" and rs: "map wr_worker_id rs = map cfg_worker_id order"
    using run_sequential_results [OF ok, of ?E d "pe_signals V" "pe_audit V"
        "\<lambda>(rs, audit). Return (planner_result V llm query rs audit)"] assms(3) by auto
  have "map cfg_worker_id ?cs = map st_worker_id (qa_subtasks an)"
    by (simp add: comp_def planner_plan_def)
  then have ids: "mset (map cfg_worker_id order) = mset (map st_worker_id (qa_subtasks an))"
    using o(1) by (metis mset_map)
  obtain out degraded usage where syn: "synthesize llm query rs = (out, degraded, usage)" by (metis surj_pair)
  have answer: "\<not> degraded \<longleftrightarrow> (\<exists>txt u. llm (synthesis_input query rs) = Inr (txt, u) \<and> out = txt)"
    "degraded \<and> any_worker_succeeded rs \<longrightarrow> out \<in> wr_output ` {w \<in> set rs. wr_signal w = SUCCESS}"
    using syn longest_output_fallback [of rs]
    by (auto simp: synthesize_def any_worker_succeeded_def list_ex_iff filter_empty_conv split: sum.splits list.splits)
  have r: "er_success (planner_result V llm query rs au) \<longleftrightarrow> any_worker_succeeded rs \<and> \<not> degraded"
    "er_output (planner_result V llm query rs au) = out" "er_workers (planner_result V llm query rs au) = rs"
    "er_error (planner_result V llm query rs au) = None \<longleftrightarrow> any_worker_succeeded rs \<and> \<not> degraded"
    using syn by (auto simp: planner_result_def execution_result_def pattern_synthesis_success_def Let_def)
  show ?thesis
  proof (intro exI [of _ "planner_result V llm query rs au"] exI [of _ order] conjI)
    show "run_prog d (handle_planner_executor V llm query an c t) = Inr (planner_result V llm query rs au)"
      using run assms(2) by (simp only: handle_planner_executor_def if_False)
  qed (use o ids rs answer in \<open>auto simp: r\<close>)
qed


section \<open>Examples and observations\<close>

definition demo_plan :: "subtask list" where
  "demo_plan =
     [\<lparr>st_worker_id = ''b'', st_task = ''write'', st_tools = [], st_depends_on = [''a''], st_system = [], st_context = []\<rparr>,
      \<lparr>st_worker_id = ''a'', st_task = ''read'', st_tools = [], st_depends_on = [], st_system = [], st_context = []\<rparr>]"

definition demo_settings :: resolve_settings where
  "demo_settings =
     \<lparr>rs_tools = [], rs_focus = [], rs_system = None, rs_recursion = None, rs_timeout = 120, rs_max_retries = 2,
      rs_retry_delay = 1\<rparr>"

text \<open>A worker model in which \<open>b\<close> fails, and one in which all succeed.\<close>

definition b_fails :: "worker_config \<Rightarrow> worker_result" where
  "b_fails c = (if cfg_worker_id c = ''b'' then worker_row c [] FAILED (Some ''boom'') 3
                else worker_row c ''notes'' SUCCESS None 1)"

definition demo_env :: "(worker_config \<Rightarrow> worker_result) \<Rightarrow> pattern_env" where
  "demo_env run =
     \<lparr>pe_world = demo_orch 2 1, pe_resolve = demo_settings, pe_needs = (\<lambda>_. False), pe_run = run,
      pe_signals = None, pe_audit = [], pe_cap = 0\<rparr>"

definition demo_turn :: query_analysis where
  "demo_turn = (plain_analysis PIPELINE [])\<lparr>qa_subtasks := demo_plan\<rparr>"

definition demo_context :: orch_context where
  "demo_context = fresh_orchestration_context (demo_agent 2 1) ''go'' None"

lemma demo_plan_ok: "plan_ok (plan_graph demo_plan)"
proof -
  let ?a = "demo_worker ''a'' []" and ?b = "demo_worker ''b'' [''a'']"
  have "plan_graph demo_plan = config_graph [?b, ?a]"
    by (simp add: plan_graph_def config_graph_def demo_plan_def demo_worker_def)
  moreover have "acyclic (dep_rel [?a, ?b])"
    by (rule deps_before_acyclic) (simp_all add: deps_before_def demo_worker_def less_Suc_eq)
  then have "acyclic (dep_rel [?b, ?a])" by (simp add: dep_rel_def insert_commute)
  ultimately show ?thesis by (simp add: plan_ok_configs) (simp add: demo_worker_def deps_known_def)
qed

lemma demo_turn_plan: "plan_ok (plan_graph (qa_subtasks demo_turn))" "qa_subtasks demo_turn \<noteq> []"
  using demo_plan_ok by (simp_all add: demo_turn_def plain_analysis_def) (simp add: demo_plan_def)

lemma b_fails_id: "wr_worker_id (b_fails c) = cfg_worker_id c"
  by (simp add: b_fails_def worker_row_def)

theorem pipeline_outcome_witness:
  "\<exists>r. run_prog (\<lambda>_. Inl OutOfFuel) (handle_pipeline (demo_env b_fails) ''go'' demo_turn demo_context 120) = Inr r
     \<and> chain_stops (er_workers r) \<and> length (er_workers r) = 2"
proof -
  have "\<And>c. wr_worker_id (pe_run (demo_env b_fails) c) = cfg_worker_id c" by (simp add: demo_env_def b_fails_id)
  from pipeline_outcome [OF demo_turn_plan this, of "\<lambda>_. Inl OutOfFuel" "''go''" demo_context 120] obtain r
    and order :: "worker_config list" where r: "run_prog (\<lambda>_. Inl OutOfFuel) (handle_pipeline (demo_env b_fails) ''go'' demo_turn demo_context 120) = Inr r"
      "chain_stops (er_workers r)" "map wr_worker_id (er_workers r) = map cfg_worker_id order"
      "mset (map cfg_worker_id order) = mset (map st_worker_id (qa_subtasks demo_turn))"
    by (elim exE conjE) (rule that, assumption+)
  have "length (er_workers r) = length (qa_subtasks demo_turn)"
    using r(3,4) by (metis length_map size_mset)
  then show ?thesis using r by (simp add: demo_turn_def demo_plan_def plain_analysis_def)
qed

theorem planner_outcome_witness:
  "\<exists>r. run_prog (\<lambda>_. Inl OutOfFuel)
         (handle_planner_executor (demo_env b_fails) (\<lambda>_. Inl ''busy'') ''go'' demo_turn demo_context 120) = Inr r
     \<and> (er_success r \<longleftrightarrow> er_error r = None)"
proof -
  have "\<And>c. wr_worker_id (pe_run (demo_env b_fails) c) = cfg_worker_id c" by (simp add: demo_env_def b_fails_id)
  from planner_outcome [OF demo_turn_plan this, of "\<lambda>_. Inl OutOfFuel" "\<lambda>_. Inl ''busy''" "''go''" demo_context 120]
  obtain r where "run_prog (\<lambda>_. Inl OutOfFuel)
         (handle_planner_executor (demo_env b_fails) (\<lambda>_. Inl ''busy'') ''go'' demo_turn demo_context 120) = Inr r"
    "\<not> er_success r \<longleftrightarrow> er_error r \<noteq> None"
    by (elim exE conjE) (rule that, assumption+)
  then show ?thesis by (intro exI [of _ r] conjI) (assumption, blast)
qed

text \<open>
  A pipeline whose last step failed is reported as a success, with the output of an earlier step
  as its answer and no error.
\<close>

lemma pipeline_hides_failed_step:
  "case run_prog (\<lambda>_. Inl OutOfFuel) (handle_pipeline (demo_env b_fails) ''go'' demo_turn demo_context 120) of
     Inr r \<Rightarrow> er_success r \<and> er_output r = ''notes'' \<and> er_error r = None
       \<and> map wr_signal (er_workers r) = [SUCCESS, FAILED]
   | Inl _ \<Rightarrow> False"
  by code_simp

text \<open>A planned step sees the results of its direct dependencies, not the whole history.\<close>

lemma planner_sees_dependencies_only:
  assumes "sq_mode E = ''planner_executor''" and "cfg_depends_on c = []"
  shows "prepare_step E results c = c"
  using assms by (simp add: prepare_step_def inject_planner_context_def List.map_filter_def)

text \<open>With an empty trail the entries of the steps are written to a list nobody reads.\<close>

lemma empty_audit_stays_empty: "audit_step cap c r [] = []"
  by (simp add: audit_step_def)

text \<open>
  The prompt of a pipeline step sees every successful dependency, and no output of a worker that
  did not succeed.
\<close>

lemma pipeline_input_from_successes:
  assumes "sq_mode E = ''pipeline''" and "\<forall>d\<in>set (cfg_depends_on c). \<forall>r. map_of results d = Some r \<longrightarrow> wr_signal r \<noteq> SUCCESS"
  shows "prepare_step E results c = c"
proof -
  have "filter (\<lambda>r. wr_signal r = SUCCESS) (List.map_filter (map_of results) (cfg_depends_on c)) = []"
    using assms(2) by (auto simp: List.map_filter_def filter_empty_conv)
  then show ?thesis using assms(1) by (simp add: prepare_step_def)
qed

end
