(* ===== verification/Blackboard.thy ===== *)
theory Blackboard
  imports Sequential_Patterns
begin

text \<open>
  The BLACKBOARD pattern: the board (\<open>src/agloom/patterns/_blackboard_state.py\<close>) and the loop of
  \<open>handle_blackboard\<close> (\<open>patterns/blackboard.py\<close>), which runs in every round the knowledge sources
  whose dependencies have been attempted.

  The lemmas show the invariant of the board and that the rounds are the levels of
  \<open>group_by_level\<close>: without a halt the sources run level by level, as many levels as there are
  rounds, and with one a prefix of that.
\<close>

section \<open>The board\<close>

record board_entry =
  be_round :: nat
  be_ks :: string
  be_slot :: string
  be_ok :: bool
  be_text :: string

record board =
  bd_goal :: string
  bd_slots :: "string option pydict"
  bd_failed :: "string pydict"
  bd_attempted :: "string list"
  bd_history :: "board_entry list"
  bd_round :: nat
  bd_filled :: "string list"

definition fresh_board :: "string \<Rightarrow> string list \<Rightarrow> board" where
  "fresh_board goal names =
     \<lparr>bd_goal = goal, bd_slots = map (\<lambda>n. (n, None)) (remdups names), bd_failed = [], bd_attempted = [],
      bd_history = [], bd_round = 0, bd_filled = []\<rparr>"

definition first_line :: "string \<Rightarrow> string" where
  "first_line txt = py_lower (py_strip (takeWhile (\<lambda>c. c \<noteq> CHR 0x0A) txt))"

text \<open>\<open>_value_marks_explicit_ks_failure\<close>: an output that says itself that the source failed.\<close>

definition marks_failure :: "string \<Rightarrow> bool" where
  "marks_failure value =
     (let txt = py_strip value; line = first_line txt
      in if txt = [] then True
         else if startswith line ''failed:'' \<or> startswith line ''failure:'' then True
         else if startswith line ''error:'' then
           (let tail = py_strip (drop 6 line)
            in if tail = [] then True
               else \<not> list_ex (contains_sub tail) [''success'', ''completed'', ''ok'', ''done'', ''passed''])
         else False)"

definition mark_failed :: "string \<Rightarrow> string \<Rightarrow> string \<Rightarrow> board \<Rightarrow> board" where
  "mark_failed slot err ks b =
     b\<lparr>bd_failed := AList.update slot err (bd_failed b), bd_attempted := List.insert slot (bd_attempted b),
       bd_history := bd_history b @
         [\<lparr>be_round = bd_round b, be_ks = ks, be_slot = slot, be_ok = False, be_text = err\<rparr>]\<rparr>"

definition board_write :: "string \<Rightarrow> string \<Rightarrow> string \<Rightarrow> board \<Rightarrow> board" where
  "board_write slot value ks b =
     (if marks_failure value
      then mark_failed slot (if blank value then ''empty or missing KS output'' else py_strip value) ks b
      else b\<lparr>bd_slots := AList.update slot (Some value) (bd_slots b),
             bd_filled := List.insert slot (bd_filled b), bd_attempted := List.insert slot (bd_attempted b),
             bd_failed := AList.delete slot (bd_failed b),
             bd_history := bd_history b @
               [\<lparr>be_round = bd_round b, be_ks = ks, be_slot = slot, be_ok = True, be_text = value\<rparr>]\<rparr>)"

definition board_read :: "string \<Rightarrow> board \<Rightarrow> string option" where
  "board_read slot b = (case map_of (bd_slots b) slot of Some v \<Rightarrow> v | None \<Rightarrow> None)"

definition is_complete :: "board \<Rightarrow> bool" where
  "is_complete b \<longleftrightarrow> length (bd_slots b) \<le> length (bd_attempted b)"

definition unfilled_slots :: "board \<Rightarrow> string list" where
  "unfilled_slots b = filter (\<lambda>k. k \<notin> set (bd_filled b)) (map fst (bd_slots b))"

definition py_upper :: "string \<Rightarrow> string" where
  "py_upper s = map py_upper_char s"

definition slot_text :: "string option \<Rightarrow> string" where
  "slot_text v = (case v of None \<Rightarrow> ''None'' | Some s \<Rightarrow> s)"

text \<open>The status marks are U+2705, U+274C and U+2B1C in UTF-8.\<close>

definition snapshot_slot :: "board \<Rightarrow> string \<times> string option \<Rightarrow> string list" where
  "snapshot_slot b kv =
     (let k = fst kv;
          (status, value) =
            (if k \<in> set (bd_filled b) then ([CHR 0xE2, CHR 0x9C, CHR 0x85] @ '' FILLED'', snd kv)
             else case map_of (bd_failed b) k of
                    Some e \<Rightarrow> ([CHR 0xE2, CHR 0x9D, CHR 0x8C] @ '' FAILED'', Some (''FAILED: '' @ e))
                  | None \<Rightarrow> ([CHR 0xE2, CHR 0xAC, CHR 0x9C] @ '' EMPTY'', None))
      in [''['' @ status @ ''] '' @ py_upper k @ '':'',
          (case value of Some v \<Rightarrow> ''  '' @ take 300 v | None \<Rightarrow> ''  (not yet filled)'')])"

definition board_snapshot :: "board \<Rightarrow> string" where
  "board_snapshot b =
     join_with newline ([''GOAL: '' @ bd_goal b, []] @ concat (map (snapshot_slot b) (bd_slots b)))"

definition synthesis_snapshot :: "board \<Rightarrow> string" where
  "synthesis_snapshot b = join_with newline ([''GOAL: '' @ bd_goal b, []] @
     (if bd_filled b = [] then [''(no successful Knowledge Source outputs)'']
      else concat (map (\<lambda>(k, v). [''['' @ py_upper k @ '']:'', ''  '' @ take 2000 (slot_text v)])
             (filter (\<lambda>(k, v). k \<in> set (bd_filled b)) (bd_slots b)))))"

text \<open>
  What a board keeps: an attempted slot is filled or failed and never both, and exactly the
  filled ones have a value; there is one entry of the history for each attempt.
\<close>

definition board_inv :: "board \<Rightarrow> bool" where
  "board_inv b \<longleftrightarrow>
     distinct (bd_attempted b) \<and> distinct (bd_filled b) \<and> distinct (map fst (bd_slots b))
     \<and> set (bd_attempted b) \<subseteq> fst ` set (bd_slots b)
     \<and> set (bd_filled b) \<union> fst ` set (bd_failed b) = set (bd_attempted b)
     \<and> set (bd_filled b) \<inter> fst ` set (bd_failed b) = {}
     \<and> (\<forall>k. board_read k b \<noteq> None \<longleftrightarrow> k \<in> set (bd_filled b))
     \<and> length (bd_history b) = length (bd_attempted b)
     \<and> be_slot ` set (filter be_ok (bd_history b)) = set (bd_filled b)"

lemma fresh_board_inv: "board_inv (fresh_board goal names)"
proof -
  have "map_of (map (\<lambda>n. (n, None :: string option)) xs) k = (if k \<in> set xs then Some None else None)" for xs :: "string list" and k
    by (induction xs) auto
  then show ?thesis by (simp add: board_inv_def fresh_board_def board_read_def comp_def)
qed

lemma update_fst: "fst ` set (AList.update k v xs) = insert k (fst ` set xs)"
  by (induction xs) auto

lemma delete_fst: "fst ` set (AList.delete k xs) = fst ` set xs - {k}"
  by (induction xs) auto

lemma mark_failed_inv:
  assumes "board_inv b" and "slot \<notin> set (bd_attempted b)" and "slot \<in> fst ` set (bd_slots b)"
  shows "board_inv (mark_failed slot err ks b)"
  using assms by (auto simp: board_inv_def mark_failed_def board_read_def update_fst)

lemma board_write_inv:
  assumes inv: "board_inv b" and new: "slot \<notin> set (bd_attempted b)" "slot \<in> fst ` set (bd_slots b)"
  shows "board_inv (board_write slot value ks b)"
proof (cases "marks_failure value")
  case True
  then show ?thesis using mark_failed_inv [OF assms] by (simp add: board_write_def)
next
  case False
  define c where "c = board_write slot value ks b"
  have c: "bd_slots c = AList.update slot (Some value) (bd_slots b)" "bd_filled c = List.insert slot (bd_filled b)"
    "bd_attempted c = List.insert slot (bd_attempted b)" "bd_failed c = AList.delete slot (bd_failed b)"
    "bd_history c = bd_history b @
       [\<lparr>be_round = bd_round b, be_ks = ks, be_slot = slot, be_ok = True, be_text = value\<rparr>]"
    using False by (simp_all add: c_def board_write_def)
  have "board_read k c = (if k = slot then Some value else board_read k b)" for k
    by (simp add: board_read_def c update_conv')
  moreover have "distinct (map fst (bd_slots c))"
    using inv by (simp add: board_inv_def c distinct_update)
  moreover have "be_slot ` set (filter be_ok (bd_history c)) = insert slot (be_slot ` set (filter be_ok (bd_history b)))"
    by (simp add: c)
  moreover have "slot \<notin> set (bd_filled b)" "slot \<notin> fst ` set (bd_failed b)"
    using inv new by (auto simp: board_inv_def)
  moreover have "length (bd_history c) = length (bd_attempted c)" "distinct (bd_attempted c)" "distinct (bd_filled c)"
    using inv new(1) by (simp_all add: board_inv_def c)
  moreover have "set (bd_attempted c) \<subseteq> fst ` set (bd_slots c)"
    "set (bd_filled c) \<union> fst ` set (bd_failed c) = set (bd_attempted c)"
    "set (bd_filled c) \<inter> fst ` set (bd_failed c) = {}"
    using inv calculation(4,5) unfolding c delete_fst update_fst board_inv_def by auto
  ultimately have "board_inv c"
    using inv unfolding board_inv_def by (simp add: c(2))
  then show ?thesis by (simp add: c_def)
qed


section \<open>The loop\<close>

text \<open>
  What the queue of signals holds around one run: the batch drained before, those polled while the
  source runs (until it is done), and the batch drained after.
\<close>

record ks_signals =
  kg_before :: "queue_item list"
  kg_during :: "queue_item list list"
  kg_after :: "queue_item list"

definition halts_in :: "queue_item list \<Rightarrow> bool" where
  "halts_in batch = fst (drain_for_halt None [] batch)"

record bb_state =
  bs_board :: board
  bs_results :: "worker_result list"
  bs_signals :: "ks_signals list"
  bs_halted :: bool

text \<open>The context of a source: its own, with the board and the goal.\<close>

definition enrich :: "string \<Rightarrow> board \<Rightarrow> worker_config \<Rightarrow> worker_config" where
  "enrich query b cfg =
     cfg\<lparr>cfg_context := AList.update ''goal'' query (AList.update ''board_snapshot'' (board_snapshot b) (cfg_context cfg))\<rparr>"

definition cancelled_source :: "worker_config \<Rightarrow> worker_result" where
  "cancelled_source = halted_worker_result (''Cancelled '' @ em_dash @ '' HALT_ALL during Knowledge Source run.'') ''HALT_ALL''"

definition record_outcome :: "worker_config \<Rightarrow> worker_result \<Rightarrow> board \<Rightarrow> board" where
  "record_outcome cfg r b =
     (if wr_signal r = SUCCESS then board_write (cfg_worker_id cfg) (wr_output r) (cfg_worker_id cfg) b
      else mark_failed (cfg_worker_id cfg)
             (case wr_error r of None \<Rightarrow> ''unknown error'' | Some e \<Rightarrow> if e = [] then ''unknown error'' else e)
             (cfg_worker_id cfg) b)"

definition no_signals :: ks_signals where
  "no_signals = \<lparr>kg_before = [], kg_during = [], kg_after = []\<rparr>"

definition run_source ::
    "string \<Rightarrow> (worker_config \<Rightarrow> worker_result) \<Rightarrow> worker_config \<Rightarrow> bb_state \<Rightarrow> bb_state" where
  "run_source query run cfg s =
     (let g = (case bs_signals s of [] \<Rightarrow> no_signals | x # _ \<Rightarrow> x);
          s1 = s\<lparr>bs_signals := drop 1 (bs_signals s)\<rparr>
      in if halts_in (kg_before g) then s1\<lparr>bs_halted := True\<rparr>
         else let c = enrich query (bs_board s) cfg;
                  mid = list_ex halts_in (kg_during g);
                  r = (if mid then cancelled_source c else run c)
              in s1\<lparr>bs_board := record_outcome cfg r (bs_board s), bs_results := bs_results s @ [r],
                    bs_halted := (mid \<or> halts_in (kg_after g))\<rparr>)"

fun run_eligible ::
    "string \<Rightarrow> (worker_config \<Rightarrow> worker_result) \<Rightarrow> worker_config list \<Rightarrow> bb_state \<Rightarrow> bb_state" where
  "run_eligible query run [] s = s"
| "run_eligible query run (c # cs) s =
     (let s' = run_source query run c s in if bs_halted s' then s' else run_eligible query run cs s')"

definition eligible_sources :: "worker_config list \<Rightarrow> board \<Rightarrow> worker_config list" where
  "eligible_sources cs b =
     filter (\<lambda>c. cfg_worker_id c \<notin> set (bd_attempted b)
       \<and> list_all (\<lambda>d. d \<in> set (bd_attempted b)) (cfg_depends_on c)) cs"

text \<open>The rounds still allowed; the round number counts up.\<close>

fun run_rounds ::
    "string \<Rightarrow> (worker_config \<Rightarrow> worker_result) \<Rightarrow> worker_config list \<Rightarrow> nat \<Rightarrow> nat \<Rightarrow> bb_state \<Rightarrow> bb_state" where
  "run_rounds query run cs i 0 s = s"
| "run_rounds query run cs i (Suc n) s =
     (let s1 = s\<lparr>bs_board := (bs_board s)\<lparr>bd_round := i\<rparr>\<rparr>;
          el = eligible_sources cs (bs_board s1)
      in if el = [] then s1
         else let s2 = run_eligible query run el s1
              in if bs_halted s2 \<or> is_complete (bs_board s2) then s2
                 else run_rounds query run cs (Suc i) n s2)"

definition max_rounds :: nat where
  "max_rounds = 10"

definition run_board ::
    "string \<Rightarrow> (worker_config \<Rightarrow> worker_result) \<Rightarrow> nat option \<Rightarrow> ks_signals list \<Rightarrow> worker_config list \<Rightarrow> bb_state" where
  "run_board query run rounds signals cs =
     run_rounds query run cs 0 (case rounds of None \<Rightarrow> max_rounds | Some n \<Rightarrow> n)
       \<lparr>bs_board = fresh_board query (map cfg_worker_id cs), bs_results = [], bs_signals = signals, bs_halted = False\<rparr>"

section \<open>Rounds and levels\<close>

text \<open>
  What holds between runs: the board is in order, its slots are the sources, and the attempted
  slots are those of the results, in order.
\<close>

definition bb_inv :: "worker_config list \<Rightarrow> bb_state \<Rightarrow> bool" where
  "bb_inv cs s \<longleftrightarrow> board_inv (bs_board s)
     \<and> fst ` set (bd_slots (bs_board s)) = cfg_worker_id ` set cs
     \<and> set (bd_attempted (bs_board s)) = wr_worker_id ` set (bs_results s)"

lemma record_outcome_inv:
  assumes "board_inv b" and "cfg_worker_id c \<notin> set (bd_attempted b)" "cfg_worker_id c \<in> fst ` set (bd_slots b)"
  shows "board_inv (record_outcome c r b)"
    "fst ` set (bd_slots (record_outcome c r b)) = fst ` set (bd_slots b)"
    "set (bd_attempted (record_outcome c r b)) = insert (cfg_worker_id c) (set (bd_attempted b))"
  using assms mark_failed_inv board_write_inv
  by (auto simp: record_outcome_def board_write_def mark_failed_def update_fst)

lemma run_source_cases:
  assumes "\<And>c. wr_worker_id (run c) = cfg_worker_id c"
  obtains "run_source query run c s = s\<lparr>bs_signals := drop 1 (bs_signals s), bs_halted := True\<rparr>" "bs_signals s \<noteq> []"
  | r h where "wr_worker_id r = cfg_worker_id c" "h \<longrightarrow> bs_signals s \<noteq> []"
    "run_source query run c s = s\<lparr>bs_signals := drop 1 (bs_signals s), bs_board := record_outcome c r (bs_board s),
       bs_results := bs_results s @ [r], bs_halted := h\<rparr>"
proof -
  let ?g = "case bs_signals s of [] \<Rightarrow> no_signals | x # _ \<Rightarrow> x"
  let ?c = "enrich query (bs_board s) c"
  let ?r = "if list_ex halts_in (kg_during ?g) then cancelled_source ?c else run ?c"
  have quiet: "\<not> halts_in []" by (simp add: halts_in_def drain_for_halt_def)
  have some: "bs_signals s \<noteq> []" if "halts_in (kg_before ?g) \<or> list_ex halts_in (kg_during ?g) \<or> halts_in (kg_after ?g)"
    using that quiet by (auto simp: no_signals_def split: list.splits)
  have "wr_worker_id ?r = cfg_worker_id c"
    using assms by (simp add: enrich_def cancelled_source_def halted_worker_result_def worker_row_def)
  then show ?thesis
    using that(1) that(2) [of ?r "list_ex halts_in (kg_during ?g) \<or> halts_in (kg_after ?g)"] some
    by (cases "halts_in (kg_before ?g)") (auto simp: run_source_def Let_def)
qed

lemma run_eligible_prefix:
  assumes ids: "\<And>c. wr_worker_id (run c) = cfg_worker_id c"
    and inv: "bb_inv ks s" and new: "distinct (map cfg_worker_id cs)" "set cs \<subseteq> set ks"
      "cfg_worker_id ` set cs \<inter> set (bd_attempted (bs_board s)) = {}" and on: "\<not> bs_halted s"
  shows "bb_inv ks (run_eligible query run cs s)
    \<and> (\<exists>n. map wr_worker_id (bs_results (run_eligible query run cs s))
        = map wr_worker_id (bs_results s) @ map cfg_worker_id (take n cs)
        \<and> (\<not> bs_halted (run_eligible query run cs s) \<longrightarrow> n = length cs))
    \<and> (bs_signals s = [] \<longrightarrow> bs_signals (run_eligible query run cs s) = [] \<and> \<not> bs_halted (run_eligible query run cs s))"
  using inv new on
proof (induction cs arbitrary: s)
  case (Cons c cs)
  from run_source_cases [OF ids, of query c s] show ?case
  proof cases
    case 1
    then show ?thesis using Cons.prems(1)
      by (auto simp: bb_inv_def intro: exI [of _ 0])
  next
    case (2 r h)
    let ?s = "run_source query run c s"
    have new: "cfg_worker_id c \<notin> set (bd_attempted (bs_board s))"
      "cfg_worker_id c \<in> fst ` set (bd_slots (bs_board s))"
      using Cons.prems by (auto simp: bb_inv_def)
    have inv: "bb_inv ks ?s"
      using Cons.prems(1) record_outcome_inv [OF _ new] 2 by (simp add: bb_inv_def)
    show ?thesis
    proof (cases h)
      case True
      then show ?thesis using inv 2 by (auto intro: exI [of _ 1])
    next
      case False
      have "set (bd_attempted (bs_board ?s)) = insert (cfg_worker_id c) (set (bd_attempted (bs_board s)))"
        using record_outcome_inv(3) [OF _ new] Cons.prems(1) 2 by (simp add: bb_inv_def)
      then have "cfg_worker_id ` set cs \<inter> set (bd_attempted (bs_board ?s)) = {}"
        using Cons.prems(2,4) by auto
      then have IH: "bb_inv ks (run_eligible query run cs ?s)
        \<and> (\<exists>n. map wr_worker_id (bs_results (run_eligible query run cs ?s))
            = map wr_worker_id (bs_results ?s) @ map cfg_worker_id (take n cs)
            \<and> (\<not> bs_halted (run_eligible query run cs ?s) \<longrightarrow> n = length cs))
        \<and> (bs_signals ?s = [] \<longrightarrow> bs_signals (run_eligible query run cs ?s) = []
             \<and> \<not> bs_halted (run_eligible query run cs ?s))"
        using Cons.IH [OF inv] Cons.prems 2(3) False by simp
      then obtain n where n: "map wr_worker_id (bs_results (run_eligible query run cs ?s))
            = map wr_worker_id (bs_results ?s) @ map cfg_worker_id (take n cs)"
          "\<not> bs_halted (run_eligible query run cs ?s) \<longrightarrow> n = length cs" by blast
      have "run_eligible query run (c # cs) s = run_eligible query run cs ?s" using 2(3) False by simp
      moreover have "map wr_worker_id (bs_results ?s) = map wr_worker_id (bs_results s) @ [cfg_worker_id c]"
        using 2 by simp
      moreover have "bs_signals s = [] \<longrightarrow> bs_signals ?s = []" using 2(3) by simp
      ultimately show ?thesis using IH n by (auto intro!: exI [of _ "Suc n"])
    qed
  qed
qed (auto intro: exI [of _ 0])


text \<open>The level of a source in a level map, and the sources of the levels from \<open>i\<close> on.\<close>

definition lev :: "level_map \<Rightarrow> worker_config \<Rightarrow> nat" where
  "lev lm c = the (map_of lm (cfg_worker_id c))"

definition at_level :: "level_map \<Rightarrow> worker_config list \<Rightarrow> nat \<Rightarrow> worker_config list" where
  "at_level lm cs i = filter (\<lambda>c. lev lm c = i) cs"

definition levels_map :: "level_map \<Rightarrow> worker_config list \<Rightarrow> bool" where
  "levels_map lm cs \<longleftrightarrow> distinct (map cfg_worker_id cs) \<and> (\<forall>c\<in>set cs. placed_ok lm c)
     \<and> dom (map_of lm) = cfg_worker_id ` set cs"

definition attempted_below :: "level_map \<Rightarrow> worker_config list \<Rightarrow> nat \<Rightarrow> string set" where
  "attempted_below lm cs i = cfg_worker_id ` {c \<in> set cs. lev lm c < i}"

lemma attempted_below_id:
  assumes "levels_map lm cs" and "c \<in> set cs"
  shows "cfg_worker_id c \<in> attempted_below lm cs i \<longleftrightarrow> lev lm c < i"
  using assms by (auto simp: attempted_below_def levels_map_def distinct_map dest: inj_onD)

lemma dep_level:
  assumes "levels_map lm cs" "c \<in> set cs" "d \<in> set (cfg_depends_on c)"
  shows "\<exists>e\<in>set cs. d = cfg_worker_id e \<and> lev lm e < lev lm c"
proof -
  have "map_of lm d \<noteq> None" using assms by (auto simp: levels_map_def placed_ok_def list_all_iff)
  then obtain e where "e \<in> set cs" "d = cfg_worker_id e" using assms(1) by (auto simp: levels_map_def)
  then show ?thesis
    using placed_ok_edge [of lm c d] assms by (auto simp: levels_map_def lev_def)
qed

lemma level_above:
  assumes "levels_map lm cs" "c \<in> set cs" "lev lm c = Suc l"
  shows "\<exists>e\<in>set cs. lev lm e = l \<and> cfg_worker_id e \<in> set (cfg_depends_on c)"
proof -
  have w: "wanted_level lm c = Suc l"
    using assms by (auto simp: levels_map_def placed_ok_def lev_def)
  then have ne: "cfg_depends_on c \<noteq> []" "deepest_dep lm (cfg_depends_on c) = l"
    by (auto simp: wanted_level_def split: if_splits)
  then have "l \<in> (\<lambda>d. the (map_of lm d)) ` set (cfg_depends_on c)"
    using Max_in [of "(\<lambda>d. the (map_of lm d)) ` set (cfg_depends_on c)"] by (simp add: deepest_dep_def)
  then obtain d where d: "d \<in> set (cfg_depends_on c)" "the (map_of lm d) = l" by blast
  then show ?thesis using dep_level [OF assms(1,2)] by (force simp: lev_def)
qed

lemma eligible_level:
  assumes lm: "levels_map lm cs" and att: "set (bd_attempted b) = attempted_below lm cs i"
  shows "eligible_sources cs b = at_level lm cs i"
  unfolding eligible_sources_def at_level_def
proof (rule filter_cong [OF refl])
  fix c assume c: "c \<in> set cs"
  have "list_all (\<lambda>d. d \<in> set (bd_attempted b)) (cfg_depends_on c) \<longleftrightarrow> lev lm c \<le> i"
  proof
    assume all: "list_all (\<lambda>d. d \<in> set (bd_attempted b)) (cfg_depends_on c)"
    show "lev lm c \<le> i"
    proof (cases "lev lm c")
      case (Suc l)
      then obtain e where "e \<in> set cs" "lev lm e = l" "cfg_worker_id e \<in> set (cfg_depends_on c)"
        using level_above lm c by blast
      then show ?thesis using all Suc attempted_below_id [OF lm] by (auto simp: list_all_iff att)
    qed simp
  next
    assume le: "lev lm c \<le> i"
    show "list_all (\<lambda>d. d \<in> set (bd_attempted b)) (cfg_depends_on c)"
    proof (simp add: list_all_iff att, rule ballI)
      fix d assume "d \<in> set (cfg_depends_on c)"
      then obtain e where "e \<in> set cs" "d = cfg_worker_id e" "lev lm e < lev lm c"
        using dep_level lm c by blast
      then show "d \<in> attempted_below lm cs i" using le attempted_below_id [OF lm] by simp
    qed
  qed
  then show "(cfg_worker_id c \<notin> set (bd_attempted b) \<and> list_all (\<lambda>d. d \<in> set (bd_attempted b)) (cfg_depends_on c))
      \<longleftrightarrow> lev lm c = i"
    using attempted_below_id [OF lm c, of i] by (simp only: att) linarith
qed

lemma empty_level_last:
  assumes lm: "levels_map lm cs" and "at_level lm cs i = []" and "i \<le> j"
  shows "at_level lm cs j = []"
  using assms(3)
proof (induction rule: dec_induct)
  case (step j)
  show ?case
    using level_above [OF lm] step.IH by (fastforce simp: at_level_def filter_empty_conv)
qed (rule assms(2))

lemma concat_levels_empty:
  assumes "levels_map lm cs" and "at_level lm cs i = []"
  shows "concat (map (at_level lm cs) [i..<j]) = []"
  using empty_level_last [OF assms] by simp

lemma attempted_below_Suc:
  "attempted_below lm cs (Suc i) = attempted_below lm cs i \<union> cfg_worker_id ` set (at_level lm cs i)"
  by (auto simp: attempted_below_def at_level_def less_Suc_eq)

lemma board_inv_round: "board_inv (b\<lparr>bd_round := i\<rparr>) = board_inv b"
  by (simp add: board_inv_def board_read_def)

lemma complete_attempted:
  assumes "board_inv b" and "is_complete b"
  shows "set (bd_attempted b) = fst ` set (bd_slots b)"
proof (rule card_seteq)
  show "card (fst ` set (bd_slots b)) \<le> card (set (bd_attempted b))"
    using assms by (metis board_inv_def distinct_card is_complete_def length_map set_map)
qed (use assms(1) in \<open>auto simp: board_inv_def\<close>)

lemma run_rounds_levels:
  assumes ids: "\<And>c. wr_worker_id (run c) = cfg_worker_id c" and lm: "levels_map lm cs"
    and "bb_inv cs s" "\<not> bs_halted s" "set (bd_attempted (bs_board s)) = attempted_below lm cs i"
  shows "bb_inv cs (run_rounds query run cs i n s)
    \<and> prefix (map wr_worker_id (bs_results (run_rounds query run cs i n s)))
        (map wr_worker_id (bs_results s) @ map cfg_worker_id (concat (map (at_level lm cs) [i..<i + n])))
    \<and> (bs_signals s = [] \<longrightarrow> map wr_worker_id (bs_results (run_rounds query run cs i n s))
        = map wr_worker_id (bs_results s) @ map cfg_worker_id (concat (map (at_level lm cs) [i..<i + n])))"
  using assms(3-5)
proof (induction n arbitrary: i s)
  case (Suc n)
  define s1 where "s1 = s\<lparr>bs_board := (bs_board s)\<lparr>bd_round := i\<rparr>\<rparr>"
  have s1: "bb_inv cs s1" "\<not> bs_halted s1" "bs_results s1 = bs_results s" "bs_signals s1 = bs_signals s"
    "set (bd_attempted (bs_board s1)) = attempted_below lm cs i"
    using Suc.prems by (simp_all add: s1_def bb_inv_def board_inv_round)
  have el: "eligible_sources cs (bs_board s1) = at_level lm cs i" by (rule eligible_level [OF lm s1(5)])
  have up: "concat (map (at_level lm cs) [i..<i + Suc n])
      = at_level lm cs i @ concat (map (at_level lm cs) [Suc i..<Suc i + n])"
    by (simp add: upt_conv_Cons del: upt_Suc)
  show ?case
  proof (cases "at_level lm cs i = []")
    case True
    then have "run_rounds query run cs i (Suc n) s = s1" using el by (simp add: s1_def Let_def)
    moreover have "concat (map (at_level lm cs) [i..<i + Suc n]) = []" by (rule concat_levels_empty [OF lm True])
    ultimately show ?thesis using s1 by (simp del: upt_Suc run_rounds.simps)
  next
    case False
    define s2 where "s2 = run_eligible query run (at_level lm cs i) s1"
    have step: "run_rounds query run cs i (Suc n) s
        = (if bs_halted s2 \<or> is_complete (bs_board s2) then s2 else run_rounds query run cs (Suc i) n s2)"
      using False el by (simp add: s1_def s2_def Let_def)
    have "distinct (map cfg_worker_id (at_level lm cs i))"
      using lm by (simp add: levels_map_def at_level_def distinct_map_filter)
    moreover have "set (at_level lm cs i) \<subseteq> set cs" by (simp add: at_level_def)
    moreover have "cfg_worker_id ` set (at_level lm cs i) \<inter> set (bd_attempted (bs_board s1)) = {}"
      using attempted_below_id [OF lm] by (auto simp: s1(5) at_level_def)
    ultimately have s2: "bb_inv cs s2" "\<exists>m. map wr_worker_id (bs_results s2)
          = map wr_worker_id (bs_results s) @ map cfg_worker_id (take m (at_level lm cs i))
          \<and> (\<not> bs_halted s2 \<longrightarrow> m = length (at_level lm cs i))"
        "bs_signals s = [] \<longrightarrow> bs_signals s2 = [] \<and> \<not> bs_halted s2"
      using run_eligible_prefix [OF ids s1(1) _ _ _ s1(2), of "at_level lm cs i" query] s1(3,4)
      unfolding s2_def by simp_all
    show ?thesis
    proof (cases "bs_halted s2")
      case True
      obtain m where m: "map wr_worker_id (bs_results s2)
          = map wr_worker_id (bs_results s) @ map cfg_worker_id (take m (at_level lm cs i))" using s2(2) by blast
      have "map cfg_worker_id (at_level lm cs i)
          = map cfg_worker_id (take m (at_level lm cs i)) @ map cfg_worker_id (drop m (at_level lm cs i))"
        by (metis append_take_drop_id map_append)
      then have "prefix (map wr_worker_id (bs_results s2))
          (map wr_worker_id (bs_results s) @ map cfg_worker_id (concat (map (at_level lm cs) [i..<i + Suc n])))"
        unfolding m up by simp
      then show ?thesis using True s2 step by (simp del: upt_Suc run_rounds.simps)
    next
      case False
      then have res: "map wr_worker_id (bs_results s2)
          = map wr_worker_id (bs_results s) @ map cfg_worker_id (at_level lm cs i)" using s2(2) by auto
      have att: "set (bd_attempted (bs_board s2)) = attempted_below lm cs (Suc i)"
      proof -
        have "set (bd_attempted (bs_board s2)) = set (map wr_worker_id (bs_results s2))"
          using s2(1) by (simp add: bb_inv_def)
        also have "\<dots> = wr_worker_id ` set (bs_results s) \<union> cfg_worker_id ` set (at_level lm cs i)"
          unfolding res by simp
        finally show ?thesis using Suc.prems(1,3) by (simp add: bb_inv_def attempted_below_Suc)
      qed
      show ?thesis
      proof (cases "is_complete (bs_board s2)")
        case True
        have "at_level lm cs (Suc i) = []"
        proof -
          have "attempted_below lm cs (Suc i) = cfg_worker_id ` set cs"
            using complete_attempted [OF _ True] s2(1) att by (simp add: bb_inv_def)
          then show ?thesis
            using attempted_below_id [OF lm, of _ "Suc i"] by (fastforce simp: at_level_def filter_empty_conv)
        qed
        then have "concat (map (at_level lm cs) [Suc i..<Suc i + n]) = []" by (rule concat_levels_empty [OF lm])
        moreover have "run_rounds query run cs i (Suc n) s = s2" using True step by (simp del: run_rounds.simps)
        ultimately show ?thesis using s2(1) res up by (simp del: upt_Suc run_rounds.simps)
      next
        case incomplete: False
        then have "run_rounds query run cs i (Suc n) s = run_rounds query run cs (Suc i) n s2"
          using step False by (simp del: run_rounds.simps)
        then show ?thesis using Suc.IH [OF s2(1) False att] s2(3) unfolding up map_append append.assoc [symmetric] res
          by (simp del: upt_Suc run_rounds.simps)
      qed
    qed
  qed
qed simp


lemma levels_as_list:
  assumes "\<forall>c\<in>set cs. lev lm c < length ls" and "\<forall>i<length ls. ls ! i = at_level lm cs i"
  shows "concat (map (at_level lm cs) [0..<m]) = concat (take m ls)"
proof (cases "m \<le> length ls")
  case True
  then have "map (at_level lm cs) [0..<m] = take m ls"
    using assms(2) by (intro nth_equalityI) auto
  then show ?thesis by simp
next
  case False
  then have "[0..<m] = [0..<length ls] @ [length ls..<m]" by (metis le_add_diff_inverse nat_le_linear upt_add_eq_append zero_le)
  moreover have "at_level lm cs j = []" if "length ls \<le> j" for j
    using that assms(1) by (auto simp: at_level_def filter_empty_conv)
  moreover have "map (at_level lm cs) [0..<length ls] = ls" using assms(2) by (intro nth_equalityI) auto
  ultimately show ?thesis using False by simp
qed

lemma run_board_levels:
  assumes dist: "distinct (map cfg_worker_id cs)" and ls: "group_by_level cs = Inr ls"
    and ids: "\<And>c. wr_worker_id (run c) = cfg_worker_id c"
  shows "bb_inv cs (run_rounds query run cs 0 m
        \<lparr>bs_board = fresh_board query (map cfg_worker_id cs), bs_results = [], bs_signals = sigs, bs_halted = False\<rparr>)
    \<and> (let s = run_rounds query run cs 0 m
        \<lparr>bs_board = fresh_board query (map cfg_worker_id cs), bs_results = [], bs_signals = sigs, bs_halted = False\<rparr>
       in prefix (map wr_worker_id (bs_results s)) (map cfg_worker_id (concat (take m ls)))
          \<and> (sigs = [] \<longrightarrow> map wr_worker_id (bs_results s) = map cfg_worker_id (concat (take m ls))))"
proof -
  let ?s = "\<lparr>bs_board = fresh_board query (map cfg_worker_id cs), bs_results = [], bs_signals = sigs, bs_halted = False\<rparr>"
  have inv: "bb_inv cs ?s"
    using fresh_board_inv [of query "map cfg_worker_id cs"] by (simp add: bb_inv_def) (force simp: fresh_board_def)
  obtain lm where lm: "levels_map lm cs" and con: "concat (map (at_level lm cs) [0..<m]) = concat (take m ls)"
  proof (cases "cs = []")
    case True
    then show ?thesis using that [of "[]"] ls by (simp add: levels_map_def group_by_level_def at_level_def)
  next
    case False
    obtain lm where "\<forall>c\<in>set cs. placed_ok lm c" "dom (map_of lm) = cfg_worker_id ` set cs"
      "\<forall>c\<in>set cs. the (map_of lm (cfg_worker_id c)) < length ls"
      "\<forall>i<length ls. ls ! i = filter (\<lambda>c. the (map_of lm (cfg_worker_id c)) = i) cs"
      using group_by_level_Inr [OF dist False ls] by blast
    then show ?thesis using that [of lm] dist levels_as_list [of cs lm ls m]
      by (simp add: levels_map_def lev_def at_level_def)
  qed
  have "set (bd_attempted (bs_board ?s)) = attempted_below lm cs 0"
    by (simp add: fresh_board_def attempted_below_def)
  from run_rounds_levels [OF ids lm inv _ this, of query m] show ?thesis by (simp add: con Let_def)
qed

text \<open>
  C18. On a graph that \<open>group_by_level\<close> accepts, the blackboard runs the knowledge sources level by
  level, as many levels as it has rounds, each source once; a halt cuts this order short. The
  board stays in order throughout, and without a halt and with a round for every level it is
  complete at the end.
\<close>

theorem blackboard_follows_levels:
  assumes "distinct (map cfg_worker_id cs)" and "group_by_level cs = Inr ls"
    and "\<And>c. wr_worker_id (run c) = cfg_worker_id c"
    and "s = run_board query run rounds sigs cs" and "m = (case rounds of None \<Rightarrow> max_rounds | Some n \<Rightarrow> n)"
  shows "board_inv (bs_board s)
    \<and> prefix (map wr_worker_id (bs_results s)) (map cfg_worker_id (concat (take m ls)))
    \<and> (sigs = [] \<longrightarrow> map wr_worker_id (bs_results s) = map cfg_worker_id (concat (take m ls)))
    \<and> (sigs = [] \<and> length ls \<le> m \<and> set (concat ls) = set cs \<longrightarrow> is_complete (bs_board s))"
proof -
  have s: "bb_inv cs s" "prefix (map wr_worker_id (bs_results s)) (map cfg_worker_id (concat (take m ls)))"
    "sigs = [] \<longrightarrow> map wr_worker_id (bs_results s) = map cfg_worker_id (concat (take m ls))"
    using run_board_levels [OF assms(1-3), of query m sigs] assms(4,5) by (simp_all add: run_board_def Let_def)
  have "is_complete (bs_board s)" if "sigs = []" "length ls \<le> m" "set (concat ls) = set cs"
  proof -
    have "set (map wr_worker_id (bs_results s)) = cfg_worker_id ` set cs"
      using s(3) that by (metis set_map take_all)
    then have "set (bd_attempted (bs_board s)) = fst ` set (bd_slots (bs_board s))"
      using s(1) by (simp add: bb_inv_def)
    then have "length (bd_slots (bs_board s)) = length (bd_attempted (bs_board s))"
      using s(1) by (metis bb_inv_def board_inv_def distinct_card length_map set_map)
    then show ?thesis by (simp add: is_complete_def)
  qed
  then show ?thesis using s by (simp add: bb_inv_def)
qed

definition all_fine :: "worker_config \<Rightarrow> worker_result" where
  "all_fine c = worker_row c ''fact'' SUCCESS None 1"

theorem blackboard_follows_levels_witness:
  "map wr_worker_id (bs_results (run_board ''goal'' all_fine None [] demo_graph)) = [''a'', ''b'', ''c'']
     \<and> is_complete (bs_board (run_board ''goal'' all_fine None [] demo_graph))"
proof -
  have "\<And>c. wr_worker_id (all_fine c) = cfg_worker_id c" by (simp add: all_fine_def worker_row_def)
  from blackboard_follows_levels [OF demo_graph_distinct demo_graph_levels this refl refl, of "''goal''" None "[]"]
  show ?thesis by (simp add: max_rounds_def demo_worker_def demo_graph_def insert_commute)
qed

section \<open>The handler\<close>

definition blackboard_synthesis_prompt :: string where
  "blackboard_synthesis_prompt = join_with newline
     [''You are a synthesis expert. Multiple specialist agents have contributed to'',
      ''a shared blackboard to solve the goal below.'', [],
      ''{board_snapshot}'', [],
      ''Your task:'',
      ''- Integrate ALL filled slots into a single coherent, well-structured response'',
      ''- Resolve any contradictions or overlaps across slots'',
      ''- Preserve key insights from each specialist'',
      ''- Do NOT simply concatenate '' @ em_dash @ '' synthesise into a unified answer'',
      ''- Address the original GOAL directly'', [],
      ''Provide the final integrated answer now.'']"

definition source_steps :: "int \<Rightarrow> worker_result \<Rightarrow> agent_step list" where
  "source_steps cap r =
     [make_step Step_worker_start (wr_worker_id r) (wr_task r) [] cap []]
     @ filter (\<lambda>s. as_type s = Step_tool_call \<or> as_type s = Step_tool_result) (wr_steps r) @ [end_step cap r]"

definition py_strs :: "string list \<Rightarrow> orch_meta" where
  "py_strs xs = Meta_val (PyList (map PyStr xs))"

definition board_meta :: "bb_state \<Rightarrow> orch_meta pydict" where
  "board_meta s =
     [(''rounds_used'', Meta_val (PyInt (int (bd_round (bs_board s)) + 1))),
      (''slots_filled'', py_strs (bd_filled (bs_board s))),
      (''slots_failed'', py_strs (map fst (bd_failed (bs_board s)))),
      (''slots_unfilled'', py_strs (unfilled_slots (bs_board s))),
      (''halt_triggered'', Meta_flag (bs_halted s))]"

definition finish_blackboard ::
    "pattern_env \<Rightarrow> synthesizer \<Rightarrow> string \<Rightarrow> orch_context \<Rightarrow> bb_state \<Rightarrow> prog" where
  "finish_blackboard V llm query c s =
     (let rs = bs_results s;
          oks = filter (\<lambda>r. wr_signal r = SUCCESS) rs;
          steps = pe_audit V @ concat (map (source_steps (pe_cap V)) rs);
          u = worker_usage [] rs
      in if oks = [] then
           Return (exec_failure_kwargs (Some all_workers_failed_error) ''worker''
             (execution_result BLACKBOARD query
               (''All Knowledge Sources failed '' @ em_dash @ '' no board content to synthesize.'')
               (steps_taken_from_audit steps) False (Some all_workers_failed_error) rs steps u (board_meta s)))
         else
           (let (out, degraded, u1) =
                 (case llm (py_replace ''{board_snapshot}'' (synthesis_snapshot (bs_board s)) blackboard_synthesis_prompt) of
                    Inr (txt, su) \<Rightarrow> (txt, False, if su = [] then u else merge_token_usage u su)
                  | Inl e \<Rightarrow> (join_with (newline @ newline)
                        (map (\<lambda>r. ''['' @ wr_worker_id r @ '']: '' @ wr_output r) oks), True, u));
                steps1 = steps @ [make_step Step_llm_call ''blackboard_synthesis'' query out (pe_cap V)
                                   [(''phase'', ''blackboard_synthesis'')]];
                finish = (\<lambda>out u steps. Return (execution_result BLACKBOARD query out (steps_taken_from_audit steps)
                   (pattern_synthesis_success rs degraded) (if degraded then Some ''SynthesisFailed'' else None) rs steps u
                   (board_meta s @ [(''synthesis_degraded'', Meta_flag degraded)])))
            in maybe_spawn_conflict_resolution SWARM (ow_agent (pe_world V)) (Some c) query (map wr_output oks)
                 (\<lambda>o1. case o1 of
                    Some r \<Rightarrow> if er_success r
                              then finish (er_output r) (merge_token_usage u1 (er_usage r)) (steps1 @ er_steps r)
                              else finish out u1 steps1
                  | None \<Rightarrow> finish out u1 steps1)))"

definition handle_blackboard :: "pattern_env \<Rightarrow> synthesizer \<Rightarrow> ks_signals list \<Rightarrow> nat option \<Rightarrow> handler" where
  "handle_blackboard V llm sigs rounds query an c t =
     (if qa_subtasks an = []
      then Return (no_plan V BLACKBOARD query ''No Knowledge Sources could be planned for this query.'')
      else finish_blackboard V llm query c
             (run_board query (pe_run V) rounds sigs (pattern_configs V (qa_subtasks an))))"

text \<open>
  A source that answers with a failure line counts as a success of the pattern although its slot
  is not filled: the synthesis is asked for, over an empty board.
\<close>

definition says_failed :: "worker_config \<Rightarrow> worker_result" where
  "says_failed c = worker_row c ''FAILED: no access'' SUCCESS None 1"

lemma failed_board_is_success:
  "case run_prog (\<lambda>_. Inl OutOfFuel)
      (handle_blackboard (demo_env says_failed) (\<lambda>_. Inr (''answer'', [])) [] None ''go'' demo_turn demo_context 120) of
     Inr r \<Rightarrow> er_success r \<and> er_error r = None \<and> map_of (er_metadata r) ''slots_filled'' = Some (Meta_val (PyList []))
   | Inl _ \<Rightarrow> False"
  by code_simp

end
