(* ===== verification/Parallel_Workers.thy ===== *)
theory Parallel_Workers
  imports Sequential_Patterns
begin

text \<open>
  The parallel engine of the SUPERVISOR, SWARM and HYBRID\_DAG patterns
  (\<open>src/agloom/patterns/hitl.py\<close>): the gate before the workers, the tasks under a semaphore, the
  listener that cancels them on \<open>HALT_ALL\<close>, and the loop that collects their results.

  The tasks are a list updated by index and the interleavings are a step relation. The lemmas
  show that never more tasks run than the semaphore allows, that none starts after a halt, that
  every worker gives exactly one result, and that the collection ends.
\<close>

section \<open>The gate before the workers\<close>

definition interrupt_tokens :: "string list \<Rightarrow> string list" where
  "interrupt_tokens xs = map py_strip (filter (\<lambda>x. \<not> blank x) xs)"

definition should_interrupt :: "string \<Rightarrow> string list \<Rightarrow> bool" where
  "should_interrupt worker xs \<longleftrightarrow>
     ''*'' \<in> set (interrupt_tokens xs) \<or> ''__all__'' \<in> set (interrupt_tokens xs) \<or> worker \<in> set (interrupt_tokens xs)"

definition declines :: "string \<Rightarrow> bool" where
  "declines answer \<longleftrightarrow> py_lower (py_strip answer) \<in> set [''skip'', ''abort'', ''no'', ''cancel'']"

text \<open>
  The approved workers and the ids of the skipped ones; the user's callback raises (an exception
  text) or answers, and a raised exception lets the worker run.
\<close>

fun check_before_workers ::
    "string list \<Rightarrow> (worker_config \<Rightarrow> string + string) option \<Rightarrow> worker_config list
       \<Rightarrow> worker_config list \<times> string list" where
  "check_before_workers xs None cs = (cs, [])"
| "check_before_workers xs (Some ask) [] = ([], [])"
| "check_before_workers xs (Some ask) (c # cs) =
     (let (ok, skipped) = check_before_workers xs (Some ask) cs
      in if xs = [] \<or> \<not> should_interrupt (cfg_worker_id c) xs then (c # ok, skipped)
         else case ask c of
                Inl e \<Rightarrow> (c # ok, skipped)
              | Inr answer \<Rightarrow> if declines answer then (ok, cfg_worker_id c # skipped) else (c # ok, skipped))"

text \<open>A worker is skipped exactly if the list names it and the user declines.\<close>

definition declined :: "string list \<Rightarrow> (worker_config \<Rightarrow> string + string) option \<Rightarrow> worker_config \<Rightarrow> bool" where
  "declined xs ask c \<longleftrightarrow> (case ask of None \<Rightarrow> False | Some f \<Rightarrow>
     should_interrupt (cfg_worker_id c) xs \<and> (case f c of Inl e \<Rightarrow> False | Inr answer \<Rightarrow> declines answer))"

lemma no_tokens: "\<not> should_interrupt w []"
  by (simp add: should_interrupt_def interrupt_tokens_def)

lemma check_before_workers_filter:
  "check_before_workers xs ask cs
     = (filter (\<lambda>c. \<not> declined xs ask c) cs, map cfg_worker_id (filter (declined xs ask) cs))"
proof (cases ask)
  case (Some f)
  show ?thesis unfolding Some
    by (induction cs) (auto simp: declined_def no_tokens split: sum.split)
qed (simp add: declined_def)

section \<open>Tasks\<close>

text \<open>
  A task waits for the semaphore, runs, is being cancelled, or has ended. A cancelled run ends
  as it likes: it may still return or raise.
\<close>

datatype task_state =
    Task_waiting
  | Task_running
  | Task_cancelling
  | Task_returned worker_result
  | Task_raised string
  | Task_cancelled

record par_state =
  ps_cfgs :: "worker_config list"
  ps_tasks :: "task_state list"
  ps_halt :: bool
  ps_out :: "(nat \<times> worker_result) list"
  ps_failed :: "string option"

text \<open>\<open>None\<close> is a setting that \<open>int\<close> does not read.\<close>

definition max_concurrent :: "int option \<Rightarrow> nat" where
  "max_concurrent v = (case v of None \<Rightarrow> 4 | Some n \<Rightarrow> if n < 1 then 4 else nat n)"

definition par_init :: "bool \<Rightarrow> worker_config list \<Rightarrow> par_state" where
  "par_init halt cs =
     \<lparr>ps_cfgs = cs, ps_tasks = replicate (length cs) Task_waiting, ps_halt = halt, ps_out = [], ps_failed = None\<rparr>"

definition in_slot :: "task_state \<Rightarrow> bool" where
  "in_slot t \<longleftrightarrow> t = Task_running \<or> t = Task_cancelling"

definition running :: "par_state \<Rightarrow> nat" where
  "running s = length (filter in_slot (ps_tasks s))"

definition set_task :: "nat \<Rightarrow> task_state \<Rightarrow> par_state \<Rightarrow> par_state" where
  "set_task i t s = s\<lparr>ps_tasks := (ps_tasks s)[i := t]\<rparr>"

definition not_started :: "worker_config \<Rightarrow> worker_result" where
  "not_started cfg =
     worker_row cfg (''Skipped '' @ em_dash @ '' HALT_ALL fired before this worker started.'') FAILED (Some ''HALT_ALL'') 1"

fun cancel_task :: "task_state \<Rightarrow> task_state" where
  "cancel_task Task_waiting = Task_cancelled"
| "cancel_task Task_running = Task_cancelling"
| "cancel_task t = t"

text \<open>The result an ended task is collected with.\<close>

fun task_result :: "worker_config \<Rightarrow> task_state \<Rightarrow> worker_result option" where
  "task_result cfg (Task_returned r) = Some r"
| "task_result cfg (Task_raised m) =
     Some (worker_row cfg (''Worker raised unexpected exception: '' @ m) FAILED (Some m) 1)"
| "task_result cfg Task_cancelled =
     Some (halted_worker_result (''Cancelled '' @ em_dash @ '' HALT_ALL fired.'') ''CancelledError'' cfg)"
| "task_result cfg _ = None"

definition join_timeout :: "worker_config \<Rightarrow> worker_result" where
  "join_timeout = halted_worker_result ''Timed out waiting for worker task after HALT_ALL.'' ''TaskJoinTimeout''"

definition collected :: "par_state \<Rightarrow> nat \<Rightarrow> bool" where
  "collected s i \<longleftrightarrow> i \<in> fst ` set (ps_out s)"

text \<open>
  A batch of signals: a halt wins over every question; otherwise the questions are answered in
  order, for the workers that have a queue.
\<close>

fun l4_answers :: "(string \<Rightarrow> string \<Rightarrow> string + string) option \<Rightarrow> string list \<Rightarrow> queue_item list \<Rightarrow> (string \<times> string) list"
    where
  "l4_answers ask names [] = []"
| "l4_answers ask names (Other_item # xs) = l4_answers ask names xs"
| "l4_answers ask names (Sig s # xs) =
     (if sg_type s \<noteq> CLARIFICATION_REQUEST then l4_answers ask names xs
      else case ask of
             None \<Rightarrow> l4_answers ask names xs
           | Some f \<Rightarrow>
               if sg_worker s \<notin> set names then l4_answers ask names xs
               else (sg_worker s, case f (sg_worker s) (sg_message s) of
                       Inr answer \<Rightarrow> answer
                     | Inl e \<Rightarrow> ''Clarification could not be collected. Proceed with your best judgment.'')
                    # l4_answers ask names xs)"

definition apply_l4_signal_batch ::
    "(string \<Rightarrow> string \<Rightarrow> string + string) option \<Rightarrow> string list \<Rightarrow> queue_item list \<Rightarrow> par_state
       \<Rightarrow> par_state \<times> (string \<times> string) list" where
  "apply_l4_signal_batch ask names batch s =
     (if list_ex is_halt batch
      then (s\<lparr>ps_halt := True, ps_tasks := map cancel_task (ps_tasks s)\<rparr>, [])
      else (s, l4_answers ask names batch))"

text \<open>
  One step of the tasks, of the listener or of the collection. A cancelled task that does not
  end in time is collected as timed out. In the branch that follows a halt an exception of a
  task is not caught and ends the whole run.
\<close>

inductive par_step :: "nat \<Rightarrow> par_state \<Rightarrow> par_state \<Rightarrow> bool" for mc :: nat where
  Start: "\<lbrakk>ps_failed s = None; i < length (ps_tasks s); ps_tasks s ! i = Task_waiting; running s < mc; \<not> ps_halt s\<rbrakk>
    \<Longrightarrow> par_step mc s (set_task i Task_running s)"
| Skip: "\<lbrakk>ps_failed s = None; i < length (ps_tasks s); ps_tasks s ! i = Task_waiting; running s < mc; ps_halt s\<rbrakk>
    \<Longrightarrow> par_step mc s (set_task i (Task_returned (not_started (ps_cfgs s ! i))) s)"
| Return: "\<lbrakk>ps_failed s = None; i < length (ps_tasks s); in_slot (ps_tasks s ! i);
      wr_worker_id r = cfg_worker_id (ps_cfgs s ! i)\<rbrakk>
    \<Longrightarrow> par_step mc s (set_task i (Task_returned r) s)"
| Raise: "\<lbrakk>ps_failed s = None; i < length (ps_tasks s); in_slot (ps_tasks s ! i)\<rbrakk>
    \<Longrightarrow> par_step mc s (set_task i (Task_raised m) s)"
| Cancelled_run: "\<lbrakk>ps_failed s = None; i < length (ps_tasks s); ps_tasks s ! i = Task_cancelling\<rbrakk>
    \<Longrightarrow> par_step mc s (set_task i Task_cancelled s)"
| Halt: "\<lbrakk>ps_failed s = None; list_ex is_halt batch; \<not> ps_halt s; apply_l4_signal_batch ask names batch s = (s', answers)\<rbrakk>
    \<Longrightarrow> par_step mc s s'"
| Collect: "\<lbrakk>ps_failed s = None; i < length (ps_tasks s); \<not> collected s i;
      task_result (ps_cfgs s ! i) (ps_tasks s ! i) = Some r\<rbrakk>
    \<Longrightarrow> par_step mc s (s\<lparr>ps_out := ps_out s @ [(i, r)]\<rparr>)"
| Join_timeout: "\<lbrakk>ps_failed s = None; i < length (ps_tasks s); \<not> collected s i; ps_halt s;
      ps_tasks s ! i = Task_cancelling\<rbrakk>
    \<Longrightarrow> par_step mc s (s\<lparr>ps_out := ps_out s @ [(i, join_timeout (ps_cfgs s ! i))]\<rparr>)"
| Uncaught: "\<lbrakk>ps_failed s = None; i < length (ps_tasks s); \<not> collected s i; ps_halt s; ps_tasks s ! i = Task_raised m\<rbrakk>
    \<Longrightarrow> par_step mc s (s\<lparr>ps_failed := Some m\<rparr>)"

inductive_cases par_step_elim: "par_step mc s s'"

text \<open>
  What holds in every state: one task for each worker, never more in a slot than the semaphore
  allows and none started once the run is halted, at most one result for each worker, of that
  worker, and a success only if its task returned it.
\<close>

definition own_result :: "worker_config list \<Rightarrow> task_state list \<Rightarrow> nat \<times> worker_result \<Rightarrow> bool" where
  "own_result cs ts = (\<lambda>(i, r). i < length cs \<and> wr_worker_id r = cfg_worker_id (cs ! i)
     \<and> (wr_signal r = SUCCESS \<longrightarrow> ts ! i = Task_returned r))"

definition par_inv :: "nat \<Rightarrow> worker_config list \<Rightarrow> par_state \<Rightarrow> bool" where
  "par_inv mc cs s \<longleftrightarrow>
     ps_cfgs s = cs \<and> length (ps_tasks s) = length cs \<and> running s \<le> mc
     \<and> (ps_halt s \<longrightarrow> Task_running \<notin> set (ps_tasks s))
     \<and> (\<forall>i<length cs. \<forall>r. ps_tasks s ! i = Task_returned r \<longrightarrow> wr_worker_id r = cfg_worker_id (cs ! i))
     \<and> distinct (map fst (ps_out s))
     \<and> (\<forall>p\<in>set (ps_out s). own_result cs (ps_tasks s) p)"

lemma par_init_inv: "par_inv mc cs (par_init halt cs)"
  by (simp add: par_inv_def par_init_def running_def in_slot_def)

lemma filter_list_update:
  "i < length xs \<Longrightarrow> length (filter P (xs[i := x])) + (if P (xs ! i) then 1 else 0)
     = length (filter P xs) + (if P x then 1 else 0)"
proof (induction xs arbitrary: i)
  case (Cons y ys)
  show ?case
  proof (cases i)
    case (Suc j)
    then show ?thesis using Cons.IH [of j] Cons.prems by (cases "P (ys ! j)"; cases "P x") auto
  qed simp
qed simp

lemma running_set_task:
  "i < length (ps_tasks s) \<Longrightarrow> running (set_task i t s) + (if in_slot (ps_tasks s ! i) then 1 else 0)
     = running s + (if in_slot t then 1 else 0)"
  using filter_list_update [of i "ps_tasks s" in_slot t] by (simp add: running_def set_task_def)

lemma cancel_facts:
  "in_slot (cancel_task t) \<longleftrightarrow> in_slot t"
  "cancel_task t \<noteq> Task_running"
  "cancel_task t = Task_returned r \<longleftrightarrow> t = Task_returned r"
  by (cases t; simp add: in_slot_def)+

lemma result_success: "task_result c t = Some r \<Longrightarrow> wr_signal r = SUCCESS \<Longrightarrow> t = Task_returned r"
  by (cases t) (auto simp: worker_row_def halted_worker_result_def)

lemma result_id:
  "task_result c t = Some r \<Longrightarrow> (\<forall>q. t = Task_returned q \<longrightarrow> wr_worker_id q = cfg_worker_id c)
     \<Longrightarrow> wr_worker_id r = cfg_worker_id c"
  by (cases t) (auto simp: worker_row_def halted_worker_result_def)

lemma par_inv_set_task:
  assumes inv: "par_inv mc cs s" and i: "i < length (ps_tasks s)" and unfinished: "\<And>r. ps_tasks s ! i \<noteq> Task_returned r"
    and t: "\<And>r. t = Task_returned r \<Longrightarrow> wr_worker_id r = cfg_worker_id (cs ! i)"
    and run: "running (set_task i t s) \<le> mc" and halt: "ps_halt s \<Longrightarrow> t \<noteq> Task_running"
  shows "par_inv mc cs (set_task i t s)"
proof -
  have cs: "ps_cfgs s = cs" "length (ps_tasks s) = length cs" and idle: "ps_halt s \<Longrightarrow> Task_running \<notin> set (ps_tasks s)"
    and own: "\<forall>p\<in>set (ps_out s). own_result cs (ps_tasks s) p" and dist: "distinct (map fst (ps_out s))"
    and ids: "\<forall>j<length cs. \<forall>r. ps_tasks s ! j = Task_returned r \<longrightarrow> wr_worker_id r = cfg_worker_id (cs ! j)"
    using inv by (simp_all add: par_inv_def)
  have "own_result cs ((ps_tasks s)[i := t]) (j, r)" if "own_result cs (ps_tasks s) (j, r)" for j r
    using that unfinished [of r] i by (cases "j = i") (simp_all add: own_result_def)
  then have "\<forall>p\<in>set (ps_out s). own_result cs ((ps_tasks s)[i := t]) p" using own by (metis surj_pair)
  moreover have "ps_halt s \<longrightarrow> Task_running \<notin> set ((ps_tasks s)[i := t])"
    using idle halt set_update_subset_insert [of "ps_tasks s" i t] by blast
  moreover have "(ps_tasks s)[i := t] ! j = Task_returned r \<longrightarrow> wr_worker_id r = cfg_worker_id (cs ! j)"
    if "j < length cs" for j r
    using ids t i that by (cases "j = i") simp_all
  ultimately show ?thesis
    using run cs dist by (simp add: par_inv_def set_task_def)
qed

lemma par_inv_collect:
  assumes inv: "par_inv mc cs s" and i: "i < length (ps_tasks s)" and new: "\<not> collected s i"
    and r: "own_result cs (ps_tasks s) (i, r)"
  shows "par_inv mc cs (s\<lparr>ps_out := ps_out s @ [(i, r)]\<rparr>)"
proof -
  have "distinct (map fst (ps_out s @ [(i, r)]))"
    using inv new by (simp add: par_inv_def collected_def)
  moreover have "\<forall>p\<in>set (ps_out s @ [(i, r)]). own_result cs (ps_tasks s) p"
    using inv r by (simp add: par_inv_def)
  moreover have "running (s\<lparr>ps_out := ps_out s @ [(i, r)]\<rparr>) = running s" by (simp add: running_def)
  ultimately show ?thesis using inv unfolding par_inv_def by simp
qed

lemma par_inv_halt:
  assumes inv: "par_inv mc cs s"
  shows "par_inv mc cs (s\<lparr>ps_halt := True, ps_tasks := map cancel_task (ps_tasks s)\<rparr>)"
proof -
  have "filter in_slot (map cancel_task ts) = map cancel_task (filter in_slot ts)" for ts
    by (induction ts) (simp_all add: cancel_facts)
  moreover have "own_result cs (map cancel_task (ps_tasks s)) p" if "p \<in> set (ps_out s)" for p
    using inv that by (cases p) (auto simp: par_inv_def own_result_def cancel_facts)
  moreover have "Task_running \<notin> set (map cancel_task (ps_tasks s))"
    using cancel_facts(2) by (metis imageE set_map)
  ultimately show ?thesis using inv by (simp add: par_inv_def running_def cancel_facts)
qed

lemma par_step_inv:
  assumes "par_step mc s s'" and inv: "par_inv mc cs s"
  shows "par_inv mc cs s'"
  using assms(1)
proof cases
  case (Start i)
  then have "running (set_task i Task_running s) \<le> mc"
    using running_set_task [of i s Task_running] by (simp add: in_slot_def)
  then show ?thesis using Start unfolding Start(1) by (intro par_inv_set_task [OF inv]) simp_all
next
  case (Skip i)
  let ?t = "Task_returned (not_started (ps_cfgs s ! i))"
  have "running (set_task i ?t s) \<le> mc"
    using running_set_task [of i s ?t] Skip by (simp add: in_slot_def)
  moreover have "ps_cfgs s = cs" using inv by (simp add: par_inv_def)
  ultimately show ?thesis using Skip unfolding Skip(1)
    by (intro par_inv_set_task [OF inv]) (auto simp: not_started_def worker_row_def)
next
  case (Return i r)
  have "running (set_task i (Task_returned r) s) \<le> mc"
    using running_set_task [of i s "Task_returned r"] Return inv by (simp add: in_slot_def par_inv_def)
  then show ?thesis using Return inv unfolding Return(1)
    by (intro par_inv_set_task [OF inv]) (auto simp: in_slot_def par_inv_def)
next
  case (Raise i m)
  have "running (set_task i (Task_raised m) s) \<le> mc"
    using running_set_task [of i s "Task_raised m"] Raise inv by (simp add: in_slot_def par_inv_def)
  then show ?thesis using Raise unfolding Raise(1)
    by (intro par_inv_set_task [OF inv]) (auto simp: in_slot_def)
next
  case (Cancelled_run i)
  have "running (set_task i Task_cancelled s) \<le> mc"
    using running_set_task [of i s Task_cancelled] Cancelled_run inv by (simp add: in_slot_def par_inv_def)
  then show ?thesis using Cancelled_run unfolding Cancelled_run(1)
    by (intro par_inv_set_task [OF inv]) simp_all
next
  case (Halt batch ask names answers)
  then have "s' = s\<lparr>ps_halt := True, ps_tasks := map cancel_task (ps_tasks s)\<rparr>"
    by (simp add: apply_l4_signal_batch_def)
  then show ?thesis using par_inv_halt [OF inv] by simp
next
  case (Collect i r)
  have cs: "ps_cfgs s = cs" "length (ps_tasks s) = length cs" using inv by (simp_all add: par_inv_def)
  then have "wr_worker_id r = cfg_worker_id (cs ! i)"
    using Collect inv result_id [of "cs ! i" "ps_tasks s ! i" r] by (auto simp: par_inv_def)
  then have "own_result cs (ps_tasks s) (i, r)"
    using Collect cs result_success [of "cs ! i" "ps_tasks s ! i" r] by (auto simp: own_result_def)
  then show ?thesis using Collect par_inv_collect [OF inv] by simp
next
  case (Join_timeout i)
  have cs: "ps_cfgs s = cs" "length (ps_tasks s) = length cs" using inv by (simp_all add: par_inv_def)
  then have "own_result cs (ps_tasks s) (i, join_timeout (ps_cfgs s ! i))"
    using Join_timeout by (simp add: own_result_def join_timeout_def halted_worker_result_def worker_row_def)
  then show ?thesis using Join_timeout par_inv_collect [OF inv] by simp
next
  case (Uncaught i m)
  then show ?thesis using inv by (simp add: par_inv_def running_def)
qed


section \<open>The collection ends with every result\<close>

fun task_weight :: "task_state \<Rightarrow> nat" where
  "task_weight Task_waiting = 3"
| "task_weight Task_running = 2"
| "task_weight Task_cancelling = 1"
| "task_weight t = 0"

definition weight_left :: "par_state \<Rightarrow> nat" where
  "weight_left s = sum_list (map task_weight (ps_tasks s)) + (length (ps_tasks s) - length (ps_out s))
     + (if ps_halt s then 0 else 1) + (if ps_failed s = None then 1 else 0)"

lemma weight_set_task:
  "i < length ts \<Longrightarrow> sum_list (map task_weight (ts[i := t])) + task_weight (ts ! i)
     = sum_list (map task_weight ts) + task_weight t"
proof (induction ts arbitrary: i)
  case (Cons y ys)
  then show ?case by (cases i) auto
qed simp

lemma weight_cancel: "sum_list (map task_weight (map cancel_task ts)) \<le> sum_list (map task_weight ts)"
proof -
  have "task_weight (cancel_task t) \<le> task_weight t" for t by (cases t) auto
  then show ?thesis by (simp add: sum_list_mono)
qed

lemma collected_bounds:
  assumes inv: "par_inv mc cs s"
  shows "fst ` set (ps_out s) \<subseteq> {..<length cs}" "length (ps_out s) = card (fst ` set (ps_out s))"
proof -
  show "fst ` set (ps_out s) \<subseteq> {..<length cs}" using inv by (auto simp: par_inv_def own_result_def)
  show "length (ps_out s) = card (fst ` set (ps_out s))"
    using inv distinct_card [of "map fst (ps_out s)"] by (simp add: par_inv_def)
qed

lemma room_left:
  assumes inv: "par_inv mc cs s" and i: "i < length cs" and new: "\<not> collected s i"
  shows "length (ps_out s) < length cs"
proof -
  have "fst ` set (ps_out s) \<subseteq> {..<length cs} - {i}"
    using collected_bounds(1) [OF inv] new by (auto simp: collected_def)
  then have "card (fst ` set (ps_out s)) \<le> card ({..<length cs} - {i})" by (intro card_mono) auto
  also have "\<dots> < length cs" using i by simp
  finally show ?thesis using collected_bounds(2) [OF inv] by simp
qed

lemma weight_after_task:
  assumes "i < length (ps_tasks s)" "task_weight t < task_weight (ps_tasks s ! i)"
  shows "weight_left (set_task i t s) < weight_left s"
  using weight_set_task [OF assms(1), of t] assms(2) by (simp add: weight_left_def set_task_def)

lemma weight_after_collect:
  assumes "par_inv mc cs s" "i < length (ps_tasks s)" "\<not> collected s i"
  shows "weight_left (s\<lparr>ps_out := ps_out s @ [(i, r)]\<rparr>) < weight_left s"
proof -
  have "length (ps_tasks s) = length cs" using assms(1) by (simp add: par_inv_def)
  then show ?thesis using room_left [OF assms(1), of i] assms(2,3) by (simp add: weight_left_def)
qed

lemma slot_weight: "in_slot t \<Longrightarrow> 0 < task_weight t"
  by (auto simp: in_slot_def)

lemma par_step_weight:
  assumes "par_step mc s s'" and inv: "par_inv mc cs s"
  shows "weight_left s' < weight_left s"
  using assms(1)
proof cases
  case (Halt batch ask names answers)
  then have "s' = s\<lparr>ps_halt := True, ps_tasks := map cancel_task (ps_tasks s)\<rparr>"
    by (simp add: apply_l4_signal_batch_def)
  then show ?thesis using Halt weight_cancel [of "ps_tasks s"] by (simp add: weight_left_def)
next
  case (Return i r)
  then show ?thesis by (simp add: weight_after_task slot_weight)
next
  case (Raise i m)
  then show ?thesis by (simp add: weight_after_task slot_weight)
next
  case (Collect i r)
  then show ?thesis using weight_after_collect [OF inv] by simp
next
  case (Join_timeout i)
  then show ?thesis using weight_after_collect [OF inv] by simp
next
  case (Uncaught i m)
  then show ?thesis by (simp add: weight_left_def)
qed (simp_all add: weight_after_task)

lemma par_progress:
  assumes inv: "par_inv mc cs s" and mc: "1 \<le> mc" and ok: "ps_failed s = None"
    and i: "i < length cs" "\<not> collected s i"
  shows "\<exists>s'. par_step mc s s' \<and> ps_halt s' = ps_halt s"
proof -
  have len: "length (ps_tasks s) = length cs" using inv by (simp add: par_inv_def)
  have free: "\<exists>s'. par_step mc s s' \<and> ps_halt s' = ps_halt s" if "in_slot t" "t \<in> set (ps_tasks s)" for t
  proof -
    from that obtain j where "j < length (ps_tasks s)" "ps_tasks s ! j = t"
      by (auto simp: in_set_conv_nth)
    then have "par_step mc s (set_task j (Task_raised []) s)" using Raise [OF ok, of j mc "[]"] \<open>in_slot t\<close> by simp
    moreover have "ps_halt (set_task j (Task_raised []) s) = ps_halt s" by (simp add: set_task_def)
    ultimately show ?thesis by blast
  qed
  have gather: "\<exists>s'. par_step mc s s' \<and> ps_halt s' = ps_halt s"
    if "task_result (ps_cfgs s ! i) (ps_tasks s ! i) = Some r" for r
  proof (intro exI conjI)
    show "par_step mc s (s\<lparr>ps_out := ps_out s @ [(i, r)]\<rparr>)" using that i len by (intro Collect [OF ok]) simp_all
  qed simp
  show ?thesis
  proof (cases "ps_tasks s ! i")
    case Task_waiting
    show ?thesis
    proof (cases "running s < mc")
      case True
      then show ?thesis using Start [OF ok, of i mc] Skip [OF ok, of i mc] Task_waiting i(1) len
        by (cases "ps_halt s") (auto simp: set_task_def)
    next
      case False
      then have "filter in_slot (ps_tasks s) \<noteq> []" using mc by (auto simp: running_def)
      then show ?thesis using free by (auto simp: filter_empty_conv)
    qed
  next
    case Task_running
    then show ?thesis using free [of Task_running] i len nth_mem [of i "ps_tasks s"] by (simp add: in_slot_def)
  next
    case Task_cancelling
    then show ?thesis using free [of Task_cancelling] i len nth_mem [of i "ps_tasks s"] by (simp add: in_slot_def)
  next
    case (Task_returned r)
    then show ?thesis using gather by simp
  next
    case (Task_raised m)
    then show ?thesis using gather by simp
  next
    case Task_cancelled
    then show ?thesis using gather by simp
  qed
qed

lemma par_run:
  assumes "(par_step mc ^^ n) (par_init halt cs) s"
  shows "par_inv mc cs s \<and> n + weight_left s \<le> 4 * length cs + 2"
  using assms
proof (induction n arbitrary: s)
  case 0
  have "sum_list (map task_weight (replicate k Task_waiting)) = 3 * k" for k by (induction k) auto
  then have "weight_left (par_init halt cs) \<le> 4 * length cs + 2" by (simp add: weight_left_def par_init_def)
  then show ?case using 0 par_init_inv by auto
next
  case (Suc n)
  then obtain q where "(par_step mc ^^ n) (par_init halt cs) q" "par_step mc q s" by auto
  then show ?case using Suc.IH [of q] par_step_inv par_step_weight by fastforce
qed

text \<open>
  C20. In every interleaving of the tasks, the halt listener and the collection, at most the
  semaphore's number of workers runs at a time, none starts after a halt, and every result
  collected belongs to a worker of its own, a success only if that worker's run returned it.
\<close>

theorem parallel_workers_bounded:
  assumes "(par_step (max_concurrent setting))\<^sup>*\<^sup>* (par_init halt cs) s"
  shows "running s \<le> max_concurrent setting \<and> (ps_halt s \<longrightarrow> Task_running \<notin> set (ps_tasks s))
    \<and> distinct (map fst (ps_out s))
    \<and> (\<forall>(i, r)\<in>set (ps_out s). i < length cs \<and> wr_worker_id r = cfg_worker_id (cs ! i)
          \<and> (wr_signal r = SUCCESS \<longrightarrow> ps_tasks s ! i = Task_returned r))"
proof -
  obtain n where "(par_step (max_concurrent setting) ^^ n) (par_init halt cs) s"
    using assms by (auto simp: rtranclp_power)
  then have "par_inv (max_concurrent setting) cs s" using par_run by blast
  then show ?thesis by (simp add: par_inv_def own_result_def)
qed

text \<open>The collection is over once nothing is pending, or when an exception leaves it.\<close>

definition par_done :: "par_state \<Rightarrow> bool" where
  "par_done s \<longleftrightarrow> ps_failed s \<noteq> None \<or> (\<forall>i<length (ps_tasks s). collected s i)"


text \<open>A run of one worker: it starts, answers and is collected.\<close>

definition demo_par_end :: par_state where
  "demo_par_end = \<lparr>ps_cfgs = [demo_worker ''a'' []], ps_tasks = [Task_returned (worker_row (demo_worker ''a'' []) ''ok'' SUCCESS None 1)],
     ps_halt = False, ps_out = [(0, worker_row (demo_worker ''a'' []) ''ok'' SUCCESS None 1)], ps_failed = None\<rparr>"

lemma demo_par_run: "(par_step (max_concurrent (Some 1)) ^^ 3) (par_init False [demo_worker ''a'' []]) demo_par_end"
proof -
  let ?w = "demo_worker ''a'' []" let ?mc = "max_concurrent (Some 1)"
  let ?r = "worker_row ?w ''ok'' SUCCESS None 1"
  define s0 where "s0 = par_init False [?w]"
  define s1 where "s1 = set_task 0 Task_running s0"
  define s2 where "s2 = set_task 0 (Task_returned ?r) s1"
  note defs = s0_def s1_def s2_def par_init_def set_task_def running_def in_slot_def max_concurrent_def collected_def worker_row_def
  have "par_step ?mc s0 s1" unfolding s1_def by (rule Start) (simp_all add: defs)
  moreover have "par_step ?mc s1 s2" unfolding s2_def by (rule Return) (simp_all add: defs)
  moreover have "par_step ?mc s2 (s2\<lparr>ps_out := ps_out s2 @ [(0, ?r)]\<rparr>)" by (rule Collect) (simp_all add: defs)
  moreover have "s2\<lparr>ps_out := ps_out s2 @ [(0, ?r)]\<rparr> = demo_par_end" by (simp add: defs demo_par_end_def)
  ultimately show ?thesis unfolding s0_def by (auto simp: numeral_3_eq_3)
qed

theorem parallel_workers_bounded_witness: "running demo_par_end \<le> 1 \<and> distinct (map fst (ps_out demo_par_end))"
  using parallel_workers_bounded [OF relpowp_imp_rtranclp [OF demo_par_run]] by (simp add: max_concurrent_def)


section \<open>A run behind its gate\<close>

text \<open>
  How a run of the workers ends: with the results in the order of their collection and the ids of
  the skipped workers, or with the exception that left the collection.
\<close>

inductive hitl_run ::
    "string list \<Rightarrow> (worker_config \<Rightarrow> string + string) option \<Rightarrow> int option \<Rightarrow> bool \<Rightarrow> worker_config list
       \<Rightarrow> string + worker_result list \<times> string list \<Rightarrow> bool" for xs ask setting where
  Halted_before: "hitl_run xs ask setting True cs (Inr ([], map cfg_worker_id cs))"
| All_declined: "check_before_workers xs ask cs = ([], skipped) \<Longrightarrow> hitl_run xs ask setting False cs (Inr ([], skipped))"
| Ran: "\<lbrakk>check_before_workers xs ask cs = (ok, skipped); ok \<noteq> [];
      (par_step (max_concurrent setting))\<^sup>*\<^sup>* (par_init False ok) s; par_done s;
      out = (case ps_failed s of Some e \<Rightarrow> Inl e | None \<Rightarrow> Inr (map snd (ps_out s), skipped))\<rbrakk>
    \<Longrightarrow> hitl_run xs ask setting False cs out"

inductive_cases hitl_run_elim: "hitl_run xs ask setting False cs out"

text \<open>Every worker of a run that ends with results gives one result or was skipped.\<close>

lemma mset_of_indexed:
  assumes "distinct (map fst ps)" "fst ` set ps = {..<length cs}" "\<And>i r. (i, r) \<in> set ps \<Longrightarrow> f r = cs ! i"
  shows "mset (map (f \<circ> snd) ps) = mset cs"
proof -
  have "mset (map (f \<circ> snd) ps) = image_mset ((!) cs) (mset (map fst ps))"
    using assms(3) by (auto simp flip: mset_map intro!: arg_cong [of _ _ mset])
  also have "mset (map fst ps) = mset [0..<length cs]"
    using assms(1,2) by (intro set_eq_iff_mset_eq_distinct [THEN iffD1]) (auto simp: atLeast0LessThan)
  also have "image_mset ((!) cs) (mset [0..<length cs]) = mset cs"
    by (metis map_nth mset_map)
  finally show ?thesis .
qed

lemma hitl_run_accounts:
  assumes "hitl_run xs ask setting False cs (Inr (rs, skipped))"
  shows "mset (map wr_worker_id rs) + mset skipped = mset (map cfg_worker_id cs)"
  using assms
proof (rule hitl_run_elim)
  fix ok sk s
  assume run: "check_before_workers xs ask cs = (ok, sk)" "(par_step (max_concurrent setting))\<^sup>*\<^sup>* (par_init False ok) s" "par_done s"
    and out: "Inr (rs, skipped) = (case ps_failed s of Some e \<Rightarrow> Inl e | None \<Rightarrow> Inr (map snd (ps_out s), sk))"
  obtain n where n: "(par_step (max_concurrent setting) ^^ n) (par_init False ok) s"
    using run(2) by (auto simp: rtranclp_power)
  have inv: "par_inv (max_concurrent setting) ok s" using par_run [OF n] by blast
  have fin: "ps_failed s = None" "rs = map snd (ps_out s)" "skipped = sk" using out by (auto split: option.splits)
  have "{..<length ok} \<subseteq> fst ` set (ps_out s)"
    using run(3) fin inv by (auto simp: par_done_def collected_def par_inv_def)
  then have "mset (map (wr_worker_id \<circ> snd) (ps_out s)) = mset (map cfg_worker_id ok)"
    using collected_bounds(1) [OF inv] inv by (intro mset_of_indexed) (auto simp: par_inv_def own_result_def)
  moreover have "mset (map cfg_worker_id ok) + mset sk = mset (map cfg_worker_id cs)"
    using run(1) unfolding check_before_workers_filter
    by (auto simp flip: image_mset_union)
  ultimately show ?thesis using fin by (simp add: comp_def)
qed (auto simp: check_before_workers_filter filter_empty_conv)

text \<open>Without a halt a run can always come to its end with results.\<close>

lemma par_step_ok:
  assumes "par_step mc s s'" "\<not> ps_halt s" "ps_failed s = None"
  shows "ps_failed s' = None"
  using assms by cases (auto simp: set_task_def apply_l4_signal_batch_def split: if_splits)

lemma par_finishes:
  assumes "par_inv mc cs s" "1 \<le> mc" "ps_failed s = None" "\<not> ps_halt s"
  shows "\<exists>s'. (par_step mc)\<^sup>*\<^sup>* s s' \<and> par_done s' \<and> ps_failed s' = None"
  using assms
proof (induction "weight_left s" arbitrary: s rule: less_induct)
  case less
  show ?case
  proof (cases "par_done s")
    case False
    then obtain i where "i < length cs" "\<not> collected s i" using less.prems by (auto simp: par_done_def par_inv_def)
    then obtain q where q: "par_step mc s q" "ps_halt q = ps_halt s" using par_progress less.prems by blast
    then have "\<exists>s'. (par_step mc)\<^sup>*\<^sup>* q s' \<and> par_done s' \<and> ps_failed s' = None"
      using less.prems par_step_weight par_step_inv par_step_ok by (intro less.hyps) auto
    then show ?thesis using q(1) by (meson converse_rtranclp_into_rtranclp)
  qed (use less.prems in blast)
qed

lemma hitl_run_exists: "\<exists>out. hitl_run xs ask setting False cs (Inr out)"
proof -
  obtain ok skipped where c: "check_before_workers xs ask cs = (ok, skipped)" by (metis surj_pair)
  have "1 \<le> max_concurrent setting" by (auto simp: max_concurrent_def split: option.split)
  then obtain s where "(par_step (max_concurrent setting))\<^sup>*\<^sup>* (par_init False ok) s" "par_done s" "ps_failed s = None"
    using par_finishes [OF par_init_inv [of "max_concurrent setting" ok False]] by (auto simp: par_init_def)
  then show ?thesis
    using c All_declined [of xs ask cs skipped setting]
      Ran [of xs ask cs ok skipped setting s "Inr (map snd (ps_out s), skipped)"] by (cases "ok = []") auto
qed

text \<open>Whatever the workers answer, there is a run that collects the answers in their order.\<close>

definition par_after :: "worker_config list \<Rightarrow> (worker_config \<Rightarrow> worker_result) \<Rightarrow> nat \<Rightarrow> par_state" where
  "par_after cs run k =
     \<lparr>ps_cfgs = cs, ps_tasks = map (\<lambda>c. Task_returned (run c)) (take k cs) @ replicate (length cs - k) Task_waiting,
      ps_halt = False, ps_out = map (\<lambda>i. (i, run (cs ! i))) [0..<k], ps_failed = None\<rparr>"

lemma par_after_next:
  assumes ids: "\<And>c. wr_worker_id (run c) = cfg_worker_id c" and k: "k < length cs" and mc: "1 \<le> mc"
  shows "(par_step mc)\<^sup>*\<^sup>* (par_after cs run k) (par_after cs run (Suc k))"
proof -
  let ?s0 = "par_after cs run k" let ?s1 = "set_task k Task_running ?s0"
  let ?s2 = "set_task k (Task_returned (run (cs ! k))) ?s1"
  have len: "length (ps_tasks ?s0) = length cs" using k by (simp add: par_after_def)
  have at: "ps_tasks ?s0 ! k = Task_waiting" using k by (simp add: par_after_def nth_append)
  have "running ?s0 = 0" by (simp add: running_def par_after_def in_slot_def filter_empty_conv)
  then have "par_step mc ?s0 ?s1" using mc k len at by (intro Start) (simp_all add: par_after_def)
  moreover have "par_step mc ?s1 ?s2"
    using k len by (intro Return) (simp_all add: set_task_def par_after_def in_slot_def ids)
  moreover have "par_step mc ?s2 (?s2\<lparr>ps_out := ps_out ?s2 @ [(k, run (cs ! k))]\<rparr>)"
    using k len by (intro Collect) (simp_all add: set_task_def par_after_def collected_def image_iff)
  moreover have "?s2\<lparr>ps_out := ps_out ?s2 @ [(k, run (cs ! k))]\<rparr> = par_after cs run (Suc k)"
  proof -
    have "replicate (length cs - k) Task_waiting = Task_waiting # replicate (length cs - Suc k) Task_waiting"
      using k by (metis Suc_diff_Suc replicate_Suc)
    then show ?thesis using k by (simp add: par_after_def set_task_def take_Suc_conv_app_nth list_update_append)
  qed
  ultimately show ?thesis by (metis (no_types, lifting) r_into_rtranclp rtranclp.rtrancl_into_rtrancl)
qed

lemma hitl_run_map:
  assumes ids: "\<And>c. wr_worker_id (run c) = cfg_worker_id c"
  shows "hitl_run [] None setting False cs (Inr (map run cs, []))"
proof (cases "cs = []")
  case True
  then show ?thesis using All_declined [of "[]" None "[]" "[]" setting] by simp
next
  case False
  let ?mc = "max_concurrent setting"
  have mc: "1 \<le> ?mc" by (auto simp: max_concurrent_def split: option.split)
  have "k \<le> length cs \<Longrightarrow> (par_step ?mc)\<^sup>*\<^sup>* (par_init False cs) (par_after cs run k)" for k
  proof (induction k)
    case 0
    then show ?case by (simp add: par_after_def par_init_def)
  next
    case (Suc k)
    then show ?case using par_after_next [OF ids, of k cs ?mc] mc by (simp add: rtranclp_trans)
  qed
  then have "(par_step ?mc)\<^sup>*\<^sup>* (par_init False cs) (par_after cs run (length cs))" by simp
  moreover have "par_done (par_after cs run (length cs))"
    by (auto simp: par_done_def par_after_def collected_def image_iff)
  moreover have "map snd (ps_out (par_after cs run (length cs))) = map run cs"
    by (simp add: par_after_def comp_def map_nth [of cs, THEN arg_cong [of _ _ "map run"], unfolded map_map comp_def])
  ultimately show ?thesis
    using False by (intro Ran [of _ _ _ cs "[]"]) (auto simp: par_after_def)
qed

end
