(* ===== verification/Dag_Patterns.thy ===== *)
theory Dag_Patterns
  imports Parallel_Workers
begin

text \<open>
  The HYBRID\_DAG and SUPERVISOR patterns (\<open>src/agloom/patterns/hybrid_dag.py\<close> and
  \<open>supervisor.py\<close>) over the parallel engine and the hooks of the orchestrator.

  A batch of workers is run through an argument that gives its results and the ids of the skipped
  workers; the lemmas take it to be an outcome of the engine of \<open>Parallel_Workers\<close>. They
  show that every worker of the plan gives one result or was skipped, and what makes the pattern
  a success.
\<close>

section \<open>Levels of workers\<close>

text \<open>\<open>le_batch\<close> runs a batch, \<open>le_halts\<close> says whether \<open>HALT_ALL\<close> has fired when it ends.\<close>

record level_env =
  le_batch :: "worker_config list \<Rightarrow> worker_result list \<times> string list"
  le_halts :: "worker_config list \<Rightarrow> bool"

record level_state =
  ls_results :: "worker_result list"
  ls_completed :: "worker_result pydict"
  ls_skipped :: "string list"
  ls_steps :: "agent_step list"
  ls_halted :: bool

definition level_halted_row :: "nat \<Rightarrow> worker_config \<Rightarrow> worker_result" where
  "level_halted_row i =
     halted_worker_result (''Skipped '' @ em_dash @ '' HALT_ALL fired in Level '' @ py_str_int (int i - 1) @ ''.'') ''HALT_ALL''"

definition record_row :: "int \<Rightarrow> bool \<Rightarrow> worker_result \<Rightarrow> level_state \<Rightarrow> level_state" where
  "record_row cap tools r s =
     s\<lparr>ls_results := ls_results s @ [r], ls_completed := AList.update (wr_worker_id r) r (ls_completed s),
       ls_steps := ls_steps s
         @ (if tools then filter (\<lambda>x. as_type x = Step_tool_call \<or> as_type x = Step_tool_result) (wr_steps r) else [])
         @ [end_step cap r]\<rparr>"

definition start_entry :: "int \<Rightarrow> worker_config \<Rightarrow> agent_step" where
  "start_entry cap cfg = make_step Step_worker_start (cfg_worker_id cfg) (cfg_task cfg) [] cap []"

definition level_spawns :: "pattern_env \<Rightarrow> orch_context \<Rightarrow> bool" where
  "level_spawns V c \<longleftrightarrow>
     oa_dynamic_nodes (ow_agent (pe_world V)) \<and> pattern_spawns_enabled (ow_agent (pe_world V)) (Some c)"

text \<open>
  The levels in order. The halt event reaches the workers only where the level is run as one
  batch; nodes run as patterns get none.
\<close>

fun run_levels ::
    "pattern_env \<Rightarrow> level_env \<Rightarrow> query_analysis \<Rightarrow> orch_context \<Rightarrow> nat \<Rightarrow> worker_config list list
       \<Rightarrow> level_state \<Rightarrow> (level_state \<Rightarrow> prog) \<Rightarrow> prog" where
  "run_levels V E an c i [] s k = k s"
| "run_levels V E an c i (l # ls) s k =
     (if ls_halted s
      then run_levels V E an c (Suc i) ls
             (fold (\<lambda>cfg. record_row (pe_cap V) False (level_halted_row i cfg)) l s) k
      else let enriched = map (\<lambda>cfg. inject_dag_context cfg (ls_completed s)) l;
               s1 = s\<lparr>ls_steps := ls_steps s @ map (start_entry (pe_cap V)) enriched\<rparr>;
               halts = \<not> level_spawns V c \<and> le_halts E enriched
           in run_dag_level_workers (pe_world V) (Some c) (le_batch E) (pe_run V) an False enriched
                (\<lambda>(rs, skipped). recover_failed_workers (ow_agent (pe_world V)) (Some c) rs
                   (\<lambda>zs. run_levels V E an c (Suc i) ls
                      (fold (record_row (pe_cap V) True) zs
                         (s1\<lparr>ls_skipped := ls_skipped s1 @ skipped, ls_halted := halts\<rparr>)) k)))"

section \<open>The synthesis\<close>

text \<open>What the model gives for a synthesis prompt: a text and its usage, or one of two failures.\<close>

datatype synth_failure = Synth_timeout | Synth_failed

type_synonym llm_synthesizer = "string \<Rightarrow> synth_failure + string \<times> int pydict"

fun synth_error :: "synth_failure \<Rightarrow> string" where
  "synth_error Synth_timeout = ''SynthesisTimeout''"
| "synth_error Synth_failed = ''SynthesisFailed''"

definition ph_original_query :: string where
  "ph_original_query = ''__AGLOOM_ORIGINAL_QUERY__''"

definition ph_worker_outputs :: string where
  "ph_worker_outputs = ''__AGLOOM_WORKER_OUTPUTS__''"

definition ph_agent_perspectives :: string where
  "ph_agent_perspectives = ''__AGLOOM_AGENT_PERSPECTIVES__''"

definition human_message_body_replace_placeholders :: "string \<Rightarrow> (string \<times> string) list \<Rightarrow> string" where
  "human_message_body_replace_placeholders template reps = fold (\<lambda>(key, val). py_replace key val) reps template"

definition hybrid_dag_synthesis_prompt :: string where
  "hybrid_dag_synthesis_prompt = join_with newline
     [''You are the final synthesizer of a multi-stage agent pipeline.'',
      ''Workers executed in a dependency graph '' @ em_dash @ '' some in parallel, some sequentially.'',
      ''Combine all results into a single coherent, well-structured final answer.'', [],
      ''ORIGINAL QUERY:'', ph_original_query, [],
      ''WORKER OUTPUTS (in execution order):'', ph_worker_outputs, [],
      ''FINAL ANSWER:'',
      ''Provide a complete, unified answer that integrates all worker findings.'']"

definition format_all_outputs :: "worker_result list \<Rightarrow> string" where
  "format_all_outputs rs = join_with (newline @ newline)
     (map (\<lambda>r. (if wr_signal r = SUCCESS then ''OK'' else ''FAIL'') @ '' ['' @ wr_worker_id r @ ''] '' @ em_dash @ '' ''
        @ wr_task r @ newline @ wr_output r) rs)"

definition dag_prompt :: "string \<Rightarrow> worker_result list \<Rightarrow> string" where
  "dag_prompt query rs = human_message_body_replace_placeholders hybrid_dag_synthesis_prompt
     [(ph_original_query, query), (ph_worker_outputs, format_all_outputs rs)]"

definition synth_failure_class :: "synth_failure option \<Rightarrow> exec_result \<Rightarrow> exec_result" where
  "synth_failure_class e r =
     (case e of None \<Rightarrow> r
      | Some Synth_timeout \<Rightarrow> exec_failure_kwargs (Some ''SynthesisTimeout'') ''timeout'' r
      | Some Synth_failed \<Rightarrow> exec_failure_kwargs (Some ''SynthesisFailed'') ''execution'' r)"

section \<open>HYBRID\_DAG\<close>

text \<open>\<open>repr\<close> prints a list of ids.\<close>

definition dag_result ::
    "(string list \<Rightarrow> string) \<Rightarrow> llm_synthesizer \<Rightarrow> pattern_env \<Rightarrow> string \<Rightarrow> level_state \<Rightarrow> exec_result" where
  "dag_result repr llm V query s =
     (let rs = ls_results s; steps = ls_steps s; u = worker_usage [] rs;
          make = (\<lambda>out ok err meta. execution_result HYBRID_DAG query out (steps_taken_from_audit steps) ok err rs steps u meta);
          halted = filter (\<lambda>r. wr_signal r = HALTED) rs
      in if any_worker_succeeded rs then
           (let (out, e, su) = (case llm (dag_prompt query rs) of
                    Inr (txt, su) \<Rightarrow> (txt, None, su) | Inl e \<Rightarrow> (format_all_outputs rs, Some e, []));
                steps1 = steps @ [make_step Step_llm_call ''hybrid_dag_synthesis'' query out (pe_cap V)
                                   [(''phase'', ''hybrid_dag_synthesis'')]]
            in synth_failure_class e
                 (execution_result HYBRID_DAG query out (steps_taken_from_audit steps1)
                    (pattern_synthesis_success rs (e \<noteq> None)) (map_option synth_error e) rs steps1
                    (if su = [] then u else merge_token_usage u su)
                    [(''worker_success_count'', Meta_val (PyInt (int (length (filter (\<lambda>r. wr_signal r = SUCCESS) rs))))),
                     (''worker_total'', Meta_val (PyInt (int (length rs)))),
                     (''synthesis_degraded'', Meta_flag (e \<noteq> None))]))
         else if rs = [] \<and> ls_skipped s \<noteq> [] then
           make (''All DAG workers were skipped at user request (interrupt_before_workers): '' @ repr (ls_skipped s)) True None
             [(''user_skipped_workers'', Meta_val (PyList (map PyStr (ls_skipped s))))]
         else if halted \<noteq> [] then
           exec_failure_kwargs (Some ''HALT_ALL'') ''execution''
             (make ''DAG execution halted by user.'' False (Some ''HALT_ALL'')
                [(''halted_workers'', Meta_val (PyList (map (\<lambda>r. PyStr (wr_worker_id r)) halted)))])
         else exec_failure_kwargs (Some all_workers_failed_error) ''worker''
                (make ''All workers in the DAG failed.'' False (Some all_workers_failed_error) []))"

definition level_start :: "pattern_env \<Rightarrow> level_state" where
  "level_start V = \<lparr>ls_results = [], ls_completed = [], ls_skipped = [], ls_steps = pe_audit V, ls_halted = False\<rparr>"

definition handle_hybrid_dag :: "(string list \<Rightarrow> string) \<Rightarrow> llm_synthesizer \<Rightarrow> level_env \<Rightarrow> pattern_env \<Rightarrow> handler" where
  "handle_hybrid_dag repr llm E V query an c t =
     (if qa_subtasks an = []
      then Return (no_plan V HYBRID_DAG query ''No DAG workers could be planned for this query.'')
      else case group_by_level (pattern_configs V (qa_subtasks an)) of
             Inl e \<Rightarrow> Fail e
           | Inr ls \<Rightarrow> run_levels V E an c 0 ls (level_start V) (\<lambda>s. Return (dag_result repr llm V query s)))"

section \<open>Every worker is accounted for\<close>

text \<open>Every batch is run by the parallel engine, and no exception leaves it.\<close>

definition batches_run :: "level_env \<Rightarrow> bool" where
  "batches_run E \<longleftrightarrow> (\<forall>cs. \<exists>xs ask setting. hitl_run xs ask setting False cs (Inr (le_batch E cs)))"

lemma batch_accounts:
  assumes "batches_run E"
  shows "mset (map wr_worker_id (fst (le_batch E cs))) + mset (snd (le_batch E cs)) = mset (map cfg_worker_id cs)"
proof -
  obtain xs ask setting where "hitl_run xs ask setting False cs (Inr (fst (le_batch E cs), snd (le_batch E cs)))"
    using assms unfolding batches_run_def prod.collapse by blast
  then show ?thesis by (rule hitl_run_accounts)
qed

lemma node_row:
  assumes "\<And>c. wr_worker_id (run c) = cfg_worker_id c" and "batches_run E"
  shows "\<exists>r. run_prog d (run_dag_node_or_dispatch w api (le_batch E) run an cfg k) = run_prog d (k r)
    \<and> wr_worker_id r = cfg_worker_id cfg"
proof (cases "if \<not> oa_frozen (ow_agent w) \<and> oa_dynamic_nodes (ow_agent w)
    \<and> pattern_spawns_enabled (ow_agent w) api \<and> (cfg_tools cfg \<noteq> [] \<or> 7 \<le> qa_complexity an) then api else None")
  case None
  have "wr_worker_id ` set (fst (le_batch E [cfg])) \<subseteq> {cfg_worker_id cfg}"
    using arg_cong [OF batch_accounts [OF assms(2), of "[cfg]"], of set_mset] by auto
  then show ?thesis
    unfolding run_dag_node_or_dispatch_def None option.case
    by (cases "fst (le_batch E [cfg])") (auto intro: exI [of _ "\<lparr>wr_worker_id = cfg_worker_id cfg, wr_task = cfg_task cfg,
        wr_output = ''No worker result.'', wr_signal = FAILED, wr_error = None, wr_elapsed_ms = 0, wr_attempt = 1,
        wr_token_usage = [], wr_steps = []\<rparr>"])
next
  case (Some c)
  show ?thesis
    unfolding run_dag_node_or_dispatch_def Some option.case dag_node_spawn_def spawn_pattern_def run_prog.simps
    by (rule exI, rule conjI, rule refl)
      (simp add: assms(1) worker_result_from_spawn_def Let_def split: sum.split)
qed

lemma node_rows:
  assumes "\<And>c. wr_worker_id (run c) = cfg_worker_id c" and "batches_run E"
  shows "\<exists>rs. run_prog d (run_dag_nodes (run_dag_node_or_dispatch w api (le_batch E) run an) cfgs acc k)
      = run_prog d (k (rev acc @ rs)) \<and> map wr_worker_id rs = map cfg_worker_id cfgs"
proof (induction cfgs arbitrary: acc)
  case (Cons x xs)
  obtain r where r: "run_prog d (run_dag_nodes (run_dag_node_or_dispatch w api (le_batch E) run an) (x # xs) acc k)
      = run_prog d (run_dag_nodes (run_dag_node_or_dispatch w api (le_batch E) run an) xs (r # acc) k)"
    "wr_worker_id r = cfg_worker_id x"
    using node_row [OF assms, where cfg = x] by fastforce
  obtain rs where "run_prog d (run_dag_nodes (run_dag_node_or_dispatch w api (le_batch E) run an) xs (r # acc) k)
      = run_prog d (k (rev (r # acc) @ rs))" "map wr_worker_id rs = map cfg_worker_id xs"
    using Cons by blast
  then show ?case using r by (intro exI [of _ "r # rs"]) simp
qed simp

lemma level_rows:
  assumes "\<And>c. wr_worker_id (run c) = cfg_worker_id c" and "batches_run E"
  shows "\<exists>rs sk. run_prog d (run_dag_level_workers w api (le_batch E) run an False cfgs k) = run_prog d (k (rs, sk))
    \<and> mset (map wr_worker_id rs) + mset sk = mset (map cfg_worker_id cfgs)
    \<and> (oa_dynamic_nodes (ow_agent w) \<and> pattern_spawns_enabled (ow_agent w) api \<longrightarrow>
         sk = [] \<and> map wr_worker_id rs = map cfg_worker_id cfgs)"
proof (cases "oa_dynamic_nodes (ow_agent w) \<and> pattern_spawns_enabled (ow_agent w) api")
  case True
  obtain rs where "run_prog d (run_dag_nodes (run_dag_node_or_dispatch w api (le_batch E) run an) cfgs [] (\<lambda>rs. k (rs, [])))
      = run_prog d (k (rs, []))" "map wr_worker_id rs = map cfg_worker_id cfgs"
    using node_rows [OF assms, of d w api an cfgs "[]" "\<lambda>rs. k (rs, [])"] by auto
  then show ?thesis using True by (intro exI [of _ rs] exI [of _ "[]"]) (simp add: run_dag_level_workers_def)
next
  case False
  then show ?thesis using batch_accounts [OF assms(2), of cfgs]
    by (intro exI [of _ "fst (le_batch E cfgs)"] exI [of _ "snd (le_batch E cfgs)"]) (auto simp: run_dag_level_workers_def)
qed

lemma recovered_rows:
  "\<exists>zs. run_prog d (recover_failed_workers ag api rs k) = run_prog d (k zs) \<and> map wr_worker_id zs = map wr_worker_id rs"
proof -
  obtain zs where zs: "run_prog d (recover_failed_workers ag api rs k) = run_prog d (k zs)"
    "list_all2 (\<lambda>x z. wr_worker_id z = wr_worker_id x \<and> wr_task z = wr_task x
           \<and> (wr_signal x = SUCCESS \<longrightarrow> z = x) \<and> (z \<noteq> x \<longrightarrow> wr_signal z = SUCCESS)) rs zs"
    using recovery_keeps_results [of d ag api rs k] by blast
  have "map wr_worker_id zs = map wr_worker_id rs"
    using zs(2) by (induction rs zs rule: list_all2_induct) auto
  then show ?thesis using zs(1) by blast
qed

lemma record_row_fields [simp]:
  "ls_results (record_row cap b r s) = ls_results s @ [r]"
  "ls_skipped (record_row cap b r s) = ls_skipped s"
  "ls_halted (record_row cap b r s) = ls_halted s"
  by (simp_all add: record_row_def)

lemma record_rows_fields:
  "ls_results (fold (\<lambda>x. record_row cap b (f x)) xs s) = ls_results s @ map f xs"
  "ls_skipped (fold (\<lambda>x. record_row cap b (f x)) xs s) = ls_skipped s"
  "ls_halted (fold (\<lambda>x. record_row cap b (f x)) xs s) = ls_halted s"
  by (induction xs arbitrary: s) simp_all

lemma level_halted_row_id [simp]: "wr_worker_id (level_halted_row i c) = cfg_worker_id c"
  by (simp add: level_halted_row_def halted_worker_result_def worker_row_def)

lemma inject_dag_id [simp]: "cfg_worker_id (inject_dag_context c m) = cfg_worker_id c"
  by (simp add: inject_dag_context_def Let_def)

lemma run_levels_accounts:
  assumes "\<And>c. wr_worker_id (pe_run V c) = cfg_worker_id c" and "batches_run E"
  shows "\<exists>s'. run_prog d (run_levels V E an c i ls s k) = run_prog d (k s')
    \<and> mset (map wr_worker_id (ls_results s')) + mset (ls_skipped s')
        = mset (map wr_worker_id (ls_results s)) + mset (ls_skipped s) + mset (map cfg_worker_id (concat ls))
    \<and> (level_spawns V c \<longrightarrow> ls_skipped s' = ls_skipped s
         \<and> map wr_worker_id (ls_results s') = map wr_worker_id (ls_results s) @ map cfg_worker_id (concat ls))"
proof (induction ls arbitrary: i s)
  case (Cons l ls)
  show ?case
  proof (cases "ls_halted s")
    case True
    then show ?thesis
      using Cons.IH [of "Suc i" "fold (\<lambda>cfg. record_row (pe_cap V) False (level_halted_row i cfg)) l s"]
      by (simp add: record_rows_fields comp_def ac_simps)
  next
    case False
    let ?e = "map (\<lambda>cfg. inject_dag_context cfg (ls_completed s)) l"
    let ?s1 = "s\<lparr>ls_steps := ls_steps s @ map (start_entry (pe_cap V)) ?e\<rparr>"
    let ?h = "\<not> level_spawns V c \<and> le_halts E ?e"
    let ?next = "\<lambda>zs sk. fold (record_row (pe_cap V) True) zs (?s1\<lparr>ls_skipped := ls_skipped ?s1 @ sk, ls_halted := ?h\<rparr>)"
    let ?k = "\<lambda>(rs, sk). recover_failed_workers (ow_agent (pe_world V)) (Some c) rs
                   (\<lambda>zs. run_levels V E an c (Suc i) ls (?next zs sk) k)"
    obtain rs sk where level: "run_prog d (run_dag_level_workers (pe_world V) (Some c) (le_batch E) (pe_run V) an False ?e ?k)
        = run_prog d (?k (rs, sk))"
      and acc: "mset (map wr_worker_id rs) + mset sk = mset (map cfg_worker_id l)"
      and dyn: "level_spawns V c \<longrightarrow> sk = [] \<and> map wr_worker_id rs = map cfg_worker_id l"
      using level_rows [OF assms, of d "pe_world V" "Some c" an ?e ?k] by (auto simp: level_spawns_def comp_def)
    obtain zs where zs: "run_prog d (?k (rs, sk)) = run_prog d (run_levels V E an c (Suc i) ls (?next zs sk) k)"
      "map wr_worker_id zs = map wr_worker_id rs"
      using recovered_rows [of d "ow_agent (pe_world V)" "Some c" rs
          "\<lambda>zs. run_levels V E an c (Suc i) ls (?next zs sk) k"] by auto
    have f: "ls_results (?next zs sk) = ls_results s @ zs" "ls_skipped (?next zs sk) = ls_skipped s @ sk"
      using record_rows_fields [where f = "\<lambda>x. x"] by simp_all
    have run: "run_prog d (run_levels V E an c i (l # ls) s k) = run_prog d (run_levels V E an c (Suc i) ls (?next zs sk) k)"
      using level zs(1) False by (simp add: Let_def)
    obtain s' where s': "run_prog d (run_levels V E an c (Suc i) ls (?next zs sk) k) = run_prog d (k s')"
      "mset (map wr_worker_id (ls_results s')) + mset (ls_skipped s')
        = mset (map wr_worker_id (ls_results s @ zs)) + mset (ls_skipped s @ sk) + mset (map cfg_worker_id (concat ls))"
      "level_spawns V c \<longrightarrow> ls_skipped s' = ls_skipped s @ sk
         \<and> map wr_worker_id (ls_results s') = map wr_worker_id (ls_results s @ zs) @ map cfg_worker_id (concat ls)"
      using Cons.IH [of "Suc i" "?next zs sk"] unfolding f by blast
    have "mset (map wr_worker_id (ls_results s @ zs)) + mset (ls_skipped s @ sk)
        = mset (map wr_worker_id (ls_results s)) + mset (ls_skipped s) + mset (map cfg_worker_id l)"
      unfolding acc [symmetric] map_append mset_append zs(2) by (simp only: ac_simps)
    then show ?thesis
      using s' dyn zs(2) unfolding run by (intro exI [of _ s']) (simp add: ac_simps)
  qed
next
  case Nil
  show ?case by (intro exI [of _ s]) simp
qed

lemma pattern_success_facts:
  "er_success (synth_failure_class e r) = er_success r" "er_error (synth_failure_class e r) = er_error r"
  "er_workers (synth_failure_class e r) = er_workers r" "er_output (synth_failure_class e r) = er_output r"
  "er_success (exec_failure_kwargs m k r) = er_success r" "er_error (exec_failure_kwargs m k r) = er_error r"
  "er_workers (exec_failure_kwargs m k r) = er_workers r" "er_output (exec_failure_kwargs m k r) = er_output r"
  by (auto simp: synth_failure_class_def exec_failure_kwargs_def split_beta split: option.split synth_failure.split)

lemma synth_error_nonempty: "synth_error e \<noteq> []"
  by (cases e) auto

lemma dag_result_facts:
  "er_workers (dag_result repr llm V query s) = ls_results s"
  "any_worker_succeeded (ls_results s) \<Longrightarrow>
     er_success (dag_result repr llm V query s) \<longleftrightarrow> (\<exists>txt u. llm (dag_prompt query (ls_results s)) = Inr (txt, u))"
  "any_worker_succeeded (ls_results s) \<Longrightarrow> llm (dag_prompt query (ls_results s)) = Inr (txt, u) \<Longrightarrow>
     er_output (dag_result repr llm V query s) = txt"
  "any_worker_succeeded (ls_results s) \<Longrightarrow> llm (dag_prompt query (ls_results s)) = Inl e \<Longrightarrow>
     er_output (dag_result repr llm V query s) = format_all_outputs (ls_results s)"
  "\<not> any_worker_succeeded (ls_results s) \<Longrightarrow>
     er_success (dag_result repr llm V query s) \<longleftrightarrow> ls_results s = [] \<and> ls_skipped s \<noteq> []"
  "er_success (dag_result repr llm V query s) \<longleftrightarrow> er_error (dag_result repr llm V query s) = None"
  by (auto simp: dag_result_def execution_result_def pattern_success_facts pattern_synthesis_success_def Let_def
      all_workers_failed_error_def split: sum.splits prod.splits)

text \<open>
  C21. A dependency graph that can be run is run level by level: each worker gives one result or
  was skipped, none is skipped where the nodes are run as patterns, and then the results follow
  the levels. The answer is a success exactly if a worker succeeded and the model wrote the
  synthesis, or if the user skipped every worker; a success is the one answer without an error,
  and a synthesis that fails leaves the outputs of all workers as the answer.
\<close>

theorem hybrid_dag_outcome:
  assumes "plan_ok (plan_graph (qa_subtasks an))" and "qa_subtasks an \<noteq> []"
    and "\<And>c. wr_worker_id (pe_run V c) = cfg_worker_id c" and "batches_run E"
  shows "\<exists>r ls skipped. run_prog d (handle_hybrid_dag repr llm E V query an c t) = Inr r
    \<and> group_by_level (pattern_configs V (qa_subtasks an)) = Inr ls
    \<and> mset (map wr_worker_id (er_workers r)) + mset skipped = mset (map cfg_worker_id (concat ls))
    \<and> (level_spawns V c \<longrightarrow> skipped = [] \<and> map wr_worker_id (er_workers r) = map cfg_worker_id (concat ls))
    \<and> (er_success r \<longleftrightarrow> er_error r = None)
    \<and> (er_success r \<longleftrightarrow> (any_worker_succeeded (er_workers r)
           \<and> (\<exists>u. llm (dag_prompt query (er_workers r)) = Inr (er_output r, u)))
         \<or> er_workers r = [] \<and> skipped \<noteq> [])
    \<and> (\<not> er_success r \<and> any_worker_succeeded (er_workers r) \<longrightarrow> er_output r = format_all_outputs (er_workers r))"
proof -
  let ?cs = "pattern_configs V (qa_subtasks an)"
  have "distinct (map cfg_worker_id ?cs)" "deps_known ?cs" "acyclic (dep_rel ?cs)"
    using assms(1) plan_ok_configs by (metis pattern_configs_graph)+
  then obtain ls where ls: "group_by_level ?cs = Inr ls" using group_by_level_total by blast
  let ?fin = "dag_result repr llm V query"
  obtain s where s: "run_prog d (run_levels V E an c 0 ls (level_start V) (\<lambda>s. Return (?fin s))) = Inr (?fin s)"
    "mset (map wr_worker_id (ls_results s)) + mset (ls_skipped s) = mset (map cfg_worker_id (concat ls))"
    "level_spawns V c \<longrightarrow> ls_skipped s = [] \<and> map wr_worker_id (ls_results s) = map cfg_worker_id (concat ls)"
    using run_levels_accounts [OF assms(3,4), of d an c 0 ls "level_start V" "\<lambda>s. Return (?fin s)"]
    by (auto simp: level_start_def)
  note F = dag_result_facts [where repr = repr and llm = llm and V = V and query = query and s = s]
  show ?thesis
  proof (intro exI conjI)
    show "run_prog d (handle_hybrid_dag repr llm E V query an c t) = Inr (?fin s)"
      using assms(2) ls s(1) by (simp add: handle_hybrid_dag_def)
    show "er_success (?fin s) \<longleftrightarrow> (any_worker_succeeded (er_workers (?fin s))
           \<and> (\<exists>u. llm (dag_prompt query (er_workers (?fin s))) = Inr (er_output (?fin s), u)))
         \<or> er_workers (?fin s) = [] \<and> ls_skipped s \<noteq> []"
      using F(2,3,5) by (cases "any_worker_succeeded (ls_results s)") (fastforce simp: F(1) any_worker_succeeded_def)+
    show "\<not> er_success (?fin s) \<and> any_worker_succeeded (er_workers (?fin s))
        \<longrightarrow> er_output (?fin s) = format_all_outputs (er_workers (?fin s))"
      using F(2,4) by (cases "llm (dag_prompt query (ls_results s))") (auto simp: F(1))
  qed (use ls s(2,3) F(1,6) in auto)
qed

theorem hybrid_dag_outcome_witness:
  "\<exists>E r. batches_run E
     \<and> run_prog (\<lambda>_. Inl OutOfFuel)
         (handle_hybrid_dag concat (\<lambda>_. Inl Synth_timeout) E (demo_env b_fails) ''go'' demo_turn demo_context 120) = Inr r
     \<and> map wr_worker_id (er_workers r) = [''a'', ''b''] \<and> \<not> er_success r"
proof -
  obtain run where run: "\<And>cs. hitl_run [] None None False cs (Inr (run cs))"
    using hitl_run_exists [of "[]" None None] by metis
  define E where "E = \<lparr>le_batch = run, le_halts = (\<lambda>_. False)\<rparr>"
  have E: "batches_run E" unfolding batches_run_def E_def level_env.simps using run by blast
  have "level_spawns (demo_env b_fails) demo_context" by code_simp
  moreover have "(case group_by_level (pattern_configs (demo_env b_fails) (qa_subtasks demo_turn)) of
      Inr ls \<Rightarrow> map cfg_worker_id (concat ls) = [''a'', ''b''] | Inl _ \<Rightarrow> False)" by code_simp
  moreover have "\<And>c. wr_worker_id (pe_run (demo_env b_fails) c) = cfg_worker_id c"
    by (simp add: demo_env_def b_fails_id)
  ultimately show ?thesis
    using hybrid_dag_outcome [OF demo_turn_plan _ E, of "demo_env b_fails" "\<lambda>_. Inl OutOfFuel" concat
        "\<lambda>_. Inl Synth_timeout" "''go''" demo_context 120] E
    by (fastforce split: sum.splits)
qed

section \<open>SUPERVISOR\<close>

record supervisor_env =
  sv_batch :: level_env
  sv_manager :: "string \<Rightarrow> subtask list option"
  sv_dispatch :: bool
  sv_interrupts :: "string list"

definition manager_aggregation_prompt :: string where
  "manager_aggregation_prompt = join_with newline
     [''You are a Synthesis Manager. Multiple specialist workers have completed ''
        @ ''their tasks in parallel. Synthesize all their results into a single, clear, comprehensive answer.'', [],
      ''Rules:'',
      ''- Integrate all worker outputs '' @ em_dash @ '' do not drop any result.'',
      ''- Resolve conflicts or overlaps with clear reasoning.'',
      ''- If a worker failed, note it briefly and continue with available results.'',
      ''- Output must directly answer the original query.'',
      ''- Be concise but complete.'']"

definition fallback_plan :: "string \<Rightarrow> subtask" where
  "fallback_plan query =
     \<lparr>st_worker_id = ''worker-1'', st_task = query, st_tools = [], st_depends_on = [],
      st_system = ''You are a helpful AI assistant.'', st_context = []\<rparr>"

text \<open>The manager model gives a list of plans, or nothing where its call failed.\<close>

definition plan_via_manager_llm :: "(string \<Rightarrow> subtask list option) \<Rightarrow> string \<Rightarrow> subtask list" where
  "plan_via_manager_llm manager query = (case manager query of Some plans \<Rightarrow> plans | None \<Rightarrow> [fallback_plan query])"

definition get_worker_plans :: "(string \<Rightarrow> subtask list option) \<Rightarrow> string \<Rightarrow> query_analysis \<Rightarrow> subtask list" where
  "get_worker_plans manager query an =
     (if qa_subtasks an \<noteq> [] then qa_subtasks an else plan_via_manager_llm manager query)"

definition aggregation_text :: "(string list \<Rightarrow> string) \<Rightarrow> string \<Rightarrow> worker_result list \<Rightarrow> string list \<Rightarrow> string" where
  "aggregation_text repr query rs skipped =
     ''Original query: '' @ query @ newline @ ''Worker results:'' @ newline
     @ join_with newline (map (\<lambda>r. ''--- Worker '' @ wr_worker_id r @ '' | Status: '' @ signal_value (wr_signal r)
         @ '' ---'' @ newline @ ''Task: '' @ wr_task r @ newline @ ''Result: '' @ wr_output r) rs)
     @ (if skipped = [] then [] else newline @ ''The following workers were skipped: '' @ repr skipped)
     @ newline @ ''Synthesize all results into a single comprehensive answer.''"

definition aggregate_results ::
    "(string list \<Rightarrow> string) \<Rightarrow> llm_synthesizer \<Rightarrow> string \<Rightarrow> worker_result list \<Rightarrow> string list
       \<Rightarrow> string \<times> synth_failure option \<times> int pydict" where
  "aggregate_results repr llm query rs skipped =
     (if rs = [] then (''No worker results to aggregate.'', None, [])
      else case llm (aggregation_text repr query rs skipped) of
             Inr (txt, u) \<Rightarrow> (txt, None, u)
           | Inl e \<Rightarrow> (join_with newline (map (\<lambda>r. wr_worker_id r @ '': '' @ wr_output r) rs), Some e, []))"

definition worker_rows :: "int \<Rightarrow> worker_result \<Rightarrow> agent_step list" where
  "worker_rows cap r =
     filter (\<lambda>x. as_type x = Step_tool_call \<or> as_type x = Step_tool_result) (wr_steps r) @ [end_step cap r]"

text \<open>
  The steps and the usage are those of the workers before the recovery (\<open>before\<close>), the results
  those after it.
\<close>

definition supervisor_result ::
    "(string list \<Rightarrow> string) \<Rightarrow> llm_synthesizer \<Rightarrow> pattern_env \<Rightarrow> string \<Rightarrow> agent_step list
       \<Rightarrow> worker_result list \<Rightarrow> string list \<Rightarrow> worker_result list \<Rightarrow> exec_result" where
  "supervisor_result repr llm V query started before skipped rs =
     (let steps = started @ concat (map (worker_rows (pe_cap V)) before);
          u = worker_usage [] before
      in if rs = [] \<and> skipped \<noteq> [] then
           execution_result SUPERVISOR query
             (''All workers were skipped at user request (interrupt_before_workers): '' @ repr skipped) 1 True None [] steps []
             [(''user_skipped_workers'', Meta_val (PyList (map PyStr skipped)))]
         else
           (let (out, e, su) = aggregate_results repr llm query rs skipped;
                steps1 = steps @ [make_step Step_llm_call ''supervisor_aggregate'' query out (pe_cap V)
                                   [(''phase'', ''supervisor_aggregate'')]];
                some_ok = any_worker_succeeded rs;
                r = execution_result SUPERVISOR query out (steps_taken_from_audit steps1)
                      (pattern_synthesis_success rs (e \<noteq> None))
                      (if some_ok then map_option synth_error e else Some all_workers_failed_error) rs steps1
                      (if su = [] then u else merge_token_usage u su)
                      [(''synthesis_degraded'', Meta_flag (e \<noteq> None)),
                       (''worker_success_count'', Meta_val (PyInt (int (length (filter (\<lambda>r. wr_signal r = SUCCESS) rs))))),
                       (''worker_total'', Meta_val (PyInt (int (length rs))))]
            in if some_ok then synth_failure_class e r
               else exec_failure_kwargs (Some all_workers_failed_error) ''worker'' r))"

definition supervisor_dispatches :: "supervisor_env \<Rightarrow> pattern_env \<Rightarrow> orch_context \<Rightarrow> bool" where
  "supervisor_dispatches S V c \<longleftrightarrow>
     pattern_spawns_enabled (ow_agent (pe_world V)) (Some c) \<and> sv_dispatch S \<and> sv_interrupts S = []"

definition handle_supervisor :: "(string list \<Rightarrow> string) \<Rightarrow> llm_synthesizer \<Rightarrow> supervisor_env \<Rightarrow> pattern_env \<Rightarrow> handler" where
  "handle_supervisor repr llm S V query an c t =
     (let plans = get_worker_plans (sv_manager S) query an
      in if plans = [] then Return (no_plan V SUPERVISOR query ''No worker plans could be generated for this query.'')
         else (let cfgs = pattern_configs V plans;
                   started = pe_audit V @ map (start_entry (pe_cap V)) cfgs;
                   w = pe_world V;
                   k = (\<lambda>(before, skipped). recover_failed_workers (ow_agent w) (Some c) before
                          (\<lambda>rs. Return (supervisor_result repr llm V query started before skipped rs)))
               in if supervisor_dispatches S V c
                  then run_dag_level_workers w (Some c) (le_batch (sv_batch S)) (pe_run V) an False cfgs k
                  else k (le_batch (sv_batch S) cfgs)))"

lemma supervisor_result_facts:
  "er_workers (supervisor_result repr llm V query st before skipped rs) = rs"
  "er_success (supervisor_result repr llm V query st before skipped rs) \<longleftrightarrow>
     rs = [] \<and> skipped \<noteq> []
     \<or> any_worker_succeeded rs \<and> (\<exists>u. llm (aggregation_text repr query rs skipped)
         = Inr (er_output (supervisor_result repr llm V query st before skipped rs), u))"
  "er_success (supervisor_result repr llm V query st before skipped rs)
     \<longleftrightarrow> er_error (supervisor_result repr llm V query st before skipped rs) = None"
  by (auto simp: supervisor_result_def aggregate_results_def execution_result_def pattern_success_facts
      pattern_synthesis_success_def Let_def all_workers_failed_error_def any_worker_succeeded_def
      split: sum.splits prod.splits)

text \<open>
  The supervisor runs the subtasks of the classifier, the plan of the manager or one worker
  for the whole query; every worker gives one result or was skipped. It succeeds exactly if a
  worker did and the aggregation was written by the model, or if all were skipped, and a success
  is the one answer without an error.
\<close>

theorem supervisor_outcome:
  assumes "\<And>c. wr_worker_id (pe_run V c) = cfg_worker_id c" and "batches_run (sv_batch S)"
  shows "\<exists>r skipped. run_prog d (handle_supervisor repr llm S V query an c t) = Inr r
    \<and> mset (map wr_worker_id (er_workers r)) + mset skipped
        = mset (map st_worker_id (get_worker_plans (sv_manager S) query an))
    \<and> (er_success r \<longleftrightarrow> er_workers r = [] \<and> skipped \<noteq> []
         \<or> any_worker_succeeded (er_workers r)
           \<and> (\<exists>u. llm (aggregation_text repr query (er_workers r) skipped) = Inr (er_output r, u)))
    \<and> (er_success r \<longleftrightarrow> er_error r = None)"
proof (cases "get_worker_plans (sv_manager S) query an = []")
  case True
  then show ?thesis
    by (intro exI [of _ "no_plan V SUPERVISOR query ''No worker plans could be generated for this query.''"] exI [of _ "[]"])
      (simp add: handle_supervisor_def no_plan_def pattern_success_facts execution_result_def any_worker_succeeded_def)
next
  case False
  define plans where "plans = get_worker_plans (sv_manager S) query an"
  let ?w = "pe_world V" let ?cfgs = "pattern_configs V plans"
  let ?st = "pe_audit V @ map (start_entry (pe_cap V)) ?cfgs"
  let ?k = "\<lambda>(before, skipped). recover_failed_workers (ow_agent ?w) (Some c) before
                          (\<lambda>rs. Return (supervisor_result repr llm V query ?st before skipped rs))"
  obtain before sk where b: "run_prog d (handle_supervisor repr llm S V query an c t) = run_prog d (?k (before, sk))"
    "mset (map wr_worker_id before) + mset sk = mset (map cfg_worker_id ?cfgs)"
  proof (cases "supervisor_dispatches S V c")
    case True
    then show ?thesis
      using that level_rows [OF assms, of d ?w "Some c" an ?cfgs ?k] False
      by (auto simp: handle_supervisor_def Let_def plans_def)
  next
    case False
    then show ?thesis
      using that [of "fst (le_batch (sv_batch S) ?cfgs)" "snd (le_batch (sv_batch S) ?cfgs)"]
        batch_accounts [OF assms(2), of ?cfgs] \<open>get_worker_plans _ _ _ \<noteq> []\<close>
      by (simp add: handle_supervisor_def Let_def plans_def)
  qed
  obtain rs where rs: "run_prog d (?k (before, sk)) = Inr (supervisor_result repr llm V query ?st before sk rs)"
    "map wr_worker_id rs = map wr_worker_id before"
    using recovered_rows [of d "ow_agent ?w" "Some c" before
        "\<lambda>rs. Return (supervisor_result repr llm V query ?st before sk rs)"] by auto
  show ?thesis
  proof (intro exI conjI)
    show "run_prog d (handle_supervisor repr llm S V query an c t)
        = Inr (supervisor_result repr llm V query ?st before sk rs)" using b(1) rs(1) by (rule trans)
    show "mset (map wr_worker_id (er_workers (supervisor_result repr llm V query ?st before sk rs))) + mset sk
        = mset (map st_worker_id (get_worker_plans (sv_manager S) query an))"
      using b(2) unfolding supervisor_result_facts(1) rs(2) worker_ids_resolved plans_def .
  qed (rule supervisor_result_facts(2,3) [unfolded supervisor_result_facts(1)] | simp only: supervisor_result_facts)+
qed

definition demo_supervisor :: "(worker_config list \<Rightarrow> worker_result list \<times> string list) \<Rightarrow> supervisor_env" where
  "demo_supervisor batch =
     \<lparr>sv_batch = \<lparr>le_batch = batch, le_halts = (\<lambda>_. False)\<rparr>, sv_manager = (\<lambda>_. None), sv_dispatch = True,
      sv_interrupts = [''*'']\<rparr>"

text \<open>Every worker declined by the user: an outcome of the parallel engine.\<close>

definition decline_all :: "worker_config list \<Rightarrow> worker_result list \<times> string list" where
  "decline_all cs = ([], map cfg_worker_id cs)"

lemma decline_all_runs: "hitl_run [''*''] (Some (\<lambda>_. Inr ''skip'')) setting False cs (Inr (decline_all cs))"
proof -
  have "declined [''*''] (Some (\<lambda>_. Inr ''skip'')) c" for c
  proof -
    have "''*'' \<in> set (interrupt_tokens [''*''])" "declines ''skip''" by code_simp+
    then show ?thesis by (simp add: declined_def should_interrupt_def)
  qed
  then show ?thesis unfolding decline_all_def by (intro All_declined) (simp add: check_before_workers_filter)
qed

theorem supervisor_outcome_witness:
  "\<exists>r. run_prog (\<lambda>_. Inl OutOfFuel)
      (handle_supervisor concat (\<lambda>_. Inl Synth_failed) (demo_supervisor decline_all) (demo_env b_fails) ''go''
         (plain_analysis SUPERVISOR []) demo_context 120) = Inr r
     \<and> (er_success r \<longleftrightarrow> er_workers r = [])"
proof -
  have S: "batches_run (sv_batch (demo_supervisor decline_all))"
    unfolding batches_run_def demo_supervisor_def supervisor_env.simps level_env.simps using decline_all_runs by blast
  have V: "\<And>c. wr_worker_id (pe_run (demo_env b_fails) c) = cfg_worker_id c"
    by (simp add: demo_env_def b_fails_id)
  have plans: "get_worker_plans (sv_manager (demo_supervisor decline_all)) ''go'' (plain_analysis SUPERVISOR []) \<noteq> []"
    by (simp add: get_worker_plans_def plan_via_manager_llm_def demo_supervisor_def plain_analysis_def)
  then show ?thesis
    using supervisor_outcome [OF V S, of "\<lambda>_. Inl OutOfFuel" concat "\<lambda>_. Inl Synth_failed" "''go''"
        "plain_analysis SUPERVISOR []" demo_context 120] by fastforce
qed

section \<open>Observations\<close>

text \<open>
  A worker that the user declines is run all the same where the nodes of a graph are run as
  patterns: its node is recorded as failed, and the recovery spawns a run for its task.
\<close>

lemma declined_node_is_recovered:
  "case run_prog (\<lambda>q. Inr ((demo_result ''done'')\<lparr>er_query := si_task q\<rparr>))
      (handle_hybrid_dag concat (\<lambda>_. Inr (''answer'', [])) \<lparr>le_batch = decline_all, le_halts = (\<lambda>_. False)\<rparr>
         (demo_env b_fails) ''go'' demo_turn demo_context 120) of
     Inr r \<Rightarrow> er_success r \<and> map (\<lambda>w. (wr_worker_id w, wr_output w, wr_signal w)) (er_workers r)
        = [(''a'', ''done'', SUCCESS), (''b'', ''done'', SUCCESS)]
   | Inl _ \<Rightarrow> False"
  by code_simp

text \<open>Where nodes are run as patterns, a halt of one level does not reach the next one.\<close>

lemma halt_not_propagated:
  "level_spawns V c \<Longrightarrow> run_levels V (E\<lparr>le_halts := h\<rparr>) an c i ls s k = run_levels V E an c i ls s k"
proof (induction ls arbitrary: i s)
  case (Cons l ls)
  then show ?case by (cases "ls_halted s") (simp_all add: Let_def)
qed simp

text \<open>Workers stopped by a halt are run again by the recovery.\<close>

lemma halted_is_recovered:
  "case run_prog (\<lambda>q. Inr (demo_result ''done''))
      (recover_failed_workers (demo_agent 2 1) (Some demo_context) [level_halted_row 1 (demo_worker ''a'' [])]
         (\<lambda>zs. Return ((demo_result [])\<lparr>er_workers := zs\<rparr>))) of
     Inr r \<Rightarrow> map wr_signal (er_workers r) = [SUCCESS] | Inl _ \<Rightarrow> False"
  by code_simp

text \<open>A query that holds the token of the outputs is filled in as well.\<close>

lemma placeholder_in_query:
  "human_message_body_replace_placeholders (''Q: '' @ ph_original_query @ '' O: '' @ ph_worker_outputs)
     [(ph_original_query, ''what is '' @ ph_worker_outputs), (ph_worker_outputs, ''secret'')]
   = ''Q: what is secret O: secret''"
  by code_simp

text \<open>The tokens a recovery of the supervisor uses are not in the usage of its result.\<close>

lemma recovery_usage_lost:
  "er_usage (supervisor_result concat (\<lambda>_. Inr (''answer'', [])) (demo_env b_fails) ''go'' []
      [worker_row (demo_worker ''a'' []) [] FAILED (Some ''boom'') 1] []
      [(worker_row (demo_worker ''a'' []) ''done'' SUCCESS None 1)\<lparr>wr_token_usage := [(''total_tokens'', 900)]\<rparr>]) = []"
  by code_simp

end
