(* ===== verification/Swarm.thy ===== *)
theory Swarm
  imports Dag_Patterns
begin

text \<open>
  The SWARM pattern (\<open>src/agloom/patterns/swarm.py\<close>): every agent of the plan in one parallel
  batch, a reconciling run where the answers disagree, and a synthesis by the model.

  The lemmas show that every agent has exactly one result, skipped ones included, and what the
  pattern reports.
\<close>

definition swarm_synthesis_prompt :: string where
  "swarm_synthesis_prompt = join_with newline
     [''You are synthesizing a multi-agent deliberation where each agent contributed ''
        @ ''a DISTINCT perspective, role, or argument.'', [],
      ''Your job is NOT to simply summarize each perspective. Instead:'',
      ''1. Identify key POINTS OF AGREEMENT across agents'',
      ''2. Identify key POINTS OF TENSION or disagreement'',
      ''3. Provide an EMERGENT SYNTHESIS '' @ em_dash @ '' the insight that arises from the combination ''
        @ ''of perspectives that no single agent could produce alone'', [],
      ''ORIGINAL QUERY:'', ph_original_query, [],
      ''AGENT PERSPECTIVES:'', ph_agent_perspectives, [],
      ''YOUR SYNTHESIS:'',
      ''Provide a balanced, insightful synthesis. Be specific '' @ em_dash @ '' reference the actual ''
        @ ''arguments made by each agent.'']"

definition format_perspectives :: "worker_result list \<Rightarrow> string" where
  "format_perspectives rs = join_with (newline @ newline)
     (map (\<lambda>r. ''['' @ wr_worker_id r @ '']'' @ newline @ ''Role: '' @ wr_task r @ newline @ wr_output r) rs)"

definition swarm_prompt :: "string \<Rightarrow> worker_result list \<Rightarrow> string" where
  "swarm_prompt query oks = human_message_body_replace_placeholders swarm_synthesis_prompt
     [(ph_original_query, query), (ph_agent_perspectives, format_perspectives oks)]"

definition user_skipped :: "worker_config \<Rightarrow> worker_result" where
  "user_skipped = halted_worker_result ''Skipped at user request (interrupt_before_workers).'' ''UserSkipped''"

definition add_skipped :: "worker_config list \<Rightarrow> worker_result list \<times> string list \<Rightarrow> worker_result list" where
  "add_skipped cfgs = (\<lambda>(rs, skipped). rs @ map user_skipped
     (filter (\<lambda>c. cfg_worker_id c \<in> set skipped \<and> cfg_worker_id c \<notin> wr_worker_id ` set rs) cfgs))"

definition swarm_answer ::
    "(string list \<Rightarrow> string) \<Rightarrow> llm_synthesizer \<Rightarrow> pattern_env \<Rightarrow> string \<Rightarrow> agent_step list
       \<Rightarrow> worker_result list \<Rightarrow> string list \<Rightarrow> exec_result" where
  "swarm_answer repr llm V query steps rs skipped =
     (let oks = filter (\<lambda>r. wr_signal r = SUCCESS) rs; u = worker_usage [] rs
      in if oks = [] then
           (if rs = [] \<and> skipped \<noteq> [] then
              execution_result SWARM query
                (''All swarm agents were skipped at user request (interrupt_before_workers): '' @ repr skipped)
                (steps_taken_from_audit steps) True None rs steps u
                [(''user_skipped_workers'', Meta_val (PyList (map PyStr skipped)))]
            else exec_failure_kwargs (Some all_workers_failed_error) ''worker''
              (execution_result SWARM query ''All swarm agents failed to produce output.'' (int (length rs)) False
                 (Some all_workers_failed_error) rs steps u []))
         else
           (let (out, e, su) = (case llm (swarm_prompt query oks) of
                    Inr (txt, su) \<Rightarrow> (txt, None, su) | Inl e \<Rightarrow> (format_perspectives oks, Some e, []));
                steps1 = steps @ [make_step Step_llm_call ''swarm_synthesis'' query out (pe_cap V)
                                   [(''phase'', ''swarm_synthesis'')]]
            in execution_result SWARM query out (steps_taken_from_audit steps1)
                 (pattern_synthesis_success rs (e \<noteq> None)) (map_option synth_error e) rs steps1
                 (if su = [] then u else merge_token_usage u su)
                 [(''worker_success_count'', Meta_val (PyInt (int (length oks)))),
                  (''worker_total'', Meta_val (PyInt (int (length rs)))),
                  (''synthesis_degraded'', Meta_flag (e \<noteq> None))]))"

definition finish_swarm ::
    "(string list \<Rightarrow> string) \<Rightarrow> llm_synthesizer \<Rightarrow> pattern_env \<Rightarrow> string \<Rightarrow> orch_context
       \<Rightarrow> agent_step list \<Rightarrow> worker_result list \<Rightarrow> string list \<Rightarrow> prog" where
  "finish_swarm repr llm V query c started rs skipped =
     (let steps = started @ concat (map (worker_rows (pe_cap V)) rs);
          plain = swarm_answer repr llm V query steps rs skipped
      in maybe_spawn_conflict_resolution BLACKBOARD (ow_agent (pe_world V)) (Some c) query
           (map wr_output (filter (\<lambda>r. wr_signal r = SUCCESS) rs))
           (\<lambda>o1. case o1 of
              None \<Rightarrow> Return plain
            | Some r \<Rightarrow>
                if er_success r then
                  Return (execution_result SWARM query (er_output r) (steps_taken_from_audit steps + er_steps_taken r)
                     True None rs (steps @ er_steps r) (merge_token_usage (worker_usage [] rs) (er_usage r))
                     [(''orchestration_conflict_resolution'', Meta_str (pattern_value BLACKBOARD))])
                else Return plain))"

definition handle_swarm :: "(string list \<Rightarrow> string) \<Rightarrow> llm_synthesizer \<Rightarrow> level_env \<Rightarrow> pattern_env \<Rightarrow> handler" where
  "handle_swarm repr llm E V query an c t =
     (if qa_subtasks an = []
      then Return (no_plan V SWARM query ''No swarm agents could be planned for this query.'')
      else (let cfgs = pattern_configs V (qa_subtasks an);
                started = pe_audit V @ map (start_entry (pe_cap V)) cfgs;
                batch = le_batch E cfgs
            in finish_swarm repr llm V query c started (add_skipped cfgs batch) (snd batch)))"

section \<open>One result for each agent\<close>

lemma user_skipped_row [simp]: "wr_worker_id (user_skipped c) = cfg_worker_id c" "wr_signal (user_skipped c) = HALTED"
  by (simp_all add: user_skipped_def halted_worker_result_def worker_row_def)

lemma add_skipped_accounts:
  assumes acc: "mset (map wr_worker_id rs) + mset skipped = mset (map cfg_worker_id cfgs)"
    and dist: "distinct (map cfg_worker_id cfgs)"
  shows "mset (map wr_worker_id (add_skipped cfgs (rs, skipped))) = mset (map cfg_worker_id cfgs)"
proof -
  let ?ids = "map wr_worker_id rs"
  have m: "mset (?ids @ skipped) = mset (map cfg_worker_id cfgs)" using acc by simp
  have d: "distinct (?ids @ skipped)" using dist m mset_eq_imp_distinct_iff by blast
  have all: "set ?ids \<union> set skipped = set (map cfg_worker_id cfgs)"
    using mset_eq_setD [OF m] by simp
  let ?P = "\<lambda>w. w \<in> set skipped \<and> w \<notin> set ?ids"
  let ?sel = "filter ?P (map cfg_worker_id cfgs)"
  have "set ?sel = set skipped" using all d by auto
  then have "mset ?sel = mset skipped"
    using d dist set_eq_iff_mset_eq_distinct [of ?sel skipped] by simp
  moreover have "map wr_worker_id (add_skipped cfgs (rs, skipped)) = ?ids @ ?sel"
    by (simp add: add_skipped_def comp_def filter_map)
  ultimately show ?thesis using acc by simp
qed

lemma add_skipped_success: "any_worker_succeeded (add_skipped cfgs (rs, skipped)) = any_worker_succeeded rs"
  by (auto simp: add_skipped_def any_worker_succeeded_def list_ex_iff)

lemma add_skipped_none: "add_skipped cfgs (rs, skipped) = [] \<Longrightarrow> set skipped \<subseteq> cfg_worker_id ` set cfgs \<Longrightarrow> skipped = []"
  by (cases skipped) (auto simp: add_skipped_def filter_empty_conv)

lemma swarm_answer_facts:
  assumes "rs \<noteq> [] \<or> skipped = []"
  shows "er_workers (swarm_answer repr llm V query steps rs skipped) = rs"
    "er_success (swarm_answer repr llm V query steps rs skipped) \<longleftrightarrow> any_worker_succeeded rs
       \<and> (\<exists>u. llm (swarm_prompt query (filter (\<lambda>r. wr_signal r = SUCCESS) rs))
             = Inr (er_output (swarm_answer repr llm V query steps rs skipped), u))"
    "er_success (swarm_answer repr llm V query steps rs skipped)
       \<longleftrightarrow> er_error (swarm_answer repr llm V query steps rs skipped) = None"
proof -
  have any: "filter (\<lambda>w. wr_signal w = SUCCESS) rs = [] \<longleftrightarrow> \<not> any_worker_succeeded rs"
    by (auto simp: any_worker_succeeded_def list_ex_iff filter_empty_conv)
  show "er_workers (swarm_answer repr llm V query steps rs skipped) = rs"
    by (simp add: swarm_answer_def execution_result_def pattern_success_facts Let_def split: sum.split prod.split)
  show "er_success (swarm_answer repr llm V query steps rs skipped) \<longleftrightarrow> any_worker_succeeded rs
       \<and> (\<exists>u. llm (swarm_prompt query (filter (\<lambda>r. wr_signal r = SUCCESS) rs))
             = Inr (er_output (swarm_answer repr llm V query steps rs skipped), u))"
    "er_success (swarm_answer repr llm V query steps rs skipped)
       \<longleftrightarrow> er_error (swarm_answer repr llm V query steps rs skipped) = None"
    using assms unfolding swarm_answer_def Let_def any
    by (auto simp: execution_result_def pattern_success_facts pattern_synthesis_success_def
        all_workers_failed_error_def split: sum.splits prod.splits)
qed

definition reconciled :: "exec_result \<Rightarrow> bool" where
  "reconciled r \<longleftrightarrow> map_of (er_metadata r) ''orchestration_conflict_resolution'' \<noteq> None"

lemma swarm_answer_plain: "\<not> reconciled (swarm_answer repr llm V query steps rs skipped)"
  by (simp add: swarm_answer_def reconciled_def execution_result_def exec_failure_kwargs_def split_beta Let_def
      split: sum.split)

lemma conflict_resolution_cases:
  "maybe_spawn_conflict_resolution p ag api query outs k = k None
   \<or> (\<exists>q. si_pattern q = p \<and> maybe_spawn_conflict_resolution p ag api query outs k
        = Spawn q (\<lambda>o1. k (case o1 of Inl e \<Rightarrow> None | Inr r \<Rightarrow> Some r)))"
proof (cases "if oa_frozen ag \<or> \<not> detect_perspective_conflict outs \<or> \<not> pattern_spawns_enabled ag api then None else api")
  case None
  show ?thesis unfolding maybe_spawn_conflict_resolution_def None option.case by (rule disjI1) (rule refl)
next
  case (Some c)
  show ?thesis
    unfolding maybe_spawn_conflict_resolution_def Some option.case Let_def spawn_pattern_def
    by (rule disjI2, rule exI, rule conjI [rotated], rule refl) (simp add: spawn_request_def)
qed

lemma finish_swarm_cases:
  obtains (Plain) "run_prog d (finish_swarm repr llm V query c started rs skipped)
      = Inr (swarm_answer repr llm V query (started @ concat (map (worker_rows (pe_cap V)) rs)) rs skipped)"
  | (Reconciled) q r1 r where "run_prog d (finish_swarm repr llm V query c started rs skipped) = Inr r"
      "si_pattern q = BLACKBOARD" "d q = Inr r1" "er_success r1" "er_output r = er_output r1" "er_success r"
      "er_error r = None" "er_workers r = rs" "reconciled r"
proof -
  define steps where "steps = started @ concat (map (worker_rows (pe_cap V)) rs)"
  define plain where "plain = swarm_answer repr llm V query steps rs skipped"
  define merged where "merged r = execution_result SWARM query (er_output r) (steps_taken_from_audit steps + er_steps_taken r)
     True None rs (steps @ er_steps r) (merge_token_usage (worker_usage [] rs) (er_usage r))
     [(''orchestration_conflict_resolution'', Meta_str (pattern_value BLACKBOARD))]" for r :: exec_result
  let ?k = "\<lambda>o2 :: exec_result option. case o2 of None \<Rightarrow> Return plain | Some r \<Rightarrow> if er_success r then Return (merged r) else Return plain"
  have f: "finish_swarm repr llm V query c started rs skipped
      = maybe_spawn_conflict_resolution BLACKBOARD (ow_agent (pe_world V)) (Some c) query
           (map wr_output (filter (\<lambda>r. wr_signal r = SUCCESS) rs)) ?k"
    unfolding finish_swarm_def Let_def steps_def [symmetric] plain_def [symmetric] merged_def [symmetric] ..
  have fin: "thesis" if "run_prog d (finish_swarm repr llm V query c started rs skipped) = Inr plain"
    using Plain that by (simp add: plain_def steps_def)
  show thesis
  proof (rule disjE [OF conflict_resolution_cases [of BLACKBOARD "ow_agent (pe_world V)" "Some c" query
          "map wr_output (filter (\<lambda>r. wr_signal r = SUCCESS) rs)" ?k]], goal_cases)
    case 1
    then show thesis using fin by (simp add: f)
  next
    case 2
    then obtain q where q: "si_pattern q = BLACKBOARD"
      "run_prog d (finish_swarm repr llm V query c started rs skipped)
         = run_prog d (?k (case d q of Inl e \<Rightarrow> None | Inr r \<Rightarrow> Some r))" unfolding f by auto
    show thesis
    proof (cases "\<exists>r1. d q = Inr r1 \<and> er_success r1")
      case True
      then obtain r1 where r1: "d q = Inr r1" "er_success r1" by blast
      have m: "er_output (merged r1) = er_output r1" "er_success (merged r1)" "er_error (merged r1) = None"
        "er_workers (merged r1) = rs" "reconciled (merged r1)"
        by (simp_all add: merged_def execution_result_def reconciled_def)
      have "run_prog d (finish_swarm repr llm V query c started rs skipped) = Inr (merged r1)" using q(2) r1 by simp
      then show thesis using Reconciled q(1) r1 m by blast
    next
      case False
      then show thesis using q(2) fin by (auto split: sum.splits)
    qed
  qed
qed

text \<open>
  C32. A swarm gives exactly one result for each agent of the plan. It succeeds exactly if a
  reconciling run over conflicting answers did, or else if an agent succeeded and the model wrote
  the synthesis; a success is the one answer without an error.
\<close>

theorem swarm_outcome:
  assumes "distinct (map st_worker_id (qa_subtasks an))" and "qa_subtasks an \<noteq> []" and "batches_run E"
  shows "\<exists>r. run_prog d (handle_swarm repr llm E V query an c t) = Inr r
    \<and> mset (map wr_worker_id (er_workers r)) = mset (map st_worker_id (qa_subtasks an))
    \<and> (er_success r \<longleftrightarrow> er_error r = None)
    \<and> (er_success r \<longleftrightarrow> reconciled r \<or> any_worker_succeeded (er_workers r)
           \<and> (\<exists>u. llm (swarm_prompt query (filter (\<lambda>r. wr_signal r = SUCCESS) (er_workers r))) = Inr (er_output r, u)))
    \<and> (reconciled r \<longrightarrow> (\<exists>q r1. si_pattern q = BLACKBOARD \<and> d q = Inr r1 \<and> er_success r1 \<and> er_output r = er_output r1))"
proof -
  let ?cfgs = "pattern_configs V (qa_subtasks an)"
  obtain rs skipped where b: "le_batch E ?cfgs = (rs, skipped)" by (metis surj_pair)
  let ?rows = "add_skipped ?cfgs (rs, skipped)"
  let ?st = "pe_audit V @ map (start_entry (pe_cap V)) ?cfgs"
  have acc: "mset (map wr_worker_id rs) + mset skipped = mset (map cfg_worker_id ?cfgs)"
    using batch_accounts [OF assms(3), of ?cfgs] b by simp
  then have rows: "mset (map wr_worker_id ?rows) = mset (map st_worker_id (qa_subtasks an))"
    using add_skipped_accounts assms(1) by (metis worker_ids_resolved)
  then have ne: "?rows \<noteq> [] \<or> skipped = []" using assms(2) by auto
  have run: "run_prog d (handle_swarm repr llm E V query an c t) = run_prog d (finish_swarm repr llm V query c ?st ?rows skipped)"
    using assms(2) b by (simp add: handle_swarm_def Let_def)
  show ?thesis
  proof (cases rule: finish_swarm_cases [where d = d and repr = repr and llm = llm and V = V and query = query
        and c = c and started = ?st and rs = ?rows and skipped = skipped])
    case Plain
    then show ?thesis using rows swarm_answer_plain swarm_answer_facts [OF ne] unfolding run
      by (intro exI conjI) (assumption | simp)+
  next
    case (Reconciled q r1 r)
    then show ?thesis using rows unfolding run by auto
  qed
qed


theorem swarm_outcome_witness:
  "\<exists>r. run_prog (\<lambda>_. Inl OutOfFuel)
      (handle_swarm concat (\<lambda>_. Inl Synth_failed) \<lparr>le_batch = decline_all, le_halts = (\<lambda>_. False)\<rparr> (demo_env b_fails)
         ''go'' demo_turn demo_context 120) = Inr r
     \<and> mset (map wr_worker_id (er_workers r)) = {#''a'', ''b''#} \<and> (er_success r \<longleftrightarrow> er_error r = None)"
proof -
  have E: "batches_run \<lparr>le_batch = decline_all, le_halts = (\<lambda>_. False)\<rparr>"
    unfolding batches_run_def level_env.simps using decline_all_runs by blast
  have d: "distinct (map st_worker_id (qa_subtasks demo_turn))" "qa_subtasks demo_turn \<noteq> []"
    "map st_worker_id (qa_subtasks demo_turn) = [''b'', ''a'']"
    by (simp_all add: demo_turn_def demo_plan_def plain_analysis_def)
  show ?thesis
    using swarm_outcome [OF d(1,2) E, of "\<lambda>_. Inl OutOfFuel" concat "\<lambda>_. Inl Synth_failed" "demo_env b_fails" "''go''"
        demo_context 120] unfolding d(3) by (auto simp: add_mset_commute)
qed

text \<open>
  A swarm whose agents are all skipped at the user's request is reported as a failure: the branch
  for it is never reached, as the skipped agents have rows of their own.
\<close>

lemma skipped_swarm_fails:
  "case run_prog (\<lambda>_. Inl OutOfFuel)
      (handle_swarm concat (\<lambda>_. Inr (''answer'', [])) \<lparr>le_batch = decline_all, le_halts = (\<lambda>_. False)\<rparr> (demo_env b_fails)
         ''go'' demo_turn demo_context 120) of
     Inr r \<Rightarrow> \<not> er_success r \<and> er_error r = Some all_workers_failed_error | Inl _ \<Rightarrow> False"
  by code_simp

text \<open>A synthesis that times out has no failure class, unlike in the other patterns.\<close>

definition all_fine_batch :: "worker_config list \<Rightarrow> worker_result list \<times> string list" where
  "all_fine_batch cs = (map (\<lambda>c. worker_row c ''fine'' SUCCESS None 1) cs, [])"

lemma swarm_timeout_unclassified:
  "case run_prog (\<lambda>_. Inl OutOfFuel)
      (handle_swarm concat (\<lambda>_. Inl Synth_timeout) \<lparr>le_batch = all_fine_batch, le_halts = (\<lambda>_. False)\<rparr> (demo_env b_fails)
         ''go'' demo_turn demo_context 120) of
     Inr r \<Rightarrow> er_error r = Some ''SynthesisTimeout'' \<and> er_failure_class r = None \<and> \<not> er_retryable r | Inl _ \<Rightarrow> False"
  by code_simp

end
