(* ===== verification/Reflection.thy ===== *)
theory Reflection
  imports Dag_Patterns
begin

text \<open>
  The REFLECTION pattern (\<open>src/agloom/patterns/reflection.py\<close>): the parser of the critic's
  answer, and the loop that drafts, criticises and revises.

  The parser is the code's three regular expressions, written as searches over the suffixes of
  the text. The lemmas show that an answer in the demanded format is read back, that a pass is
  only trusted with a score of the threshold, and which draft the loop returns.
\<close>

section \<open>Searching a text\<close>

text \<open>The classes of the expressions; they are exact on ASCII.\<close>

definition is_digit :: "char \<Rightarrow> bool" where
  "is_digit c \<longleftrightarrow> (let n = (of_char c :: nat) in 48 \<le> n \<and> n \<le> 57)"

definition letter :: "char \<Rightarrow> bool" where
  "letter c \<longleftrightarrow> (let n = (of_char (py_lower_char c) :: nat) in 97 \<le> n \<and> n \<le> 122)"

definition word_char :: "char \<Rightarrow> bool" where
  "word_char c \<longleftrightarrow> letter c \<or> is_digit c \<or> c = CHR ''_''"

definition skip_ws :: "string \<Rightarrow> string" where
  "skip_ws = dropWhile py_isspace"

definition at_boundary :: "char option \<Rightarrow> bool" where
  "at_boundary p \<longleftrightarrow> (case p of None \<Rightarrow> True | Some c \<Rightarrow> \<not> word_char c)"

text \<open>The first place where \<open>m\<close> matches; \<open>m\<close> is given the character before the place.\<close>

fun search :: "(char option \<Rightarrow> string \<Rightarrow> 'a option) \<Rightarrow> char option \<Rightarrow> string \<Rightarrow> 'a option" where
  "search m p [] = m p []"
| "search m p (c # cs) = (case m p (c # cs) of Some x \<Rightarrow> Some x | None \<Rightarrow> search m (Some c) cs)"

text \<open>A label in any case, spaces, a colon and spaces; the rest of the text.\<close>

definition after_word :: "string \<Rightarrow> string \<Rightarrow> string option" where
  "after_word label s = (if py_lower (take (length label) s) = label then Some (skip_ws (drop (length label) s)) else None)"

definition after_label :: "string \<Rightarrow> string \<Rightarrow> string option" where
  "after_label label s =
     (case after_word label s of Some (c # r) \<Rightarrow> if c = CHR '':'' then Some r else None | _ \<Rightarrow> None)"

definition leading_digits :: "string \<Rightarrow> string option" where
  "leading_digits s = (let ds = takeWhile is_digit s in if ds = [] then None else Some ds)"

definition over_ten :: "string \<Rightarrow> bool" where
  "over_ten s = (case skip_ws s of
     c # r \<Rightarrow> c = CHR ''/'' \<and> (let r1 = skip_ws r in take 2 r1 = ''10'' \<and> (case drop 2 r1 of [] \<Rightarrow> True | x # _ \<Rightarrow> \<not> word_char x))
   | [] \<Rightarrow> False)"

definition match_label :: "char option \<Rightarrow> string \<Rightarrow> string option" where
  "match_label p s = (case after_label ''score'' s of Some r \<Rightarrow> leading_digits (skip_ws r) | None \<Rightarrow> None)"

definition out_of_ten :: "string \<Rightarrow> string option" where
  "out_of_ten s = (case leading_digits s of
     Some ds \<Rightarrow> if over_ten (drop (length ds) s) then Some ds else None | None \<Rightarrow> None)"

definition match_score_of_ten :: "char option \<Rightarrow> string \<Rightarrow> string option" where
  "match_score_of_ten p s =
     (if \<not> at_boundary p then None
      else case after_word ''score'' s of
             Some r \<Rightarrow> out_of_ten (case r of c # r1 \<Rightarrow> if c = CHR '':'' \<or> c = CHR ''-'' then skip_ws r1 else r | [] \<Rightarrow> [])
           | None \<Rightarrow> None)"

definition match_of_ten :: "char option \<Rightarrow> string \<Rightarrow> string option" where
  "match_of_ten p s = (if at_boundary p then out_of_ten s else None)"

definition match_passed :: "char option \<Rightarrow> string \<Rightarrow> bool option" where
  "match_passed p s =
     (case after_label ''passed'' s of
        None \<Rightarrow> None
      | Some r \<Rightarrow>
          (let v = py_lower (skip_ws r)
           in if prefix ''yes'' v \<or> prefix ''true'' v then Some True
              else if prefix ''no'' v \<or> prefix ''false'' v then Some False else None))"

text \<open>A section ends at the end of the text, before its last newline, or before a line with a label.\<close>

definition section_ends :: "string \<Rightarrow> bool" where
  "section_ends s \<longleftrightarrow> s = [] \<or> s = newline
     \<or> (case s of
          c # r \<Rightarrow> c = CHR 0x0A \<and> takeWhile letter r \<noteq> []
            \<and> (case skip_ws (dropWhile letter r) of x # _ \<Rightarrow> x = CHR '':'' | [] \<Rightarrow> False)
        | [] \<Rightarrow> False)"

fun section_body :: "string \<Rightarrow> string" where
  "section_body [] = []"
| "section_body (c # cs) = c # (if section_ends cs then [] else section_body cs)"

definition match_feedback :: "char option \<Rightarrow> string \<Rightarrow> string option" where
  "match_feedback p s =
     (case after_label ''feedback'' s of
        None \<Rightarrow> None
      | Some r \<Rightarrow> if r = [] then None else Some (section_body (skip_ws r)))"

definition digits_value :: "string \<Rightarrow> nat" where
  "digits_value ds = foldl (\<lambda>n c. 10 * n + (of_char c - 48)) 0 ds"

section \<open>The verdict of the critic\<close>

record verdict =
  vd_score :: int
  vd_passed :: bool
  vd_feedback :: string
  vd_trusted :: bool

text \<open>\<open>int\<close> raises on more than 4300 digits, and the whole answer then counts as unreadable.\<close>

definition score_digits :: "string \<Rightarrow> string option" where
  "score_digits text1 =
     (case search match_label None text1 of Some ds \<Rightarrow> Some ds
      | None \<Rightarrow> (case search match_score_of_ten None text1 of Some ds \<Rightarrow> Some ds
                | None \<Rightarrow> search match_of_ten None text1))"

definition parse_critic_response :: "string \<Rightarrow> int \<Rightarrow> verdict" where
  "parse_critic_response text1 threshold =
     (let found = score_digits text1;
          score = (case found of Some ds \<Rightarrow> max 0 (min 10 (int (digits_value ds))) | None \<Rightarrow> 0);
          said = search match_passed None text1;
          feedback = (case search match_feedback None text1 of Some f \<Rightarrow> py_strip f | None \<Rightarrow> py_strip text1);
          passed = (case said of
                      None \<Rightarrow> threshold \<le> score
                    | Some b \<Rightarrow> if found \<noteq> None \<and> b \<and> score < threshold then False else b)
      in if (case found of Some ds \<Rightarrow> 4300 < length ds | None \<Rightarrow> False)
         then \<lparr>vd_score = 0, vd_passed = False, vd_feedback = text1, vd_trusted = False\<rparr>
         else \<lparr>vd_score = score, vd_passed = passed, vd_feedback = feedback, vd_trusted = (found \<noteq> None)\<rparr>)"

text \<open>A trusted verdict passes only with a score of the threshold; scores are from 0 to 10.\<close>

lemma verdict_sound:
  "0 \<le> vd_score (parse_critic_response s n)" "vd_score (parse_critic_response s n) \<le> 10"
  "vd_trusted (parse_critic_response s n) \<Longrightarrow> vd_passed (parse_critic_response s n)
     \<Longrightarrow> n \<le> vd_score (parse_critic_response s n)"
  by (auto simp: parse_critic_response_def Let_def split: option.splits if_splits)

section \<open>The demanded format\<close>

lemma search_skip:
  assumes "\<And>q c cs. m q (c # cs) \<noteq> None \<Longrightarrow> py_lower_char c = l" and "\<forall>c\<in>set xs. py_lower_char c \<noteq> l"
  shows "\<exists>q. search m p (xs @ ys) = search m q ys"
  using assms(2)
proof (induction xs arbitrary: p)
  case (Cons x xs)
  have "m p (x # xs @ ys) = None" using assms(1) [of p x "xs @ ys"] Cons.prems by (cases "m p (x # xs @ ys)") auto
  then show ?case using Cons by simp
qed auto

lemma after_label_first: "after_label (l # ls) (c # cs) \<noteq> None \<Longrightarrow> py_lower_char c = l"
  by (auto simp: after_label_def after_word_def py_lower_def split: if_splits)

lemma match_first:
  "match_passed q (c # cs) \<noteq> None \<Longrightarrow> py_lower_char c = CHR ''p''"
  "match_feedback q (c # cs) \<noteq> None \<Longrightarrow> py_lower_char c = CHR ''f''"
  using after_label_first [of "CHR ''p''" "''assed''" c cs] after_label_first [of "CHR ''f''" "''eedback''" c cs]
  by (auto simp: match_passed_def match_feedback_def split: option.splits)

lemma search_skip_label:
  "\<forall>c\<in>set xs. py_lower_char c \<noteq> CHR ''p'' \<Longrightarrow> \<exists>q. search match_passed p (xs @ ys) = search match_passed q ys"
  "\<forall>c\<in>set xs. py_lower_char c \<noteq> CHR ''f'' \<Longrightarrow> \<exists>q. search match_feedback p (xs @ ys) = search match_feedback q ys"
  by (rule search_skip, erule match_first, assumption)+

lemma search_here: "m p s = Some x \<Longrightarrow> search m p s = Some x"
  by (cases s) simp_all

lemma section_body_line: "CHR 0x0A \<notin> set s \<Longrightarrow> section_body s = s"
proof (induction s)
  case (Cons c cs)
  then show ?case by (cases cs) (auto simp: section_ends_def newline_def)
qed simp

lemma stripped_head: "py_strip s = s \<Longrightarrow> s \<noteq> [] \<Longrightarrow> \<not> py_isspace (hd s)"
proof -
  assume s: "py_strip s = s" "s \<noteq> []"
  let ?d = "dropWhile py_isspace s"
  have "?d \<noteq> []" using s by (metis dropWhile.simps(1) py_strip_def rev.simps(1))
  moreover have "prefix (py_strip s) ?d"
    unfolding py_strip_def by (metis rev_rev_ident suffix_dropWhile suffix_to_prefix)
  ultimately show ?thesis using s hd_dropWhile [of py_isspace s] by (metis append_is_Nil_conv hd_append2 prefix_def)
qed

lemma digit_char: "(n :: nat) < 10 \<Longrightarrow> is_digit (char_of (48 + n)) \<and> of_char (char_of (48 + n) :: char) = 48 + n"
  by (simp add: is_digit_def)

lemma digits_facts: "digits n \<noteq> [] \<and> list_all is_digit (digits n) \<and> digits_value (digits n) = n"
proof (induction n rule: digits.induct)
  case (1 n)
  show ?case
  proof (cases "n < 10")
    case True
    then show ?thesis using digit_char [of n] by (simp add: digits.simps [of n] digits_value_def)
  next
    case False
    then show ?thesis using 1 digit_char [of "n mod 10"] by (simp add: digits.simps [of n] digits_value_def)
  qed
qed

lemma digit_not_space: "is_digit c \<Longrightarrow> \<not> py_isspace c"
  by (auto simp: is_digit_def py_isspace_def Let_def)

lemma leading_digits_digits:
  assumes "\<not> is_digit c"
  shows "leading_digits (skip_ws (CHR '' '' # digits n @ c # s)) = Some (digits n)"
proof -
  obtain d ds where d: "digits n = d # ds" using digits_facts [of n] by (meson neq_Nil_conv)
  have all: "\<forall>x\<in>set (digits n). is_digit x" using digits_facts [of n] by (simp add: list_all_iff)
  have "py_isspace CHR '' ''" by code_simp
  moreover have "\<not> py_isspace d" using all d digit_not_space by simp
  ultimately have "skip_ws (CHR '' '' # digits n @ c # s) = digits n @ c # s" by (simp add: skip_ws_def d)
  then show ?thesis using all assms digits_facts [of n] by (simp add: leading_digits_def Let_def takeWhile_append)
qed

lemma label_parts:
  "after_label ''score'' (''SCORE:'' @ s) = Some s"
  "after_label ''passed'' (''PASSED:'' @ s) = Some s"
  "after_label ''feedback'' (''FEEDBACK:'' @ s) = Some s"
proof -
  have "\<not> py_isspace CHR '':''" "py_lower ''SCORE'' = ''score''" "py_lower ''PASSED'' = ''passed''"
    "py_lower ''FEEDBACK'' = ''feedback''" by code_simp+
  then show "after_label ''score'' (''SCORE:'' @ s) = Some s"
    "after_label ''passed'' (''PASSED:'' @ s) = Some s"
    "after_label ''feedback'' (''FEEDBACK:'' @ s) = Some s"
    by (simp_all add: after_label_def after_word_def skip_ws_def)
qed

text \<open>
  C25. A critic's answer in the format the prompt demands is read back: its score, its feedback,
  and a pass exactly if it says yes and the score reaches the threshold.
\<close>

theorem critic_answer_read_back:
  assumes n: "n \<le> 10" and fb: "py_strip fb = fb" "fb \<noteq> []" "CHR 0x0A \<notin> set fb"
  shows "parse_critic_response
      (''SCORE: '' @ digits n @ newline @ ''PASSED: '' @ (if b then ''yes'' else ''no'') @ newline @ ''FEEDBACK: '' @ fb) threshold
    = \<lparr>vd_score = int n, vd_passed = (b \<and> threshold \<le> int n), vd_feedback = fb, vd_trusted = True\<rparr>"
proof -
  let ?yn = "if b then ''yes'' else ''no''"
  define tail1 where "tail1 = ''PASSED:'' @ '' '' @ ?yn @ newline @ ''FEEDBACK:'' @ '' '' @ fb"
  define whole where "whole = ''SCORE:'' @ CHR '' '' # digits n @ CHR 0x0A # tail1"
  have "match_label None whole = Some (digits n)"
    unfolding match_label_def whole_def label_parts option.case
    by (rule leading_digits_digits) (simp add: is_digit_def)
  then have score: "score_digits whole = Some (digits n)" by (simp add: score_digits_def search_here)
  have low: "\<forall>c\<in>set (''SCORE: '' @ digits n @ newline). py_lower_char c \<noteq> CHR ''p'' \<and> py_lower_char c \<noteq> CHR ''f''"
  proof -
    have "\<forall>c\<in>set (''SCORE: '' @ newline). py_lower_char c \<noteq> CHR ''p'' \<and> py_lower_char c \<noteq> CHR ''f''" by code_simp
    moreover have "py_lower_char c \<noteq> CHR ''p'' \<and> py_lower_char c \<noteq> CHR ''f''" if "is_digit c" for c
      using that by (auto simp: is_digit_def py_lower_char_def Let_def)
    ultimately show ?thesis using digits_facts [of n] by (auto simp: list_all_iff)
  qed
  have w1: "whole = (''SCORE: '' @ digits n @ newline) @ tail1" by (simp add: whole_def newline_def)
  obtain q where "search match_passed None whole = search match_passed q tail1"
    unfolding w1 using search_skip_label(1) low by blast
  also have "\<dots> = Some b"
  proof (rule search_here)
    have "\<not> py_isspace CHR ''y''" "\<not> py_isspace CHR ''n''" "py_isspace CHR '' ''" by code_simp+
    then have "skip_ws ('' '' @ ?yn @ r) = ?yn @ r" for r by (simp add: skip_ws_def)
    moreover have "py_lower ''yes'' = ''yes''" "py_lower ''no'' = ''no''" by code_simp+
    then have "py_lower (?yn @ r) = ?yn @ py_lower r" for r by (simp add: py_lower_def)
    ultimately show "match_passed q tail1 = Some b"
      unfolding match_passed_def tail1_def label_parts option.case Let_def by simp
  qed
  finally have passed: "search match_passed None whole = Some b" .
  let ?upto = "(''SCORE: '' @ digits n @ newline) @ ''PASSED:'' @ '' '' @ ?yn @ newline"
  have "\<forall>c\<in>set (''PASSED: yesno'' @ newline). py_lower_char c \<noteq> CHR ''f''" by code_simp
  then have "\<forall>c\<in>set ?upto. py_lower_char c \<noteq> CHR ''f''" using low by auto
  moreover have w2: "whole = ?upto @ ''FEEDBACK:'' @ '' '' @ fb" by (simp add: w1 tail1_def)
  ultimately obtain q2 where "search match_feedback None whole = search match_feedback q2 (''FEEDBACK:'' @ '' '' @ fb)"
    unfolding w2 using search_skip_label(2) by blast
  also have "\<dots> = Some fb"
  proof (rule search_here)
    have "skip_ws ('' '' @ fb) = fb"
      using stripped_head [OF fb(1,2)] fb(2) by (cases fb) (auto simp: skip_ws_def py_isspace_def)
    then show "match_feedback q2 (''FEEDBACK:'' @ '' '' @ fb) = Some fb"
      unfolding match_feedback_def label_parts option.case using section_body_line [OF fb(3)] by simp
  qed
  finally have feedback: "search match_feedback None whole = Some fb" .
  have "length (digits n) \<le> 4300" using n by (simp add: digits.simps)
  then have "parse_critic_response whole threshold
      = \<lparr>vd_score = int n, vd_passed = (b \<and> threshold \<le> int n), vd_feedback = fb, vd_trusted = True\<rparr>"
    using n digits_facts [of n] unfolding parse_critic_response_def Let_def score passed feedback by (auto simp: fb(1))
  then show ?thesis by (simp add: w1 tail1_def)
qed

theorem critic_answer_read_back_witness:
  "vd_passed (parse_critic_response (''SCORE: '' @ digits 8 @ newline @ ''PASSED: '' @ ''yes'' @ newline @ ''FEEDBACK: '' @ ''good'') 7)"
proof -
  have "py_strip ''good'' = ''good''" by code_simp
  then show ?thesis using critic_answer_read_back [of 8 "''good''" True 7] by simp
qed

section \<open>The loop\<close>

text \<open>
  The settings: \<open>re_late\<close> says at which iteration the clock has passed the deadline,
  \<open>re_batch\<close> runs a worker.
\<close>

record refl_env =
  re_max :: int
  re_threshold :: int
  re_late :: "nat \<Rightarrow> bool"
  re_batch :: level_env

record refl_state =
  rf_best :: string
  rf_score :: int
  rf_feedback :: string
  rf_results :: "worker_result list"
  rf_steps :: "agent_step list"
  rf_usage :: "int pydict"

definition generator_system_prompt :: string where
  "generator_system_prompt = join_with newline
     [''You are a thoughtful, high-quality content generator.'',
      ''Your goal is to produce the best possible response to the user'' @ [CHR 0x27] @ ''s task.'',
      ''Be thorough, clear, and well-structured.'']"

definition revision_system_prompt :: string where
  "revision_system_prompt = join_with newline
     [''You are a thoughtful, high-quality content generator revising a previous draft.'',
      ''You will receive the original goal, the previous draft, and specific feedback.'',
      ''Address EVERY feedback point.  Improve quality, depth, and clarity.'']"

definition critic_system_prompt :: string where
  "critic_system_prompt = join_with newline
     [''You are a rigorous quality critic.  Evaluate the draft response to the goal below.'', [],
      ''Respond in EXACTLY this format (no extra lines before SCORE):'',
      ''SCORE: <integer 1-10>'',
      ''PASSED: <yes|no>'',
      ''FEEDBACK: <specific, actionable critique '' @ em_dash @ '' 2-4 sentences>'', [],
      ''Rules:'',
      ''- SCORE: integer from 1 to 10 (10 = perfect, 1 = unusable)'',
      ''- PASSED: yes if quality is acceptable, no if revision is needed'',
      ''- FEEDBACK: concrete improvements '' @ em_dash @ '' never vague praise or blame'']"

definition reflection_goal :: "query_analysis \<Rightarrow> string \<Rightarrow> subtask list" where
  "reflection_goal an query =
     (if qa_pattern an \<noteq> REFLECTION \<or> qa_subtasks an \<noteq> [] then qa_subtasks an
      else if blank query then []
      else [\<lparr>st_worker_id = ''goal'', st_task = py_strip query, st_tools = [], st_depends_on = [], st_system = [],
             st_context = []\<rparr>])"

definition generator_id :: "nat \<Rightarrow> string" where
  "generator_id i = ''generator_'' @ py_str_int (int i)"

definition critic_id :: "nat \<Rightarrow> string" where
  "critic_id i = ''critic_'' @ py_str_int (int i)"

definition generator_plan :: "subtask \<Rightarrow> nat \<Rightarrow> refl_state \<Rightarrow> subtask" where
  "generator_plan goal i s =
     \<lparr>st_worker_id = generator_id i,
      st_task = (if i = 0 then st_task goal
                 else ''Revise and improve your previous response based on the following expert feedback.'' @ newline @ newline
                   @ ''ORIGINAL GOAL:'' @ newline @ st_task goal @ newline @ newline
                   @ ''PREVIOUS DRAFT:'' @ newline @ rf_best s @ newline @ newline
                   @ ''FEEDBACK TO ADDRESS:'' @ newline @ rf_feedback s),
      st_tools = st_tools goal, st_depends_on = [],
      st_system = (if i = 0 then generator_system_prompt else revision_system_prompt), st_context = []\<rparr>"

definition critic_plan :: "subtask \<Rightarrow> nat \<Rightarrow> string \<Rightarrow> subtask" where
  "critic_plan goal i draft =
     \<lparr>st_worker_id = critic_id i,
      st_task = ''GOAL:'' @ newline @ st_task goal @ newline @ newline @ ''DRAFT RESPONSE TO EVALUATE:'' @ newline @ draft,
      st_tools = [], st_depends_on = [], st_system = critic_system_prompt, st_context = []\<rparr>"

definition refl_result ::
    "string \<Rightarrow> string \<Rightarrow> bool \<Rightarrow> orch_meta pydict \<Rightarrow> refl_state \<Rightarrow> exec_result" where
  "refl_result query out ok meta s =
     execution_result REFLECTION query out (steps_taken_from_audit (rf_steps s)) ok None (rf_results s) (rf_steps s)
       (rf_usage s) meta"

definition reflection_end :: "refl_env \<Rightarrow> string \<Rightarrow> refl_state \<Rightarrow> exec_result" where
  "reflection_end R query s =
     exec_failure_kwargs None ''worker''
       (refl_result query (if rf_best s = [] then ''Reflection failed to produce a valid draft.'' else rf_best s) False
          [(''final_score'', Meta_val (PyInt (rf_score s))), (''iterations'', Meta_val (PyInt (re_max R)))] s)"

text \<open>The result of a halt is built without the trail and the usage.\<close>

definition reflection_halted :: "string \<Rightarrow> nat \<Rightarrow> refl_state \<Rightarrow> exec_result" where
  "reflection_halted query i s =
     (refl_result query
        (if rf_best s = [] then ''Halted before completion (HALT_ALL at iteration '' @ py_str_int (int i) @ '').'' else rf_best s)
        True [(''halted_by_user'', Meta_flag True), (''halt_at_iteration'', Meta_val (PyInt (int i)))] s)
     \<lparr>er_steps := [], er_usage := []\<rparr>"

definition generator_skipped :: "string \<Rightarrow> string list \<Rightarrow> refl_state \<Rightarrow> exec_result" where
  "generator_skipped query skipped s =
     exec_failure_kwargs None ''worker''
       (refl_result query (if rf_best s = [] then ''Generator skipped at user request.'' else rf_best s) False
          [(''user_skipped_generator'', Meta_val (PyList (map PyStr skipped)))] s)"

definition critic_skipped :: "string \<Rightarrow> worker_result \<Rightarrow> string list \<Rightarrow> refl_state \<Rightarrow> exec_result" where
  "critic_skipped query g skipped s =
     (let best = (if rf_best s = [] then wr_output g else rf_best s)
      in refl_result query (if best = [] then ''Critic skipped at user request.'' else best) True
           [(''user_skipped_critic'', Meta_val (PyList (map PyStr skipped)))] s)"

definition add_run :: "worker_result \<Rightarrow> agent_step list \<Rightarrow> refl_state \<Rightarrow> refl_state" where
  "add_run r entries s =
     s\<lparr>rf_results := rf_results s @ [r], rf_steps := rf_steps s @ entries,
       rf_usage := (if wr_token_usage r = [] then rf_usage s else merge_token_usage (rf_usage s) (wr_token_usage r))\<rparr>"

definition judge :: "string \<Rightarrow> verdict \<Rightarrow> refl_state \<Rightarrow> refl_state" where
  "judge draft v s =
     (if vd_trusted v \<and> rf_score s < vd_score v then s\<lparr>rf_best := draft, rf_score := vd_score v\<rparr> else s)
     \<lparr>rf_feedback := vd_feedback v\<rparr>"

definition critic_entry :: "int \<Rightarrow> nat \<Rightarrow> verdict \<Rightarrow> agent_step" where
  "critic_entry cap i v =
     make_step Step_reflection (critic_id i) []
       (''score='' @ py_str_int (vd_score v) @ ''/10 passed='' @ (if vd_passed v then ''True'' else ''False'')) 0
       [(''feedback'', trunc cap (vd_feedback v))]"

definition accepts :: "int \<Rightarrow> verdict \<Rightarrow> bool" where
  "accepts threshold v \<longleftrightarrow> vd_trusted v \<and> threshold \<le> vd_score v \<and> vd_passed v"

text \<open>
  One iteration has two turns; each of them ends the run with a result (\<open>Inl\<close>) or goes on.
\<close>

definition generator_turn ::
    "refl_env \<Rightarrow> pattern_env \<Rightarrow> string \<Rightarrow> subtask \<Rightarrow> nat \<Rightarrow> refl_state \<Rightarrow> exec_result + worker_result \<times> refl_state" where
  "generator_turn R V query goal i s =
     (let (gs, skipped) = le_batch (re_batch R) (pattern_configs V [generator_plan goal i s])
      in if skipped \<noteq> [] \<or> gs = [] then Inl (generator_skipped query skipped s)
         else (let g = hd gs; s1 = add_run g [end_step (pe_cap V) g] s
               in if wr_signal g = FAILED then
                    Inl (reflection_end R query
                      (if rf_best s1 = []
                       then s1\<lparr>rf_best := (if wr_output g = [] then ''Generation failed.'' else wr_output g)\<rparr> else s1))
                  else Inr (g, s1)))"

definition critic_turn ::
    "refl_env \<Rightarrow> pattern_env \<Rightarrow> string \<Rightarrow> subtask \<Rightarrow> nat \<Rightarrow> worker_result \<Rightarrow> refl_state \<Rightarrow> exec_result + refl_state" where
  "critic_turn R V query goal i g s1 =
     (let (cs, skipped) = le_batch (re_batch R) (pattern_configs V [critic_plan goal i (wr_output g)])
      in if skipped \<noteq> [] \<or> cs = [] then Inl (critic_skipped query g skipped s1)
         else (let c = hd cs; v = parse_critic_response (wr_output c) (re_threshold R);
                   s2 = judge (wr_output g) v (add_run c [critic_entry (pe_cap V) i v] s1)
               in if accepts (re_threshold R) v
                  then Inl (refl_result query (rf_best s2) True
                         [(''final_score'', Meta_val (PyInt (rf_score s2))),
                          (''iterations'', Meta_val (PyInt (int i + 1)))] s2)
                  else Inr s2))"

fun reflect ::
    "refl_env \<Rightarrow> pattern_env \<Rightarrow> string \<Rightarrow> subtask \<Rightarrow> nat list \<Rightarrow> queue_item list list option \<Rightarrow> refl_state \<Rightarrow> exec_result" where
  "reflect R V query goal [] sigs s = reflection_end R query s"
| "reflect R V query goal (i # is) sigs s =
     (if re_late R i then reflection_end R query s
      else if 0 < i \<and> halts_now sigs then reflection_halted query i s
      else case generator_turn R V query goal i s of
             Inl r \<Rightarrow> r
           | Inr (g, s1) \<Rightarrow>
               (case critic_turn R V query goal i g s1 of
                  Inl r \<Rightarrow> r
                | Inr s2 \<Rightarrow> reflect R V query goal is (if 0 < i then map_option (drop 1) sigs else sigs) s2))"

definition handle_reflection :: "refl_env \<Rightarrow> pattern_env \<Rightarrow> handler" where
  "handle_reflection R V query an c t =
     (case reflection_goal an query of
        [] \<Rightarrow> Return (no_plan V REFLECTION query ''No reflection goal could be determined for this query.'')
      | goal # _ \<Rightarrow> Return (reflect R V query goal [0..<nat (re_max R)] (pe_signals V)
                      \<lparr>rf_best = [], rf_score = 0, rf_feedback = [], rf_results = [], rf_steps = pe_audit V, rf_usage = []\<rparr>))"

section \<open>Which draft is returned\<close>

definition round_ids :: "nat \<Rightarrow> string list" where
  "round_ids i = [generator_id i, critic_id i]"

text \<open>The judged drafts of a run, and the best one: the first with the highest trusted score.\<close>

fun judged :: "int \<Rightarrow> worker_result list \<Rightarrow> (string \<times> verdict) list" where
  "judged n (g # c # rs) = (wr_output g, parse_critic_response (wr_output c) n) # judged n rs"
| "judged n rs = []"

definition best_draft :: "(string \<times> verdict) list \<Rightarrow> string \<times> int" where
  "best_draft js = fold (\<lambda>(d, v) (b, m). if vd_trusted v \<and> m < vd_score v then (d, vd_score v) else (b, m)) js ([], 0)"

lemma judged_append:
  assumes "even (length rs)"
  shows "judged n (rs @ [g]) = judged n rs"
    "judged n (rs @ [g, c]) = judged n rs @ [(wr_output g, parse_critic_response (wr_output c) n)]"
  using assms by (induction n rs rule: judged.induct) auto

lemma best_draft_snoc:
  "best_draft (js @ [(d, v)]) = (if vd_trusted v \<and> snd (best_draft js) < vd_score v then (d, vd_score v) else best_draft js)"
  by (simp add: best_draft_def split_beta)

lemma best_draft_max:
  "(\<forall>(d, v)\<in>set js. vd_trusted v \<longrightarrow> vd_score v \<le> snd (best_draft js))
   \<and> (0 < snd (best_draft js) \<longrightarrow> (\<exists>(d, v)\<in>set js. fst (best_draft js) = d \<and> vd_trusted v \<and> vd_score v = snd (best_draft js)))
   \<and> 0 \<le> snd (best_draft js)"
proof (induction js rule: rev_induct)
  case Nil
  show ?case by (simp add: best_draft_def)
next
  case (snoc x js)
  obtain d v where x: "x = (d, v)" by (metis surj_pair)
  show ?case
  proof (cases "vd_trusted v \<and> snd (best_draft js) < vd_score v")
    case True
    then show ?thesis using snoc unfolding x best_draft_snoc by fastforce
  next
    case False
    then show ?thesis using snoc unfolding x best_draft_snoc by (auto split: if_splits)
  qed
qed

definition refl_inv :: "int \<Rightarrow> nat \<Rightarrow> refl_state \<Rightarrow> bool" where
  "refl_inv n i s \<longleftrightarrow> map wr_worker_id (rf_results s) = concat (map round_ids [0..<i])
     \<and> (rf_best s, rf_score s) = best_draft (judged n (rf_results s))
     \<and> (\<forall>p\<in>set (judged n (rf_results s)). \<not> accepts n (snd p))"

lemma length_rounds: "length (concat (map round_ids is)) = 2 * length is"
  by (induction "is") (simp_all add: round_ids_def)

lemma refl_inv_even: "refl_inv n i s \<Longrightarrow> even (length (rf_results s))"
  unfolding refl_inv_def by (metis dvd_triv_left length_map length_rounds)

text \<open>What is known of the result of a run that stops in the middle, or with an accepted draft.\<close>

definition refl_report :: "int \<Rightarrow> nat \<Rightarrow> exec_result \<Rightarrow> bool" where
  "refl_report n m r \<longleftrightarrow> (let js = judged n (er_workers r); ok = js \<noteq> [] \<and> accepts n (snd (last js))
     in prefix (map wr_worker_id (er_workers r)) (concat (map round_ids [0..<m]))
      \<and> (\<forall>p\<in>set (butlast js). \<not> accepts n (snd p))
      \<and> (ok \<longrightarrow> er_success r \<and> er_output r = fst (best_draft js))
      \<and> (er_success r \<longrightarrow> ok \<or> map_of (er_metadata r) ''halted_by_user'' \<noteq> None
                           \<or> map_of (er_metadata r) ''user_skipped_critic'' \<noteq> None)
      \<and> (er_success r \<longleftrightarrow> er_error r = None))"

lemma refl_result_fields:
  "er_workers (refl_result q out ok meta s) = rf_results s" "er_success (refl_result q out ok meta s) = ok"
  "er_output (refl_result q out ok meta s) = out" "er_metadata (refl_result q out ok meta s) = meta"
  "out \<noteq> [] \<Longrightarrow> er_error (refl_result q out ok meta s) = None \<longleftrightarrow> ok"
  "er_metadata (exec_failure_kwargs m k r) = er_metadata r"
  by (simp_all add: refl_result_def execution_result_def exec_failure_kwargs_def split_beta)

lemma stopped_report:
  assumes js: "\<forall>p\<in>set (judged n (er_workers r)). \<not> accepts n (snd p)"
    and ids: "prefix (map wr_worker_id (er_workers r)) (concat (map round_ids [0..<m]))"
    and meta: "er_success r \<Longrightarrow> map_of (er_metadata r) ''halted_by_user'' \<noteq> None
        \<or> map_of (er_metadata r) ''user_skipped_critic'' \<noteq> None"
    and err: "er_success r \<longleftrightarrow> er_error r = None"
  shows "refl_report n m r"
proof -
  have "\<not> accepts n (snd (last (judged n (er_workers r))))" if "judged n (er_workers r) \<noteq> []"
    using js that last_in_set by blast
  then show ?thesis
    using js ids meta err by (auto simp: refl_report_def Let_def dest: in_set_butlastD)
qed

lemma rounds_prefix:
  assumes "i \<le> m"
  shows "prefix (concat (map round_ids [0..<i])) (concat (map round_ids [0..<m]))"
    "i < m \<Longrightarrow> prefix (concat (map round_ids [0..<i]) @ [generator_id i]) (concat (map round_ids [0..<m]))"
    "i < m \<Longrightarrow> prefix (concat (map round_ids [0..<i]) @ round_ids i) (concat (map round_ids [0..<m]))"
proof -
  have "[0..<m] = [0..<i] @ [i..<m]" using assms by (metis le0 le_add_diff_inverse upt_add_eq_append)
  then have m: "concat (map round_ids [0..<m]) = concat (map round_ids [0..<i]) @ concat (map round_ids [i..<m])"
    by simp
  show "prefix (concat (map round_ids [0..<i])) (concat (map round_ids [0..<m]))" unfolding m by simp
  show "i < m \<Longrightarrow> prefix (concat (map round_ids [0..<i]) @ [generator_id i]) (concat (map round_ids [0..<m]))"
    "i < m \<Longrightarrow> prefix (concat (map round_ids [0..<i]) @ round_ids i) (concat (map round_ids [0..<m]))"
    unfolding m by (simp_all add: upt_conv_Cons round_ids_def)
qed

lemma single_batch:
  assumes "batches_run E" "le_batch E (pattern_configs V [p]) = (rs, skipped)" "\<not> (skipped \<noteq> [] \<or> rs = [])"
  shows "\<exists>r. rs = [r] \<and> wr_worker_id r = st_worker_id p"
proof -
  have "mset (map wr_worker_id rs) = mset (map st_worker_id [p])"
    using batch_accounts [OF assms(1), of "pattern_configs V [p]"] assms(2,3) unfolding worker_ids_resolved by simp
  then have "map wr_worker_id rs = [st_worker_id p]" by (simp add: mset_single_iff del: mset_map)
  then show ?thesis by (auto simp: map_eq_Cons_conv)
qed

lemma add_run_fields [simp]:
  "rf_results (add_run r es s) = rf_results s @ [r]" "rf_best (add_run r es s) = rf_best s"
  "rf_score (add_run r es s) = rf_score s"
  by (simp_all add: add_run_def)

lemma judge_fields [simp]:
  "rf_results (judge d v s) = rf_results s"
  "(rf_best (judge d v s), rf_score (judge d v s))
     = (if vd_trusted v \<and> rf_score s < vd_score v then (d, vd_score v) else (rf_best s, rf_score s))"
  by (simp_all add: judge_def)

lemma refl_inv_round:
  assumes inv: "refl_inv n i s" and ids: "wr_worker_id g = generator_id i" "wr_worker_id c = critic_id i"
    and v: "v = parse_critic_response (wr_output c) n"
  shows "map wr_worker_id (rf_results s @ [g, c]) = concat (map round_ids [0..<i]) @ round_ids i"
    "(rf_best (judge (wr_output g) v (add_run c e2 (add_run g e1 s))), rf_score (judge (wr_output g) v (add_run c e2 (add_run g e1 s))))
       = best_draft (judged n (rf_results s @ [g, c]))"
    "judged n (rf_results s @ [g, c]) = judged n (rf_results s) @ [(wr_output g, v)]"
    "\<not> accepts n v \<Longrightarrow> refl_inv n (Suc i) (judge (wr_output g) v (add_run c e2 (add_run g e1 s)))"
proof -
  let ?s = "judge (wr_output g) v (add_run c e2 (add_run g e1 s))"
  show j: "judged n (rf_results s @ [g, c]) = judged n (rf_results s) @ [(wr_output g, v)]"
    using judged_append(2) [OF refl_inv_even [OF inv]] v by simp
  show m: "map wr_worker_id (rf_results s @ [g, c]) = concat (map round_ids [0..<i]) @ round_ids i"
    using inv ids by (simp add: refl_inv_def round_ids_def)
  have "(rf_best s, rf_score s) = best_draft (judged n (rf_results s))" using inv by (simp add: refl_inv_def)
  then show b: "(rf_best ?s, rf_score ?s) = best_draft (judged n (rf_results s @ [g, c]))"
    unfolding j best_draft_snoc by (metis add_run_fields(2,3) judge_fields(2) snd_conv)
  show "refl_inv n (Suc i) ?s" if "\<not> accepts n v"
    using that inv b m j by (simp add: refl_inv_def)
qed

lemma generator_ends_report:
  assumes inv: "refl_inv n i s" and i: "i < m" and g: "wr_worker_id g = generator_id i"
    and r: "er_workers r = rf_results s @ [g]" "er_success r \<longleftrightarrow> er_error r = None"
    and meta: "er_success r \<Longrightarrow> map_of (er_metadata r) ''user_skipped_critic'' \<noteq> None"
  shows "refl_report n m r"
proof (rule stopped_report)
  show "\<forall>p\<in>set (judged n (er_workers r)). \<not> accepts n (snd p)"
    using inv judged_append(1) [OF refl_inv_even [OF inv]] by (simp add: refl_inv_def r(1))
  show "prefix (map wr_worker_id (er_workers r)) (concat (map round_ids [0..<m]))"
    using inv g i rounds_prefix(2) [of i m] by (simp add: refl_inv_def r(1))
qed (use r(2) meta in auto)

lemma between_rounds_report:
  assumes inv: "refl_inv n i s" and i: "i \<le> m" and r: "er_workers r = rf_results s" "er_success r \<longleftrightarrow> er_error r = None"
    and meta: "er_success r \<Longrightarrow> map_of (er_metadata r) ''halted_by_user'' \<noteq> None"
  shows "refl_report n m r"
proof (rule stopped_report)
  show "prefix (map wr_worker_id (er_workers r)) (concat (map round_ids [0..<m]))"
    using inv i rounds_prefix(1) [of i m] by (simp add: refl_inv_def r(1))
qed (use inv r meta in \<open>auto simp: refl_inv_def\<close>)

lemma reflection_end_facts:
  "er_workers (reflection_end R q s) = rf_results s" "\<not> er_success (reflection_end R q s)"
  "er_error (reflection_end R q s) \<noteq> None"
  by (simp_all add: reflection_end_def refl_result_fields pattern_success_facts)

lemma refl_stop_facts:
  "er_workers (reflection_halted q i s) = rf_results s" "er_success (reflection_halted q i s)"
  "er_error (reflection_halted q i s) = None" "map_of (er_metadata (reflection_halted q i s)) ''halted_by_user'' \<noteq> None"
  "er_workers (generator_skipped q sk s) = rf_results s" "\<not> er_success (generator_skipped q sk s)"
  "er_error (generator_skipped q sk s) \<noteq> None"
  "er_workers (critic_skipped q g sk s) = rf_results s" "er_success (critic_skipped q g sk s)"
  "er_error (critic_skipped q g sk s) = None" "map_of (er_metadata (critic_skipped q g sk s)) ''user_skipped_critic'' \<noteq> None"
  by (simp_all add: reflection_halted_def generator_skipped_def critic_skipped_def refl_result_fields
      pattern_success_facts Let_def execution_result_def refl_result_def)

lemma stop_reports:
  assumes "refl_inv n i s" "i \<le> m"
  shows "refl_report n m (reflection_end R q s)" "refl_report n m (reflection_halted q j s)"
    "refl_report n m (generator_skipped q sk s)"
  by (rule between_rounds_report [OF assms]; simp add: reflection_end_facts refl_stop_facts)+

lemma generator_stop_reports:
  assumes "refl_inv n i s" "i < m" "wr_worker_id g = generator_id i" "rf_results s1 = rf_results s @ [g]"
  shows "refl_report n m (reflection_end R q s1)" "refl_report n m (critic_skipped q h sk s1)"
  using assms(4) by (intro generator_ends_report [OF assms(1-3)]; simp add: reflection_end_facts refl_stop_facts)+

lemma generator_turn_report:
  assumes E: "batches_run (re_batch R)" and inv: "refl_inv (re_threshold R) i s" and im: "i < m"
  shows "case generator_turn R V query goal i s of
      Inl r \<Rightarrow> refl_report (re_threshold R) m r
    | Inr (g, s1) \<Rightarrow> wr_worker_id g = generator_id i \<and> s1 = add_run g [end_step (pe_cap V) g] s"
proof -
  obtain gs skipped where b: "le_batch (re_batch R) (pattern_configs V [generator_plan goal i s]) = (gs, skipped)"
    by (metis surj_pair)
  show ?thesis
  proof (cases "skipped \<noteq> [] \<or> gs = []")
    case True
    then show ?thesis using stop_reports(3) [OF inv, of m] im b by (simp add: generator_turn_def)
  next
    case False
    then obtain g where "gs = [g]" "wr_worker_id g = generator_id i"
      using single_batch [OF E b] by (auto simp: generator_plan_def)
    then show ?thesis using generator_stop_reports(1) [OF inv im] False b
      by (simp add: generator_turn_def Let_def)
  qed
qed

lemma critic_turn_report:
  assumes E: "batches_run (re_batch R)" and inv: "refl_inv (re_threshold R) i s" and im: "i < m"
    and g: "wr_worker_id g = generator_id i"
  shows "case critic_turn R V query goal i g (add_run g es s) of
      Inl r \<Rightarrow> refl_report (re_threshold R) m r | Inr s2 \<Rightarrow> refl_inv (re_threshold R) (Suc i) s2"
proof -
  obtain cs skipped where b: "le_batch (re_batch R) (pattern_configs V [critic_plan goal i (wr_output g)]) = (cs, skipped)"
    by (metis surj_pair)
  show ?thesis
  proof (cases "skipped \<noteq> [] \<or> cs = []")
    case True
    then show ?thesis using generator_stop_reports(2) [OF inv im g] b by (simp add: critic_turn_def)
  next
    case False
    then obtain c where c: "cs = [c]" "wr_worker_id c = critic_id i"
      using single_batch [OF E b] by (auto simp: critic_plan_def)
    define v where "v = parse_critic_response (wr_output c) (re_threshold R)"
    let ?s2 = "judge (wr_output g) v (add_run c [critic_entry (pe_cap V) i v] (add_run g es s))"
    have round: "map wr_worker_id (rf_results s @ [g, c]) = concat (map round_ids [0..<i]) @ round_ids i"
      "judged (re_threshold R) (rf_results s @ [g, c]) = judged (re_threshold R) (rf_results s) @ [(wr_output g, v)]"
      "(rf_best ?s2, rf_score ?s2) = best_draft (judged (re_threshold R) (rf_results s @ [g, c]))"
      "\<not> accepts (re_threshold R) v \<Longrightarrow> refl_inv (re_threshold R) (Suc i) ?s2"
      by (rule refl_inv_round [OF inv g c(2) v_def]; assumption?)+
    let ?ok = "refl_result query (rf_best ?s2) True
          [(''final_score'', Meta_val (PyInt (rf_score ?s2))), (''iterations'', Meta_val (PyInt (int i + 1)))] ?s2"
    have turn: "critic_turn R V query goal i g (add_run g es s)
        = (if accepts (re_threshold R) v then Inl ?ok else Inr ?s2)"
      using False b c by (simp add: critic_turn_def Let_def v_def)
    have ok: "er_workers ?ok = rf_results s @ [g, c]" "er_error ?ok = None"
      by (simp_all add: refl_result_def execution_result_def)
    have best: "rf_best ?s2 = fst (best_draft (judged (re_threshold R) (rf_results s) @ [(wr_output g, v)]))"
      using round(3) unfolding round(2) by (metis fst_conv)
    have pre: "prefix (map wr_worker_id (rf_results s @ [g, c])) (concat (map round_ids [0..<m]))"
      unfolding round(1) using im by (simp add: rounds_prefix(3))
    have old: "\<forall>p\<in>set (judged (re_threshold R) (rf_results s)). \<not> accepts (re_threshold R) (snd p)"
      using inv by (simp add: refl_inv_def)
    have "refl_report (re_threshold R) m ?ok" if "accepts (re_threshold R) v"
      unfolding refl_report_def Let_def ok round(2) butlast_snoc last_snoc refl_result_fields(2,3)
      using that best pre old by simp
    then show ?thesis unfolding turn using round(4) by simp
  qed
qed

lemma reflect_report:
  assumes "batches_run (re_batch R)" and "refl_inv (re_threshold R) i s" and "i \<le> m"
  shows "refl_report (re_threshold R) m (reflect R V query goal [i..<m] sigs s)"
  using assms(2,3)
proof (induction "m - i" arbitrary: i s sigs)
  case 0
  then show ?case using stop_reports(1) [of "re_threshold R" i s m] by simp
next
  case (Suc k)
  have im: "i < m" and up: "[i..<m] = i # [Suc i..<m]" using Suc.hyps(2) by (simp_all add: upt_conv_Cons)
  note stops = stop_reports [OF Suc.prems(1) less_imp_le [OF im]]
  have rest: "refl_report (re_threshold R) m (reflect R V query goal [Suc i..<m] sg s2)"
    if "refl_inv (re_threshold R) (Suc i) s2" for sg s2
    using Suc.hyps that im by simp
  show ?case
  proof (cases "generator_turn R V query goal i s")
    case (Inl r)
    then show ?thesis using generator_turn_report [OF assms(1) Suc.prems(1) im, of V query goal] stops
      by (simp add: up)
  next
    case (Inr p)
    then obtain g s1 where p: "p = (g, s1)" "wr_worker_id g = generator_id i" "s1 = add_run g [end_step (pe_cap V) g] s"
      using generator_turn_report [OF assms(1) Suc.prems(1) im, of V query goal] by (cases p) auto
    then show ?thesis
      using critic_turn_report [OF assms(1) Suc.prems(1) im p(2), of V query goal "[end_step (pe_cap V) g]"] Inr stops rest
      by (auto simp: up split: sum.splits)
  qed
qed

text \<open>
  C22. The loop ends after at most its maximal number of iterations, with the results of
  alternating generators and critics. Once a critic's verdict is trusted, passed and reaches the
  threshold it stops, with success; a success without such a verdict says that the user halted
  it or skipped the critic. The draft that an accepted run with a positive threshold returns is
  one of its drafts, and no other has a higher trusted score.
\<close>

theorem reflection_outcome:
  assumes "batches_run (re_batch R)" and "reflection_goal an query \<noteq> []"
  shows "\<exists>r. run_prog d (handle_reflection R V query an c t) = Inr r
    \<and> prefix (map wr_worker_id (er_workers r)) (concat (map round_ids [0..<nat (re_max R)]))
    \<and> (let js = judged (re_threshold R) (er_workers r);
           ok = js \<noteq> [] \<and> accepts (re_threshold R) (snd (last js))
       in (\<forall>p\<in>set (butlast js). \<not> accepts (re_threshold R) (snd p))
        \<and> (er_success r \<longleftrightarrow> er_error r = None)
        \<and> (er_success r \<longrightarrow> ok \<or> map_of (er_metadata r) ''halted_by_user'' \<noteq> None
             \<or> map_of (er_metadata r) ''user_skipped_critic'' \<noteq> None)
        \<and> (ok \<longrightarrow> er_success r)
        \<and> (ok \<and> 0 < re_threshold R \<longrightarrow> (\<exists>(draft, v)\<in>set js. er_output r = draft \<and> vd_trusted v
             \<and> re_threshold R \<le> vd_score v \<and> (\<forall>(e, w)\<in>set js. vd_trusted w \<longrightarrow> vd_score w \<le> vd_score v))))"
proof -
  obtain goal gs where goal: "reflection_goal an query = goal # gs" using assms(2) by (meson neq_Nil_conv)
  let ?s = "\<lparr>rf_best = [], rf_score = 0, rf_feedback = [], rf_results = [], rf_steps = pe_audit V, rf_usage = []\<rparr>"
  define r where "r = reflect R V query goal [0..<nat (re_max R)] (pe_signals V) ?s"
  define js where "js = judged (re_threshold R) (er_workers r)"
  have "refl_inv (re_threshold R) 0 ?s" by (simp add: refl_inv_def best_draft_def)
  then have rep: "refl_report (re_threshold R) (nat (re_max R)) r"
    unfolding r_def by (intro reflect_report assms(1)) simp_all
  have run: "run_prog d (handle_reflection R V query an c t) = Inr r"
    by (simp add: handle_reflection_def goal r_def)
  have best: "\<exists>(draft, v)\<in>set js. er_output r = draft \<and> vd_trusted v
             \<and> re_threshold R \<le> vd_score v \<and> (\<forall>(e, w)\<in>set js. vd_trusted w \<longrightarrow> vd_score w \<le> vd_score v)"
    if ok: "js \<noteq> []" "accepts (re_threshold R) (snd (last js))" "0 < re_threshold R"
  proof -
    have out: "er_output r = fst (best_draft js)" using rep ok by (simp add: refl_report_def js_def Let_def)
    obtain d v where l: "last js = (d, v)" by (metis surj_pair)
    then have "vd_trusted v" "re_threshold R \<le> vd_score v" "(d, v) \<in> set js"
      using ok(1,2) last_in_set [OF ok(1)] by (simp_all add: accepts_def)
    moreover have max: "\<forall>(d, v)\<in>set js. vd_trusted v \<longrightarrow> vd_score v \<le> snd (best_draft js)"
      using best_draft_max by blast
    ultimately have le: "re_threshold R \<le> snd (best_draft js)" by fastforce
    then obtain d2 v2 where v2: "(d2, v2) \<in> set js" "fst (best_draft js) = d2" "vd_trusted v2"
      "vd_score v2 = snd (best_draft js)" using best_draft_max [of js] ok(3) by fastforce
    show ?thesis
      by (rule bexI [OF _ v2(1)]) (use v2 out le max in simp)
  qed
  note R = rep [unfolded refl_report_def Let_def, folded js_def]
  have "(\<forall>p\<in>set (butlast js). \<not> accepts (re_threshold R) (snd p)) \<and> (er_success r \<longleftrightarrow> er_error r = None)
        \<and> (er_success r \<longrightarrow> (js \<noteq> [] \<and> accepts (re_threshold R) (snd (last js)))
             \<or> map_of (er_metadata r) ''halted_by_user'' \<noteq> None \<or> map_of (er_metadata r) ''user_skipped_critic'' \<noteq> None)
        \<and> (js \<noteq> [] \<and> accepts (re_threshold R) (snd (last js)) \<longrightarrow> er_success r)"
    using R by blast
  then show ?thesis
    unfolding Let_def
  proof (intro exI [of _ r] conjI impI, unfold js_def [symmetric], goal_cases)
    case 1 show ?case by (rule run)
  next
    case 2 show ?case using R by (elim conjE)
  qed (use best in \<open>elim conjE, (assumption | simp)+\<close>)
qed

text \<open>A run of workers that answers by their ids.\<close>

definition scripted :: "(string \<times> string \<times> signal_type) list \<Rightarrow> refl_env" where
  "scripted lines =
     \<lparr>re_max = 2, re_threshold = 7, re_late = (\<lambda>_. False),
      re_batch = \<lparr>le_batch = (\<lambda>cs. (map (\<lambda>c. case map_of lines (cfg_worker_id c) of
                      Some (out, sig) \<Rightarrow> worker_row c out sig None 1
                    | None \<Rightarrow> worker_row c [] FAILED None 1) cs, [])), le_halts = (\<lambda>_. False)\<rparr>\<rparr>"

lemma scripted_runs: "batches_run (re_batch (scripted lines))"
  unfolding batches_run_def
  by (simp add: scripted_def) (intro allI exI, rule hitl_run_map, simp add: worker_row_def split: option.split)

theorem reflection_outcome_witness:
  "\<exists>r. run_prog (\<lambda>_. Inl OutOfFuel)
      (handle_reflection (scripted [(''generator_0'', ''draft'', SUCCESS), (''critic_0'', ''Score:8'', SUCCESS)])
         (demo_env b_fails) ''go'' (plain_analysis REFLECTION []) demo_context 120) = Inr r
     \<and> er_success r \<and> er_output r = ''draft'' \<and> prefix (map wr_worker_id (er_workers r)) (concat (map round_ids [0..<2]))"
proof -
  let ?R = "scripted [(''generator_0'', ''draft'', SUCCESS), (''critic_0'', ''Score:8'', SUCCESS)]"
  let ?h = "handle_reflection ?R (demo_env b_fails) ''go'' (plain_analysis REFLECTION []) demo_context 120"
  have "reflection_goal (plain_analysis REFLECTION []) ''go'' \<noteq> []" by code_simp
  moreover have "case run_prog (\<lambda>_. Inl OutOfFuel) ?h of
      Inr r \<Rightarrow> er_success r \<and> er_output r = ''draft'' | Inl _ \<Rightarrow> False" by code_simp
  ultimately show ?thesis
    using reflection_outcome [OF scripted_runs, of "plain_analysis REFLECTION []" "''go''" "\<lambda>_. Inl OutOfFuel"
        "[(''generator_0'', ''draft'', SUCCESS), (''critic_0'', ''Score:8'', SUCCESS)]" "demo_env b_fails" demo_context 120]
    by (auto simp: scripted_def split: sum.splits)
qed

text \<open>
  The draft that the critic lets pass is not returned if an earlier one, that did not pass, has
  the same score.
\<close>

lemma accepted_draft_not_returned:
  "case run_prog (\<lambda>_. Inl OutOfFuel)
      (handle_reflection (scripted
         [(''generator_0'', ''first'', SUCCESS), (''critic_0'', ''Score:8 passed:no'', SUCCESS),
          (''generator_1'', ''second'', SUCCESS), (''critic_1'', ''Score:8 passed:yes'', SUCCESS)])
         (demo_env b_fails) ''go'' (plain_analysis REFLECTION []) demo_context 120) of
     Inr r \<Rightarrow> er_success r \<and> er_output r = ''first'' | Inl _ \<Rightarrow> False"
  by code_simp

text \<open>A generator that was halted or cancelled is criticised like a draft.\<close>

lemma halted_draft_is_criticised:
  "case generator_turn (scripted [(''generator_0'', ''Cancelled'', HALTED)]) (demo_env b_fails) ''go'' (fallback_plan ''go'') 0
      \<lparr>rf_best = [], rf_score = 0, rf_feedback = [], rf_results = [], rf_steps = [], rf_usage = []\<rparr> of
     Inr (g, s) \<Rightarrow> wr_output g = ''Cancelled'' | Inl _ \<Rightarrow> False"
  by code_simp

text \<open>The result of a halted run has no trail and no usage, although steps are counted.\<close>

lemma halt_drops_trail:
  "er_steps (reflection_halted q i s) = [] \<and> er_usage (reflection_halted q i s) = []
   \<and> er_steps_taken (reflection_halted q i s) = steps_taken_from_audit (rf_steps s)"
  by (simp add: reflection_halted_def refl_result_def execution_result_def)

end
