(* ===== verification/Agp_Commands.thy ===== *)
theory Agp_Commands
  imports Agp_Schema
begin

text \<open>
  The commands a frontend sends (\<open>src/agloom/protocol/commands.py\<close>): the fields of every
  command, the validators the classes declare beside them, and the parser \<open>command_adapter\<close>.

  The lemmas show what an accepted command is known to hold, and that a command written as its
  class declares it is read back.
\<close>

section \<open>Fields\<close>

definition str_field :: "string \<Rightarrow> string \<times> ftype \<times> pyval option" where
  "str_field k = (k, TStr, None)"

definition opt_field_of :: "string \<Rightarrow> ftype \<Rightarrow> string \<times> ftype \<times> pyval option" where
  "opt_field_of k t = (k, TOpt t, Some PyNone)"

definition invoke_attachment :: fields where
  "invoke_attachment =
     [(''name'', TStr, Some (PyStr ''file'')), (''mime_type'', TStr, Some (PyStr ''application/octet-stream'')),
      str_field ''data_base64'']"

definition command_invoke_data :: fields where
  "command_invoke_data =
     [str_field ''prompt'', opt_field_of ''thread'' TStr, opt_field_of ''user_id'' TStr, opt_field_of ''context'' TDict,
      opt_field_of ''attachments'' (TList (TModel invoke_attachment))]"

definition command_cancel_data :: fields where
  "command_cancel_data = [opt_field_of ''thread'' TStr]"

definition command_hitl_respond_data :: fields where
  "command_hitl_respond_data =
     [str_field ''request_id'', (''decision'', TStr, Some (PyStr ''reject'')), opt_field_of ''text'' TStr,
      (''actor'', TStr, Some (PyStr ''user''))]"

definition command_worker_assign_data :: fields where
  "command_worker_assign_data =
     [str_field ''worker_id'', str_field ''task'', opt_field_of ''thread'' TStr, opt_field_of ''parent_thread'' TStr,
      opt_field_of ''pattern'' TStr, (''tools'', TList TStr, Some (PyList [])), opt_field_of ''context'' TDict]"

definition command_session_resume_data :: fields where
  "command_session_resume_data = [str_field ''thread'', opt_field_of ''from_seq'' TInt]"

definition command_feedback_data :: fields where
  "command_feedback_data =
     [str_field ''run_id'', str_field ''rating'', (''comment'', TStr, Some (PyStr [])), (''correct'', TStr, Some (PyStr [])),
      opt_field_of ''metadata'' TDict]"

definition command_snapshot_request_data :: fields where
  "command_snapshot_request_data = [opt_field_of ''thread'' TStr, opt_field_of ''label'' TStr]"

definition command_ping_data :: fields where
  "command_ping_data = [opt_field_of ''ping_id'' TStr]"

definition command_subscribe_data :: fields where
  "command_subscribe_data = [(''prefixes'', TList TStr, Some (PyList []))]"

definition command_session_create_data :: fields where
  "command_session_create_data = [opt_field_of ''session_id'' TStr]"

definition command_session_delete_data :: fields where
  "command_session_delete_data = [str_field ''session_id'']"

definition command_session_rename_data :: fields where
  "command_session_rename_data = [str_field ''from_session_id'', str_field ''to_session_id'']"

definition command_attach_file_data :: fields where
  "command_attach_file_data = [str_field ''filename'', str_field ''content_base64'', opt_field_of ''thread'' TStr]"

definition command_tool_invoke_data :: fields where
  "command_tool_invoke_data = [str_field ''name'', (''arguments'', TDict, Some (PyDict []))]"

definition command_config_set_data :: fields where
  "command_config_set_data =
     [opt_field_of ''model_id'' TStr, opt_field_of ''cli_tools'' TDict, opt_field_of ''temperature'' TFloat,
      opt_field_of ''top_p'' TFloat, opt_field_of ''system_prompt'' TStr, opt_field_of ''budget_token_limit'' TInt,
      opt_field_of ''budget_cost_usd_limit'' TFloat]"

definition command_memory_clear_data :: fields where
  "command_memory_clear_data = [opt_field_of ''thread'' TStr]"

definition command_memory_pop_last_turn_data :: fields where
  "command_memory_pop_last_turn_data = [opt_field_of ''thread'' TStr]"

definition command_harness_git_data :: fields where
  "command_harness_git_data =
     [(''op'', TLit [''checkpoint'', ''diff'', ''status'', ''checkpoints'', ''revert_hint''], Some (PyStr ''diff'')),
      (''name'', TStr, Some (PyStr ''cli'')), (''description'', TStr, Some (PyStr [])), (''path'', TStr, Some (PyStr [])),
      (''cached'', TBool, Some (PyBool False))]"

definition command_plan_preview_data :: fields where
  "command_plan_preview_data = [str_field ''prompt'']"

text \<open>The union by its discriminator; the flag says that \<open>data\<close> may be missing.\<close>

definition command_catalogue :: "(string \<times> fields \<times> bool) list" where
  "command_catalogue =
     [(''command.invoke'', command_invoke_data, False), (''command.cancel'', command_cancel_data, True),
      (''command.hitl.respond'', command_hitl_respond_data, False), (''command.runtime.shutdown'', [], True),
      (''command.worker.assign'', command_worker_assign_data, False),
      (''command.session.resume'', command_session_resume_data, False), (''command.feedback'', command_feedback_data, False),
      (''command.snapshot.request'', command_snapshot_request_data, True), (''command.ping'', command_ping_data, True),
      (''command.schema.request'', [], True), (''command.tool.list'', [], True), (''command.providers.list'', [], True),
      (''command.subscribe'', command_subscribe_data, False), (''command.unsubscribe'', [], True),
      (''command.session.list'', [], True), (''command.session.create'', command_session_create_data, True),
      (''command.session.delete'', command_session_delete_data, False),
      (''command.session.rename'', command_session_rename_data, False),
      (''command.attach.file'', command_attach_file_data, False), (''command.tool.invoke'', command_tool_invoke_data, False),
      (''command.config.set'', command_config_set_data, False), (''command.memory.clear'', command_memory_clear_data, True),
      (''command.memory.pop_last_turn'', command_memory_pop_last_turn_data, True),
      (''command.harness.git'', command_harness_git_data, True), (''command.plan.preview'', command_plan_preview_data, False)]"

section \<open>Validators\<close>

text \<open>The field validators of mode \<open>before\<close>; \<open>str_of\<close> is \<open>str\<close>.\<close>

datatype before = Strip_required | Hitl_decision

definition before_validators :: "string \<Rightarrow> (string \<times> before) list" where
  "before_validators typ =
     (if typ = ''command.invoke'' \<or> typ = ''command.plan.preview'' then [(''prompt'', Strip_required)]
      else if typ = ''command.hitl.respond'' then [(''decision'', Hitl_decision), (''request_id'', Strip_required)]
      else if typ = ''command.feedback'' then [(''run_id'', Strip_required), (''rating'', Strip_required)]
      else [])"

definition hitl_command_decisions :: "string list" where
  "hitl_command_decisions = [''accept'', ''reject'', ''allowlist'', ''retry'', ''stop'']"

definition hitl_approve_typos :: "string list" where
  "hitl_approve_typos = [''aprove'', ''approv'']"

definition normalize_command_decision :: "(pyval \<Rightarrow> string) \<Rightarrow> pyval \<Rightarrow> string" where
  "normalize_command_decision str_of v =
     (let s = (if v = PyNone then ''reject'' else py_lower (py_strip (str_of v)))
      in if s \<in> set hitl_command_decisions then s
         else if s \<in> set hitl_approve_typos then ''accept'' else ''reject'')"

fun run_before :: "(pyval \<Rightarrow> string) \<Rightarrow> before \<Rightarrow> pyval \<Rightarrow> pyval option" where
  "run_before str_of Strip_required v =
     (let s = py_strip (if truthy v then str_of v else []) in if s = [] then None else Some (PyStr s))"
| "run_before str_of Hitl_decision v = Some (PyStr (normalize_command_decision str_of v))"

fun apply_before :: "(pyval \<Rightarrow> string) \<Rightarrow> (string \<times> before) list \<Rightarrow> pyval pydict \<Rightarrow> pyval pydict option" where
  "apply_before str_of bs [] = Some []"
| "apply_before str_of bs ((k, v) # d) =
     (case (case map_of bs k of None \<Rightarrow> Some v | Some b \<Rightarrow> run_before str_of b v) of
        None \<Rightarrow> None
      | Some x \<Rightarrow> map_option ((#) (k, x)) (apply_before str_of bs d))"

definition config_fields :: "string list" where
  "config_fields =
     [''model_id'', ''temperature'', ''top_p'', ''system_prompt'', ''cli_tools'', ''budget_token_limit'', ''budget_cost_usd_limit'']"

definition given :: "pyval pydict \<Rightarrow> string \<Rightarrow> bool" where
  "given d k \<longleftrightarrow> (case map_of d k of None \<Rightarrow> False | Some v \<Rightarrow> v \<noteq> PyNone)"

definition after_validator :: "string \<Rightarrow> pyval \<Rightarrow> bool" where
  "after_validator typ v \<longleftrightarrow> typ \<noteq> ''command.config.set''
     \<or> (case v of PyDict d \<Rightarrow> list_ex (given d) config_fields | _ \<Rightarrow> False)"

section \<open>The parser\<close>

definition validate_command :: "validator \<Rightarrow> (pyval \<Rightarrow> string) \<Rightarrow> string \<Rightarrow> fields \<Rightarrow> pyval \<Rightarrow> pyval option" where
  "validate_command vld str_of typ fs v =
     (case v of
        PyDict d \<Rightarrow>
          (case apply_before str_of (before_validators typ) d of
             None \<Rightarrow> None
           | Some d1 \<Rightarrow>
               (case vld (TModel fs) (PyDict d1) of
                  Some x \<Rightarrow> if after_validator typ x then Some x else None
                | None \<Rightarrow> None))
      | _ \<Rightarrow> None)"

definition parse_command :: "validator \<Rightarrow> (pyval \<Rightarrow> string) \<Rightarrow> event \<Rightarrow> (string \<times> pyval) option" where
  "parse_command vld str_of line =
     (case map_of line ''type'' of
        Some (PyStr typ) \<Rightarrow>
          (case map_of command_catalogue typ of
             None \<Rightarrow> None
           | Some (fs, optional) \<Rightarrow>
               (case (case map_of line ''data'' of None \<Rightarrow> if optional then Some (PyDict []) else None | Some v \<Rightarrow> Some v) of
                  None \<Rightarrow> None
                | Some v \<Rightarrow> map_option (Pair typ) (validate_command vld str_of typ fs v)))
      | _ \<Rightarrow> None)"

text \<open>What a client writes for a command of class \<open>typ\<close> with the field values \<open>d\<close>.\<close>

definition write_command :: "string \<Rightarrow> fields \<Rightarrow> pyval pydict \<Rightarrow> event" where
  "write_command typ fs d = [(''type'', PyStr typ), (''data'', PyDict (dump_fields fs d))]"

section \<open>Typed values\<close>

text \<open>
  A value has a declared type. Unlike \<open>canonical\<close>, a model may have keys that are not declared
  (\<open>extra="allow"\<close>).
\<close>

fun has_type :: "ftype \<Rightarrow> pyval \<Rightarrow> bool" and has_fields :: "fields \<Rightarrow> pyval pydict \<Rightarrow> bool" where
  "has_type TStr v = (case v of PyStr _ \<Rightarrow> True | _ \<Rightarrow> False)"
| "has_type TInt v = (case v of PyInt _ \<Rightarrow> True | _ \<Rightarrow> False)"
| "has_type TFloat v = (case v of PyFloat _ \<Rightarrow> True | _ \<Rightarrow> False)"
| "has_type TBool v = (case v of PyBool _ \<Rightarrow> True | _ \<Rightarrow> False)"
| "has_type TAny v = True"
| "has_type TDict v = (case v of PyDict _ \<Rightarrow> True | _ \<Rightarrow> False)"
| "has_type (TLit xs) v = (case v of PyStr s \<Rightarrow> s \<in> set xs | _ \<Rightarrow> False)"
| "has_type (TOpt t) v = (v = PyNone \<or> has_type t v)"
| "has_type (TList t) v = (case v of PyList vs \<Rightarrow> list_all (has_type t) vs | _ \<Rightarrow> False)"
| "has_type (TModel fs) v = (case v of PyDict d \<Rightarrow> has_fields fs d | _ \<Rightarrow> False)"
| "has_fields [] d = True"
| "has_fields ((k, t, dflt) # fs) d =
     ((case map_of d k of None \<Rightarrow> False | Some v \<Rightarrow> has_type t v) \<and> has_fields fs d)"

text \<open>
  Pydantic documents the type of what it returns for the plain types; a model or a list is
  built from an object or an array only.
\<close>

definition validator_types :: "validator \<Rightarrow> bool" where
  "validator_types vld \<longleftrightarrow>
     (\<forall>t v x. (t \<in> {TStr, TInt, TFloat, TBool, TDict} \<or> (\<exists>xs. t = TLit xs)) \<longrightarrow> vld t v = Some x \<longrightarrow> has_type t x)
     \<and> (\<forall>t v. (\<nexists>vs. v = PyList vs) \<longrightarrow> vld (TList t) v = None)
     \<and> (\<forall>fs v. (\<nexists>d. v = PyDict d) \<longrightarrow> vld (TModel fs) v = None)"

lemma exact_validator_types: "validator_types exact_validate"
  by (auto simp: validator_types_def split: pyval.splits if_splits)

text \<open>Schemas whose defaults have the declared types.\<close>

fun sound_type :: "ftype \<Rightarrow> bool" and sound_fields :: "fields \<Rightarrow> bool" where
  "sound_type (TOpt t) = sound_type t"
| "sound_type (TList t) = sound_type t"
| "sound_type (TModel fs) = sound_fields fs"
| "sound_type TStr = True"
| "sound_type TInt = True"
| "sound_type TFloat = True"
| "sound_type TBool = True"
| "sound_type TAny = True"
| "sound_type TDict = True"
| "sound_type (TLit xs) = True"
| "sound_fields [] = True"
| "sound_fields ((k, t, dflt) # fs) =
     (sound_type t \<and> \<not> list_ex (\<lambda>f. fst f = k) fs
      \<and> (case dflt of None \<Rightarrow> True | Some v \<Rightarrow> has_type t v) \<and> sound_fields fs)"

lemma all_some_forall: "all_some ys = Some xs \<Longrightarrow> ys = map Some xs"
  by (induction ys arbitrary: xs rule: all_some.induct) auto

lemma validate_fields_keys: "validate_fields vld fs d = Some x \<Longrightarrow> map fst x = map fst fs"
  by (induction fs arbitrary: x) (auto split: option.splits)

lemma has_fields_cons:
  assumes "has_fields fs x" and "\<not> list_ex (\<lambda>f. fst f = k) fs"
  shows "has_fields fs ((k, v) # x)"
  using assms by (induction fs) (auto split: option.splits)

lemma has_fields_append: "has_fields fs x \<Longrightarrow> has_fields fs (x @ y)"
  by (induction fs) (auto split: option.splits simp: map_add_Some_iff)

lemma validate_fields_types:
  assumes "sound_fields fs" and "validate_fields vld fs d = Some x"
    and "\<And>k t dflt v y. (k, t, dflt) \<in> set fs \<Longrightarrow> sound_type t \<Longrightarrow> vld t v = Some y \<Longrightarrow> has_type t y"
  shows "has_fields fs x"
  using assms
proof (induction fs arbitrary: x)
  case (Cons f fs)
  note ty = Cons.prems(3)
  obtain k t dflt where f: "f = (k, t, dflt)" by (cases f)
  obtain v x' where x: "x = (k, v) # x'" "validate_fields vld fs d = Some x'"
    and v: "(case map_of d k of Some y \<Rightarrow> vld t y | None \<Rightarrow> dflt) = Some v"
    using Cons.prems(2) f by (auto split: option.splits)
  have "has_type t v"
    using v Cons.prems(1) Cons.prems(3) [of k t dflt] f by (auto split: option.splits)
  moreover have "has_fields fs x'"
  proof (rule Cons.IH [OF _ x(2)])
    show "has_type t' z" if "(k', t', dflt') \<in> set fs" "sound_type t'" "vld t' w = Some z" for k' t' dflt' w z
      using ty [of k' t' dflt' w z] that by simp
  qed (use Cons.prems(1) f in simp)
  ultimately show ?case using f x Cons.prems(1) by (simp add: has_fields_cons)
qed simp

text \<open>Validation returns a value of the declared type.\<close>

lemma validated_type:
  assumes laws: "pydantic_laws vld" and types: "validator_types vld"
  shows "sound_type t \<Longrightarrow> vld t v = Some x \<Longrightarrow> has_type t x"
proof (induction t arbitrary: v x)
  case (TOpt t)
  then show ?case using pydantic_lawsD(8,9) [OF laws] by (cases "v = PyNone") auto
next
  case (TList t)
  then obtain vs where v: "v = PyList vs"
    using types unfolding validator_types_def by (metis option.distinct(1))
  then obtain xs where x: "x = PyList xs" "all_some (map (vld t) vs) = Some xs"
    using TList.prems(2) pydantic_lawsD(10) [OF laws] by auto
  have "has_type t y" if y: "y \<in> set xs" for y
  proof -
    have "Some y \<in> set (map (vld t) vs)" using all_some_forall [OF x(2)] y by simp
    then obtain u where "vld t u = Some y" by (metis ex_map_conv)
    then show ?thesis using TList.IH TList.prems(1) by simp
  qed
  then show ?case using x(1) by (simp add: list_all_iff)
next
  case (TModel fs)
  then obtain d where v: "v = PyDict d"
    using types unfolding validator_types_def by (metis option.distinct(1))
  then obtain y where y: "validate_fields vld fs d = Some y" "x = PyDict (y @ extra_fields fs d)"
    using TModel.prems(2) pydantic_lawsD(11) [OF laws] by (auto simp: validate_model_def)
  have "has_fields fs y"
  proof (rule validate_fields_types [OF _ y(1)])
    show "has_type t z" if "(k, t, dflt) \<in> set fs" "sound_type t" "vld t w = Some z" for k t dflt w z
      using TModel.IH [OF that(1), of "(t, dflt)" t w z] that(2,3) by auto
  qed (use TModel.prems(1) in simp)
  then show ?case using y(2) by (simp add: has_fields_append)
next
  case (TLit xs)
  then show ?case using types unfolding validator_types_def by blast
next
  case TAny
  then show ?case by simp
qed (use types [unfolded validator_types_def] in \<open>blast\<close>)+

section \<open>What an accepted command holds\<close>

text \<open>What the validators of a class promise of its data.\<close>

fun before_holds :: "before \<Rightarrow> pyval \<Rightarrow> bool" where
  "before_holds Strip_required v = (case v of PyStr s \<Rightarrow> s \<noteq> [] \<and> py_strip s = s | _ \<Rightarrow> False)"
| "before_holds Hitl_decision v = (case v of PyStr s \<Rightarrow> s \<in> set hitl_command_decisions | _ \<Rightarrow> False)"

definition validators_hold :: "string \<Rightarrow> pyval pydict \<Rightarrow> bool" where
  "validators_hold typ d \<longleftrightarrow>
     list_all (\<lambda>(k, b). case map_of d k of None \<Rightarrow> False | Some v \<Rightarrow> before_holds b v) (before_validators typ)
     \<and> after_validator typ (PyDict d)"

lemma strip_idem: "py_strip (py_strip s) = py_strip s"
proof (cases "dropWhile py_isspace s")
  case Nil
  then have "py_strip s = []" by (simp only: py_strip_def) simp
  then show ?thesis by simp
next
  case (Cons c t)
  let ?u = "rev (dropWhile py_isspace (rev (c # t)))"
  have nc: "\<not> py_isspace c" using Cons by (metis hd_dropWhile list.sel(1) neq_Nil_conv)
  have "dropWhile py_isspace (rev t @ [c]) = dropWhile py_isspace (rev t) @ [c]"
    using nc by (induction "rev t" arbitrary: t rule: list.induct) (auto simp: dropWhile_append)
  then have "?u = c # rev (dropWhile py_isspace (rev t))" by simp
  moreover have "dropWhile py_isspace (rev ?u) = rev ?u" by (simp add: dropWhile_idem)
  ultimately show ?thesis using Cons nc by (simp add: py_strip_def)
qed

lemma decision_member: "normalize_command_decision str_of v \<in> set hitl_command_decisions"
proof -
  have "''accept'' \<in> set hitl_command_decisions" "''reject'' \<in> set hitl_command_decisions"
    by (simp_all add: hitl_command_decisions_def)
  then show ?thesis by (simp add: normalize_command_decision_def Let_def)
qed

lemma run_before_holds: "run_before str_of b v = Some x \<Longrightarrow> before_holds b x"
  by (cases b) (auto simp: Let_def strip_idem decision_member split: if_splits)

lemma run_before_str: "run_before str_of b v = Some x \<Longrightarrow> \<exists>s. x = PyStr s"
  by (cases b) (auto simp: Let_def split: if_splits)

lemma apply_before_map:
  "apply_before str_of bs d = Some d1 \<Longrightarrow> map_of d1 k =
     (case map_of d k of None \<Rightarrow> None
      | Some v \<Rightarrow> (case map_of bs k of None \<Rightarrow> Some v | Some b \<Rightarrow> run_before str_of b v))"
  by (induction d arbitrary: d1) (auto split: option.splits if_splits)

text \<open>A string field keeps its string; a missing field has its default.\<close>

lemma validated_field:
  assumes laws: "pydantic_laws vld" and v: "validate_fields vld fs d = Some x"
    and f: "map_of fs k = Some (TStr, dflt)"
  shows "map_of x k = (case map_of d k of None \<Rightarrow> dflt | Some (PyStr s) \<Rightarrow> Some (PyStr s) | Some y \<Rightarrow> vld TStr y)"
  using v f
proof (induction fs arbitrary: x)
  case (Cons g fs)
  obtain gk t df where g: "g = (gk, t, df)" by (cases g)
  show ?case
    using Cons pydantic_lawsD(1) [OF laws] unfolding g by (auto split: option.splits pyval.splits if_splits)
qed simp

text \<open>Every validated field of the catalogue is a string, required or with a default that holds.\<close>

definition validators_apply :: "string \<Rightarrow> fields \<Rightarrow> bool" where
  "validators_apply typ fs \<longleftrightarrow>
     list_all (\<lambda>(k, b). case map_of fs k of
                  Some (TStr, None) \<Rightarrow> True | Some (TStr, Some v) \<Rightarrow> before_holds b v | _ \<Rightarrow> False)
       (before_validators typ)
     \<and> distinct (map fst (before_validators typ))"

lemmas command_data_defs =
  command_invoke_data_def command_cancel_data_def command_hitl_respond_data_def command_worker_assign_data_def
  command_session_resume_data_def command_feedback_data_def command_snapshot_request_data_def command_ping_data_def
  command_subscribe_data_def command_session_create_data_def command_session_delete_data_def
  command_session_rename_data_def command_attach_file_data_def command_tool_invoke_data_def command_config_set_data_def
  command_memory_clear_data_def command_memory_pop_last_turn_data_def command_harness_git_data_def
  command_plan_preview_data_def invoke_attachment_def str_field_def opt_field_of_def

lemma catalogue_sound: "list_all (\<lambda>(typ, fs, optional). sound_fields fs) command_catalogue"
  by (simp add: command_catalogue_def command_data_defs)

lemma commands_readable: "list_all (\<lambda>(typ, fs, optional). readable_fields fs) command_catalogue"
  by (simp add: command_catalogue_def command_data_defs)

lemma catalogue_validators: "list_all (\<lambda>(typ, fs, optional). validators_apply typ fs) command_catalogue"
  by (simp add: command_catalogue_def command_data_defs validators_apply_def before_validators_def
      hitl_command_decisions_def)

lemma commands_distinct: "distinct (map fst command_catalogue)"
  by (simp add: command_catalogue_def)

lemma catalogue_memberD:
  assumes "(typ, fs, optional) \<in> set command_catalogue"
  shows "sound_fields fs" and "readable_fields fs" and "validators_apply typ fs"
  using bspec [OF catalogue_sound [unfolded list_all_iff] assms] bspec [OF commands_readable [unfolded list_all_iff] assms]
    bspec [OF catalogue_validators [unfolded list_all_iff] assms] by simp_all

lemma validators_applyD:
  assumes "validators_apply typ fs" and "(k, b) \<in> set (before_validators typ)"
  shows "\<exists>dflt. map_of fs k = Some (TStr, dflt) \<and> (\<forall>y. dflt = Some y \<longrightarrow> before_holds b y)"
    and "map_of (before_validators typ) k = Some b"
proof -
  have "case map_of fs k of Some (TStr, None) \<Rightarrow> True | Some (TStr, Some v) \<Rightarrow> before_holds b v | _ \<Rightarrow> False"
    using assms unfolding validators_apply_def list_all_iff by blast
  moreover obtain o1 where o1: "map_of fs k = o1" by blast
  ultimately show "\<exists>dflt. map_of fs k = Some (TStr, dflt) \<and> (\<forall>y. dflt = Some y \<longrightarrow> before_holds b y)"
    by (simp split: option.splits prod.splits ftype.splits)
  show "map_of (before_validators typ) k = Some b" using assms by (simp add: validators_apply_def)
qed

lemma validators_hold_accepted:
  assumes laws: "pydantic_laws vld" and ap: "validators_apply typ fs"
    and b: "apply_before str_of (before_validators typ) d = Some d1"
    and v: "validate_fields vld fs d1 = Some x" and kb: "(k, b) \<in> set (before_validators typ)"
  shows "\<exists>y. map_of x k = Some y \<and> before_holds b y"
proof -
  have bk: "map_of (before_validators typ) k = Some b" by (rule validators_applyD(2) [OF ap kb])
  obtain dflt where f: "map_of fs k = Some (TStr, dflt)"
    and dh: "\<And>y. dflt = Some y \<Longrightarrow> before_holds b y"
    using validators_applyD(1) [OF ap kb] by blast
  have x: "map_of x k = (case map_of d1 k of None \<Rightarrow> dflt | Some (PyStr s) \<Rightarrow> Some (PyStr s) | Some y \<Rightarrow> vld TStr y)"
    by (rule validated_field [OF laws v f])
  have "k \<in> fst ` set fs" using map_of_SomeD [OF f] by force
  then have "k \<in> fst ` set x" using validate_fields_keys [OF v] by (metis set_map)
  then have some: "map_of x k \<noteq> None" by (simp add: map_of_eq_None_iff)
  show ?thesis
  proof (cases "map_of d k")
    case None
    then show ?thesis using x some dh apply_before_map [OF b, of k] by auto
  next
    case (Some w)
    then have w: "map_of d1 k = run_before str_of b w" using apply_before_map [OF b, of k] bk by simp
    then obtain z where z: "map_of d1 k = Some z"
    proof (cases "run_before str_of b w")
      case None
      then have "map_of d1 k = None" using w by simp
      moreover have "map_of d1 k \<noteq> None"
        using b Some bk by (induction d arbitrary: d1) (auto split: option.splits if_splits)
      ultimately show thesis by simp
    qed auto
    then show ?thesis using w x run_before_str run_before_holds by fastforce
  qed
qed

text \<open>
  C13. A line that the command parser accepts is a command of the catalogue, and its data has
  every declared field with a value of the declared type. On top of that a prompt, a request
  id, a run id and a rating are stripped and not empty, the decision of a gate is one of the
  five a client may send, and a change of the configuration sets a field.
\<close>

theorem accepted_command_typed:
  assumes laws: "pydantic_laws vld" and types: "validator_types vld"
    and p: "parse_command vld str_of line = Some (typ, v)"
  shows "\<exists>fs optional d. (typ, fs, optional) \<in> set command_catalogue \<and> v = PyDict d
           \<and> has_fields fs d \<and> validators_hold typ d"
proof -
  obtain fs optional v0 where c: "map_of command_catalogue typ = Some (fs, optional)"
    and vc: "validate_command vld str_of typ fs v0 = Some v"
    using p by (auto simp: parse_command_def split: option.splits pyval.splits)
  have m: "(typ, fs, optional) \<in> set command_catalogue" by (rule map_of_SomeD [OF c])
  obtain d d1 where d: "v0 = PyDict d" "apply_before str_of (before_validators typ) d = Some d1"
    "vld (TModel fs) (PyDict d1) = Some v" "after_validator typ v"
    using vc by (auto simp: validate_command_def split: option.splits pyval.splits if_splits)
  obtain x where x: "validate_fields vld fs d1 = Some x" "v = PyDict (x @ extra_fields fs d1)"
    using d(3) pydantic_lawsD(11) [OF laws] by (auto simp: validate_model_def)
  have "has_type (TModel fs) v"
    using validated_type [OF laws types _ d(3)] catalogue_memberD(1) [OF m] by simp
  moreover have "\<exists>y. map_of x k = Some y \<and> before_holds b y" if "(k, b) \<in> set (before_validators typ)" for k b
    using validators_hold_accepted [OF laws catalogue_memberD(3) [OF m] d(2) x(1) that] .
  then have "validators_hold typ (x @ extra_fields fs d1)"
    using d(4) x(2) by (fastforce simp: validators_hold_def list_all_iff split: option.splits)
  ultimately show ?thesis using m x(2) by auto
qed

text \<open>The client's line of a gate's answer, typed as people type.\<close>

definition demo_answer :: event where
  "demo_answer =
     [(''type'', PyStr ''command.hitl.respond''),
      (''data'', PyDict [(''request_id'', PyStr '' hr_1 ''), (''decision'', PyStr '' Aprove '')])]"

definition str_value :: "pyval \<Rightarrow> string" where
  "str_value v = (case v of PyStr s \<Rightarrow> s | PyInt i \<Rightarrow> py_str_int i | _ \<Rightarrow> ''None'')"

lemma demo_answer_parsed:
  "parse_command exact_validate str_value demo_answer =
     Some (''command.hitl.respond'',
           PyDict [(''request_id'', PyStr ''hr_1''), (''decision'', PyStr ''accept''), (''text'', PyNone),
                   (''actor'', PyStr ''user'')])"
  by code_simp

theorem accepted_command_typed_witness:
  "\<exists>fs optional d. (''command.hitl.respond'', fs, optional) \<in> set command_catalogue
      \<and> PyDict [(''request_id'', PyStr ''hr_1''), (''decision'', PyStr ''accept''), (''text'', PyNone),
                (''actor'', PyStr ''user'')] = PyDict d
      \<and> has_fields fs d \<and> validators_hold ''command.hitl.respond'' d"
  by (rule accepted_command_typed [OF exact_validate_laws exact_validator_types demo_answer_parsed])

section \<open>A written command is read back\<close>

lemma apply_before_fixed:
  "list_all (\<lambda>(k, v). case map_of bs k of None \<Rightarrow> True | Some b \<Rightarrow> run_before str_of b v = Some v) d
     \<Longrightarrow> apply_before str_of bs d = Some d"
  by (induction d) (auto split: option.splits)

lemma before_fixed:
  assumes "\<And>s. str_of (PyStr s) = s" and "before_holds b v"
  shows "run_before str_of b v = Some v"
proof (cases b)
  case Strip_required
  then show ?thesis using assms by (auto split: pyval.splits)
next
  case Hitl_decision
  then obtain s where s: "v = PyStr s" "s \<in> set hitl_command_decisions" using assms(2) by (auto split: pyval.splits)
  then have "py_lower (py_strip s) = s"
    by (auto simp: hitl_command_decisions_def py_lower_def py_strip_def py_lower_char_def py_isspace_def)
  then show ?thesis using s assms(1) Hitl_decision by (simp add: normalize_command_decision_def)
qed

lemma dump_fields_mem:
  "canonical_fields fs d \<Longrightarrow> (k, v) \<in> set (dump_fields fs d)
     \<Longrightarrow> \<exists>t dflt x. (k, t, dflt) \<in> set fs \<and> (k, x) \<in> set d \<and> v = dump_value t x"
proof (induction fs arbitrary: d)
  case (Cons f fs)
  obtain fk t dflt where "f = (fk, t, dflt)" by (cases f)
  then show ?case using Cons by (cases d) (fastforce split: if_splits)+
qed simp

lemma readable_distinct: "readable_fields fs \<Longrightarrow> distinct (map fst fs)"
proof (induction fs)
  case (Cons f fs)
  then show ?case by (cases f) (auto simp: list_ex_iff image_iff)
qed simp

lemma validators_holdD:
  "validators_hold typ d \<Longrightarrow> (k, b) \<in> set (before_validators typ)
     \<Longrightarrow> case map_of d k of None \<Rightarrow> False | Some v \<Rightarrow> before_holds b v"
  unfolding validators_hold_def list_all_iff by blast

text \<open>
  C26. A command written from values of its class (without its \<open>None\<close> fields) is read back as
  these values, whatever coercions validation does elsewhere.
\<close>

theorem command_read_back:
  assumes laws: "pydantic_laws vld" and str: "\<And>s. str_of (PyStr s) = s"
    and m: "(typ, fs, optional) \<in> set command_catalogue"
    and d: "canonical_fields fs d" and vh: "validators_hold typ d"
  shows "parse_command vld str_of (write_command typ fs d) = Some (typ, PyDict d)"
proof -
  note rd = catalogue_memberD(2) [OF m] and ap = catalogue_memberD(3) [OF m]
  have dfs: "distinct (map fst fs)" by (rule readable_distinct [OF rd])
  have dd: "distinct (map fst d)" using dfs canonical_fields_keys [OF d] by simp
  have "run_before str_of b v = Some v"
    if kv: "(k, v) \<in> set (dump_fields fs d)" and b: "map_of (before_validators typ) k = Some b" for k v b
  proof -
    obtain t dflt x where t: "(k, t, dflt) \<in> set fs" "(k, x) \<in> set d" "v = dump_value t x"
      using dump_fields_mem [OF d kv] by blast
    have "map_of fs k = Some (t, dflt)" using t(1) dfs by simp
    then have "t = TStr" using validators_applyD(1) [OF ap map_of_SomeD [OF b]] by auto
    moreover have "map_of d k = Some x" using t(2) dd by simp
    then have "before_holds b x" using validators_holdD [OF vh map_of_SomeD [OF b]] by simp
    ultimately show ?thesis using t(3) before_fixed [OF str] by simp
  qed
  then have ab: "apply_before str_of (before_validators typ) (dump_fields fs d) = Some (dump_fields fs d)"
    by (intro apply_before_fixed) (auto simp: list_all_iff split: option.splits)
  have "vld (TModel fs) (dump_value (TModel fs) (PyDict d)) = Some (PyDict d)"
    by (rule validate_dump [OF laws]) (use d rd in simp_all)
  moreover have "map_of command_catalogue typ = Some (fs, optional)" using m commands_distinct by simp
  ultimately show ?thesis
    using ab vh by (simp add: parse_command_def write_command_def validate_command_def validators_hold_def)
qed

theorem command_read_back_witness:
  "parse_command exact_validate str_value
     (write_command ''command.ping'' command_ping_data [(''ping_id'', PyStr ''p1'')])
   = Some (''command.ping'', PyDict [(''ping_id'', PyStr ''p1'')])"
  by (rule command_read_back [OF exact_validate_laws, of _ _ _ True])
    (simp_all add: str_value_def command_catalogue_def command_ping_data_def opt_field_of_def validators_hold_def
      before_validators_def after_validator_def)

end
