(* ===== verification/Attachment_Stage.thy ===== *)
theory Attachment_Stage
  imports Agloom_Prelude "HOL-Library.AList"
begin

text \<open>
  Files a client sends (\<open>src/agloom/runtime/path_safety.py\<close>, \<open>attachment_stage.py\<close>,
  \<open>upload.py\<close>): how their names are made safe, what is refused, where they are written and
  what is counted against the quotas.

  Paths are lists of segments, bytes are characters. The file system is an association list of
  what was written; \<open>Path.resolve\<close> (symbolic links) and the table of \<open>mimetypes\<close> are
  parameters. Creating directories and writing succeed. The lemmas show that nothing is written
  outside the working directory, and which bounds a staged command keeps.
\<close>

section \<open>Safe names\<close>

definition name_char :: "char \<Rightarrow> bool" where
  "name_char c \<longleftrightarrow>
     (let n = (of_char c :: nat)
      in (97 \<le> n \<and> n \<le> 122) \<or> (65 \<le> n \<and> n \<le> 90) \<or> (48 \<le> n \<and> n \<le> 57) \<or> c = CHR ''.'' \<or> c = CHR ''_'' \<or> c = CHR ''-'')"

text \<open>\<open>re.sub\<close>: every run of other characters becomes one underscore.\<close>

fun squash :: "bool \<Rightarrow> string \<Rightarrow> string" where
  "squash r [] = []"
| "squash r (c # s) =
     (if name_char c then c # squash False s else if r then squash True s else CHR ''_'' # squash True s)"

definition safe_single_segment_filename :: "string \<Rightarrow> nat \<Rightarrow> string \<Rightarrow> string" where
  "safe_single_segment_filename fallback max_len name =
     (let stripped = py_strip name;
          s0 = squash False (if stripped = [] then fallback else stripped);
          s1 = (if take max_len s0 = [] then fallback else take max_len s0);
          s = dropWhile (\<lambda>c. c = CHR ''.'') s1
      in if s = [] \<or> s = ''.'' \<or> s = ''..'' then fallback
         else if CHR ''/'' \<in> set s \<or> CHR 0x5C \<in> set s \<or> CHR 0x00 \<in> set s then fallback
         else s)"

definition safe_name :: "string \<Rightarrow> string" where
  "safe_name name = safe_single_segment_filename ''file'' 120 (if name = [] then ''file'' else name)"

section \<open>Paths\<close>

type_synonym path = "string list"

fun common_path :: "path \<Rightarrow> path \<Rightarrow> path" where
  "common_path (a # p) (b # q) = (if a = b then a # common_path p q else [])"
| "common_path _ _ = []"

definition escape_error :: "string \<Rightarrow> pyerror" where
  "escape_error what = ValueError (what @ '' escapes working directory'')"

definition assert_resolved_path_under_root :: "(path \<Rightarrow> path) \<Rightarrow> string \<Rightarrow> path \<Rightarrow> path \<Rightarrow> pyerror + path" where
  "assert_resolved_path_under_root resolve what p base =
     (let root_resolved = resolve base; resolved = resolve p
      in if common_path root_resolved resolved \<noteq> root_resolved then Inl (escape_error what) else Inr resolved)"

definition path_str :: "path \<Rightarrow> string" where
  "path_str p = join_with ''/'' p"

section \<open>Base64\<close>

definition ascii :: "char \<Rightarrow> bool" where
  "ascii c \<longleftrightarrow> (of_char c :: nat) < 128"

text \<open>The alphabet: upper case, lower case, digits, \<open>+\<close> and \<open>/\<close>.\<close>

definition b64_digit :: "nat \<Rightarrow> char" where
  "b64_digit n =
     (if n < 26 then char_of (n + 65) else if n < 52 then char_of (n + 71) else if n < 62 then char_of (n - 4)
      else if n = 62 then CHR ''+'' else CHR ''/'')"

definition b64_value :: "char \<Rightarrow> nat option" where
  "b64_value c =
     (let n = (of_char c :: nat)
      in if 65 \<le> n \<and> n \<le> 90 then Some (n - 65) else if 97 \<le> n \<and> n \<le> 122 then Some (n - 71)
         else if 48 \<le> n \<and> n \<le> 57 then Some (n + 4) else if n = 43 then Some 62 else if n = 47 then Some 63 else None)"

definition byte_of :: "nat \<Rightarrow> char" where
  "byte_of n = char_of n"

fun b64encode :: "string \<Rightarrow> string" where
  "b64encode (a # b # c # s) =
     (let n = of_char a * 65536 + of_char b * 256 + of_char c
      in [b64_digit (n div 262144), b64_digit (n div 4096 mod 64), b64_digit (n div 64 mod 64), b64_digit (n mod 64)]
         @ b64encode s)"
| "b64encode [a, b] =
     (let n = of_char a * 1024 + of_char b * 4
      in [b64_digit (n div 4096), b64_digit (n div 64 mod 64), b64_digit (n mod 64), CHR ''='' ])"
| "b64encode [a] =
     (let n = of_char a * 16 in [b64_digit (n div 64), b64_digit (n mod 64), CHR ''='', CHR ''='' ])"
| "b64encode [] = []"

text \<open>\<open>b64decode\<close> with \<open>validate=True\<close>: groups of four digits, the last one padded; nothing on an error.\<close>

fun b64decode :: "string \<Rightarrow> string option" where
  "b64decode [] = Some []"
| "b64decode (a # b # c # d # s) =
     (case (b64_value a, b64_value b) of
        (Some x, Some y) \<Rightarrow>
          (if c = CHR ''='' then
             (if d = CHR ''='' \<and> s = [] then Some [byte_of ((x * 64 + y) div 16)] else None)
           else case b64_value c of
                  None \<Rightarrow> None
                | Some z \<Rightarrow>
                    if d = CHR ''='' then
                      (if s = [] then
                         (let n = (x * 4096 + y * 64 + z) div 4 in Some [byte_of (n div 256), byte_of (n mod 256)])
                       else None)
                    else case b64_value d of
                           None \<Rightarrow> None
                         | Some u \<Rightarrow>
                             (let n = x * 262144 + y * 4096 + z * 64 + u
                              in map_option (\<lambda>t. [byte_of (n div 65536), byte_of (n div 256 mod 256), byte_of (n mod 256)] @ t)
                                   (b64decode s)))
      | _ \<Rightarrow> None)"
| "b64decode _ = None"

section \<open>Attachments of \<open>command.invoke\<close>\<close>

definition max_attachments :: nat where "max_attachments = 8"

definition max_bytes_per_file :: nat where "max_bytes_per_file = 5 * 1024 * 1024"

definition max_total_attachments_bytes :: nat where "max_total_attachments_bytes = 40 * 1024 * 1024"

definition max_bytes_per_thread :: nat where "max_bytes_per_thread = 20 * 1024 * 1024"

definition blocked_executable_suffixes :: "string list" where
  "blocked_executable_suffixes =
     [''.exe'', ''.dll'', ''.bat'', ''.cmd'', ''.com'', ''.msi'', ''.scr'', ''.ps1'', ''.vbs'', ''.js'', ''.jar'', ''.sh'',
      ''.bash'', ''.zsh'', ''.app'', ''.dmg'', ''.pkg'', ''.deb'', ''.rpm'']"

text \<open>\<open>Path(name).suffix\<close> of a name without separators: from the last dot, unless it starts or ends the name.\<close>

definition path_suffix :: "string \<Rightarrow> string" where
  "path_suffix name =
     (let ext = rev (takeWhile (\<lambda>c. c \<noteq> CHR ''.'') (rev name)); stem = length name - length ext
      in if ext = name \<or> stem \<le> 1 \<or> ext = [] then [] else CHR ''.'' # ext)"

definition executable_name :: "string \<Rightarrow> bool" where
  "executable_name name \<longleftrightarrow> py_lower (path_suffix name) \<in> set blocked_executable_suffixes"

definition attachment_error :: "string \<Rightarrow> string \<Rightarrow> pyerror" where
  "attachment_error name why = ValueError (''attachment '' @ py_quote name @ '': '' @ why)"

definition reject_executable :: "string \<Rightarrow> pyerror + unit" where
  "reject_executable name =
     (if executable_name name then Inl (attachment_error name ''executable file type is not allowed'') else Inr ())"

definition magic_mime :: "(string \<times> string) list" where
  "magic_mime =
     [([CHR 0x89] @ ''PNG'' @ [CHR 0x0D, CHR 0x0A, CHR 0x1A, CHR 0x0A], ''image/png''),
      ([CHR 0xFF, CHR 0xD8, CHR 0xFF], ''image/jpeg''), (''GIF87a'', ''image/gif''), (''GIF89a'', ''image/gif''),
      (''%PDF'', ''application/pdf''), (''PK'' @ [CHR 0x03, CHR 0x04], ''application/zip'')]"

definition after_last_slash :: "string \<Rightarrow> string" where
  "after_last_slash s = rev (takeWhile (\<lambda>c. c \<noteq> CHR ''/'') (rev s))"

definition sniff_mime :: "(string \<Rightarrow> string option) \<Rightarrow> string \<Rightarrow> string \<Rightarrow> string" where
  "sniff_mime guess raw declared =
     (case find (\<lambda>pm. startswith raw (fst pm)) magic_mime of
        Some pm \<Rightarrow> snd pm
      | None \<Rightarrow>
          (case guess (''file.'' @ after_last_slash declared) of
             None \<Rightarrow> declared
           | Some m \<Rightarrow> if m = [] then declared else m))"

text \<open>\<open>model_id_supports_vision\<close> for a name in ASCII.\<close>

definition name_word :: "char \<Rightarrow> bool" where
  "name_word c \<longleftrightarrow> name_char c"

fun gpt4_vision :: "string \<Rightarrow> bool" where
  "gpt4_vision [] = False"
| "gpt4_vision (c # s) =
     ((startswith (c # s) ''gpt-4'' \<and> contains_sub (takeWhile name_word (drop 5 (c # s))) ''vision'') \<or> gpt4_vision s)"

definition model_id_supports_vision :: "string option \<Rightarrow> bool" where
  "model_id_supports_vision model_id =
     (case model_id of
        None \<Rightarrow> False
      | Some i \<Rightarrow>
          let m = py_lower i; has = list_ex (contains_sub m)
          in if i = [] then False
             else if has [''gpt-3.5'', ''gpt-35'', ''text-davinci''] then False
             else has [''gpt-4o'', ''gpt-4-turbo'', ''gpt-4-vision'', ''claude-3'', ''claude-sonnet-4'', ''gemini'',
                       ''llama-3.2-90b'', ''llama-3.2-11b'', ''llama3.2-90b'', ''llama3.2-11b'', ''qwen-vl'', ''pixtral'']
                  \<or> gpt4_vision m
                  \<or> has [''vision-preview'', ''image_input'', ''image-input'', ''multimodal''])"

record attachment_in =
  ai_name :: string
  ai_filename :: pyval
  ai_mime_type :: string
  ai_data :: string

record summary =
  su_name :: string
  su_mime :: string
  su_bytes :: nat
  su_path :: string

text \<open>The prompt as text, or a text block and image parts (their URLs).\<close>

datatype content = Plain string | Blocks string "string list"

record stage_world =
  sw_resolve :: "path \<Rightarrow> path"
  sw_guess :: "string \<Rightarrow> string option"

text \<open>\<open>_THREAD_TOTALS\<close>, \<open>_upload_totals_by_root\<close> and the files written.\<close>

record stage =
  st_totals :: "(string \<times> nat) list"
  st_uploads :: "(string \<times> nat) list"
  st_files :: "(path \<times> string) list"

definition total_at :: "string \<Rightarrow> (string \<times> nat) list \<Rightarrow> nat" where
  "total_at k d = (case map_of d k of None \<Rightarrow> 0 | Some n \<Rightarrow> n)"

record batch =
  ba_total :: nat
  ba_summaries :: "summary list"
  ba_images :: "string list"
  ba_paths :: "string list"

definition attachment_name :: "nat \<Rightarrow> attachment_in \<Rightarrow> pyerror + string" where
  "attachment_name i a =
     (if ai_name a \<noteq> [] then Inr (safe_name (ai_name a))
      else if truthy (ai_filename a)
      then (case ai_filename a of PyStr s \<Rightarrow> Inr (safe_name s) | _ \<Rightarrow> Inl (AttributeError ''strip''))
      else Inr (safe_name (''file'' @ digits i)))"

definition declared_mime :: "attachment_in \<Rightarrow> string" where
  "declared_mime a =
     (let m = py_strip (if ai_mime_type a = [] then ''application/octet-stream'' else ai_mime_type a)
      in if m = [] then ''application/octet-stream'' else m)"

definition thread_quota_key :: "path \<Rightarrow> string \<Rightarrow> string" where
  "thread_quota_key wd thread = path_str wd @ ''::'' @ safe_name thread"

text \<open>What is checked before anything is written: the name and the bytes of one attachment.\<close>

definition admit_attachment :: "nat \<Rightarrow> string \<Rightarrow> nat \<Rightarrow> nat \<Rightarrow> attachment_in \<Rightarrow> pyerror + string \<times> string" where
  "admit_attachment i thread thread_total so_far a =
     (case attachment_name i a of
        Inl e \<Rightarrow> Inl e
      | Inr name \<Rightarrow>
          (case reject_executable name of
             Inl e \<Rightarrow> Inl e
           | Inr _ \<Rightarrow>
               if blank (ai_data a) then Inl (attachment_error name ''missing data_base64'')
               else if \<not> list_all ascii (py_strip (ai_data a))
               then Inl (ValueError ''string argument should contain only ASCII characters'')
               else (case b64decode (py_strip (ai_data a)) of
                       None \<Rightarrow> Inl (attachment_error name ''invalid base64'')
                     | Some raw \<Rightarrow>
                         if max_bytes_per_file < length raw
                         then Inl (attachment_error name (''exceeds '' @ digits max_bytes_per_file @ '' bytes''))
                         else if max_total_attachments_bytes < so_far + length raw
                         then Inl (ValueError (''attachments exceed combined limit (''
                                @ digits max_total_attachments_bytes @ '' bytes per command.invoke)''))
                         else if max_bytes_per_thread < thread_total + (so_far + length raw)
                         then Inl (ValueError (''attachments exceed per-thread limit (''
                                @ digits max_bytes_per_thread @ '' bytes for thread '' @ py_quote thread @ '')''))
                         else Inr (name, raw))))"

text \<open>\<open>resolved.relative_to(wd)\<close>.\<close>

definition relative_to :: "path \<Rightarrow> path \<Rightarrow> string" where
  "relative_to wd p = path_str (drop (length wd) p)"

definition data_uri :: "string \<Rightarrow> string \<Rightarrow> string" where
  "data_uri mime raw = ''data:'' @ mime @ '';base64,'' @ b64encode raw"

definition add_staged :: "bool \<Rightarrow> string \<Rightarrow> string \<Rightarrow> string \<Rightarrow> string \<Rightarrow> batch \<Rightarrow> batch" where
  "add_staged vision name raw mime rel b =
     b\<lparr>ba_total := ba_total b + length raw, ba_paths := ba_paths b @ [rel],
       ba_summaries := ba_summaries b @ [\<lparr>su_name = name, su_mime = mime, su_bytes = length raw, su_path = rel\<rparr>],
       ba_images := ba_images b @ (if startswith mime ''image/'' \<and> vision then [data_uri mime raw] else [])\<rparr>"

fun stage_each ::
    "stage_world \<Rightarrow> path \<Rightarrow> path \<Rightarrow> string \<Rightarrow> nat \<Rightarrow> bool \<Rightarrow> nat \<Rightarrow> attachment_in list \<Rightarrow> batch \<Rightarrow> stage
       \<Rightarrow> (pyerror + batch) \<times> stage" where
  "stage_each W wd base thread thread_total vision i [] b s = (Inr b, s)"
| "stage_each W wd base thread thread_total vision i (a # as) b s =
     (case admit_attachment i thread thread_total (ba_total b) a of
        Inl e \<Rightarrow> (Inl e, s)
      | Inr (name, raw) \<Rightarrow>
          (let mime = sniff_mime (sw_guess W) raw (declared_mime a)
           in case assert_resolved_path_under_root (sw_resolve W) ''attachment file'' (base @ [name]) wd of
                Inl e \<Rightarrow> (Inl e, s)
              | Inr dest \<Rightarrow>
                  stage_each W wd base thread thread_total vision (i + 1) as
                    (add_staged vision name raw mime (relative_to wd dest) b)
                    (s\<lparr>st_files := AList.update dest raw (st_files s)\<rparr>)))"

definition line_feed :: string where
  "line_feed = [CHR 0x0A]"

definition attached_note :: "string list \<Rightarrow> string" where
  "attached_note paths =
     line_feed @ line_feed @ ''[Attached files are available in the workspace at:]'' @ line_feed
     @ join_with line_feed (map (\<lambda>p. ''- '' @ p) paths)"

definition empty_batch :: batch where
  "empty_batch = \<lparr>ba_total = 0, ba_summaries = [], ba_images = [], ba_paths = []\<rparr>"

text \<open>
  \<open>wd\<close> is the resolved working directory. Only a batch that is staged as a whole is counted
  against the quota of its thread.
\<close>

definition prepare_invoke_attachments ::
    "stage_world \<Rightarrow> string \<Rightarrow> attachment_in list \<Rightarrow> string \<Rightarrow> path \<Rightarrow> string option \<Rightarrow> stage
       \<Rightarrow> (pyerror + content \<times> summary list) \<times> stage" where
  "prepare_invoke_attachments W prompt atts thread wdir model s =
     (if atts = [] then (Inr (Plain prompt, []), s)
      else let wd = sw_resolve W wdir; base = sw_resolve W (wdir @ [''.agloom'', ''attachments'', safe_name thread]);
               vision = model_id_supports_vision model; key = thread_quota_key wd thread;
               thread_total = total_at key (st_totals s)
           in case assert_resolved_path_under_root (sw_resolve W) ''attachments root'' base wd of
                Inl e \<Rightarrow> (Inl e, s)
              | Inr _ \<Rightarrow>
                  (case stage_each W wd base thread thread_total vision 0 (take max_attachments atts) empty_batch s of
                     (Inl e, s') \<Rightarrow> (Inl e, s')
                   | (Inr b, s') \<Rightarrow>
                       (let body = prompt @ attached_note (ba_paths b)
                        in (Inr (if ba_images b \<noteq> [] \<and> vision then Blocks body (ba_images b) else Plain body, ba_summaries b),
                            s'\<lparr>st_totals := AList.update key (thread_total + ba_total b) (st_totals s')\<rparr>))))"

section \<open>Uploads of \<open>command.attach.file\<close>\<close>

definition default_max_bytes :: nat where "default_max_bytes = 8 * 1024 * 1024"

definition max_total_upload_bytes_per_root :: nat where "max_total_upload_bytes_per_root = 256 * 1024 * 1024"

fun split_on :: "char \<Rightarrow> string \<Rightarrow> string list" where
  "split_on d [] = [[]]"
| "split_on d (c # s) =
     (if c = d then [] # split_on d s else case split_on d s of [] \<Rightarrow> [[c]] | p # ps \<Rightarrow> (c # p) # ps)"

text \<open>The last component of a path, as \<open>Path(filename).name\<close> (on POSIX).\<close>

definition path_name :: "string \<Rightarrow> string" where
  "path_name f =
     (let parts = filter (\<lambda>p. p \<noteq> [] \<and> p \<noteq> ''.'') (split_on (CHR ''/'') f)
      in if parts = [] then [] else last parts)"

definition safe_basename :: "string \<Rightarrow> string" where
  "safe_basename f =
     (let n = py_strip (path_name f)
      in safe_single_segment_filename ''upload.bin'' 120 (if n = [] then ''upload.bin'' else n))"

definition release_upload_quota :: "path \<Rightarrow> int \<Rightarrow> stage \<Rightarrow> stage" where
  "release_upload_quota root_dir n s =
     (if n \<le> 0 then s
      else s\<lparr>st_uploads := AList.update (path_str root_dir) (nat (max 0 (int (total_at (path_str root_dir) (st_uploads s)) - n)))
                            (st_uploads s)\<rparr>)"

definition stage_attached_bytes ::
    "stage_world \<Rightarrow> path \<Rightarrow> string \<Rightarrow> string \<Rightarrow> string \<Rightarrow> stage \<Rightarrow> (pyerror + string \<times> nat) \<times> stage" where
  "stage_attached_bytes W root_dir uid filename raw s =
     (let key = path_str root_dir; prev = total_at key (st_uploads s);
          upload_dir = root_dir @ [''.agloom_uploads'']; check = assert_resolved_path_under_root (sw_resolve W)
      in if default_max_bytes < length raw
         then (Inl (ValueError (''attachment exceeds limit ('' @ digits default_max_bytes @ '' bytes)'')), s)
         else if max_total_upload_bytes_per_root < prev + length raw
         then (Inl (ValueError (''upload quota exceeded for this working directory (''
                 @ digits max_total_upload_bytes_per_root @ '' bytes cumulative)'')), s)
         else case check ''upload directory'' upload_dir root_dir of
                Inl e \<Rightarrow> (Inl e, s)
              | Inr _ \<Rightarrow>
                  (case check ''attachment path'' (upload_dir @ [take 12 uid @ ''_'' @ safe_basename filename]) root_dir of
                     Inl e \<Rightarrow> (Inl e, s)
                   | Inr dest \<Rightarrow>
                       (Inr (relative_to (sw_resolve W root_dir) dest, length raw),
                        s\<lparr>st_files := AList.update dest raw (st_files s),
                          st_uploads := AList.update key (prev + length raw) (st_uploads s)\<rparr>)))"

section \<open>Names and paths\<close>

definition safe_segment :: "string \<Rightarrow> bool" where
  "safe_segment s \<longleftrightarrow> s \<noteq> [] \<and> list_all name_char s \<and> length s \<le> 120 \<and> hd s \<noteq> CHR ''.''"

lemma squash_chars: "list_all name_char (squash r s)"
  by (induction s arbitrary: r) (auto simp: name_char_def)

lemma separators_not_name_chars: "\<not> name_char CHR ''/''" "\<not> name_char CHR 0x5C" "\<not> name_char CHR 0x00"
  by (simp_all add: name_char_def)

lemma list_all_take: "list_all P s \<Longrightarrow> list_all P (take n s)"
  by (metis append_take_drop_id list_all_append)

lemma list_all_dropWhile: "list_all P s \<Longrightarrow> list_all P (dropWhile Q s)"
  by (metis takeWhile_dropWhile_id list_all_append)

lemma safe_single_segment:
  assumes "safe_segment fallback"
  shows "safe_segment (safe_single_segment_filename fallback 120 name)"
proof -
  define s0 where "s0 = squash False (if py_strip name = [] then fallback else py_strip name)"
  define s1 where "s1 = (if take 120 s0 = [] then fallback else take 120 s0)"
  define s where "s = dropWhile (\<lambda>c. c = CHR ''.'') s1"
  have "list_all name_char s1" "length s1 \<le> 120"
    using assms list_all_take [OF squash_chars] by (auto simp: s1_def s0_def safe_segment_def)
  then have s: "list_all name_char s" "length s \<le> 120"
    using list_all_dropWhile length_dropWhile_le order_trans unfolding s_def by blast+
  have h: "hd s \<noteq> CHR ''.''" if "s \<noteq> []"
    using hd_dropWhile [of "\<lambda>c. c = CHR ''.''" s1] that by (simp add: s_def)
  have eq: "safe_single_segment_filename fallback 120 name =
    (if s = [] \<or> s = ''.'' \<or> s = ''..'' then fallback
         else if CHR ''/'' \<in> set s \<or> CHR 0x5C \<in> set s \<or> CHR 0x00 \<in> set s then fallback else s)"
    unfolding safe_single_segment_filename_def Let_def s_def s1_def s0_def by (rule refl)
  have "s \<noteq> [] \<Longrightarrow> safe_segment s" using s h by (simp add: safe_segment_def)
  then show ?thesis unfolding eq using assms by (simp del: list.simps char.simps)
qed

lemma safe_name_segment: "safe_segment (safe_name name)"
  unfolding safe_name_def by (rule safe_single_segment) (simp add: safe_segment_def name_char_def)

lemma safe_basename_segment: "safe_segment (safe_basename f)"
  unfolding safe_basename_def Let_def
  by (rule safe_single_segment) (simp add: safe_segment_def name_char_def)

lemma common_path_prefix: "common_path p q = p \<longleftrightarrow> prefix p q"
  by (induction p q rule: common_path.induct) auto

lemma resolved_under_root:
  "assert_resolved_path_under_root resolve what p base = Inr r \<longleftrightarrow> r = resolve p \<and> prefix (resolve base) (resolve p)"
  by (auto simp: assert_resolved_path_under_root_def common_path_prefix Let_def)

section \<open>What a staged command keeps\<close>

definition admitted :: "string \<Rightarrow> string \<Rightarrow> bool" where
  "admitted name raw \<longleftrightarrow> safe_segment name \<and> \<not> executable_name name \<and> length raw \<le> max_bytes_per_file"

lemma admit_attachment_admitted:
  assumes "admit_attachment i thread n k a = Inr (name, raw)"
  shows "admitted name raw" and "n + (k + length raw) \<le> max_bytes_per_thread"
proof -
  have nm: "attachment_name i a = Inr name" and ok: "\<not> executable_name name"
    and bd: "length raw \<le> max_bytes_per_file" "n + (k + length raw) \<le> max_bytes_per_thread"
    using assms by (auto simp: admit_attachment_def reject_executable_def split: sum.splits option.splits if_splits)
  have "safe_segment name"
    using nm safe_name_segment by (auto simp: attachment_name_def split: if_splits pyval.splits)
  then show "admitted name raw" using ok bd by (simp add: admitted_def)
  show "n + (k + length raw) \<le> max_bytes_per_thread" by (rule bd(2))
qed

definition summary_ok :: "summary \<Rightarrow> bool" where
  "summary_ok u \<longleftrightarrow> safe_segment (su_name u) \<and> \<not> executable_name (su_name u) \<and> su_bytes u \<le> max_bytes_per_file"

definition batch_ok :: "nat \<Rightarrow> batch \<Rightarrow> bool" where
  "batch_ok n b \<longleftrightarrow> list_all summary_ok (ba_summaries b) \<and> ba_total b = sum_list (map su_bytes (ba_summaries b))
     \<and> (ba_summaries b \<noteq> [] \<longrightarrow> n + ba_total b \<le> max_bytes_per_thread)"

lemma add_staged_ok:
  assumes "batch_ok n b" and "admitted name raw" and "n + (ba_total b + length raw) \<le> max_bytes_per_thread"
  shows "batch_ok n (add_staged v name raw mime rel b)"
  using assms by (simp add: batch_ok_def add_staged_def summary_ok_def admitted_def)

lemma stage_each_cases:
  assumes "stage_each W wd base thread n v i (a # as) b s = (r, s')"
  obtains (stop) e where "r = Inl e" "s' = s"
    | (go) name raw dest where "admit_attachment i thread n (ba_total b) a = Inr (name, raw)"
        "prefix (sw_resolve W wd) dest"
        "stage_each W wd base thread n v (i + 1) as
           (add_staged v name raw (sniff_mime (sw_guess W) raw (declared_mime a)) (relative_to wd dest) b)
           (s\<lparr>st_files := AList.update dest raw (st_files s)\<rparr>) = (r, s')"
  using assms by (auto simp: resolved_under_root split: sum.splits)

lemma stage_each_ok:
  assumes "stage_each W wd base thread n v i as b s = (Inr b', s')" and "batch_ok n b"
  shows "batch_ok n b' \<and> length (ba_summaries b') = length (ba_summaries b) + length as"
  using assms
proof (induction as arbitrary: i b s)
  case (Cons a as)
  from Cons.prems(1) show ?case
  proof (cases rule: stage_each_cases)
    case (go name raw dest)
    note ad = admit_attachment_admitted [OF go(1)]
    show ?thesis
      using Cons.IH [OF go(3) add_staged_ok [OF Cons.prems(2) ad]] by (simp add: add_staged_def)
  qed simp
qed simp

text \<open>Files that a run writes, and what it leaves alone.\<close>

definition writes_under :: "path \<Rightarrow> stage \<Rightarrow> stage \<Rightarrow> bool" where
  "writes_under d s s' \<longleftrightarrow> (\<forall>p. map_of (st_files s') p \<noteq> map_of (st_files s) p \<longrightarrow> prefix d p)"

lemma writes_under_refl: "writes_under d s s"
  by (simp add: writes_under_def)

lemma writes_under_trans: "writes_under d s s1 \<Longrightarrow> writes_under d s1 s2 \<Longrightarrow> writes_under d s s2"
  unfolding writes_under_def by metis

lemma writes_under_update:
  "prefix d p \<Longrightarrow> writes_under d s (s\<lparr>st_files := AList.update p raw (st_files s)\<rparr>)"
  by (auto simp: writes_under_def update_conv')

lemma stage_each_writes:
  assumes "stage_each W wd base thread n v i as b s = (r, s')"
  shows "writes_under (sw_resolve W wd) s s' \<and> st_totals s' = st_totals s \<and> st_uploads s' = st_uploads s"
  using assms
proof (induction as arbitrary: i b s)
  case (Cons a as)
  from Cons.prems show ?case
  proof (cases rule: stage_each_cases)
    case (go name raw dest)
    show ?thesis
      using Cons.IH [OF go(3)] writes_under_trans [OF writes_under_update [OF go(2), of s raw]] by simp
  qed (simp add: writes_under_refl)
qed (simp add: writes_under_refl)

lemma total_at_update: "total_at k (AList.update k' n d) = (if k = k' then n else total_at k d)"
  by (simp add: total_at_def update_conv')

lemma prepare_success:
  assumes "prepare_invoke_attachments W prompt atts thread wdir model s = (Inr (content, rows), s')" and "atts \<noteq> []"
  obtains b s1 where "rows = ba_summaries b" "batch_ok (total_at (thread_quota_key (sw_resolve W wdir) thread) (st_totals s)) b"
    "length rows = min max_attachments (length atts)" "st_totals s1 = st_totals s" "st_uploads s1 = st_uploads s"
    "writes_under (sw_resolve W (sw_resolve W wdir)) s s1"
    "s' = s1\<lparr>st_totals := AList.update (thread_quota_key (sw_resolve W wdir) thread)
              (total_at (thread_quota_key (sw_resolve W wdir) thread) (st_totals s) + ba_total b) (st_totals s)\<rparr>"
proof -
  let ?wd = "sw_resolve W wdir"
  let ?n = "total_at (thread_quota_key ?wd thread) (st_totals s)"
  obtain base v b s1 where e: "stage_each W ?wd base thread ?n v 0 (take max_attachments atts) empty_batch s = (Inr b, s1)"
    and r: "rows = ba_summaries b"
      "s' = s1\<lparr>st_totals := AList.update (thread_quota_key ?wd thread) (?n + ba_total b) (st_totals s1)\<rparr>"
    using assms by (auto simp: prepare_invoke_attachments_def Let_def split: sum.splits prod.splits)
  have "batch_ok ?n b \<and> length (ba_summaries b) = length (ba_summaries empty_batch) + length (take max_attachments atts)"
    by (rule stage_each_ok [OF e]) (simp add: batch_ok_def empty_batch_def)
  moreover note stage_each_writes [OF e]
  ultimately show thesis using that [of b s1] r by (simp add: empty_batch_def min.commute)
qed

lemma prepare_writes:
  assumes "prepare_invoke_attachments W prompt atts thread wdir model s = (r, s')"
  shows "writes_under (sw_resolve W (sw_resolve W wdir)) s s' \<and> st_uploads s' = st_uploads s
    \<and> (\<forall>e. r = Inl e \<longrightarrow> st_totals s' = st_totals s)"
proof -
  have "writes_under d s (s1\<lparr>st_totals := t\<rparr>) = writes_under d s s1" for d s1 t by (simp add: writes_under_def)
  then show ?thesis
    using assms stage_each_writes
    by (fastforce simp: prepare_invoke_attachments_def Let_def writes_under_refl split: sum.splits prod.splits if_splits)
qed

text \<open>
  When the files of an invocation are staged, there is one summary for each of the first
  eight: a file name that is one harmless segment and no executable, of at most 5 MiB. The
  thread is charged for exactly their bytes, and never for more than 20 MiB.
\<close>

theorem staged_command_bounds:
  assumes "prepare_invoke_attachments W prompt atts thread wdir model s = (Inr (content, rows), s')"
    and "atts \<noteq> []"
  shows "length rows = min 8 (length atts)
    \<and> list_all (\<lambda>u. safe_segment (su_name u) \<and> \<not> executable_name (su_name u) \<and> su_bytes u \<le> 5 * 1024 * 1024) rows
    \<and> total_at (thread_quota_key (sw_resolve W wdir) thread) (st_totals s')
       = total_at (thread_quota_key (sw_resolve W wdir) thread) (st_totals s) + sum_list (map su_bytes rows)
    \<and> total_at (thread_quota_key (sw_resolve W wdir) thread) (st_totals s') \<le> 20 * 1024 * 1024"
proof -
  let ?k = "thread_quota_key (sw_resolve W wdir) thread"
  from assms obtain b s1 where b: "rows = ba_summaries b" "batch_ok (total_at ?k (st_totals s)) b"
    "length rows = min max_attachments (length atts)"
    "s' = s1\<lparr>st_totals := AList.update ?k (total_at ?k (st_totals s) + ba_total b) (st_totals s)\<rparr>"
    by (rule prepare_success)
  have 1: "length rows = min 8 (length atts)" using b(3) by (simp add: max_attachments_def)
  have 2: "list_all (\<lambda>u. safe_segment (su_name u) \<and> \<not> executable_name (su_name u) \<and> su_bytes u \<le> 5 * 1024 * 1024) rows"
    using b(1,2) by (simp add: batch_ok_def summary_ok_def max_bytes_per_file_def list_all_iff)
  have t: "total_at ?k (st_totals s') = total_at ?k (st_totals s) + sum_list (map su_bytes rows)"
    using b by (simp add: total_at_update batch_ok_def)
  have "rows \<noteq> []" using b(3) assms(2) by (cases atts) (auto simp: max_attachments_def)
  then have "total_at ?k (st_totals s') \<le> 20 * 1024 * 1024"
    using b t by (simp add: batch_ok_def max_bytes_per_thread_def)
  then show ?thesis using 1 2 t by blast
qed

text \<open>A file system without links and a table that knows nothing.\<close>

definition demo_stage_world :: stage_world where
  "demo_stage_world = \<lparr>sw_resolve = (\<lambda>p. p), sw_guess = (\<lambda>_. None)\<rparr>"

definition empty_stage :: stage where
  "empty_stage = \<lparr>st_totals = [], st_uploads = [], st_files = []\<rparr>"

definition demo_attachment :: "string \<Rightarrow> attachment_in" where
  "demo_attachment name = \<lparr>ai_name = name, ai_filename = PyNone, ai_mime_type = ''text/plain'', ai_data = ''aGk=''\<rparr>"

definition demo_staged :: "(pyerror + content \<times> summary list) \<times> stage" where
  "demo_staged =
     prepare_invoke_attachments demo_stage_world ''p'' [demo_attachment ''../a b''] ''t'' [''w''] None empty_stage"

lemma demo_decoded: "b64decode ''aGk='' = Some ''hi''"
  by (simp add: b64_value_def byte_of_def char_of_def bit_0)

lemma demo_names:
  "safe_name ''../a b'' = ''_a_b''" "safe_name ''t'' = ''t''" "executable_name ''_a_b'' = False"
  "py_strip ''aGk='' = ''aGk=''" "list_all ascii ''aGk=''" "py_strip ''text/plain'' = ''text/plain''"
  "find (\<lambda>pm. startswith ''hi'' (fst pm)) magic_mime = None" "startswith ''text/plain'' ''image/'' = False"
  by code_simp+

lemma demo_staged_value:
  "demo_staged =
     (Inr (Plain (''p'' @ attached_note [''.agloom/attachments/t/_a_b'']),
           [\<lparr>su_name = ''_a_b'', su_mime = ''text/plain'', su_bytes = 2, su_path = ''.agloom/attachments/t/_a_b''\<rparr>]),
      \<lparr>st_totals = [(''w::t'', 2)], st_uploads = [],
       st_files = [([''w'', ''.agloom'', ''attachments'', ''t'', ''_a_b''], ''hi'')]\<rparr>)"
  by (simp add: demo_staged_def prepare_invoke_attachments_def demo_stage_world_def demo_attachment_def empty_stage_def
      max_attachments_def admit_attachment_def attachment_name_def reject_executable_def demo_names demo_decoded
      assert_resolved_path_under_root_def declared_mime_def sniff_mime_def after_last_slash_def relative_to_def path_str_def
      add_staged_def empty_batch_def model_id_supports_vision_def thread_quota_key_def total_at_def blank_def
      max_bytes_per_file_def max_total_attachments_bytes_def max_bytes_per_thread_def ascii_def Let_def
      del: b64decode.simps)

theorem staged_command_bounds_witness:
  "total_at ''w::t'' (st_totals (snd demo_staged)) = 2 \<and> total_at ''w::t'' (st_totals (snd demo_staged)) \<le> 20971520"
proof -
  have k: "thread_quota_key (sw_resolve demo_stage_world [''w'']) ''t'' = ''w::t''" by code_simp
  note st = staged_command_bounds [OF demo_staged_value [unfolded demo_staged_def], simplified k]
  show ?thesis unfolding demo_staged_value using st by (simp add: empty_stage_def total_at_def)
qed

section \<open>Staging over a session\<close>

datatype stage_op =
    Op_attach string "attachment_in list" string "string option"
  | Op_upload string string string
  | Op_release int

text \<open>Attachments and uploads of one working directory.\<close>

fun stage_step :: "stage_world \<Rightarrow> path \<Rightarrow> stage_op \<Rightarrow> stage \<Rightarrow> stage" where
  "stage_step W wdir (Op_attach prompt atts thread model) s =
     snd (prepare_invoke_attachments W prompt atts thread wdir model s)"
| "stage_step W wdir (Op_upload uid filename raw) s =
     snd (stage_attached_bytes W (sw_resolve W wdir) uid filename raw s)"
| "stage_step W wdir (Op_release n) s = release_upload_quota (sw_resolve W wdir) n s"

definition stage_inv :: "stage_world \<Rightarrow> path \<Rightarrow> stage \<Rightarrow> bool" where
  "stage_inv W wdir s \<longleftrightarrow>
     (\<forall>p. map_of (st_files s) p \<noteq> None \<longrightarrow> prefix (sw_resolve W wdir) p)
     \<and> (\<forall>k. total_at k (st_totals s) \<le> max_bytes_per_thread)
     \<and> (\<forall>k. total_at k (st_uploads s) \<le> max_total_upload_bytes_per_root)"

lemma files_of_writes:
  assumes "\<forall>p. map_of (st_files s) p \<noteq> None \<longrightarrow> prefix d p" and "writes_under d s s'"
  shows "\<forall>p. map_of (st_files s') p \<noteq> None \<longrightarrow> prefix d p"
  using assms unfolding writes_under_def by metis

lemma upload_step:
  assumes "stage_attached_bytes W d uid f raw s = (r, s')"
  shows "writes_under (sw_resolve W d) s s' \<and> st_totals s' = st_totals s
    \<and> (s' = s \<or> (\<exists>k. st_uploads s' = AList.update k (total_at k (st_uploads s) + length raw) (st_uploads s)
          \<and> total_at k (st_uploads s) + length raw \<le> max_total_upload_bytes_per_root))"
proof -
  have w: "writes_under e s (s\<lparr>st_files := AList.update p raw (st_files s), st_uploads := u\<rparr>)" if "prefix e p" for e p u
    using writes_under_update [OF that, of s raw] by (simp add: writes_under_def)
  show ?thesis
    using assms w unfolding stage_attached_bytes_def Let_def
    by (auto simp: writes_under_refl resolved_under_root split: if_splits sum.splits)
qed

lemma release_bound: "total_at k (st_uploads (release_upload_quota d n s)) \<le> total_at k (st_uploads s)"
  by (auto simp: release_upload_quota_def total_at_update)

lemma stage_step_inv:
  assumes idem: "\<And>p. sw_resolve W (sw_resolve W p) = sw_resolve W p" and inv: "stage_inv W wdir s"
  shows "stage_inv W wdir (stage_step W wdir op s)"
proof (cases op)
  case (Op_attach prompt atts thread model)
  obtain r s' where p: "prepare_invoke_attachments W prompt atts thread wdir model s = (r, s')" by fastforce
  note w = prepare_writes [OF p]
  have "total_at k (st_totals s') \<le> max_bytes_per_thread" for k
  proof (cases "(\<exists>e. r = Inl e) \<or> atts = []")
    case True
    then have "st_totals s' = st_totals s" using w p by (auto simp: prepare_invoke_attachments_def)
    then show ?thesis using inv by (simp add: stage_inv_def)
  next
    case False
    then obtain content rows where r: "r = Inr (content, rows)" and ne: "atts \<noteq> []" by (cases r) auto
    from p [unfolded r] ne obtain b s1 where "rows = ba_summaries b" "length rows = min max_attachments (length atts)"
      "batch_ok (total_at (thread_quota_key (sw_resolve W wdir) thread) (st_totals s)) b"
      "s' = s1\<lparr>st_totals := AList.update (thread_quota_key (sw_resolve W wdir) thread)
         (total_at (thread_quota_key (sw_resolve W wdir) thread) (st_totals s) + ba_total b) (st_totals s)\<rparr>"
      by (rule prepare_success)
    then show ?thesis using inv False
      by (cases atts) (auto simp: stage_inv_def total_at_update batch_ok_def max_attachments_def)
  qed
  then show ?thesis
    using w p inv files_of_writes [of s "sw_resolve W wdir" s'] idem Op_attach by (simp add: stage_inv_def)
next
  case (Op_upload uid f raw)
  obtain r s' where u: "stage_attached_bytes W (sw_resolve W wdir) uid f raw s = (r, s')" by fastforce
  have "total_at k (st_uploads s') \<le> max_total_upload_bytes_per_root" for k
    using upload_step [OF u] inv by (auto simp: stage_inv_def total_at_update)
  then show ?thesis
    using upload_step [OF u] u inv files_of_writes [of s "sw_resolve W wdir" s'] idem Op_upload
    by (simp add: stage_inv_def)
next
  case (Op_release n)
  have "st_files (release_upload_quota d n s) = st_files s" "st_totals (release_upload_quota d n s) = st_totals s" for d
    by (simp_all add: release_upload_quota_def)
  moreover have "total_at k (st_uploads (release_upload_quota d n s)) \<le> max_total_upload_bytes_per_root" for k d
    using release_bound order_trans inv unfolding stage_inv_def by blast
  ultimately show ?thesis using inv Op_release by (simp add: stage_inv_def)
qed



section \<open>What the limits miss\<close>

text \<open>Attachments after the eighth are dropped without an error.\<close>

lemma ninth_attachment_dropped:
  "prepare_invoke_attachments W prompt atts thread wdir model s
       = prepare_invoke_attachments W prompt (take 8 atts) thread wdir model s"
proof -
  have "take max_attachments (take 8 atts) = take max_attachments atts" "(take 8 atts = []) = (atts = [])"
    by (simp_all add: max_attachments_def)
  then show ?thesis by (simp only: prepare_invoke_attachments_def)
qed

text \<open>The combined limit of 40 MiB is never reached: the limit of the thread is half of it.\<close>

lemma combined_limit_unreachable:
  assumes "batch_ok n b" and "ba_summaries b \<noteq> [] \<or> ba_total b = 0" and "length raw \<le> max_bytes_per_file"
  shows "ba_total b + length raw \<le> max_total_attachments_bytes"
  using assms by (auto simp: batch_ok_def max_bytes_per_thread_def max_total_attachments_bytes_def max_bytes_per_file_def)

text \<open>A batch that fails after a file was written is not charged for it, and can be repeated.\<close>

lemma failed_batch_uncharged:
  assumes "prepare_invoke_attachments W prompt atts thread wdir model s = (Inl e, s')"
  shows "st_totals s' = st_totals s"
  using prepare_writes [OF assms] by simp

lemma failed_batch_writes:
  "snd (prepare_invoke_attachments demo_stage_world ''p'' [demo_attachment ''a'', demo_attachment ''b.sh''] ''t'' [''w''] None
          empty_stage)
     = \<lparr>st_totals = [], st_uploads = [], st_files = [([''w'', ''.agloom'', ''attachments'', ''t'', ''a''], ''hi'')]\<rparr>"
proof -
  have n: "safe_name ''a'' = ''a''" "executable_name ''a'' = False" "safe_name ''b.sh'' = ''b.sh''" "executable_name ''b.sh''"
    by code_simp+
  show ?thesis
    by (simp add: prepare_invoke_attachments_def demo_stage_world_def demo_attachment_def empty_stage_def
      max_attachments_def admit_attachment_def attachment_name_def reject_executable_def demo_names n demo_decoded
      assert_resolved_path_under_root_def declared_mime_def sniff_mime_def after_last_slash_def relative_to_def path_str_def
      add_staged_def empty_batch_def model_id_supports_vision_def thread_quota_key_def total_at_def blank_def
      max_bytes_per_file_def max_total_attachments_bytes_def max_bytes_per_thread_def ascii_def Let_def
      del: b64decode.simps)
qed

text \<open>A trailing dot hides the suffix; Windows strips it when the file is created.\<close>

lemma executable_with_dot: "safe_name ''run.exe.'' = ''run.exe.'' \<and> \<not> executable_name ''run.exe.''"
  by code_simp

end
