(* ===== verification/Translator.thy ===== *)
theory Translator
  imports Agp_Emit Budget_Tracker Hitl_Policy
begin

text \<open>
  From events of the agent to events of the protocol (\<open>src/agloom/runtime/translator.py\<close>, with
  \<open>src/agloom/protocol/harness_wire.py\<close> and the price table of \<open>src/agloom/llm/rough_cost.py\<close>).

  One agent event gives a list of emissions and then a result, the message of a failure that
  ends the invocation or nothing; an exception (a count that is infinite, a step count that is
  no number) comes after the emissions before it. \<open>str\<close> of a value that is no string and the
  text forms of \<open>int\<close> and \<open>float\<close> are parameters; the numbers of a price are rationals. Payloads
  are dictionaries, objects of the planner's own classes in them are left out.
\<close>

section \<open>Reading a payload\<close>

record trans_world =
  tw_str :: "pyval \<Rightarrow> string"
  tw_int :: "string \<Rightarrow> int option"
  tw_float :: "string \<Rightarrow> pyfloat option"

definition text_of :: "trans_world \<Rightarrow> pyval \<Rightarrow> string" where
  "text_of W v = (case v of PyStr s \<Rightarrow> s | _ \<Rightarrow> tw_str W v)"

definition opt_text :: "trans_world \<Rightarrow> pyval \<Rightarrow> string option" where
  "opt_text W v =
     (if v = PyNone then None else let s = py_strip (text_of W v) in if s = [] then None else Some s)"

definition opt_int_of :: "trans_world \<Rightarrow> pyval \<Rightarrow> pyerror + int option" where
  "opt_int_of W v =
     (if v = PyNone then Inr None
      else case Budget_Tracker.py_int (tw_int W) v of
             Inr i \<Rightarrow> Inr (Some i)
           | Inl (TypeError _) \<Rightarrow> Inr None
           | Inl (ValueError _) \<Rightarrow> Inr None
           | Inl e \<Rightarrow> Inl e)"

definition opt_float_of :: "trans_world \<Rightarrow> pyval \<Rightarrow> pyerror + pyfloat option" where
  "opt_float_of W v =
     (if v = PyNone then Inr None
      else case Budget_Tracker.py_float (tw_float W) v of
             Inr f \<Rightarrow> Inr (Some f)
           | Inl (TypeError _) \<Rightarrow> Inr None
           | Inl (ValueError _) \<Rightarrow> Inr None
           | Inl e \<Rightarrow> Inl e)"

text \<open>\<open>_str(data.get(k))\<close>, and \<open>a or b or c\<close> on such texts.\<close>

definition str_at :: "trans_world \<Rightarrow> pyval pydict \<Rightarrow> string \<Rightarrow> string option" where
  "str_at W d k = opt_text W (get_or_none d k)"

fun or_opt :: "string option list \<Rightarrow> string option" where
  "or_opt [] = None"
| "or_opt (Some s # xs) = Some s"
| "or_opt (None # xs) = or_opt xs"

definition or_text :: "string option list \<Rightarrow> string \<Rightarrow> string" where
  "or_text xs dflt = (case or_opt xs of None \<Rightarrow> dflt | Some s \<Rightarrow> s)"

definition int_or :: "int option \<Rightarrow> int" where
  "int_or i = (case i of None \<Rightarrow> 0 | Some n \<Rightarrow> n)"

definition str_get :: "trans_world \<Rightarrow> pyval pydict \<Rightarrow> string \<Rightarrow> string \<Rightarrow> string" where
  "str_get W d k dflt = (case map_of d k of None \<Rightarrow> dflt | Some v \<Rightarrow> text_of W v)"

text \<open>Iteration over \<open>v or []\<close>.\<close>

definition iter_values :: "pyval \<Rightarrow> pyerror + pyval list" where
  "iter_values v =
     (if \<not> truthy v then Inr []
      else case v of
             PyList vs \<Rightarrow> Inr vs
           | PyStr s \<Rightarrow> Inr (map (\<lambda>c. PyStr [c]) s)
           | PyDict d \<Rightarrow> Inr (map (PyStr \<circ> fst) d)
           | _ \<Rightarrow> Inl (TypeError ''object is not iterable''))"

text \<open>The sign between \<open>Routing\<close> and the pattern, as its UTF-8 bytes.\<close>

definition middle_dot :: string where
  "middle_dot = [CHR 0xC2, CHR 0xB7]"

section \<open>Emissions\<close>

datatype emission = Emit request | Budget_tokens int int | Budget_cost pyfloat

type_synonym 'a tr = "emission list \<times> (pyerror + 'a)"

definition stop :: "'a \<Rightarrow> 'a tr" where
  "stop x = ([], Inr x)"

definition tr_raise :: "pyerror \<Rightarrow> 'a tr" where
  "tr_raise e = ([], Inl e)"

definition put :: "emission \<Rightarrow> 'a tr \<Rightarrow> 'a tr" where
  "put x k = (x # fst k, snd k)"

definition emit :: "request \<Rightarrow> 'a tr \<Rightarrow> 'a tr" where
  "emit r k = put (Emit r) k"

definition tr_bind :: "pyerror + 'b \<Rightarrow> ('b \<Rightarrow> 'a tr) \<Rightarrow> 'a tr" where
  "tr_bind r k = (case r of Inl e \<Rightarrow> tr_raise e | Inr x \<Rightarrow> k x)"

definition with_int :: "trans_world \<Rightarrow> pyval pydict \<Rightarrow> string \<Rightarrow> (int option \<Rightarrow> 'a tr) \<Rightarrow> 'a tr" where
  "with_int W d k f = tr_bind (opt_int_of W (get_or_none d k)) f"

definition with_float :: "trans_world \<Rightarrow> pyval pydict \<Rightarrow> string \<Rightarrow> (pyfloat option \<Rightarrow> 'a tr) \<Rightarrow> 'a tr" where
  "with_float W d k f = tr_bind (opt_float_of W (get_or_none d k)) f"

section \<open>Plans and ledgers on the wire\<close>

fun collect :: "('a \<Rightarrow> pyerror + 'b option) \<Rightarrow> 'a list \<Rightarrow> pyerror + 'b list" where
  "collect f [] = Inr []"
| "collect f (x # xs) =
     (case f x of
        Inl e \<Rightarrow> Inl e
      | Inr y \<Rightarrow> (case collect f xs of
                    Inl e \<Rightarrow> Inl e
                  | Inr ys \<Rightarrow> Inr (case y of None \<Rightarrow> ys | Some z \<Rightarrow> z # ys)))"

definition plan_task_from_wire :: "trans_world \<Rightarrow> pyval \<Rightarrow> pyerror + plan_task option" where
  "plan_task_from_wire W item =
     (case item of
        PyDict d \<Rightarrow>
          (case iter_values (get_or_none d ''verification_steps'') of
             Inl e \<Rightarrow> Inl e
           | Inr vs \<Rightarrow>
               Inr (Some \<lparr>pt_task_id = str_get W d ''task_id'' [], pt_description = str_get W d ''description'' [],
                          pt_category = str_get W d ''category'' ''planned'',
                          pt_priority = str_get W d ''priority'' ''medium'',
                          pt_verification_steps = filter (\<lambda>s. py_strip s \<noteq> []) (map (text_of W) vs)\<rparr>))
      | _ \<Rightarrow> Inr None)"

definition harness_plan_tasks_wire_from_wire :: "trans_world \<Rightarrow> pyval \<Rightarrow> pyerror + plan_task list" where
  "harness_plan_tasks_wire_from_wire W raw =
     (case raw of PyList items \<Rightarrow> collect (plan_task_from_wire W) items | _ \<Rightarrow> Inr [])"

definition ledger_task_from_wire :: "trans_world \<Rightarrow> pyval \<Rightarrow> pyerror + ledger_task option" where
  "ledger_task_from_wire W item =
     (case item of
        PyDict d \<Rightarrow>
          (case Budget_Tracker.py_int (tw_int W) (let v = get_or_none d ''verification_step_count'' in if truthy v then v else PyInt 0) of
             Inl e \<Rightarrow> Inl e
           | Inr n \<Rightarrow>
               Inr (Some \<lparr>lt_task_id = str_get W d ''task_id'' [], lt_description = str_get W d ''description'' [],
                          lt_category = str_get W d ''category'' ''planned'', lt_status = str_get W d ''status'' ''pending'',
                          lt_priority = str_get W d ''priority'' ''medium'', lt_verification_step_count = n\<rparr>))
      | _ \<Rightarrow> Inr None)"

definition ledger_tasks_wire_from_wire :: "trans_world \<Rightarrow> pyval \<Rightarrow> pyerror + ledger_task list" where
  "ledger_tasks_wire_from_wire W raw =
     (case raw of PyList items \<Rightarrow> collect (ledger_task_from_wire W) items | _ \<Rightarrow> Inr [])"

section \<open>Prices\<close>

definition rates_per_1m :: "(string \<times> rat \<times> rat) list" where
  "rates_per_1m =
     [(''nvidia'', 1 / 10, 3 / 10), (''groq'', 5 / 100, 1 / 10), (''meta'', 1 / 10, 3 / 10), (''openai'', 5, 15),
      (''anthropic'', 3, 15), (''google'', 1 / 10, 4 / 10), (''google_genai'', 1 / 10, 4 / 10), (''mistral'', 2 / 10, 6 / 10),
      (''cohere'', 15 / 100, 6 / 10), (''xai'', 3, 15), (''deepseek'', 25 / 100, 85 / 100), (''default'', 25 / 100, 5 / 10)]"

definition slug_from_bare_model_hint :: "string \<Rightarrow> string option" where
  "slug_from_bare_model_hint mid =
     (let m = py_lower mid; has = contains_sub m; begins = startswith m
      in if has ''claude'' \<or> begins ''anthropic/'' then Some ''anthropic''
         else if has ''gemini'' \<or> begins ''google/'' then Some ''google''
         else if has ''gpt'' \<or> begins ''o1'' \<or> begins ''o3'' \<or> begins ''o4'' then Some ''openai''
         else if has ''grok'' \<or> has ''xai'' then Some ''xai''
         else if has ''groq'' \<or> has ''mixtral'' then Some ''groq''
         else if has ''llama'' \<or> begins ''meta-'' \<or> begins ''meta/'' then Some ''meta''
         else if has ''mistral'' \<or> has ''codestral'' \<or> has ''pixtral'' then Some ''mistral''
         else if has ''command'' \<or> has ''c4ai'' \<or> has ''aya'' then Some ''cohere''
         else if has ''deepseek'' then Some ''deepseek''
         else None)"

text \<open>\<open>s.split(d, 1)\<close>, when \<open>d\<close> occurs.\<close>

definition split_first :: "char \<Rightarrow> string \<Rightarrow> (string \<times> string) option" where
  "split_first d s =
     (if d \<in> set s then Some (takeWhile (\<lambda>c. c \<noteq> d) s, drop 1 (dropWhile (\<lambda>c. c \<noteq> d) s)) else None)"

lemma split_first_shorter: "split_first d s = Some (a, b) \<Longrightarrow> length b < length s"
proof -
  assume s: "split_first d s = Some (a, b)"
  then have "dropWhile (\<lambda>c. c \<noteq> d) s \<noteq> []" by (auto simp: split_first_def split: if_splits)
  then obtain c t where t: "dropWhile (\<lambda>c. c \<noteq> d) s = c # t" by (cases "dropWhile (\<lambda>c. c \<noteq> d) s") auto
  moreover have "length (c # t) \<le> length s" using length_dropWhile_le [of "\<lambda>c. c \<noteq> d" s] by (simp only: t)
  ultimately show ?thesis using s by (auto simp: split_first_def split: if_splits)
qed

lemma length_strip: "length (py_strip s) \<le> length s"
  by (metis length_dropWhile_le length_rev order_trans py_strip_def)

function slug_from_model_label :: "string \<Rightarrow> string option" where
  "slug_from_model_label model =
     (let s = py_strip model
      in if s = [] then None
         else case split_first CHR '':'' s of
                None \<Rightarrow> slug_from_bare_model_hint s
              | Some (head, rest0) \<Rightarrow>
                  (let head_l = py_lower (py_strip head); rest = py_strip rest0
                   in if rest = [] then (if head_l = [] then None else Some head_l)
                      else if (head_l = ''lc'' \<or> head_l = ''init'') \<and> split_first CHR '':'' rest \<noteq> None
                      then slug_from_model_label (py_strip (snd (the (split_first CHR '':'' rest))))
                      else if head_l = ''litellm''
                      then (case split_first CHR ''/'' rest of
                              None \<Rightarrow> slug_from_bare_model_hint rest
                            | Some (prov, r) \<Rightarrow>
                                let p = py_lower (py_strip prov)
                                in if p \<in> fst ` set rates_per_1m then Some p
                                   else or_opt [slug_from_bare_model_hint r, slug_from_bare_model_hint rest])
                      else if head_l \<in> fst ` set rates_per_1m then Some head_l
                      else or_opt [slug_from_bare_model_hint rest, if head_l = [] then None else Some head_l]))"
  by pat_completeness auto
termination
proof (relation "measure length", simp)
  fix model s x h r head_l rest
  assume s: "s = py_strip model" "split_first CHR '':'' s = Some x" "(h, r) = x" "rest = py_strip r"
    and r: "(head_l = ''lc'' \<or> head_l = ''init'') \<and> split_first CHR '':'' rest \<noteq> None"
  obtain a b where ab: "split_first CHR '':'' rest = Some (a, b)" using r by auto
  have "length (py_strip b) \<le> length b" by (rule length_strip)
  also have "\<dots> < length rest" by (rule split_first_shorter [OF ab])
  also have "\<dots> \<le> length r" using s(4) by (simp add: length_strip)
  also have "\<dots> < length s" using split_first_shorter s(2,3) by blast
  also have "\<dots> \<le> length model" using s(1) by (simp add: length_strip)
  finally show "(py_strip (snd (the (split_first CHR '':'' rest))), model) \<in> measure length" using ab by simp
qed

declare slug_from_model_label.simps [simp del]

definition estimate_llm_cost_usd :: "string option \<Rightarrow> int \<Rightarrow> int \<Rightarrow> rat" where
  "estimate_llm_cost_usd model input_tokens output_tokens =
     (let ins = max 0 input_tokens; outs = max 0 output_tokens
      in if ins = 0 \<and> outs = 0 then 0
         else let slug = (case model of None \<Rightarrow> None | Some m \<Rightarrow> if m = [] then None else slug_from_model_label m);
                  rate = (case map_of rates_per_1m (case slug of None \<Rightarrow> [] | Some g \<Rightarrow> g) of
                            Some r \<Rightarrow> r | None \<Rightarrow> (25 / 100, 5 / 10))
              in (of_int ins * fst rate + of_int outs * snd rate) / 1000000)"

section \<open>The handlers\<close>

text \<open>\<open>d\<close> is the payload; the result is the failure message.\<close>

type_synonym trans_handler = "trans_world \<Rightarrow> pyval pydict \<Rightarrow> string option tr"

definition translate_classify :: trans_handler where
  "translate_classify W d =
     (let pattern = or_text [str_at W d ''pattern''] ''UNKNOWN''; reason = str_at W d ''reason''
      in tr_bind (harness_plan_tasks_wire_from_wire W (get_or_none d ''harness_plan'')) (\<lambda>plan.
         with_int W d ''complexity'' (\<lambda>complexity. with_float W d ''confidence'' (\<lambda>confidence.
         emit (emit_pattern_classified pattern complexity confidence reason (str_at W d ''harness_work_kind'') (Some plan) None) (
         with_int W d ''duration_ms'' (\<lambda>ms.
         emit (emit_thinking_step ''analyze_query'' (Some (''Routing '' @ middle_dot @ '' '' @ pattern)) reason ms None) (
         stop None)))))))"

text \<open>The first key whose value is neither missing nor the empty string.\<close>

fun first_raw :: "pyval pydict \<Rightarrow> string list \<Rightarrow> pyval option" where
  "first_raw d [] = None"
| "first_raw d (k # ks) =
     (let v = get_or_none d k in if v = PyNone \<or> v = PyStr [] then first_raw d ks else Some v)"

definition translate_token :: trans_handler where
  "translate_token W d =
     (case first_raw d [''output'', ''text'', ''content''] of
        None \<Rightarrow> stop None
      | Some raw \<Rightarrow>
          let t = text_of W raw
          in if t = [] then stop None
             else emit (emit_token_delta t (lit_token_role (or_text [str_at W d ''role''] ''assistant''))
                          (str_at W d ''message_id'') None) (stop None))"

definition pattern_tail_upper :: "trans_world \<Rightarrow> pyval \<Rightarrow> string" where
  "pattern_tail_upper W v =
     (if v = PyNone then []
      else map py_upper_char (rev (takeWhile (\<lambda>c. c \<noteq> CHR ''.'') (rev (py_strip (text_of W v))))))"

definition shortcircuit_output :: "trans_world \<Rightarrow> pyval \<Rightarrow> string option" where
  "shortcircuit_output W st =
     (case st of
        PyDict d \<Rightarrow>
          if get_or_none d ''name'' \<noteq> PyStr ''direct_shortcircuit'' then None else opt_text W (get_or_none d ''output'')
      | _ \<Rightarrow> None)"

definition assistant_body_from_done_result :: "trans_world \<Rightarrow> pyval pydict \<Rightarrow> pyerror + string" where
  "assistant_body_from_done_result W res =
     (case opt_text W (get_or_none res ''output'') of
        Some t \<Rightarrow> Inr t
      | None \<Rightarrow> map_sum id (\<lambda>steps. or_text (map (shortcircuit_output W) steps) []) (iter_values (get_or_none res ''steps'')))"

definition result_execution_failed :: "pyval pydict \<Rightarrow> bool" where
  "result_execution_failed res \<longleftrightarrow> get_or_none res ''success'' = PyBool False"

definition failure_message_from_result :: "trans_world \<Rightarrow> pyval pydict \<Rightarrow> string" where
  "failure_message_from_result W res = or_text [str_at W res ''error'', str_at W res ''output''] ''execution failed''"

text \<open>\<open>(res.get("analysis") or {}).get("pattern")\<close>.\<close>

definition analysis_pattern :: "pyval pydict \<Rightarrow> pyval" where
  "analysis_pattern res = (case get_or_none res ''analysis'' of PyDict a \<Rightarrow> get_or_none a ''pattern'' | _ \<Rightarrow> PyNone)"

definition non_empty :: "string \<Rightarrow> string option" where
  "non_empty s = (if s = [] then None else Some s)"

definition fatal_error :: "string \<Rightarrow> string \<Rightarrow> request" where
  "fatal_error message stage = emit_error ''fatal'' message None (Some stage) False None True"

definition translate_done :: trans_handler where
  "translate_done W d =
     (let explicit = or_text [str_at W d ''output'', str_at W d ''content''] []; result = get_or_none d ''result''
      in case result of
           PyDict res \<Rightarrow>
             tr_bind (if explicit \<noteq> [] then Inr explicit else assistant_body_from_done_result W res) (\<lambda>content0.
             let used = pattern_tail_upper W (get_or_none res ''pattern_used'');
                 patt = (if used \<noteq> [] then used else pattern_tail_upper W (analysis_pattern res));
                 content = (if explicit \<noteq> [] \<and> patt \<noteq> [] \<and> patt \<noteq> ''DIRECT'' then [] else content0);
                 run_id = or_opt [str_at W d ''run_id'', str_at W res ''run_id''];
                 pattern = or_opt [str_at W d ''pattern'', non_empty used, opt_text W (analysis_pattern res)]
             in emit (emit_message_assistant content (str_at W d ''message_id'') run_id pattern None)
                  (if \<not> result_execution_failed res then stop None
                   else let msg = failure_message_from_result W res
                        in emit (fatal_error msg (or_text [pattern, non_empty patt] ''execution'')) (stop (Some msg))))
         | _ \<Rightarrow>
             emit (emit_message_assistant explicit (str_at W d ''message_id'') (str_at W d ''run_id'') (str_at W d ''pattern'') None)
               (stop None))"

definition translate_answer :: trans_handler where
  "translate_answer W d =
     emit (emit_message_assistant (or_text [str_at W d ''output'', str_at W d ''content''] []) (str_at W d ''message_id'')
             (str_at W d ''run_id'') (str_at W d ''pattern'') None) (stop None)"

definition tool_of :: "trans_world \<Rightarrow> pyval pydict \<Rightarrow> string" where
  "tool_of W d = or_text [str_at W d ''name'', str_at W d ''tool''] ''unknown_tool''"

definition new_tool_call_id :: "string \<Rightarrow> string \<Rightarrow> string" where
  "new_tool_call_id uid tool = ''tc_'' @ tool @ ''_'' @ take 12 uid"

definition tool_call_id_of :: "trans_world \<Rightarrow> string \<Rightarrow> pyval pydict \<Rightarrow> string" where
  "tool_call_id_of W uid d =
     or_text [str_at W d ''tool_call_id'', str_at W d ''id''] (new_tool_call_id uid (tool_of W d))"

definition dict_or_empty :: "pyval \<Rightarrow> pyval pydict" where
  "dict_or_empty v = (case v of PyDict a \<Rightarrow> a | _ \<Rightarrow> [])"

definition translate_tool_call :: "string \<Rightarrow> trans_handler" where
  "translate_tool_call uid W d =
     (let tool = tool_of W d; tcid = tool_call_id_of W uid d
      in emit (emit_tool_call_start tool tcid (Some (dict_or_empty (get_or_none d ''args'')))
                 (or_opt [str_at W d ''worker'', str_at W d ''worker_id'']) None) (
         emit (emit_message_tool tool ''start'' (Some ''dispatched'') (Some tcid) None) (
         stop None)))"

text \<open>A \<open>diff\<close> when both texts are there.\<close>

definition diff_of :: "trans_world \<Rightarrow> pyval pydict \<Rightarrow> pyval pydict option" where
  "diff_of W x =
     (case (get_or_none x ''before'', get_or_none x ''after'') of
        (PyStr b, PyStr a) \<Rightarrow>
          Some [(''before'', PyStr b), (''after'', PyStr a), (''language'', PyStr (or_text [str_at W x ''language''] []))]
      | _ \<Rightarrow> None)"

definition tool_output :: "trans_world \<Rightarrow> pyval pydict \<Rightarrow> string \<times> pyval pydict option" where
  "tool_output W d =
     (let plain = (or_text [str_at W d ''output'', str_at W d ''content''] [], None);
          (out, diff) = (case get_or_none d ''output'' of
             PyDict o1 \<Rightarrow> (case get_or_none o1 ''summary'' of PyStr s \<Rightarrow> (s, diff_of W o1) | _ \<Rightarrow> plain)
           | _ \<Rightarrow> plain)
      in (out, case get_or_none d ''diff'' of
                 PyDict x \<Rightarrow> (case diff_of W x of Some y \<Rightarrow> Some y | None \<Rightarrow> diff)
               | _ \<Rightarrow> diff))"

definition tool_load_skill :: string where "tool_load_skill = ''agloom_load_skill''"

definition skill_name_of :: "trans_world \<Rightarrow> pyval pydict \<Rightarrow> string option" where
  "skill_name_of W d =
     or_opt [str_at W d ''skill_name'',
             (case get_or_none d ''args'' of PyDict a \<Rightarrow> str_at W a ''name'' | _ \<Rightarrow> None)]"

definition translate_tool_result :: "string \<Rightarrow> trans_handler" where
  "translate_tool_result uid W d =
     (let tool = tool_of W d; tcid = tool_call_id_of W uid d
      in case str_at W d ''error'' of
           Some err \<Rightarrow>
             with_int W d ''duration_ms'' (\<lambda>ms.
             emit (emit_tool_call_error tool tcid err (str_at W d ''error_class'') ms None) (
             emit (emit_message_tool tool ''end'' (Some ''error'') (Some tcid) None) (
             stop None)))
         | None \<Rightarrow>
             (let (out, diff) = tool_output W d
              in with_int W d ''duration_ms'' (\<lambda>ms.
                 emit (emit_tool_call_result tool tcid out (Some (int (length out))) ms False diff None) (
                 (case skill_name_of W d of
                    Some sk \<Rightarrow> if tool = tool_load_skill
                               then emit (emit_skill_loaded sk ''tool'' None (Some (int (length out))) None) else id
                  | None \<Rightarrow> id) (
                 emit (emit_message_tool tool ''end'' (Some ''completed'') (Some tcid) None) (
                 stop None))))))"

definition translate_node_enter :: trans_handler where
  "translate_node_enter W d =
     emit (emit_graph_node_enter (or_text [str_at W d ''node''] ''graph_node_enter'') (str_at W d ''pattern'')
             (or_opt [str_at W d ''input_preview'', str_at W d ''input'']) None) (stop None)"

definition translate_node_exit :: trans_handler where
  "translate_node_exit W d =
     with_int W d ''duration_ms'' (\<lambda>ms.
     emit (emit_graph_node_exit (or_text [str_at W d ''node''] ''graph_node_exit'') (str_at W d ''pattern'') ms
             (or_opt [str_at W d ''output_preview'', str_at W d ''output'']) (str_at W d ''error'') None) (stop None))"

definition translate_progress :: trans_handler where
  "translate_progress W d =
     with_int W d ''duration_ms'' (\<lambda>ms.
     emit (emit_progress_step (or_text [str_at W d ''phase''] ''setup'') (str_at W d ''name'') (str_at W d ''output'') ms None)
       (stop None))"

definition translate_harness_synced :: trans_handler where
  "translate_harness_synced W d =
     with_int W d ''tasks_synced'' (\<lambda>n.
     tr_bind (Budget_Tracker.py_float (tw_float W)
                (let v = get_or_none d ''completion_ratio'' in if truthy v then v else PyFloat (Fin 0))) (\<lambda>ratio.
     with_int W d ''task_count'' (\<lambda>count. with_int W d ''ledger_revision'' (\<lambda>rev.
     tr_bind (harness_plan_tasks_wire_from_wire W (get_or_none d ''harness_plan'')) (\<lambda>plan.
     tr_bind (ledger_tasks_wire_from_wire W (get_or_none d ''tasks'')) (\<lambda>tasks.
     emit (emit_harness_synced (or_text [str_at W d ''action''] ''skip'') (int_or n) (str_at W d ''work_kind'') ratio
             (int_or count) (int_or rev) (Some plan) (Some tasks) None) (stop None)))))))"

definition translate_task_updated :: trans_handler where
  "translate_task_updated W d =
     with_int W d ''ledger_revision'' (\<lambda>rev.
     emit (emit_harness_task_updated (or_text [str_at W d ''task_id''] []) (or_text [str_at W d ''status''] [])
             (or_text [str_at W d ''notes''] []) (str_at W d ''project'') (int_or rev) None) (stop None))"

definition translate_skill_context :: trans_handler where
  "translate_skill_context W d =
     (let raw = (let v = get_or_none d ''skills'' in if truthy v then v else get_or_none d ''skill_names'');
          skills = (case raw of PyList vs \<Rightarrow> map (text_of W) (filter (\<lambda>v. v \<noteq> PyNone) vs) | _ \<Rightarrow> [])
      in with_int W d ''injected_chars'' (\<lambda>n.
         emit (emit_skill_applied (or_text [str_at W d ''phase''] ''turn_planner'') (int_or n) (Some skills) None
                 (or_text [str_at W d ''context_preview''] []) (truthy (get_or_none d ''truncated'')) None) (stop None)))"

definition translate_skill_learned :: trans_handler where
  "translate_skill_learned W d =
     emit (emit_skill_learned (or_text [str_at W d ''skill_name''] ''unknown'') (str_at W d ''pattern'') (str_at W d ''scope'')
             (str_at W d ''source'') None) (stop None)"

definition translate_lt_recall :: trans_handler where
  "translate_lt_recall W d =
     with_int W d ''hits'' (\<lambda>hits. with_int W d ''injected_chars'' (\<lambda>n.
     emit (emit_memory_lt_recall (str_at W d ''namespace'') (str_at W d ''query_preview'') (int_or hits) (int_or n) None)
       (stop None)))"

definition translate_summarized :: trans_handler where
  "translate_summarized W d =
     (let refs = (case get_or_none d ''artifact_refs'' of PyList vs \<Rightarrow> vs | _ \<Rightarrow> []);
          scope0 = or_text [str_at W d ''scope''] ''session'';
          scope = (if scope0 \<in> {''session'', ''harness'', ''job'', ''injection''} then scope0 else ''session'')
      in with_int W d ''turns_before'' (\<lambda>a. with_int W d ''turns_after'' (\<lambda>b.
         with_int W d ''tokens_before'' (\<lambda>c. with_int W d ''tokens_after'' (\<lambda>e.
         emit (emit_context_summarized scope a b c e (Some (map (text_of W) (filter truthy refs))) (str_at W d ''content_hash'') None)
           (stop None))))))"

text \<open>\<open>own\<close> is the thread of the emitter.\<close>

definition translate_session_write :: "string \<Rightarrow> trans_handler" where
  "translate_session_write own W d =
     with_int W d ''turn_count'' (\<lambda>n.
     emit (emit_memory_session_write (or_text [str_at W d ''thread''] own) (str_at W d ''run_id'') (str_at W d ''query_preview'')
             (str_at W d ''output_preview'') n None) (stop None))"

definition translate_lt_store :: trans_handler where
  "translate_lt_store W d =
     emit (emit_memory_lt_store (str_at W d ''namespace'') (str_at W d ''key'') (str_at W d ''content_preview'') None) (stop None)"

definition translate_checkpoint_saved :: "string \<Rightarrow> trans_handler" where
  "translate_checkpoint_saved own W d =
     emit (emit_checkpoint_saved (or_text [str_at W d ''thread''] own) (str_at W d ''run_id'') (str_at W d ''label'') None) (stop None)"

definition translate_checkpoint_restored :: "string \<Rightarrow> trans_handler" where
  "translate_checkpoint_restored own W d =
     emit (emit_checkpoint_restored (or_text [str_at W d ''thread''] own) (str_at W d ''resumed_from_run_id'') None) (stop None)"

definition translate_feedback :: trans_handler where
  "translate_feedback W d =
     emit (emit_feedback_scored (or_text [str_at W d ''run_id''] []) (or_text [str_at W d ''rating''] ''neutral'')
             (or_text [str_at W d ''comment''] []) (or_text [str_at W d ''correct''] [])
             (case get_or_none d ''metadata'' of PyDict m \<Rightarrow> Some m | _ \<Rightarrow> None) None) (stop None)"

definition worker_of :: "trans_world \<Rightarrow> pyval pydict \<Rightarrow> string" where
  "worker_of W d = or_text [str_at W d ''worker_id'', str_at W d ''name'', str_at W d ''id''] ''worker''"

definition translate_worker_start :: trans_handler where
  "translate_worker_start W d =
     emit (emit_worker_spawned (worker_of W d) (str_at W d ''name'') (str_at W d ''pattern'')
             (or_opt [str_at W d ''task'', str_at W d ''output''])
             (or_opt [str_at W d ''parent_worker_id'', str_at W d ''parent'']) None) (stop None)"

definition translate_worker_end :: trans_handler where
  "translate_worker_end W d =
     (let w = worker_of W d; err = str_at W d ''error'';
          out = or_text [str_at W d ''output'', str_at W d ''content''] []
      in with_int W d ''duration_ms'' (\<lambda>ms.
         emit (if str_at W d ''signal'' = Some ''HALTED''
               then emit_worker_halted w (or_text [err] ''HALT_ALL'') out ms None
               else case err of
                      Some e \<Rightarrow> emit_worker_failed w e (str_at W d ''error_class'') ms None
                    | None \<Rightarrow> emit_worker_completed w out (Some (int (length out))) ms False None) (stop None)))"

text \<open>\<open>_int(u.get(a)) or _int(u.get(b)) or 0\<close>.\<close>

definition with_count :: "trans_world \<Rightarrow> pyval pydict \<Rightarrow> string \<Rightarrow> string \<Rightarrow> (int \<Rightarrow> 'a tr) \<Rightarrow> 'a tr" where
  "with_count W u a b k =
     with_int W u a (\<lambda>x. if int_or x \<noteq> 0 then k (int_or x) else with_int W u b (\<lambda>y. k (int_or y)))"

definition put_cost :: "trans_world \<Rightarrow> pyval pydict \<Rightarrow> bool \<Rightarrow> int \<Rightarrow> int \<Rightarrow> string option tr" where
  "put_cost W d has_budget i out =
     with_float W d ''cost'' (\<lambda>given_cost.
     let known = (case given_cost of Some c \<Rightarrow> \<not> float_le c (Fin 0) | None \<Rightarrow> False);
         est = estimate_llm_cost_usd (str_at W d ''model'') i out;
         estimated = (\<not> known \<and> (i \<noteq> 0 \<or> out \<noteq> 0) \<and> 0 < est);
         cost = (if estimated then Some (Fin est) else given_cost);
         paid = (case cost of Some c \<Rightarrow> float_pos c | None \<Rightarrow> False)
     in (if paid
         then emit (emit_metric_cost (the cost) (or_text [str_at W d ''currency''] ''USD'') (str_at W d ''model'')
                      (or_opt [str_at W d ''phase'', str_at W d ''name'']) None estimated None) else id) (
        (if has_budget \<and> (i \<noteq> 0 \<or> out \<noteq> 0) then put (Budget_tokens i out) else id) (
        (if has_budget \<and> paid then put (Budget_cost (the cost)) else id) (
        stop None))))"

definition translate_llm_call :: "bool \<Rightarrow> trans_handler" where
  "translate_llm_call has_budget W d =
     with_int W d ''duration_ms'' (\<lambda>ms.
     emit (emit_thinking_step ''llm_call'' (Some (or_text [str_at W d ''name''] ''llm'')) (str_at W d ''output'') ms None) (
     case get_or_none d ''usage'' of
       PyDict u \<Rightarrow>
         with_count W u ''input_tokens'' ''prompt_tokens'' (\<lambda>i. with_count W u ''output_tokens'' ''completion_tokens'' (\<lambda>out.
         with_int W u ''total_tokens'' (\<lambda>total_t.
         (if i \<noteq> 0 \<or> out \<noteq> 0 \<or> int_or total_t \<noteq> 0
          then emit (emit_metric_tokens i out total_t (or_opt [str_at W d ''model'', str_at W u ''model''])
                       (or_opt [str_at W d ''phase'', str_at W d ''name'']) None None) else id) (
         case total_t of
           Some tt \<Rightarrow>
             if i = 0 \<and> out = 0 then put_cost W d has_budget (tt div 2) (tt - tt div 2) else put_cost W d has_budget i out
         | None \<Rightarrow> put_cost W d has_budget i out))))
     | _ \<Rightarrow> put_cost W d has_budget 0 0))"

definition translate_thinking :: "string \<Rightarrow> trans_handler" where
  "translate_thinking et W d =
     with_int W d ''duration_ms'' (\<lambda>ms.
     emit (emit_thinking_step et (Some (or_text [str_at W d ''name''] et)) (str_at W d ''output'') ms None) (stop None))"

definition translate_orchestration :: trans_handler where
  "translate_orchestration W d =
     with_int W d ''depth'' (\<lambda>depth. with_int W d ''duration_ms'' (\<lambda>ms.
     with_float W d ''confidence'' (\<lambda>conf. with_float W d ''quality_score'' (\<lambda>q.
     emit (emit_orchestration_step (int_or depth) (or_text [str_at W d ''pattern''] ''UNKNOWN'')
             (or_text [str_at W d ''action''] ''step'') (str_at W d ''worker_id'') (str_at W d ''reason'')
             (str_at W d ''input_preview'') (str_at W d ''output_preview'') ms (str_at W d ''error'') conf q None) (stop None)))))"

definition translate_mcp_servers :: trans_handler where
  "translate_mcp_servers W d =
     (let items = (\<lambda>k. case get_or_none d k of PyList vs \<Rightarrow> vs | _ \<Rightarrow> [])
      in emit (emit_runtime_mcp_servers (map (text_of W) (items ''server_names''))
                 (Some (List.map_filter (\<lambda>v. case v of PyDict r \<Rightarrow> Some r | _ \<Rightarrow> None) (items ''servers''))) None) (stop None))"

definition translate_error :: trans_handler where
  "translate_error W d =
     (let msg = or_text [str_at W d ''error'', str_at W d ''message''] ''unknown error''
      in emit (emit_error (or_text [str_at W d ''severity''] ''fatal'') msg (str_at W d ''error_class'')
                 (Some (or_text [str_at W d ''stage''] ''invocation'')) False None True) (stop (Some msg)))"

text \<open>An unknown event is forwarded when it has an output.\<close>

definition translate_unknown :: "string \<Rightarrow> trans_handler" where
  "translate_unknown et W d =
     (case str_at W d ''output'' of
        None \<Rightarrow> stop None
      | Some detail \<Rightarrow>
          with_int W d ''duration_ms'' (\<lambda>ms.
          emit (emit_thinking_step et (Some (or_text [str_at W d ''name''] et)) (Some detail) ms None) (stop None)))"

section \<open>The translator\<close>

definition event_thread_id :: "pyval pydict \<Rightarrow> string option" where
  "event_thread_id d =
     or_opt (map (\<lambda>k. case get_or_none d k of PyStr s \<Rightarrow> non_empty (py_strip s) | _ \<Rightarrow> None) [''thread'', ''thread_id''])"

definition reject_cross_thread_event :: "string \<Rightarrow> pyval pydict \<Rightarrow> bool" where
  "reject_cross_thread_event own d = (case event_thread_id d of None \<Rightarrow> False | Some t \<Rightarrow> t \<noteq> own)"

definition agent_event_thinking_types :: "string list" where
  "agent_event_thinking_types = [''thinking'', ''classify'', ''reflection'', ''fallback'', ''cache_hit'']"

text \<open>The thread of the emitter, whether it has a budget tracker, and a fresh id.\<close>

record trans_emitter =
  te_own :: string
  te_budget :: bool
  te_uid :: string

definition handler_table :: "trans_emitter \<Rightarrow> (string \<times> trans_handler) list" where
  "handler_table E =
     [(''classify'', translate_classify), (''token'', translate_token), (''done'', translate_done),
      (''answer'', translate_answer), (''message_assistant'', translate_answer), (''tool_call'', translate_tool_call (te_uid E)),
      (''tool_result'', translate_tool_result (te_uid E)), (''graph_node_enter'', translate_node_enter),
      (''graph_node_exit'', translate_node_exit), (''progress'', translate_progress),
      (''harness.synced'', translate_harness_synced), (''harness.task.updated'', translate_task_updated),
      (''harness_task_updated'', translate_task_updated), (''skill_context'', translate_skill_context),
      (''skill_learned'', translate_skill_learned), (''memory_lt_recall'', translate_lt_recall),
      (''context.summarized'', translate_summarized), (''context_summarized'', translate_summarized),
      (''memory_session_write'', translate_session_write (te_own E)), (''memory_lt_store'', translate_lt_store),
      (''checkpoint_saved'', translate_checkpoint_saved (te_own E)),
      (''checkpoint_restored'', translate_checkpoint_restored (te_own E)), (''feedback_scored'', translate_feedback),
      (''worker_start'', translate_worker_start), (''worker_end'', translate_worker_end),
      (''llm_call'', translate_llm_call (te_budget E)), (''orchestration'', translate_orchestration),
      (''runtime.mcp.servers'', translate_mcp_servers), (''error'', translate_error)]"

definition handler_of :: "trans_emitter \<Rightarrow> string \<Rightarrow> trans_handler" where
  "handler_of E et =
     (case map_of (handler_table E) et of
        Some h \<Rightarrow> h
      | None \<Rightarrow> if et \<in> set agent_event_thinking_types then translate_thinking et else translate_unknown et)"

definition translate :: "trans_world \<Rightarrow> trans_emitter \<Rightarrow> string \<Rightarrow> pyval pydict \<Rightarrow> string option tr" where
  "translate W E et d =
     (if reject_cross_thread_event (te_own E) d then stop None else handler_of E et W d)"

section \<open>Every translated event is of a known class\<close>

named_theorems tr_intros \<open>what holds of a translation step by step\<close>

definition typed_tr :: "('a \<Rightarrow> bool) \<Rightarrow> 'a tr \<Rightarrow> bool" where
  "typed_tr Q p \<longleftrightarrow> (\<forall>r. Emit r \<in> set (fst p) \<longrightarrow> typed_request r) \<and> (\<forall>x. snd p = Inr x \<longrightarrow> Q x)"

lemma typed_stop [tr_intros]: "Q x \<Longrightarrow> typed_tr Q (stop x)"
  by (simp add: typed_tr_def stop_def)

lemma typed_raise [tr_intros]: "typed_tr Q (tr_raise e)"
  by (simp add: typed_tr_def tr_raise_def)

lemma typed_emit [tr_intros]: "typed_request r \<Longrightarrow> typed_tr Q k \<Longrightarrow> typed_tr Q (emit r k)"
  by (auto simp: typed_tr_def emit_def put_def)

lemma typed_budget [tr_intros]: "typed_tr Q k \<Longrightarrow> typed_tr Q (put (Budget_tokens i out) k)" "typed_tr Q k \<Longrightarrow> typed_tr Q (put (Budget_cost c) k)"
  by (auto simp: typed_tr_def put_def)

lemma typed_bind [tr_intros]: "(\<And>x. typed_tr Q (k x)) \<Longrightarrow> typed_tr Q (tr_bind r k)"
  by (simp add: tr_bind_def typed_raise split: sum.split)

lemma typed_with [tr_intros]:
  "(\<And>x. typed_tr Q (k x)) \<Longrightarrow> typed_tr Q (with_int W d key k)" "(\<And>x. typed_tr Q (g x)) \<Longrightarrow> typed_tr Q (with_float W d key g)"
  by (simp_all add: with_int_def with_float_def typed_bind)

lemma typed_with_count [tr_intros]: "(\<And>x. typed_tr Q (k x)) \<Longrightarrow> typed_tr Q (with_count W u a b k)"
  by (simp add: with_count_def typed_with)

lemma typed_step [tr_intros]:
  "(\<And>k. typed_tr Q k \<Longrightarrow> typed_tr Q (f k)) \<Longrightarrow> typed_tr Q k \<Longrightarrow> typed_tr Q ((if c then f else id) k)"
  by simp

lemmas plain_handlers =
  translate_classify_def translate_answer_def translate_tool_call_def translate_node_enter_def translate_node_exit_def
  translate_progress_def translate_harness_synced_def translate_task_updated_def translate_skill_context_def
  translate_skill_learned_def translate_lt_recall_def translate_summarized_def translate_session_write_def
  translate_lt_store_def translate_checkpoint_saved_def translate_checkpoint_restored_def translate_feedback_def
  translate_worker_start_def translate_thinking_def translate_orchestration_def translate_mcp_servers_def

lemma typed_plain:
  "typed_tr ((=) None) (translate_classify W d)" "typed_tr ((=) None) (translate_answer W d)" "typed_tr ((=) None) (translate_tool_call u W d)"
  "typed_tr ((=) None) (translate_node_enter W d)" "typed_tr ((=) None) (translate_node_exit W d)" "typed_tr ((=) None) (translate_progress W d)"
  "typed_tr ((=) None) (translate_harness_synced W d)" "typed_tr ((=) None) (translate_task_updated W d)" "typed_tr ((=) None) (translate_skill_context W d)"
  "typed_tr ((=) None) (translate_skill_learned W d)" "typed_tr ((=) None) (translate_lt_recall W d)" "typed_tr ((=) None) (translate_summarized W d)"
  "typed_tr ((=) None) (translate_session_write o1 W d)" "typed_tr ((=) None) (translate_lt_store W d)" "typed_tr ((=) None) (translate_checkpoint_saved o1 W d)"
  "typed_tr ((=) None) (translate_checkpoint_restored o1 W d)" "typed_tr ((=) None) (translate_feedback W d)" "typed_tr ((=) None) (translate_worker_start W d)"
  "typed_tr ((=) None) (translate_thinking et W d)" "typed_tr ((=) None) (translate_orchestration W d)" "typed_tr ((=) None) (translate_mcp_servers W d)"
  unfolding plain_handlers Let_def by (intro tr_intros typed_request.intros refl)+

lemma typed_token: "typed_tr ((=) None) (translate_token W d)"
  unfolding translate_token_def Let_def by (auto split: option.splits intro!: tr_intros typed_request.intros refl)

lemma typed_error: "typed_tr (\<lambda>_. True) (translate_error W d)"
  unfolding translate_error_def Let_def by (intro tr_intros typed_request.intros TrueI)

lemma typed_done: "typed_tr (\<lambda>_. True) (translate_done W d)"
  unfolding translate_done_def Let_def fatal_error_def
  by (auto split: pyval.splits intro!: tr_intros typed_request.intros)

lemma typed_tool_result: "typed_tr ((=) None) (translate_tool_result u W d)"
  unfolding translate_tool_result_def Let_def
  by (auto split: option.splits prod.splits intro!: tr_intros typed_request.intros refl)

lemma typed_worker_end: "typed_tr ((=) None) (translate_worker_end W d)"
  unfolding translate_worker_end_def Let_def
  by (intro tr_intros) (auto split: option.splits intro!: typed_request.intros)

lemma typed_put_cost: "typed_tr ((=) None) (put_cost W d b i out)"
  unfolding put_cost_def Let_def by (intro tr_intros typed_request.intros refl)

lemma typed_llm_call: "typed_tr ((=) None) (translate_llm_call b W d)"
  unfolding translate_llm_call_def Let_def
  by (auto split: pyval.splits option.splits intro!: tr_intros typed_put_cost typed_request.intros refl)

lemma typed_unknown: "typed_tr ((=) None) (translate_unknown et W d)"
  unfolding translate_unknown_def by (auto split: option.splits intro!: tr_intros typed_request.intros refl)

lemmas typed_handlers = typed_plain typed_token typed_tool_result typed_worker_end typed_llm_call typed_unknown

text \<open>Only \<open>done\<close> and \<open>error\<close> have a failure to report.\<close>

lemma typed_table:
  "list_all (\<lambda>(et, h). et = ''done'' \<and> h = translate_done \<or> et = ''error'' \<and> h = translate_error
      \<or> (\<forall>W d. typed_tr ((=) None) (h W d))) (handler_table E)"
  by (simp add: handler_table_def typed_handlers)

lemma handler_cases:
  obtains "et = ''done''" "handler_of E et = translate_done" | "et = ''error''" "handler_of E et = translate_error"
    | "et \<noteq> ''done''" "et \<noteq> ''error''" "\<And>W d. typed_tr ((=) None) (handler_of E et W d)"
proof (cases "map_of (handler_table E) et")
  case None
  then have "et \<noteq> ''done''" "et \<noteq> ''error''" by (auto simp: handler_table_def)
  then show thesis using None that(3) by (simp add: handler_of_def typed_handlers)
next
  case (Some h)
  have "handler_of E ''done'' = translate_done" "handler_of E ''error'' = translate_error"
    by (simp_all add: handler_of_def handler_table_def)
  moreover have "et = ''done'' \<and> h = translate_done \<or> et = ''error'' \<and> h = translate_error
      \<or> (\<forall>W d. typed_tr ((=) None) (h W d))"
    using bspec [OF typed_table [unfolded list_all_iff] map_of_SomeD [OF Some]] by (simp only: prod.case)
  moreover have "handler_of E et = h" by (simp add: handler_of_def Some)
  ultimately consider "et = ''done''" "handler_of E et = translate_done" | "et = ''error''" "handler_of E et = translate_error"
    | "et \<noteq> ''done''" "et \<noteq> ''error''" "\<forall>W d. typed_tr ((=) None) (handler_of E et W d)" by metis
  then show thesis by (cases; use that in blast)
qed

lemma typed_tr_mono: "typed_tr ((=) None) p \<Longrightarrow> typed_tr (\<lambda>_. True) p"
  by (simp add: typed_tr_def)

lemma translate_typed: "typed_tr (\<lambda>_. True) (translate W E et d)"
proof -
  have "typed_tr (\<lambda>_. True) (handler_of E et W d)"
    by (cases rule: handler_cases [of et E]) (simp_all add: typed_done typed_error typed_tr_mono)
  then show ?thesis by (simp add: translate_def typed_stop)
qed


text \<open>An error event that carries the failure.\<close>

definition reports :: "string \<Rightarrow> request \<Rightarrow> bool" where
  "reports msg r \<longleftrightarrow> rq_type r \<in> {''error.fatal'', ''error.transient''} \<and> get_or_none (rq_kwargs r) ''message'' = PyStr msg"

definition failed_run :: "pyval pydict \<Rightarrow> bool" where
  "failed_run d \<longleftrightarrow> (case get_or_none d ''result'' of PyDict res \<Rightarrow> result_execution_failed res | _ \<Rightarrow> False)"

lemma emit_error_reports: "reports msg (emit_error sev msg c st r p per)"
  by (simp add: reports_def emit_error_def request_data_first_def get_or_none_def)

lemma opt_text_nonempty: "opt_text W v = Some s \<Longrightarrow> s \<noteq> []"
  by (auto simp: opt_text_def Let_def split: if_splits)

lemma or_text_nonempty:
  assumes "dflt \<noteq> []" shows "or_text [str_at W d k, str_at W d' k'] dflt \<noteq> []"
  using assms opt_text_nonempty
  by (cases "str_at W d k"; cases "str_at W d' k'") (auto simp: or_text_def str_at_def)

lemma error_outcome:
  "\<exists>msg r. translate_error W d = ([Emit r], Inr (Some msg)) \<and> reports msg r \<and> msg \<noteq> []"
  by (simp add: translate_error_def Let_def emit_def put_def stop_def emit_error_reports or_text_nonempty)

lemma done_outcome:
  assumes "snd (translate_done W d) = Inr x"
  shows "x = None \<and> \<not> failed_run d
    \<or> failed_run d \<and> (\<exists>msg r es. x = Some msg \<and> fst (translate_done W d) = es @ [Emit r] \<and> reports msg r \<and> msg \<noteq> [])"
proof (cases "\<exists>res. get_or_none d ''result'' = PyDict res")
  case True
  then obtain res where res: "get_or_none d ''result'' = PyDict res" by blast
  have ne: "failure_message_from_result W res \<noteq> []"
    unfolding failure_message_from_result_def by (rule or_text_nonempty) simp
  show ?thesis
    using assms res ne
    by (auto simp: translate_done_def failed_run_def tr_bind_def tr_raise_def emit_def put_def stop_def Let_def fatal_error_def
        emit_error_reports split: sum.splits if_splits intro!: exI [of _ "failure_message_from_result W res"])
next
  case False
  then have n: "\<not> failed_run d" by (auto simp: failed_run_def split: pyval.splits)
  have "snd (translate_done W d) = Inr None"
    using False by (simp add: translate_done_def Let_def emit_def put_def stop_def split: pyval.splits)
  then show ?thesis using n assms by simp
qed


section \<open>Concrete events\<close>

definition demo_trans :: trans_world where
  "demo_trans = \<lparr>tw_str = (\<lambda>_. ''?''), tw_int = (\<lambda>_. None), tw_float = (\<lambda>_. None)\<rparr>"

definition demo_trans_emitter :: trans_emitter where
  "demo_trans_emitter = \<lparr>te_own = ''t1'', te_budget = True, te_uid = ''0123456789abcdef''\<rparr>"

definition demo_failure :: "pyval pydict" where
  "demo_failure = [(''result'', PyDict [(''success'', PyBool False), (''error'', PyStr ''no key'')])]"

lemma demo_failure_translated:
  "translate demo_trans demo_trans_emitter ''done'' demo_failure =
     ([Emit (emit_message_assistant [] None None None None), Emit (fatal_error ''no key'' ''execution'')],
      Inr (Some ''no key''))"
  by code_simp



section \<open>What the translator leaves out\<close>

text \<open>A transient error is reported as a failure of the invocation as well.\<close>

lemma transient_error_fails:
  "translate demo_trans demo_trans_emitter ''error'' [(''message'', PyStr ''retrying''), (''severity'', PyStr ''transient'')] =
     ([Emit (emit_error ''transient'' ''retrying'' None (Some ''invocation'') False None True)], Inr (Some ''retrying''))"
  by code_simp

text \<open>An event of an unknown type without an output is dropped.\<close>

lemma unknown_event_dropped:
  assumes "map_of (handler_table E) et = None" and "et \<notin> set agent_event_thinking_types" and "str_at W d ''output'' = None"
  shows "translate W E et d = stop None"
  using assms by (simp add: translate_def handler_of_def translate_unknown_def)

text \<open>Without an id of the runtime, the start and the end of a tool call get different ids.\<close>

lemma synthesized_ids_differ:
  assumes "str_at W d ''tool_call_id'' = None" "str_at W d ''id'' = None"
    and "str_at W d' ''tool_call_id'' = None" "str_at W d' ''id'' = None"
    and "tool_of W d = tool_of W d'" and "take 12 u \<noteq> take 12 u'"
  shows "tool_call_id_of W u d \<noteq> tool_call_id_of W u' d'"
  using assms by (simp add: tool_call_id_of_def or_text_def new_tool_call_id_def)

text \<open>An infinite duration raises: only \<open>TypeError\<close> and \<open>ValueError\<close> are caught.\<close>

lemma infinite_duration_raises:
  "\<exists>e. translate demo_trans demo_trans_emitter ''progress'' [(''duration_ms'', PyFloat PosInf)] = ([], Inl (OverflowError e))"
  by (intro exI) code_simp

end
