(* ===== verification/Invocation.thy ===== *)
theory Invocation
  imports Translator Hitl_Bridge Attachment_Stage
begin

text \<open>
  One invocation on the wire (\<open>run_invocation\<close> of \<open>src/agloom/runtime/bridge.py\<close>): the events
  that open a turn, the translation of what the agent streams, and how the turn is closed.

  The agent's stream is a list of events and its end: exhausted, an exception, or the
  cancellation of the task. The text of an exception is a parameter, the duration an argument;
  the context variables and the per-turn coalescer are left out.
\<close>

section \<open>State\<close>

record turn_world =
  iw_hitl :: hitl_world
  iw_trans :: trans_world
  iw_version :: string
  iw_error :: "pyerror \<Rightarrow> string \<times> string \<times> string"

record turn_state =
  tu_bridge :: bridge
  tu_sys :: sys
  tu_budget :: "budget option"

text \<open>How the stream of the agent ends; an exception has a class, a text and a \<open>repr\<close>.\<close>

datatype stream_end = Stream_ended | Stream_raised string string string | Stream_cancelled

record invocation =
  iv_task :: nat
  iv_emitter :: nat
  iv_prompt :: content
  iv_summaries :: "summary list"
  iv_stream :: "(string \<times> pyval pydict) list"
  iv_end :: stream_end
  iv_elapsed :: int
  iv_uid :: string

section \<open>Writing\<close>

definition emit_on :: "turn_world \<Rightarrow> nat \<Rightarrow> request \<Rightarrow> turn_state \<Rightarrow> pyerror option \<times> turn_state" where
  "emit_on W i rq s =
     (case issue_on (iw_hitl W) i rq (tu_sys s) of
        (Inl e, sy) \<Rightarrow> (Some e, s\<lparr>tu_sys := sy\<rparr>)
      | (Inr _, sy) \<Rightarrow> (None, s\<lparr>tu_sys := sy\<rparr>))"

fun emit_all :: "turn_world \<Rightarrow> nat \<Rightarrow> request list \<Rightarrow> turn_state \<Rightarrow> pyerror option \<times> turn_state" where
  "emit_all W i [] s = (None, s)"
| "emit_all W i (r # rs) s =
     (case emit_on W i r s of (Some e, s1) \<Rightarrow> (Some e, s1) | (None, s1) \<Rightarrow> emit_all W i rs s1)"

fun dimension_str :: "dimension \<Rightarrow> string" where
  "dimension_str Tokens = ''tokens''"
| "dimension_str Cost_usd = ''cost_usd''"

text \<open>The event the tracker writes.\<close>

fun budget_request :: "budget_event \<Rightarrow> request" where
  "budget_request (Approaching q used cap) =
     emit_metric_budget_approaching (dimension_str q) (Fin used) cap (Fin (cost_ratio used cap)) None"
| "budget_request (Exhausted q used cap) =
     emit_metric_budget_exhausted (dimension_str q) (Fin used) cap None"

text \<open>An infinite cost has no place in the sums of the tracker's model and is not recorded.\<close>

definition record_emission :: "emission \<Rightarrow> budget \<Rightarrow> budget \<times> budget_event list" where
  "record_emission x b =
     (case x of
        Budget_tokens i out \<Rightarrow> record_tokens_delta i out b
      | Budget_cost (Fin c) \<Rightarrow> record_cost_delta c b
      | _ \<Rightarrow> (b, []))"

definition perform_one :: "turn_world \<Rightarrow> nat \<Rightarrow> emission \<Rightarrow> turn_state \<Rightarrow> pyerror option \<times> turn_state" where
  "perform_one W i x s =
     (case x of
        Emit r \<Rightarrow> emit_on W i r s
      | _ \<Rightarrow>
          (case tu_budget s of
             None \<Rightarrow> (None, s)
           | Some b \<Rightarrow>
               (let (b1, es) = record_emission x b in emit_all W i (map budget_request es) (s\<lparr>tu_budget := Some b1\<rparr>))))"

fun perform :: "turn_world \<Rightarrow> nat \<Rightarrow> emission list \<Rightarrow> turn_state \<Rightarrow> pyerror option \<times> turn_state" where
  "perform W i [] s = (None, s)"
| "perform W i (x # xs) s =
     (case perform_one W i x s of (Some e, s1) \<Rightarrow> (Some e, s1) | (None, s1) \<Rightarrow> perform W i xs s1)"

section \<open>The stream\<close>

definition terminal_assistant_events :: "string list" where
  "terminal_assistant_events = [''done'', ''answer'', ''message_assistant'']"

text \<open>Whether the user saw a final text, and the last failure.\<close>

type_synonym progress_flags = "bool \<times> string option"

definition take_event ::
    "turn_world \<Rightarrow> invocation \<Rightarrow> string \<times> pyval pydict \<Rightarrow> progress_flags \<Rightarrow> turn_state
       \<Rightarrow> (pyerror + progress_flags) \<times> turn_state" where
  "take_event W v ev f s =
     (let em = fst (tu_sys s) ! iv_emitter v;
          E = \<lparr>te_own = em_thread em, te_budget = (tu_budget s \<noteq> None), te_uid = iv_uid v\<rparr>;
          (xs, r) = translate (iw_trans W) E (fst ev) (snd ev)
      in case perform W (iv_emitter v) xs s of
           (Some e, s1) \<Rightarrow> (Inl e, s1)
         | (None, s1) \<Rightarrow>
             (case r of
                Inl e \<Rightarrow> (Inl e, s1)
              | Inr m \<Rightarrow> (Inr (fst f \<or> fst ev \<in> set terminal_assistant_events, if m = None then snd f else m), s1)))"

fun take_events ::
    "turn_world \<Rightarrow> invocation \<Rightarrow> (string \<times> pyval pydict) list \<Rightarrow> progress_flags \<Rightarrow> turn_state
       \<Rightarrow> (pyerror + progress_flags) \<times> turn_state" where
  "take_events W v [] f s = (Inr f, s)"
| "take_events W v (ev # evs) f s =
     (case take_event W v ev f s of (Inl e, s1) \<Rightarrow> (Inl e, s1) | (Inr f1, s1) \<Rightarrow> take_events W v evs f1 s1)"

section \<open>The end of a turn\<close>

definition close_on ::
    "turn_world \<Rightarrow> nat \<Rightarrow> close_reason \<Rightarrow> int option \<Rightarrow> string option \<Rightarrow> turn_state \<Rightarrow> pyerror option \<times> turn_state" where
  "close_on W i reason ms err s =
     (case close_session (hw_mint (iw_hitl W)) reason ms err (fst (tu_sys s) ! i, snd (tu_sys s)) of
        Inl e \<Rightarrow> (Some e, s)
      | Inr (_, st) \<Rightarrow> (None, s\<lparr>tu_sys := put_emitter i st (tu_sys s)\<rparr>))"

datatype turn_end = Turn_returned | Turn_cancelled | Turn_raised pyerror

definition raised_or :: "turn_end \<Rightarrow> pyerror option \<times> turn_state \<Rightarrow> turn_end \<times> turn_state" where
  "raised_or t r = ((case fst r of None \<Rightarrow> t | Some e \<Rightarrow> Turn_raised e), snd r)"

fun cancel_reason_str :: "cancel_reason \<Rightarrow> string" where
  "cancel_reason_str Reason_user = ''user_aborted''"
| "cancel_reason_str Reason_shutdown = ''shutdown''"

fun cancel_close :: "cancel_reason \<Rightarrow> close_reason" where
  "cancel_close Reason_user = User_aborted"
| "cancel_close Reason_shutdown = Shutdown"

definition idle_request :: "invocation \<Rightarrow> turn_state \<Rightarrow> request" where
  "idle_request v s =
     (let own = em_thread (fst (tu_sys s) ! iv_emitter v) in emit_agent_idle own (Some own) None)"

text \<open>\<open>except CancelledError\<close>.\<close>

definition turn_on_cancel :: "turn_world \<Rightarrow> invocation \<Rightarrow> turn_state \<Rightarrow> turn_end \<times> turn_state" where
  "turn_on_cancel W v s =
     (case emit_on W (iv_emitter v) (idle_request v s) s of
        (Some e, s1) \<Rightarrow> (Turn_raised e, s1)
      | (None, s1) \<Rightarrow>
          (let (reason, b) = consume_invocation_cancel_reason (Some (iv_task v)) (tu_bridge s1);
               s2 = s1\<lparr>tu_bridge := b\<rparr>;
               detail = (if reason = Reason_user then ''invocation_cancelled'' else ''runtime_shutdown'')
           in case emit_on W (iv_emitter v) (emit_prompt_cancelled (cancel_reason_str reason) (Some detail) None) s2 of
                (Some e, s3) \<Rightarrow> (Turn_raised e, s3)
              | (None, s3) \<Rightarrow>
                  raised_or Turn_cancelled (close_on W (iv_emitter v) (cancel_close reason) (Some (iv_elapsed v)) None s3)))"

text \<open>\<open>except Exception\<close>: what it writes may fail as well, and it always returns.\<close>

definition turn_on_error :: "turn_world \<Rightarrow> invocation \<Rightarrow> string \<times> string \<times> string \<Rightarrow> turn_state \<Rightarrow> turn_end \<times> turn_state" where
  "turn_on_error W v err s =
     (let (cls, msg, rep) = err; i = iv_emitter v;
          s1 = snd (emit_on W i (idle_request v s) s);
          text = (if blank msg then rep else py_strip msg)
      in case emit_on W i (emit_error ''fatal'' text (Some cls) (Some ''invocation'') False None True) s1 of
           (None, s2) \<Rightarrow>
             (case close_on W i Error_reason (Some (iv_elapsed v)) (Some rep) s2 of
                (None, s3) \<Rightarrow> (Turn_returned, s3)
              | (Some _, s3) \<Rightarrow>
                  (let s4 = snd (emit_on W i (idle_request v s3) s3)
                   in (Turn_returned,
                       snd (close_on W i Error_reason (Some (iv_elapsed v)) (Some ''invocation_emit_failure'') s4))))
         | (Some _, s2) \<Rightarrow>
             (let s3 = snd (emit_on W i (idle_request v s2) s2)
              in (Turn_returned,
                  snd (close_on W i Error_reason (Some (iv_elapsed v)) (Some ''invocation_emit_failure'') s3))))"

definition turn_on_success :: "turn_world \<Rightarrow> invocation \<Rightarrow> progress_flags \<Rightarrow> turn_state \<Rightarrow> turn_end \<times> turn_state" where
  "turn_on_success W v f s =
     (case emit_all W (iv_emitter v)
             (idle_request v s # (if fst f then [] else [emit_message_assistant [] None None None None])) s of
        (Some e, s1) \<Rightarrow> (Turn_raised e, s1)
      | (None, s1) \<Rightarrow>
          raised_or Turn_returned
            (case snd f of
               Some m \<Rightarrow> close_on W (iv_emitter v) Error_reason (Some (iv_elapsed v))
                           (Some (if m = [] then ''execution failed'' else m)) s1
             | None \<Rightarrow> close_on W (iv_emitter v) Completed (Some (iv_elapsed v)) None s1))"

section \<open>A whole turn\<close>

definition user_text :: "content \<Rightarrow> string" where
  "user_text c = (case c of Plain s \<Rightarrow> s | Blocks s _ \<Rightarrow> s)"

definition summary_attachment :: "summary \<Rightarrow> attachment" where
  "summary_attachment u =
     \<lparr>at_name = su_name u, at_mime_type = su_mime u, at_byte_length = int (su_bytes u), at_path = Some (su_path u)\<rparr>"

definition opening_requests :: "invocation \<Rightarrow> turn_state \<Rightarrow> request list" where
  "opening_requests v s =
     (let t = user_text (iv_prompt v); own = em_thread (fst (tu_sys s) ! iv_emitter v);
          preview = (if length t \<le> 280 then t else take 277 t @ ''...'')
      in [emit_message_user t None None
            (if iv_summaries v = [] then None else Some (map summary_attachment (iv_summaries v))),
          emit_prompt_requested ''user_turn'' (Some preview) None,
          emit_agent_busy own (Some own) None])"

definition open_on :: "turn_world \<Rightarrow> nat \<Rightarrow> turn_state \<Rightarrow> pyerror option \<times> turn_state" where
  "open_on W i s =
     (if is_open (fst (tu_sys s) ! i) then (None, s)
      else case open_session (hw_mint (iw_hitl W)) (iw_version W) None (fst (tu_sys s) ! i, snd (tu_sys s)) of
             Inl e \<Rightarrow> (Some e, s)
           | Inr (_, st) \<Rightarrow> (None, s\<lparr>tu_sys := put_emitter i st (tu_sys s)\<rparr>))"

definition run_stream :: "turn_world \<Rightarrow> invocation \<Rightarrow> turn_state \<Rightarrow> turn_end \<times> turn_state" where
  "run_stream W v s =
     (case take_events W v (iv_stream v) (False, None) s of
        (Inl e, s1) \<Rightarrow> turn_on_error W v (iw_error W e) s1
      | (Inr f, s1) \<Rightarrow>
          (case iv_end v of
             Stream_ended \<Rightarrow> turn_on_success W v f s1
           | Stream_raised cls msg rep \<Rightarrow> turn_on_error W v (cls, msg, rep) s1
           | Stream_cancelled \<Rightarrow> turn_on_cancel W v s1))"

definition run_invocation :: "turn_world \<Rightarrow> invocation \<Rightarrow> turn_state \<Rightarrow> turn_end \<times> turn_state" where
  "run_invocation W v s =
     (case open_on W (iv_emitter v) s of
        (Some e, s1) \<Rightarrow> (Turn_raised e, s1)
      | (None, s1) \<Rightarrow>
          (case emit_all W (iv_emitter v) (opening_requests v s1) s1 of
             (Some e, s2) \<Rightarrow> (Turn_raised e, s2)
           | (None, s2) \<Rightarrow> run_stream W v s2))"

section \<open>What a turn writes\<close>

text \<open>The types of the events of a turn; a notice that the store has dropped one may follow each.\<close>

inductive turn_log :: "string list \<Rightarrow> envelope list \<Rightarrow> bool" where
  log_nil: "turn_log [] []"
| log_cons: "ev_type e = t \<Longrightarrow> \<forall>n\<in>set ns. ev_type n = ''error.transient'' \<Longrightarrow> turn_log ts es
     \<Longrightarrow> turn_log (t # ts) (e # ns @ es)"

lemma turn_log_append: "turn_log ts es \<Longrightarrow> turn_log us fs \<Longrightarrow> turn_log (ts @ us) (es @ fs)"
  by (induction rule: turn_log.induct) (auto intro: log_cons)

lemma turn_log_one: "ev_type e = t \<Longrightarrow> \<forall>n\<in>set ns. ev_type n = ''error.transient'' \<Longrightarrow> turn_log [t] (e # ns)"
  using log_cons [OF _ _ log_nil, of e t ns] by simp

text \<open>From \<open>s\<close> to \<open>s'\<close> emitter \<open>i\<close> has written events of these types, and is otherwise as it was.\<close>

definition advanced :: "nat \<Rightarrow> string list \<Rightarrow> turn_state \<Rightarrow> turn_state \<Rightarrow> bool" where
  "advanced i ts s s' \<longleftrightarrow>
     (\<exists>es. ss_log (snd (tu_sys s')) = ss_log (snd (tu_sys s)) @ es \<and> turn_log ts es)
     \<and> (\<exists>em'. fst (tu_sys s') = (fst (tu_sys s))[i := em'] \<and> same_emitter (fst (tu_sys s) ! i) em')"

lemma advanced_refl: "advanced i [] s s"
  unfolding advanced_def using log_nil same_emitter_refl list_update_id by (metis append_Nil2)

lemma advanced_trans:
  assumes "advanced i ts s s1" and "advanced i us s1 s2" and "i < length (fst (tu_sys s))"
  shows "advanced i (ts @ us) s s2"
  using assms turn_log_append same_emitter_trans unfolding advanced_def
  by (auto simp: append_assoc)

lemma advanced_other: "advanced i ts s (s'\<lparr>tu_bridge := b\<rparr>) = advanced i ts s s'"
  "advanced i ts s (s'\<lparr>tu_budget := c\<rparr>) = advanced i ts s s'"
  "advanced i ts (s\<lparr>tu_bridge := b\<rparr>) s' = advanced i ts s s'"
  "advanced i ts (s\<lparr>tu_budget := c\<rparr>) s' = advanced i ts s s'"
  by (simp_all add: advanced_def)

text \<open>An emitter that can write.\<close>

definition ready :: "turn_world \<Rightarrow> nat \<Rightarrow> turn_state \<Rightarrow> bool" where
  "ready W i s \<longleftrightarrow> pydantic_laws (hw_vld (iw_hitl W)) \<and> i < length (fst (tu_sys s)) \<and> (\<exists>sid. whole sid (fst (tu_sys s) ! i))"

lemma same_whole: "same_emitter em em' \<Longrightarrow> whole sid em \<Longrightarrow> whole sid em'"
  by (simp add: same_emitter_def whole_def)

lemma ready_advanced: "ready W i s \<Longrightarrow> advanced i ts s s' \<Longrightarrow> ready W i s'"
  using same_whole unfolding ready_def advanced_def by fastforce

lemma ready_other [simp]: "ready W i (s\<lparr>tu_bridge := b\<rparr>) = ready W i s" "ready W i (s\<lparr>tu_budget := c\<rparr>) = ready W i s"
  by (simp_all add: ready_def)

lemma issue_same_emitter:
  assumes "whole sid em" and "issue vld mint rq (em, s) = (r, em', s')"
  shows "same_emitter em em'"
proof (cases "\<exists>e. r = Inr e")
  case True
  then obtain e v where em: "emit_event mint (rq_type rq) (dump_model (rq_fields rq) v) (rq_parent rq)
      (rq_persist rq) (em, s) = Inr (e, em', s')"
    using assms(2) issue_cases by (metis prod.inject)
  obtain e1 s1 where b: "build_event mint (rq_type rq) (dump_model (rq_fields rq) v) (rq_parent rq) (em, s) = (e1, s1)"
    by (metis surj_pair)
  have "em_kind em = Sync_emitter" using assms(1) by (simp add: whole_def)
  from emit_steps [OF this b refl refl refl, of "rq_persist rq"] show ?thesis
    using em b by (auto simp: emit_event_def)
next
  case False
  then show ?thesis using assms(2) by (auto simp: issue_def split: option.splits sum.splits)
qed

lemma emit_on_outcome:
  assumes rd: "ready W i s" and t: "typed_request rq" and e: "emit_on W i rq s = (r, s')"
  shows "tu_bridge s' = tu_bridge s \<and> tu_budget s' = tu_budget s
    \<and> (if literals_ok (rq_fields rq) (rq_kwargs rq) then r = None \<and> advanced i [rq_type rq] s s'
       else r \<noteq> None \<and> advanced i [] s s')"
proof -
  let ?em = "fst (tu_sys s) ! i" and ?st = "snd (tu_sys s)"
  obtain sid where w: "whole sid ?em" and laws: "pydantic_laws (hw_vld (iw_hitl W))" using rd by (auto simp: ready_def)
  obtain x em' st' where x: "issue (hw_vld (iw_hitl W)) (hw_mint (iw_hitl W)) rq (?em, ?st) = (x, em', st')"
    by (metis surj_pair)
  note out = issue_outcome [OF laws t w, of "hw_mint (iw_hitl W)" ?st]
  have em: "same_emitter ?em em'" by (rule issue_same_emitter [OF w x])
  have s': "s' = s\<lparr>tu_sys := put_emitter i (em', st') (tu_sys s)\<rparr>" and r: "r = (case x of Inl y \<Rightarrow> Some y | Inr _ \<Rightarrow> None)"
    using e x by (auto simp: emit_on_def issue_on_def split: sum.splits)
  have adv: "advanced i ts s s' \<longleftrightarrow> (\<exists>es. ss_log st' = ss_log ?st @ es \<and> turn_log ts es)" for ts
    using em by (auto simp: advanced_def s' put_emitter_def)
  show ?thesis
  proof (cases "literals_ok (rq_fields rq) (rq_kwargs rq)")
    case True
    then have "\<exists>y. x = Inr y" and "emitted ?em (rq_type rq) ?st st'" using out x by auto
    then have "\<exists>es. ss_log st' = ss_log ?st @ es \<and> turn_log [rq_type rq] es"
      unfolding emitted_def delivered_def using turn_log_one by blast
    then show ?thesis using True \<open>\<exists>y. x = Inr y\<close> adv r by (auto simp: s')
  next
    case False
    then have "\<exists>y. x = Inl y" "ss_log st' = ss_log ?st" using out x by auto
    then have "\<exists>es. ss_log st' = ss_log ?st @ es \<and> turn_log [] es" using log_nil by (metis append_Nil2)
    then show ?thesis using False \<open>\<exists>y. x = Inl y\<close> adv r by (auto simp: s')
  qed
qed

lemma emit_on_some:
  assumes "ready W i s" and "typed_request rq" and "emit_on W i rq s = (r, s')"
  obtains ts where "advanced i ts s s'" "ready W i s'"
proof -
  obtain ts where "advanced i ts s s'" using emit_on_outcome [OF assms] by (metis (full_types))
  then show thesis using that ready_advanced [OF assms(1)] by blast
qed

lemma emit_all_some:
  "ready W i s \<Longrightarrow> list_all typed_request rs \<Longrightarrow> emit_all W i rs s = (r, s') \<Longrightarrow> \<exists>ts. advanced i ts s s'"
proof (induction rs arbitrary: s)
  case Nil
  then show ?case using advanced_refl by auto
next
  case (Cons rq rs)
  obtain r1 s1 where e: "emit_on W i rq s = (r1, s1)" by (metis surj_pair)
  obtain ts where ts: "advanced i ts s s1" "ready W i s1" using emit_on_some [OF Cons.prems(1) _ e] Cons.prems(2) by auto
  show ?case
  proof (cases r1)
    case None
    then obtain us where "advanced i us s1 s'" using Cons.IH [OF ts(2)] Cons.prems e by auto
    then show ?thesis using advanced_trans [OF ts(1)] Cons.prems(1) by (auto simp: ready_def)
  next
    case (Some x)
    then show ?thesis using Cons.prems(3) e ts(1) by auto
  qed
qed

text \<open>Requests that cannot be refused.\<close>

definition certain :: "request \<Rightarrow> bool" where
  "certain rq \<longleftrightarrow> typed_request rq \<and> literals_ok (rq_fields rq) (rq_kwargs rq)"

lemma emit_on_certain:
  assumes "ready W i s" and "certain rq"
  obtains s' where "emit_on W i rq s = (None, s')" "advanced i [rq_type rq] s s'" "ready W i s'"
    "tu_bridge s' = tu_bridge s"
proof -
  obtain r s' where e: "emit_on W i rq s = (r, s')" by (metis surj_pair)
  have "r = None" "advanced i [rq_type rq] s s'" "tu_bridge s' = tu_bridge s"
    using emit_on_outcome [OF assms(1) _ e] assms(2) by (simp_all add: certain_def)
  then show thesis using that e ready_advanced [OF assms(1)] by blast
qed

lemma emit_all_certain:
  "ready W i s \<Longrightarrow> list_all certain rs \<Longrightarrow> \<exists>s'. emit_all W i rs s = (None, s') \<and> advanced i (map rq_type rs) s s'"
proof (induction rs arbitrary: s)
  case Nil
  then show ?case using advanced_refl by auto
next
  case (Cons rq rs)
  obtain s1 where s1: "emit_on W i rq s = (None, s1)" "advanced i [rq_type rq] s s1" "ready W i s1"
    using emit_on_certain [OF Cons.prems(1), of rq] Cons.prems(2) by auto
  obtain s2 where "emit_all W i rs s1 = (None, s2)" "advanced i (map rq_type rs) s1 s2"
    using Cons.IH [OF s1(3)] Cons.prems(2) by auto
  then show ?case using s1 advanced_trans [OF s1(2)] Cons.prems(1) by (fastforce simp: ready_def)
qed

section \<open>The stream of a turn\<close>

lemma budget_request_typed: "typed_request (budget_request e)"
  by (cases e) (simp_all add: typed_request.intros)

lemma perform_one_some:
  assumes "ready W i s" and "\<forall>r. x = Emit r \<longrightarrow> typed_request r" and "perform_one W i x s = (r, s')"
  shows "\<exists>ts. advanced i ts s s'"
proof (cases "\<exists>rq. x = Emit rq")
  case True
  then obtain rq where x: "x = Emit rq" by blast
  have "typed_request rq" and "emit_on W i rq s = (r, s')" using assms(2,3) x by (auto simp: perform_one_def)
  then show ?thesis using emit_on_some [OF assms(1)] by blast
next
  case False
  then have eq: "perform_one W i x s =
      (case tu_budget s of
         None \<Rightarrow> (None, s)
       | Some b \<Rightarrow> (let (b1, es) = record_emission x b in emit_all W i (map budget_request es) (s\<lparr>tu_budget := Some b1\<rparr>)))"
    by (cases x) (auto simp: perform_one_def)
  show ?thesis
  proof (cases "tu_budget s")
    case None
    then have "s' = s" using eq assms(3) by simp
    then show ?thesis using advanced_refl by blast
  next
    case (Some b)
    obtain b1 es where re: "record_emission x b = (b1, es)" by (metis surj_pair)
    have "emit_all W i (map budget_request es) (s\<lparr>tu_budget := Some b1\<rparr>) = (r, s')" using eq assms(3) Some re by simp
    then have "\<exists>ts. advanced i ts (s\<lparr>tu_budget := Some b1\<rparr>) s'"
      using assms(1) by (intro emit_all_some) (auto simp: list_all_iff budget_request_typed)
    then show ?thesis by (simp only: advanced_other)
  qed
qed

lemma perform_some:
  "ready W i s \<Longrightarrow> \<forall>r. Emit r \<in> set xs \<longrightarrow> typed_request r \<Longrightarrow> perform W i xs s = (r, s') \<Longrightarrow> \<exists>ts. advanced i ts s s'"
proof (induction xs arbitrary: s)
  case Nil
  then show ?case using advanced_refl by auto
next
  case (Cons x xs)
  obtain r1 s1 where p: "perform_one W i x s = (r1, s1)" by (metis surj_pair)
  obtain ts where ts: "advanced i ts s s1" using perform_one_some [OF Cons.prems(1) _ p] Cons.prems(2) by auto
  show ?case
  proof (cases r1)
    case None
    then obtain us where "advanced i us s1 s'"
      using Cons.IH [OF ready_advanced [OF Cons.prems(1) ts]] Cons.prems(2,3) p by auto
    then show ?thesis using advanced_trans [OF ts] Cons.prems(1) unfolding ready_def by blast
  next
    case (Some e)
    then show ?thesis using Cons.prems(3) p ts by auto
  qed
qed

lemma take_event_some:
  assumes "ready W (iv_emitter v) s" and "take_event W v ev f s = (r, s')"
  shows "\<exists>ts. advanced (iv_emitter v) ts s s'"
proof -
  let ?E = "\<lparr>te_own = em_thread (fst (tu_sys s) ! iv_emitter v), te_budget = (tu_budget s \<noteq> None), te_uid = iv_uid v\<rparr>"
  obtain xs y where t: "translate (iw_trans W) ?E (fst ev) (snd ev) = (xs, y)" by (metis surj_pair)
  obtain z s1 where p: "perform W (iv_emitter v) xs s = (z, s1)" by (metis surj_pair)
  have "s' = s1" using assms(2) t p by (auto simp: take_event_def Let_def split: option.splits sum.splits)
  moreover have "\<forall>r. Emit r \<in> set xs \<longrightarrow> typed_request r"
    using translate_typed [of "iw_trans W" ?E "fst ev" "snd ev"] t by (simp add: typed_tr_def)
  ultimately show ?thesis using perform_some [OF assms(1) _ p] by simp
qed

lemma take_events_some:
  "ready W (iv_emitter v) s \<Longrightarrow> take_events W v evs f s = (r, s') \<Longrightarrow> \<exists>ts. advanced (iv_emitter v) ts s s'"
proof (induction evs arbitrary: f s)
  case Nil
  then show ?case using advanced_refl by auto
next
  case (Cons ev evs)
  obtain x s1 where e: "take_event W v ev f s = (x, s1)" by (metis surj_pair)
  obtain ts where ts: "advanced (iv_emitter v) ts s s1" using take_event_some [OF Cons.prems(1) e] by blast
  show ?case
  proof (cases x)
    case (Inl y)
    then show ?thesis using Cons.prems(2) e ts by auto
  next
    case (Inr f1)
    then obtain us where "advanced (iv_emitter v) us s1 s'"
      using Cons.IH [OF ready_advanced [OF Cons.prems(1) ts], of f1] Cons.prems(2) e by auto
    then show ?thesis using advanced_trans [OF ts] Cons.prems(1) unfolding ready_def by blast
  qed
qed

section \<open>How a turn ends\<close>

lemma opt_no_literal [simp]:
  "case v of PyStr s \<Rightarrow> (case TOpt t of TLit xs \<Rightarrow> s \<in> set xs | _ \<Rightarrow> True) | _ \<Rightarrow> True"
  by (cases v) simp_all

lemma turn_literals:
  "literals_ok (rq_fields (emit_agent_idle own t p)) (rq_kwargs (emit_agent_idle own t p))"
  "literals_ok (rq_fields (emit_agent_busy own t p)) (rq_kwargs (emit_agent_busy own t p))"
  "literals_ok (rq_fields (emit_message_assistant c m r pt p)) (rq_kwargs (emit_message_assistant c m r pt p))"
  "literals_ok (rq_fields (emit_prompt_cancelled rs dt p)) (rq_kwargs (emit_prompt_cancelled rs dt p))"
  "literals_ok (rq_fields (emit_prompt_requested k pv p)) (rq_kwargs (emit_prompt_requested k pv p))"
  "literals_ok (rq_fields (emit_message_user c m p ats)) (rq_kwargs (emit_message_user c m p ats))"
  "literals_ok (rq_fields (emit_error ''fatal'' msg cl sg re p per)) (rq_kwargs (emit_error ''fatal'' msg cl sg re p per))"
  by (simp_all add: literals_ok_def emit_agent_idle_def agent_idle_data_def emit_agent_busy_def agent_busy_data_def
      emit_message_assistant_def message_assistant_data_def emit_prompt_cancelled_def prompt_cancelled_data_def
      emit_prompt_requested_def prompt_requested_data_def emit_message_user_def message_user_data_def
      emit_error_def error_data_def request_of_def request_data_first_def lit_prompt_kind_def lit_prompt_cancel_reason_def
      prompt_requested_kind_def prompt_cancelled_reason_def error_severity_def)

lemma certain_requests:
  "certain (emit_agent_idle own t p)" "certain (emit_agent_busy own t p)" "certain (emit_message_assistant c m r pt p)"
  "certain (emit_prompt_cancelled rs dt p)" "certain (emit_prompt_requested k pv p)" "certain (emit_message_user c m p ats)"
  "certain (emit_error ''fatal'' msg cl sg re p per)"
  unfolding certain_def by (blast intro: typed_request.intros turn_literals)+

text \<open>A fork of the session's emitter for one invocation, not closed yet.\<close>

definition fork_at :: "nat \<Rightarrow> turn_state \<Rightarrow> bool" where
  "fork_at i s \<longleftrightarrow> em_invocation_only (fst (tu_sys s) ! i) \<and> \<not> em_closed (fst (tu_sys s) ! i)"

definition closed_after :: "nat \<Rightarrow> string list \<Rightarrow> turn_state \<Rightarrow> turn_state \<Rightarrow> bool" where
  "closed_after i ts s s' \<longleftrightarrow>
     (\<exists>es. ss_log (snd (tu_sys s')) = ss_log (snd (tu_sys s)) @ es \<and> turn_log ts es)
     \<and> em_closed (fst (tu_sys s') ! i)"

lemma fork_advanced: "fork_at i s \<Longrightarrow> advanced i ts s s' \<Longrightarrow> i < length (fst (tu_sys s)) \<Longrightarrow> fork_at i s'"
  by (auto simp: fork_at_def advanced_def same_emitter_def)

lemma closed_after_advanced:
  "advanced i ts s s1 \<Longrightarrow> closed_after i us s1 s2 \<Longrightarrow> closed_after i (ts @ us) s s2"
  using turn_log_append unfolding advanced_def closed_after_def by fastforce

lemma close_fork:
  assumes "ready W i s" and "fork_at i s"
  shows "\<exists>s'. close_on W i reason ms err s = (None, s') \<and> closed_after i [] s s'"
  using assms log_nil
  by (auto simp: close_on_def close_session_def fork_at_def ready_def closed_after_def put_emitter_def Let_def)

text \<open>Some requests that go through, then the close.\<close>

lemma close_after_requests:
  assumes rd: "ready W i s" and fk: "fork_at i s" and c: "list_all certain rs"
  shows "\<exists>s1. emit_all W i rs s = (None, s1) \<and>
     (\<exists>s2. close_on W i reason ms err s1 = (None, s2) \<and> closed_after i (map rq_type rs) s s2)"
proof -
  obtain s1 where s1: "emit_all W i rs s = (None, s1)" "advanced i (map rq_type rs) s s1"
    using emit_all_certain [OF rd c] by blast
  have "ready W i s1" "fork_at i s1" using ready_advanced [OF rd s1(2)] fork_advanced [OF fk s1(2)] rd by (auto simp: ready_def)
  from close_fork [OF this] show ?thesis using s1 closed_after_advanced [OF s1(2)] by fastforce
qed

lemma idle_type: "rq_type (idle_request v s) = ''agent.idle''" "certain (idle_request v s)"
  by (simp_all add: idle_request_def Let_def certain_requests) (simp add: emit_agent_idle_def request_of_def)

lemma cancelled_turn:
  assumes rd: "ready W (iv_emitter v) s" and fk: "fork_at (iv_emitter v) s"
  shows "\<exists>s'. turn_on_cancel W v s = (Turn_cancelled, s') \<and> closed_after (iv_emitter v) [''agent.idle'', ''prompt.cancelled''] s s'"
proof -
  let ?i = "iv_emitter v"
  obtain s1 where s1: "emit_on W ?i (idle_request v s) s = (None, s1)" "advanced ?i [''agent.idle''] s s1" "ready W ?i s1"
    using emit_on_certain [OF rd idle_type(2)] idle_type(1) by metis
  obtain reason b where cr: "consume_invocation_cancel_reason (Some (iv_task v)) (tu_bridge s1) = (reason, b)" by (metis surj_pair)
  let ?s2 = "s1\<lparr>tu_bridge := b\<rparr>" and ?d = "if reason = Reason_user then ''invocation_cancelled'' else ''runtime_shutdown''"
  let ?rq = "emit_prompt_cancelled (cancel_reason_str reason) (Some ?d) None"
  have t: "rq_type ?rq = ''prompt.cancelled''" by (simp add: emit_prompt_cancelled_def request_of_def)
  have r2: "ready W ?i ?s2" using s1(3) by simp
  obtain s3 where s3: "emit_on W ?i ?rq ?s2 = (None, s3)" "advanced ?i [''prompt.cancelled''] ?s2 s3" "ready W ?i s3"
    using emit_on_certain [OF r2 certain_requests(4), of "cancel_reason_str reason" "Some ?d" None] t by metis
  have a3: "advanced ?i [''prompt.cancelled''] s1 s3" using s3(2) by (simp only: advanced_other)
  have adv: "advanced ?i [''agent.idle'', ''prompt.cancelled''] s s3"
    using advanced_trans [OF s1(2) a3] rd by (simp add: ready_def)
  have fk3: "fork_at ?i s3" using fork_advanced [OF fk adv] rd by (simp add: ready_def)
  obtain s4 where s4: "close_on W ?i (cancel_close reason) (Some (iv_elapsed v)) None s3 = (None, s4)" "closed_after ?i [] s3 s4"
    using close_fork [OF s3(3) fk3] by blast
  have "turn_on_cancel W v s = (Turn_cancelled, s4)"
    using s1(1) cr s3(1) s4(1) by (simp add: turn_on_cancel_def raised_or_def)
  then show ?thesis using closed_after_advanced [OF adv s4(2)] by simp
qed

lemma failed_turn:
  assumes rd: "ready W (iv_emitter v) s" and fk: "fork_at (iv_emitter v) s"
  shows "\<exists>s'. turn_on_error W v err s = (Turn_returned, s') \<and> closed_after (iv_emitter v) [''agent.idle'', ''error.fatal''] s s'"
proof -
  let ?i = "iv_emitter v"
  obtain cls msg rep where err: "err = (cls, msg, rep)" by (cases err)
  let ?rq = "emit_error ''fatal'' (if blank msg then rep else py_strip msg) (Some cls) (Some ''invocation'') False None True"
  have c: "list_all certain [idle_request v s, ?rq]" by (simp add: idle_type(2) certain_requests)
  have t: "map rq_type [idle_request v s, ?rq] = [''agent.idle'', ''error.fatal'']"
    by (simp add: idle_type(1) emit_error_def request_data_first_def)
  obtain s1 s2 where s: "emit_all W ?i [idle_request v s, ?rq] s = (None, s1)"
    "close_on W ?i Error_reason (Some (iv_elapsed v)) (Some rep) s1 = (None, s2)"
    "closed_after ?i [''agent.idle'', ''error.fatal''] s s2"
    using close_after_requests [OF rd fk c] unfolding t by blast
  then have "turn_on_error W v err s = (Turn_returned, s2)"
    by (auto simp: turn_on_error_def err Let_def split: option.splits prod.splits)
  then show ?thesis using s(3) by simp
qed

lemma finished_turn:
  assumes rd: "ready W (iv_emitter v) s" and fk: "fork_at (iv_emitter v) s"
  shows "\<exists>s'. turn_on_success W v f s = (Turn_returned, s')
    \<and> closed_after (iv_emitter v) (''agent.idle'' # (if fst f then [] else [''message.assistant''])) s s'"
proof -
  let ?i = "iv_emitter v"
  let ?rs = "idle_request v s # (if fst f then [] else [emit_message_assistant [] None None None None])"
  have c: "list_all certain ?rs" by (simp add: idle_type(2) certain_requests)
  have t: "map rq_type ?rs = ''agent.idle'' # (if fst f then [] else [''message.assistant''])"
    by (simp add: idle_type(1) emit_message_assistant_def request_of_def)
  note cl = close_after_requests [OF rd fk c, unfolded t]
  show ?thesis
  proof (cases "snd f")
    case None
    then show ?thesis
      using cl [of Completed "Some (iv_elapsed v)" None] by (fastforce simp: turn_on_success_def raised_or_def)
  next
    case (Some m)
    then show ?thesis
      using cl [of Error_reason "Some (iv_elapsed v)" "Some (if m = [] then ''execution failed'' else m)"]
      by (fastforce simp: turn_on_success_def raised_or_def)
  qed
qed

text \<open>The user saw a final text exactly when the stream had one of the terminal events.\<close>

definition answered :: "(string \<times> pyval pydict) list \<Rightarrow> bool" where
  "answered evs = list_ex (\<lambda>ev. fst ev \<in> set terminal_assistant_events) evs"

lemma take_event_flag:
  "take_event W v ev f s = (Inr g, s') \<Longrightarrow> fst g = (fst f \<or> fst ev \<in> set terminal_assistant_events)"
  by (auto simp: take_event_def Let_def split: prod.splits option.splits sum.splits)

lemma take_events_flag: "take_events W v evs f s = (Inr g, s') \<Longrightarrow> fst g = (fst f \<or> answered evs)"
proof (induction evs arbitrary: f s)
  case Nil
  then show ?case by (simp add: answered_def)
next
  case (Cons ev evs)
  then obtain h s1 where h: "take_event W v ev f s = (Inr h, s1)" "take_events W v evs h s1 = (Inr g, s')"
    by (auto split: prod.splits sum.splits)
  show ?case using Cons.IH [OF h(2)] take_event_flag [OF h(1)] by (auto simp: answered_def)
qed

text \<open>The ways a turn may be closed, and what it returns then.\<close>

definition wire_cancelled :: "string list" where "wire_cancelled = [''agent.idle'', ''prompt.cancelled'']"
definition wire_failed :: "string list" where "wire_failed = [''agent.idle'', ''error.fatal'']"
definition wire_opening :: "string list" where
  "wire_opening = [''message.user'', ''prompt.requested'', ''agent.busy'']"

fun regular_closing :: "bool \<Rightarrow> stream_end \<Rightarrow> string list" where
  "regular_closing seen Stream_ended = ''agent.idle'' # (if seen then [] else [''message.assistant''])"
| "regular_closing seen (Stream_raised _ _ _) = wire_failed"
| "regular_closing seen Stream_cancelled = wire_cancelled"

definition closing_end :: "string list \<Rightarrow> turn_end" where
  "closing_end c = (if c = wire_cancelled then Turn_cancelled else Turn_returned)"

lemma streamed_turn:
  assumes rd: "ready W (iv_emitter v) s" and fk: "fork_at (iv_emitter v) s"
  shows "\<exists>mid c s'. run_stream W v s = (closing_end c, s') \<and> closed_after (iv_emitter v) (mid @ c) s s'
    \<and> c \<in> {wire_failed, regular_closing (answered (iv_stream v)) (iv_end v)}"
proof -
  let ?i = "iv_emitter v"
  obtain r s1 where t: "take_events W v (iv_stream v) (False, None) s = (r, s1)" by (metis surj_pair)
  obtain mid where adv: "advanced ?i mid s s1" using take_events_some [OF rd t] by blast
  have rd1: "ready W ?i s1" by (rule ready_advanced [OF rd adv])
  have fk1: "fork_at ?i s1" using fork_advanced [OF fk adv] rd by (simp add: ready_def)
  note after = closed_after_advanced [OF adv]
  have failed: "\<exists>s'. turn_on_error W v err s1 = (closing_end wire_failed, s') \<and> closed_after ?i (mid @ wire_failed) s s'" for err
    using failed_turn [OF rd1 fk1, of err] after by (fastforce simp: wire_failed_def wire_cancelled_def closing_end_def)
  have cancelled: "\<exists>s'. turn_on_cancel W v s1 = (closing_end wire_cancelled, s') \<and> closed_after ?i (mid @ wire_cancelled) s s'"
    using cancelled_turn [OF rd1 fk1] after by (fastforce simp: wire_cancelled_def closing_end_def)
  have finished: "\<exists>s'. turn_on_success W v f s1 = (closing_end (regular_closing (fst f) Stream_ended), s')
      \<and> closed_after ?i (mid @ regular_closing (fst f) Stream_ended) s s'" for f
    using finished_turn [OF rd1 fk1, of f] after by (fastforce simp: wire_cancelled_def closing_end_def)
  show ?thesis
  proof (cases r)
    case (Inl e)
    then show ?thesis using failed [of "iw_error W e"] t by (fastforce simp: run_stream_def)
  next
    case (Inr f)
    have f: "fst f = answered (iv_stream v)" using take_events_flag t Inr by fastforce
    show ?thesis
    proof (cases "iv_end v")
      case Stream_ended
      then show ?thesis using finished [of f] t Inr f by (fastforce simp: run_stream_def)
    next
      case (Stream_raised cls msg rep)
      then show ?thesis using failed [of "(cls, msg, rep)"] t Inr by (fastforce simp: run_stream_def)
    next
      case Stream_cancelled
      then show ?thesis using cancelled t Inr by (fastforce simp: run_stream_def)
    qed
  qed
qed

lemma opening_certain: "list_all certain (opening_requests v s)" "map rq_type (opening_requests v s) = wire_opening"
  by (simp_all add: opening_requests_def Let_def certain_requests wire_opening_def)
     (simp add: emit_message_user_def emit_prompt_requested_def emit_agent_busy_def request_of_def)

text \<open>C3. An invocation on an open fork of the session writes the user message, the prompt and
  the busy event, then what the stream says, then one of the closings; it closes the fork, never
  raises, and is cancelled only by the cancellation of the stream.\<close>

theorem invocation_on_the_wire:
  assumes "ready W (iv_emitter v) s" and "fork_at (iv_emitter v) s" and "em_opened (fst (tu_sys s) ! iv_emitter v)"
  shows "\<exists>mid c s'. run_invocation W v s = (closing_end c, s')
    \<and> closed_after (iv_emitter v) (wire_opening @ mid @ c) s s'
    \<and> c \<in> {wire_failed, regular_closing (answered (iv_stream v)) (iv_end v)}"
proof -
  let ?i = "iv_emitter v"
  have o: "open_on W ?i s = (None, s)" using assms(2,3) by (simp add: open_on_def is_open_def fork_at_def)
  obtain s1 where s1: "emit_all W ?i (opening_requests v s) s = (None, s1)" "advanced ?i wire_opening s s1"
    using emit_all_certain [OF assms(1) opening_certain(1)] unfolding opening_certain(2) by blast
  have rd: "ready W ?i s1" by (rule ready_advanced [OF assms(1) s1(2)])
  have fk: "fork_at ?i s1" using fork_advanced [OF assms(2) s1(2)] assms(1) by (simp add: ready_def)
  obtain mid c s' where "run_stream W v s1 = (closing_end c, s')" "closed_after ?i (mid @ c) s1 s'"
    "c \<in> {wire_failed, regular_closing (answered (iv_stream v)) (iv_end v)}"
    using streamed_turn [OF rd fk] by blast
  then show ?thesis using o s1 closed_after_advanced [OF s1(2)] unfolding run_invocation_def by fastforce
qed

section \<open>A concrete turn\<close>

definition demo_turn_world :: turn_world where
  "demo_turn_world =
     \<lparr>iw_hitl = \<lparr>hw_vld = exact_validate, hw_mint = demo_mint, hw_resolve = (\<lambda>p. p), hw_str = (\<lambda>_. [])\<rparr>,
      iw_trans = demo_trans, iw_version = ''1'', iw_error = (\<lambda>_. (''ValueError'', [], ''ValueError()''))\<rparr>"

definition demo_fork :: "emitter_kind \<Rightarrow> emitter" where
  "demo_fork k = (emitter_init k ''s1'' ''t1'' False (k = Sync_emitter))\<lparr>em_opened := True\<rparr>"

definition demo_turn :: "emitter_kind \<Rightarrow> nat \<Rightarrow> turn_state" where
  "demo_turn k qmax =
     \<lparr>tu_bridge = bridge_init No_allowlist (Keep_in_file ''f''), tu_sys = ([demo_fork k], session_init qmax),
      tu_budget = None\<rparr>"

definition demo_invocation :: invocation where
  "demo_invocation =
     \<lparr>iv_task = 0, iv_emitter = 0, iv_prompt = Plain ''hi'', iv_summaries = [],
      iv_stream = [(''done'', demo_failure)], iv_end = Stream_ended, iv_elapsed = 5, iv_uid = ''u''\<rparr>"

theorem invocation_on_the_wire_witness:
  "\<exists>mid c s'. run_invocation demo_turn_world demo_invocation (demo_turn Sync_emitter 0) = (Turn_returned, s')
    \<and> closed_after 0 (wire_opening @ mid @ c) (demo_turn Sync_emitter 0) s' \<and> c \<in> {wire_failed, [''agent.idle'']}"
proof -
  let ?s = "demo_turn Sync_emitter 0"
  have a: "answered (iv_stream demo_invocation)"
    by (simp add: answered_def demo_invocation_def terminal_assistant_events_def)
  have i: "iv_emitter demo_invocation = 0" "iv_end demo_invocation = Stream_ended" by (simp_all add: demo_invocation_def)
  have r: "ready demo_turn_world (iv_emitter demo_invocation) ?s"
    by (simp add: ready_def demo_turn_world_def i demo_turn_def demo_fork_def whole_def emitter_init_def exact_validate_laws)
  have f: "fork_at (iv_emitter demo_invocation) ?s" "em_opened (fst (tu_sys ?s) ! iv_emitter demo_invocation)"
    by (simp_all add: fork_at_def i demo_turn_def demo_fork_def emitter_init_def)
  from invocation_on_the_wire [OF r f] show ?thesis
    unfolding i by (fastforce simp: a closing_end_def wire_cancelled_def wire_failed_def)
qed

text \<open>
  An exception before the stream starts leaves the session open: on the asynchronous emitter
  with a full queue the second event raises.
\<close>

lemma failed_opening_leaves_open:
  "(let r = run_invocation demo_turn_world demo_invocation (demo_turn Async_emitter 1)
    in (fst r, em_closed (fst (tu_sys (snd r)) ! 0))) = (Turn_raised QueueFull, False)"
  by code_simp

end
