(* ===== verification/Command_Dispatch.thy ===== *)
theory Command_Dispatch
  imports Invocation
begin

text \<open>
  Commands of a client (\<open>src/agloom/runtime/command_dispatch.py\<close>): every handler of
  \<open>dispatch_command\<close>, and the tasks of the runs it starts.

  A command is its type and the validated fields of its data. What lies outside (the agent, its
  tools, memory, repository and models, fresh ids) answers through the record \<open>outside\<close>, one for
  each command. A run is a task with the steps of an asyncio task: its start, each event of the
  agent, its end, and its done callbacks, which run some time after the end; commands come in
  between. The store is the in-memory one. Log lines are left out.
\<close>

section \<open>The size of tool arguments\<close>

text \<open>\<open>r\<close> is the length of \<open>repr\<close> of a number.\<close>

definition max_walk_depth :: nat where "max_walk_depth = 48"

definition guarded :: "nat \<Rightarrow> nat \<Rightarrow> nat \<Rightarrow> nat" where
  "guarded limit depth n = (if max_walk_depth < depth then limit + 1 else n)"

fun walk :: "(pyval \<Rightarrow> nat) \<Rightarrow> nat \<Rightarrow> pyval \<Rightarrow> nat \<Rightarrow> nat"
  and walk_dict :: "(pyval \<Rightarrow> nat) \<Rightarrow> nat \<Rightarrow> pyval pydict \<Rightarrow> nat \<Rightarrow> nat \<Rightarrow> nat"
  and walk_list :: "(pyval \<Rightarrow> nat) \<Rightarrow> nat \<Rightarrow> pyval list \<Rightarrow> nat \<Rightarrow> nat \<Rightarrow> nat" where
  "walk r limit PyNone depth = guarded limit depth 4"
| "walk r limit (PyBool b) depth = guarded limit depth (if b then 4 else 5)"
| "walk r limit (PyInt n) depth = guarded limit depth (r (PyInt n))"
| "walk r limit (PyFloat f) depth = guarded limit depth (r (PyFloat f))"
| "walk r limit (PyStr s) depth = guarded limit depth (length s + 2)"
| "walk r limit (PyDict d) depth = (if max_walk_depth < depth then limit + 1 else walk_dict r limit d depth 2)"
| "walk r limit (PyList xs) depth = (if max_walk_depth < depth then limit + 1 else walk_list r limit xs depth 2)"
| "walk_dict r limit [] depth acc = acc"
| "walk_dict r limit ((k, v) # d) depth acc =
     (let acc1 = acc + length k + 4 + walk r limit v (depth + 1)
      in if limit < acc1 then acc1 else walk_dict r limit d depth acc1)"
| "walk_list r limit [] depth acc = acc"
| "walk_list r limit (v # xs) depth acc =
     (let acc1 = acc + walk r limit v (depth + 1) + 1
      in if limit < acc1 then acc1 else walk_list r limit xs depth acc1)"

definition json_payload_over_limit :: "(pyval \<Rightarrow> nat) \<Rightarrow> pyval \<Rightarrow> nat \<Rightarrow> bool" where
  "json_payload_over_limit repr_len v limit \<longleftrightarrow> v \<noteq> PyNone \<and> limit < walk repr_len limit v 0"

definition tool_invoke_arg_limit :: nat where "tool_invoke_arg_limit = 32000"

section \<open>State\<close>

text \<open>
  A run: its flags are those of \<open>take_event\<close>. \<open>rn_bound\<close> says that the task has bound its
  emitter, \<open>rn_called\<close> that its done callbacks have run.
\<close>

datatype run_phase = Run_new | Run_live progress_flags | Run_over turn_end

record run_task =
  rn_thread :: string
  rn_emitter :: nat
  rn_prompt :: content
  rn_summaries :: "summary list"
  rn_phase :: run_phase
  rn_cancel :: bool
  rn_bound :: bool
  rn_called :: bool

record dispatch_state =
  ds_turn :: turn_state
  ds_store :: "mem_store option"
  ds_stage :: stage
  ds_runs :: "run_task list"
  ds_invocations :: "nat list"
  ds_threads :: "(string \<times> nat) list"
  ds_shutdown :: bool

text \<open>\<open>xw_cli\<close> are \<open>CLI_TOOL_NAMES\<close>, \<open>xw_wd\<close> the working directory of invocations.\<close>

record dispatch_world =
  xw_turn :: turn_world
  xw_stage :: stage_world
  xw_session :: string
  xw_wd :: path
  xw_cli :: "string list"
  xw_caps :: "string list"
  xw_repr_len :: "pyval \<Rightarrow> nat"

text \<open>
  The agent is there, is absent and cannot be started, was tried to be started in vain, or
  starting it raised (\<open>MCPConnectionError\<close>, say).
\<close>

datatype agent_answer = Agent_here | Agent_absent | Agent_failed | Agent_raises pyerror

text \<open>A call of the memory, its answer, or the text of its exception.\<close>

datatype 'a answer = No_object | Answered "string + 'a"

record git_status =
  gi_repo :: bool
  gi_branch :: string
  gi_clean :: bool
  gi_staged :: nat
  gi_unstaged :: nat
  gi_untracked :: nat

text \<open>The answers of the git session to its five operations, or the text of an exception.\<close>

record git_session =
  gs_checkpoint :: "string + string"
  gs_diff :: "string + string"
  gs_status :: "string + git_status"
  gs_checkpoints :: "string + (string \<times> string \<times> string) list"
  gs_hint :: "string + string"

record plan_analysis =
  pl_pattern :: string
  pl_complexity :: int
  pl_reasoning :: string
  pl_subtasks :: "(string \<times> string) list"
  pl_harness :: "plan_task list"
  pl_work_kind :: string

datatype plan_answer = Plan_no_config | Plan_no_llm | Plan_result "string + plan_analysis"

record outside =
  ou_agent :: agent_answer
  ou_uid :: string
  ou_model :: "string option"
  ou_root :: path
  ou_saved :: bool
  ou_schema :: "pyval pydict"
  ou_providers :: "provider_row list"
  ou_mcp_error :: "(string \<times> string \<times> string) option"
  ou_tools :: "(string \<times> string option) list"
  ou_tool_call :: "string + pyval"
  ou_config :: "string + string option"
  ou_clear :: "unit answer"
  ou_pop :: "int option answer"
  ou_git :: "git_session option"
  ou_plan :: plan_answer

text \<open>A command: its type, its fields and the names of those that were given (\<open>model_fields_set\<close>).\<close>

record command =
  cm_type :: string
  cm_data :: "pyval pydict"
  cm_given :: "string list"

datatype dispatch_result = Go_on | Shut_down

type_synonym dispatched = "(pyerror + dispatch_result) \<times> dispatch_state"

section \<open>Fields and answers\<close>

definition fld :: "pyval pydict \<Rightarrow> string \<Rightarrow> string" where
  "fld d k = (case get_or_none d k of PyStr s \<Rightarrow> s | _ \<Rightarrow> [])"

definition opt_fld :: "pyval pydict \<Rightarrow> string \<Rightarrow> string option" where
  "opt_fld d k = (case get_or_none d k of PyStr s \<Rightarrow> Some s | _ \<Rightarrow> None)"

definition opt_num :: "pyval pydict \<Rightarrow> string \<Rightarrow> int option" where
  "opt_num d k = (case get_or_none d k of PyInt n \<Rightarrow> Some n | _ \<Rightarrow> None)"

definition opt_map :: "pyval pydict \<Rightarrow> string \<Rightarrow> pyval pydict option" where
  "opt_map d k = (case get_or_none d k of PyDict m \<Rightarrow> Some m | _ \<Rightarrow> None)"

text \<open>\<open>cmd.data.thread or f"..."\<close>.\<close>

definition thread_or :: "pyval pydict \<Rightarrow> string \<Rightarrow> string" where
  "thread_or d other = (if fld d ''thread'' = [] then other else fld d ''thread'')"

definition on_root :: "dispatch_world \<Rightarrow> request list \<Rightarrow> dispatch_state \<Rightarrow> pyerror option \<times> dispatch_state" where
  "on_root X rqs s = (let (r, t) = emit_all (xw_turn X) 0 rqs (ds_turn s) in (r, s\<lparr>ds_turn := t\<rparr>))"

definition reply :: "dispatch_world \<Rightarrow> request list \<Rightarrow> dispatch_state \<Rightarrow> dispatched" where
  "reply X rqs s = (case on_root X rqs s of (Some e, s1) \<Rightarrow> (Inl e, s1) | (None, s1) \<Rightarrow> (Inr Go_on, s1))"

definition transient :: "string \<Rightarrow> string \<Rightarrow> request" where
  "transient msg stage = emit_error ''transient'' msg None (Some stage) False None True"

text \<open>\<open>str(exc)\<close>.\<close>

definition exc_text :: "dispatch_world \<Rightarrow> pyerror \<Rightarrow> string" where
  "exc_text X e = (case e of ValueError m \<Rightarrow> m | _ \<Rightarrow> fst (snd (iw_error (xw_turn X) e)))"

text \<open>\<open>try: emit except Exception as exc: emit the other\<close>.\<close>

definition reply_or :: "dispatch_world \<Rightarrow> request \<Rightarrow> (string \<Rightarrow> request) \<Rightarrow> dispatch_state \<Rightarrow> dispatched" where
  "reply_or X rq other s =
     (case on_root X [rq] s of
        (Some e, s1) \<Rightarrow> reply X [other (exc_text X e)] s1
      | (None, s1) \<Rightarrow> (Inr Go_on, s1))"

definition tool_failed :: "string \<Rightarrow> request" where
  "tool_failed msg = emit_runtime_tool_result False PyNone (Some msg) None"

definition agent_or_skip :: "dispatch_world \<Rightarrow> outside \<Rightarrow> bool \<Rightarrow> dispatch_state \<Rightarrow> (pyerror + bool) \<times> dispatch_state" where
  "agent_or_skip X q emit_on_missing s =
     (case ou_agent q of
        Agent_here \<Rightarrow> (Inr True, s)
      | Agent_failed \<Rightarrow> (Inr False, s)
      | Agent_raises e \<Rightarrow> (Inl e, s)
      | Agent_absent \<Rightarrow>
          if \<not> emit_on_missing then (Inr False, s)
          else (case on_root X [transient (''agent not available '' @ em_dash @ '' no model configured'') ''invoke''] s of
                  (Some e, s1) \<Rightarrow> (Inl e, s1)
                | (None, s1) \<Rightarrow> (Inr False, s1)))"

definition with_agent :: "dispatch_world \<Rightarrow> outside \<Rightarrow> (dispatch_state \<Rightarrow> dispatched) \<Rightarrow> dispatch_state \<Rightarrow> dispatched" where
  "with_agent X q k s =
     (case agent_or_skip X q True s of
        (Inl e, s1) \<Rightarrow> (Inl e, s1)
      | (Inr ok, s1) \<Rightarrow> if ok then k s1 else (Inr Go_on, s1))"

section \<open>Starting and cancelling runs\<close>

definition run_done :: "run_task \<Rightarrow> bool" where
  "run_done r \<longleftrightarrow> (case rn_phase r of Run_over _ \<Rightarrow> True | _ \<Rightarrow> False)"

text \<open>\<open>thread_tasks.get(thread)\<close> is there and not done.\<close>

definition thread_busy :: "string \<Rightarrow> dispatch_state \<Rightarrow> bool" where
  "thread_busy thread s =
     (case map_of (ds_threads s) thread of None \<Rightarrow> False | Some i \<Rightarrow> \<not> run_done (ds_runs s ! i))"

text \<open>\<open>emitter.fork_for_thread(thread)\<close>; the fork gets the next number.\<close>

definition fork_root :: "string \<Rightarrow> dispatch_state \<Rightarrow> (pyerror + nat) \<times> dispatch_state" where
  "fork_root thread s =
     (let t = ds_turn s; (ems, ss) = tu_sys t
      in case fork_for_thread thread (ems ! 0) of
           Inl e \<Rightarrow> (Inl e, s)
         | Inr em \<Rightarrow> (Inr (length ems), s\<lparr>ds_turn := t\<lparr>tu_sys := (ems @ [em], ss)\<rparr>\<rparr>))"

definition create_run :: "string \<Rightarrow> nat \<Rightarrow> content \<Rightarrow> summary list \<Rightarrow> dispatch_state \<Rightarrow> dispatch_state" where
  "create_run thread i prompt us s =
     (let n = length (ds_runs s)
      in s\<lparr>ds_runs := ds_runs s @ [\<lparr>rn_thread = thread, rn_emitter = i, rn_prompt = prompt, rn_summaries = us,
             rn_phase = Run_new, rn_cancel = False, rn_bound = False, rn_called = False\<rparr>],
           ds_invocations := n # ds_invocations s,
           ds_threads := AList.update thread n (ds_threads s)\<rparr>)"

definition attachment_of :: "pyval \<Rightarrow> attachment_in" where
  "attachment_of v =
     (let d = dict_or_empty v
      in \<lparr>ai_name = fld d ''name'', ai_filename = get_or_none d ''filename'', ai_mime_type = fld d ''mime_type'',
          ai_data = fld d ''data_base64''\<rparr>)"

definition attachments_of :: "pyval pydict \<Rightarrow> attachment_in list" where
  "attachments_of d = (case get_or_none d ''attachments'' of PyList vs \<Rightarrow> map attachment_of vs | _ \<Rightarrow> [])"

definition invoke_skipped :: request where
  "invoke_skipped =
     transient (''Invoke skipped '' @ em_dash @ '' the agent never started (missing API keys, unresolved model, or extras). ''
       @ ''Check this terminal for [agloom-runtime] lines.'') ''invoke.skipped''"

definition budget_blocked :: request where
  "budget_blocked =
     transient ''Session budget exhausted (tokens or cost). Raise limits via command.config.set.'' ''budget.blocked''"

definition budget_refuses :: "dispatch_state \<Rightarrow> bool" where
  "budget_refuses s = (case tu_budget (ds_turn s) of None \<Rightarrow> False | Some b \<Rightarrow> \<not> reserve_invoke_slot b)"

definition start_invoke :: "dispatch_world \<Rightarrow> outside \<Rightarrow> pyval pydict \<Rightarrow> string \<Rightarrow> dispatch_state \<Rightarrow> dispatched" where
  "start_invoke X q d thread s =
     (case prepare_invoke_attachments (xw_stage X) (fld d ''prompt'') (attachments_of d) thread (xw_wd X) (ou_model q)
             (ds_stage s) of
        (Inl e, g) \<Rightarrow>
          (case e of
             ValueError m \<Rightarrow> reply X [transient m ''invoke.attachments''] (s\<lparr>ds_stage := g\<rparr>)
           | _ \<Rightarrow> (Inl e, s\<lparr>ds_stage := g\<rparr>))
      | (Inr (prompt, us), g) \<Rightarrow>
          (case fork_root thread (s\<lparr>ds_stage := g\<rparr>) of
             (Inl e, s1) \<Rightarrow> (Inl e, s1)
           | (Inr i, s1) \<Rightarrow> (Inr Go_on, create_run thread i prompt us s1)))"

definition dispatch_invoke :: "dispatch_world \<Rightarrow> outside \<Rightarrow> pyval pydict \<Rightarrow> dispatch_state \<Rightarrow> dispatched" where
  "dispatch_invoke X q d s =
     (case agent_or_skip X q True s of
        (Inl e, s1) \<Rightarrow> (Inl e, s1)
      | (Inr False, s1) \<Rightarrow> reply X [invoke_skipped] s1
      | (Inr True, s1) \<Rightarrow>
          (let thread = thread_or d (''thread_'' @ take 16 (ou_uid q))
           in if budget_refuses s1 then reply X [budget_blocked] s1
              else if thread_busy thread s1
              then reply X [transient (''command.invoke already running for thread '' @ py_quote thread) ''invoke.concurrent''] s1
              else start_invoke X q d thread s1))"

definition dispatch_worker_assign :: "dispatch_world \<Rightarrow> outside \<Rightarrow> pyval pydict \<Rightarrow> dispatch_state \<Rightarrow> dispatched" where
  "dispatch_worker_assign X q d =
     with_agent X q (\<lambda>s.
       let thread = thread_or d (''wt_'' @ take 12 (ou_uid q)); w = fld d ''worker_id''
       in if thread_busy thread s
          then reply X [transient (''command.worker.assign already running for thread '' @ py_quote thread) ''worker.concurrent''] s
          else case fork_root thread s of
                 (Inl e, s1) \<Rightarrow> (Inl e, s1)
               | (Inr i, s1) \<Rightarrow>
                   (let rq = emit_worker_spawned w (Some w) (opt_fld d ''pattern'') (Some (fld d ''task'')) None None
                    in case emit_on (xw_turn X) i rq (ds_turn s1) of
                         (Some e, t) \<Rightarrow> (Inl e, s1\<lparr>ds_turn := t\<rparr>)
                       | (None, t) \<Rightarrow> (Inr Go_on, create_run thread i (Plain (fld d ''task'')) [] (s1\<lparr>ds_turn := t\<rparr>))))"

text \<open>\<open>prepare_invocation_cancel\<close> and \<open>task.cancel()\<close> for a task that is not done.\<close>

definition cancel_run :: "nat \<Rightarrow> dispatch_state \<Rightarrow> dispatch_state" where
  "cancel_run i s =
     (if run_done (ds_runs s ! i) then s
      else s\<lparr>ds_turn := (ds_turn s)\<lparr>tu_bridge := prepare_invocation_cancel i Reason_user (tu_bridge (ds_turn s))\<rparr>,
             ds_runs := (ds_runs s)[i := (ds_runs s ! i)\<lparr>rn_cancel := True\<rparr>]\<rparr>)"

definition on_bridge :: "(bridge \<Rightarrow> 'a \<times> bridge) \<Rightarrow> dispatch_state \<Rightarrow> 'a \<times> dispatch_state" where
  "on_bridge f s =
     (let t = ds_turn s; (x, b) = f (tu_bridge t) in (x, s\<lparr>ds_turn := t\<lparr>tu_bridge := b\<rparr>\<rparr>))"

definition dispatch_cancel :: "pyval pydict \<Rightarrow> dispatch_state \<Rightarrow> dispatched" where
  "dispatch_cancel d s =
     (case opt_fld d ''thread'' of
        Some thread \<Rightarrow>
          (Inr Go_on,
           if thread_busy thread s
           then snd (on_bridge (cancel_for_thread thread) (cancel_run (the (map_of (ds_threads s) thread)) s)) else s)
      | None \<Rightarrow>
          (Inr Go_on, snd (on_bridge cancel_all (fold cancel_run (remdups (ds_invocations s @ map snd (ds_threads s))) s))))"

definition dispatch_hitl_respond :: "pyval pydict \<Rightarrow> dispatch_state \<Rightarrow> dispatched" where
  "dispatch_hitl_respond d s =
     (Inr Go_on, snd (on_bridge (respond (fld d ''request_id'') (fld d ''decision'') (opt_fld d ''text'') (fld d ''actor'')) s))"

section \<open>The session and its store\<close>

fun replay_all :: "event list \<Rightarrow> emitter \<times> session \<Rightarrow> pyerror + session" where
  "replay_all [] st = Inr (snd st)"
| "replay_all (e # es) st =
     (case write_replay_dict e st of Inl err \<Rightarrow> Inl err | Inr ss \<Rightarrow> replay_all es (fst st, ss))"

definition put_sys :: "sys \<Rightarrow> dispatch_state \<Rightarrow> dispatch_state" where
  "put_sys sy s = s\<lparr>ds_turn := (ds_turn s)\<lparr>tu_sys := sy\<rparr>\<rparr>"

definition resume_root :: "dispatch_world \<Rightarrow> string \<Rightarrow> int option \<Rightarrow> dispatch_state \<Rightarrow> pyerror option \<times> dispatch_state" where
  "resume_root X thread from_seq s =
     (let sy = tu_sys (ds_turn s)
      in case resume_session (hw_mint (iw_hitl (xw_turn X))) (iw_version (xw_turn X)) None (Some thread) from_seq
                (fst sy ! 0, snd sy) of
           Inl e \<Rightarrow> (Some e, s)
         | Inr (_, st) \<Rightarrow> (None, put_sys (put_emitter 0 st sy) s))"

definition dispatch_session_resume :: "dispatch_world \<Rightarrow> pyval pydict \<Rightarrow> dispatch_state \<Rightarrow> dispatched" where
  "dispatch_session_resume X d s =
     (let from_seq = max 0 (case opt_num d ''from_seq'' of None \<Rightarrow> 0 | Some n \<Rightarrow> n); thread = fld d ''thread''
      in case ds_store s of
           None \<Rightarrow>
             (case resume_root X thread None s of (Some e, s1) \<Rightarrow> (Inl e, s1) | (None, s1) \<Rightarrow> (Inr Go_on, s1))
         | Some st \<Rightarrow>
             (case mem_max_seq (xw_session X) st of
                Inl e \<Rightarrow> (Inl e, s)
              | Inr n \<Rightarrow>
                  (let sy = tu_sys (ds_turn s); s0 = put_sys (fst sy, seq_seed n (snd sy)) s
                   in case resume_root X thread (if 0 < from_seq then Some from_seq else None) s0 of
                        (Some e, s1) \<Rightarrow> (Inl e, s1)
                      | (None, s1) \<Rightarrow>
                          (case mem_replay (xw_session X) from_seq st of
                             Inl e \<Rightarrow> (Inl e, s1)
                           | Inr es \<Rightarrow>
                               (let sy1 = tu_sys (ds_turn s1)
                                in case replay_all es (fst sy1 ! 0, snd sy1) of
                                     Inl e \<Rightarrow> (Inl e, s1)
                                   | Inr ss \<Rightarrow> (Inr Go_on, put_sys (fst sy1, ss) s1))))))"

definition dispatch_subscribe :: "pyval pydict \<Rightarrow> dispatch_state \<Rightarrow> dispatched" where
  "dispatch_subscribe d s =
     (let prefixes = (case get_or_none d ''prefixes'' of PyList vs \<Rightarrow> [p. PyStr p \<leftarrow> vs] | _ \<Rightarrow> []); sy = tu_sys (ds_turn s)
      in (Inr Go_on,
          put_sys (fst sy, set_subscription_prefixes (if prefixes = [] then None else Some prefixes) (snd sy)) s))"

definition dispatch_unsubscribe :: "dispatch_state \<Rightarrow> dispatched" where
  "dispatch_unsubscribe s =
     (let sy = tu_sys (ds_turn s) in (Inr Go_on, put_sys (fst sy, clear_subscription (snd sy)) s))"

definition dispatch_session_list :: "dispatch_world \<Rightarrow> dispatch_state \<Rightarrow> dispatched" where
  "dispatch_session_list X s =
     (case ds_store s of
        None \<Rightarrow> reply X [transient ''command.session.list requires --store'' ''session.list'', emit_runtime_sessions [] None] s
      | Some st \<Rightarrow> reply X [emit_runtime_sessions (mem_list_session_ids st) None] s)"

definition dispatch_session_create :: "dispatch_world \<Rightarrow> outside \<Rightarrow> pyval pydict \<Rightarrow> dispatch_state \<Rightarrow> dispatched" where
  "dispatch_session_create X q d =
     reply X [emit_runtime_session_created
                (if fld d ''session_id'' = [] then ''sess_'' @ take 16 (ou_uid q) else fld d ''session_id'') None]"

definition dispatch_session_delete :: "dispatch_world \<Rightarrow> pyval pydict \<Rightarrow> dispatch_state \<Rightarrow> dispatched" where
  "dispatch_session_delete X d s =
     (case ds_store s of
        None \<Rightarrow> reply X [transient ''command.session.delete requires --store'' ''session.delete''] s
      | Some st \<Rightarrow>
          (let target = py_strip (fld d ''session_id'')
           in if target \<noteq> xw_session X
              then reply X [transient (''command.session.delete refused: session_id '' @ py_quote target
                     @ '' does not match active session '' @ py_quote (xw_session X)) ''session.delete''] s
              else (Inr Go_on, s\<lparr>ds_store := Some (mem_clear target st)\<rparr>)))"

definition dispatch_session_rename :: "dispatch_world \<Rightarrow> pyval pydict \<Rightarrow> dispatch_state \<Rightarrow> dispatched" where
  "dispatch_session_rename X d s =
     (case ds_store s of
        None \<Rightarrow> reply X [transient ''command.session.rename requires --store'' ''session.rename''] s
      | Some st \<Rightarrow>
          (let fr = py_strip (fld d ''from_session_id''); target = py_strip (fld d ''to_session_id'')
           in if fr \<noteq> xw_session X
              then reply X [transient (''command.session.rename refused: from_session_id '' @ py_quote fr
                     @ '' does not match active session '' @ py_quote (xw_session X)) ''session.rename''] s
              else if fr \<noteq> [] \<and> target \<noteq> [] \<and> fr \<noteq> target
              then (case mem_rename fr target st of
                      Inl e \<Rightarrow> (Inl e, s)
                    | Inr st1 \<Rightarrow>
                        reply X [emit_runtime_session_renamed fr target None, emit_runtime_sessions (mem_list_session_ids st1) None]
                          (s\<lparr>ds_store := Some st1\<rparr>))
              else (Inr Go_on, s)))"

section \<open>The agent and its tools\<close>

definition dispatch_feedback :: "dispatch_world \<Rightarrow> outside \<Rightarrow> pyval pydict \<Rightarrow> dispatch_state \<Rightarrow> dispatched" where
  "dispatch_feedback X q d =
     with_agent X q (reply X [emit_feedback_scored (fld d ''run_id'') (fld d ''rating'') (fld d ''comment'') (fld d ''correct'')
                                (opt_map d ''metadata'') None])"

text \<open>\<open>ou_saved\<close>: there is a checkpointer and saving did not raise. The handler swallows exceptions.\<close>

definition dispatch_snapshot :: "dispatch_world \<Rightarrow> outside \<Rightarrow> pyval pydict \<Rightarrow> dispatch_state \<Rightarrow> dispatched" where
  "dispatch_snapshot X q d =
     with_agent X q (\<lambda>s.
       if ou_saved q
       then (Inr Go_on, snd (on_root X [emit_checkpoint_saved (thread_or d (xw_session X)) None (opt_fld d ''label'') None] s))
       else (Inr Go_on, s))"

definition dispatch_tool_list :: "dispatch_world \<Rightarrow> outside \<Rightarrow> dispatch_state \<Rightarrow> dispatched" where
  "dispatch_tool_list X q =
     with_agent X q
       (case ou_mcp_error q of
          Some (cls, msg, rep) \<Rightarrow>
            reply X [emit_error ''transient'' (if blank msg then rep else py_strip msg) (Some cls) (Some ''mcp.tool_list'')
                       False None True]
        | None \<Rightarrow>
            reply X [emit_runtime_tools (map (\<lambda>(n, ds). (n, case ds of Some t \<Rightarrow> non_empty t | None \<Rightarrow> None)) (ou_tools q)) None])"

definition dispatch_tool_invoke :: "dispatch_world \<Rightarrow> outside \<Rightarrow> pyval pydict \<Rightarrow> dispatch_state \<Rightarrow> dispatched" where
  "dispatch_tool_invoke X q d =
     with_agent X q
       (if json_payload_over_limit (xw_repr_len X) (get_or_none d ''arguments'') tool_invoke_arg_limit
        then reply X [tool_failed ''arguments too large'']
        else if fld d ''name'' \<notin> set (map fst (ou_tools q)) then reply X [tool_failed ''unknown_tool'']
        else case ou_tool_call q of
               Inl m \<Rightarrow> reply X [tool_failed m]
             | Inr v \<Rightarrow> reply_or X (emit_runtime_tool_result True v None None) tool_failed)"

text \<open>The decoder of \<open>base64.b64decode\<close> without \<open>validate\<close>: other characters are skipped.\<close>

fun a2b :: "nat \<Rightarrow> nat \<Rightarrow> nat \<Rightarrow> string \<Rightarrow> string \<Rightarrow> string + string" where
  "a2b n pads rest acc [] =
     (if n = 0 then Inr (rev acc)
      else if n = 1
      then Inl (''Invalid base64-encoded string: number of data characters ('' @ digits (length acc div 3 * 4 + 1)
             @ '') cannot be 1 more than a multiple of 4'')
      else Inl ''Incorrect padding'')"
| "a2b n pads rest acc (c # cs) =
     (if c = CHR ''='' then
        (if 2 \<le> n \<and> 4 \<le> n + pads + 1 then Inr (rev acc) else a2b n (if 2 \<le> n then pads + 1 else pads) rest acc cs)
      else case b64_value c of
             None \<Rightarrow> a2b n pads rest acc cs
           | Some v \<Rightarrow>
               if n = 0 then a2b 1 0 v acc cs
               else if n = 1 then a2b 2 0 (v mod 16) (byte_of (rest * 4 + v div 16) # acc) cs
               else if n = 2 then a2b 3 0 (v mod 4) (byte_of (rest * 16 + v div 4) # acc) cs
               else a2b 0 0 0 (byte_of (rest * 64 + v) # acc) cs)"

definition lenient_b64decode :: "string \<Rightarrow> string + string" where
  "lenient_b64decode t =
     (if list_all ascii t then a2b 0 0 0 [] t else Inl ''string argument should contain only ASCII characters'')"

definition dispatch_attach_file :: "dispatch_world \<Rightarrow> outside \<Rightarrow> pyval pydict \<Rightarrow> dispatch_state \<Rightarrow> dispatched" where
  "dispatch_attach_file X q d =
     with_agent X q (\<lambda>s.
       case lenient_b64decode (py_strip (fld d ''content_base64'')) of
         Inl m \<Rightarrow> reply X [transient (''invalid base64 attachment: '' @ m) ''attach.file''] s
       | Inr raw \<Rightarrow>
           (case stage_attached_bytes (xw_stage X) (ou_root q) (ou_uid q) (fld d ''filename'') raw (ds_stage s) of
              (Inl e, g) \<Rightarrow> reply X [transient (exc_text X e) ''attach.file''] (s\<lparr>ds_stage := g\<rparr>)
            | (Inr (rel, n), g) \<Rightarrow>
                reply X [emit_runtime_file_staged rel (int n) (opt_fld d ''thread'') None] (s\<lparr>ds_stage := g\<rparr>)))"

section \<open>Configuration\<close>

definition positive_num :: "pyval \<Rightarrow> bool" where
  "positive_num v = (case v of PyInt n \<Rightarrow> 0 < n | PyFloat f \<Rightarrow> float_pos f | _ \<Rightarrow> False)"

text \<open>The limit to pass on: \<open>None\<close> is \<open>_UNSET\<close>, \<open>PyNone\<close> clears the limit.\<close>

definition limit_patch :: "command \<Rightarrow> string \<Rightarrow> pyval option" where
  "limit_patch c k =
     (if k \<notin> set (cm_given c) then None
      else let v = get_or_none (cm_data c) k in Some (if positive_num v then v else PyNone))"

definition patch_budget :: "command \<Rightarrow> budget \<Rightarrow> pyerror + budget" where
  "patch_budget c b =
     (let tok = limit_patch c ''budget_token_limit''; cst = limit_patch c ''budget_cost_usd_limit''
      in if tok = None \<and> cst = None then Inr b else patch_limits (\<lambda>_. None) (\<lambda>_. None) tok cst b)"

definition cli_metrics :: "dispatch_world \<Rightarrow> outside \<Rightarrow> bool \<times> int" where
  "cli_metrics X q =
     (let n = length (filter (\<lambda>t. t \<in> set (xw_cli X)) (remdups (map fst (ou_tools q)))) in (0 < n, int n))"

text \<open>
  \<open>ou_config\<close> is the text of an exception while the configuration is changed, or the name of the
  model afterwards. The marker of the session is a file and is left out.
\<close>

definition dispatch_config_set :: "dispatch_world \<Rightarrow> outside \<Rightarrow> command \<Rightarrow> dispatch_state \<Rightarrow> dispatched" where
  "dispatch_config_set X q c =
     with_agent X q (\<lambda>s.
       case ou_config q of
         Inl m \<Rightarrow> reply X [transient m ''config.set''] s
       | Inr name \<Rightarrow>
           (case (case tu_budget (ds_turn s) of None \<Rightarrow> Inr None | Some b \<Rightarrow> map_sum id Some (patch_budget c b)) of
              Inl e \<Rightarrow> (Inl e, s)
            | Inr b \<Rightarrow>
                (let (on, n) = cli_metrics X q; given = fld (cm_data c) ''model_id'';
                     model = (case name of Some m \<Rightarrow> if m = [] then given else m | None \<Rightarrow> given)
                 in reply X [emit_runtime_config_applied (non_empty model) (Some on) (Some n) None,
                             emit_runtime_config (xw_caps X) (Some model) (Some (map fst (ou_tools q))) None (Some on) (Some n) None]
                      (s\<lparr>ds_turn := (ds_turn s)\<lparr>tu_budget := b\<rparr>\<rparr>))))"

section \<open>Memory\<close>

text \<open>The thread of a memory command, unless it is refused.\<close>

definition memory_target :: "pyval pydict \<Rightarrow> dispatch_state \<Rightarrow> string \<Rightarrow> string \<Rightarrow> string + string" where
  "memory_target d s cmd busy =
     (let target = thread_or d (em_thread (fst (tu_sys (ds_turn s)) ! 0))
      in if target = [] then Inl (cmd @ '' requires data.thread'')
         else if thread_busy target s then Inl (busy @ '' while invoke is running for thread '' @ py_quote target)
         else Inr target)"

definition reply_on_fork :: "dispatch_world \<Rightarrow> string \<Rightarrow> request \<Rightarrow> dispatch_state \<Rightarrow> dispatched" where
  "reply_on_fork X thread rq s =
     (case fork_root thread s of
        (Inl e, s1) \<Rightarrow> (Inl e, s1)
      | (Inr i, s1) \<Rightarrow>
          (case emit_on (xw_turn X) i rq (ds_turn s1) of
             (Some e, t) \<Rightarrow> (Inl e, s1\<lparr>ds_turn := t\<rparr>)
           | (None, t) \<Rightarrow> (Inr Go_on, s1\<lparr>ds_turn := t\<rparr>)))"

definition no_memory :: "string \<Rightarrow> request" where
  "no_memory = transient ''agent has no session memory configured''"

definition dispatch_memory_clear :: "dispatch_world \<Rightarrow> outside \<Rightarrow> pyval pydict \<Rightarrow> dispatch_state \<Rightarrow> dispatched" where
  "dispatch_memory_clear X q d =
     with_agent X q (\<lambda>s.
       case ou_clear q of
         No_object \<Rightarrow> reply X [no_memory ''memory.clear''] s
       | Answered r \<Rightarrow>
           (case memory_target d s ''command.memory.clear'' ''cannot clear session memory'' of
              Inl m \<Rightarrow> reply X [transient m ''memory.clear''] s
            | Inr target \<Rightarrow>
                (case r of
                   Inl m \<Rightarrow> reply X [transient m ''memory.clear''] s
                 | Inr _ \<Rightarrow> reply_on_fork X target (emit_memory_session_cleared target None) s)))"

definition dispatch_memory_pop :: "dispatch_world \<Rightarrow> outside \<Rightarrow> pyval pydict \<Rightarrow> dispatch_state \<Rightarrow> dispatched" where
  "dispatch_memory_pop X q d =
     with_agent X q (\<lambda>s.
       case ou_pop q of
         No_object \<Rightarrow> reply X [no_memory ''memory.pop_last_turn''] s
       | Answered r \<Rightarrow>
           (case memory_target d s ''command.memory.pop_last_turn'' ''cannot pop session turn'' of
              Inl m \<Rightarrow> reply X [transient m ''memory.pop_last_turn''] s
            | Inr target \<Rightarrow>
                (case r of
                   Inl m \<Rightarrow> reply X [transient m ''memory.pop_last_turn''] s
                 | Inr None \<Rightarrow>
                     reply X [transient ''nothing to undo (no session turns for this thread)'' ''memory.pop_last_turn''] s
                 | Inr (Some n) \<Rightarrow> reply_on_fork X target (emit_memory_session_turn_popped target n None) s)))"

section \<open>Repository and plans\<close>

definition bool_str :: "bool \<Rightarrow> string" where
  "bool_str b = (if b then ''True'' else ''False'')"

definition status_text :: "git_status \<Rightarrow> string" where
  "status_text g =
     (if \<not> gi_repo g then ''Not a git repository.''
      else join_with line_feed
        [''branch='' @ gi_branch g, ''clean='' @ bool_str (gi_clean g), ''staged='' @ digits (gi_staged g),
         ''unstaged='' @ digits (gi_unstaged g), ''untracked='' @ digits (gi_untracked g)])"

definition checkpoint_line :: "string \<times> string \<times> string \<Rightarrow> string" where
  "checkpoint_line c =
     (case c of (name, hash, description) \<Rightarrow>
        name @ '' @ '' @ take 7 hash @ '' '' @ em_dash @ '' '' @ take 120 description)"

text \<open>What an operation reports, or the text of an exception.\<close>

definition git_report :: "string \<Rightarrow> git_session \<Rightarrow> string + bool \<times> string" where
  "git_report op g =
     (if op = ''checkpoint'' then
        map_sum id (\<lambda>tag. (tag \<noteq> [], if tag \<noteq> [] then ''Checkpoint tag: '' @ tag else ''Checkpoint failed'')) (gs_checkpoint g)
      else if op = ''diff'' then map_sum id (Pair True) (gs_diff g)
      else if op = ''status'' then map_sum id (\<lambda>st. (True, status_text st)) (gs_status g)
      else if op = ''checkpoints'' then
        map_sum id (\<lambda>cs. (True, if cs = [] then ''(no checkpoints)''
                                  else join_with line_feed (map checkpoint_line (take 30 cs)))) (gs_checkpoints g)
      else if op = ''revert_hint'' then map_sum id (\<lambda>h. (True, if h = [] then ''(no hint)'' else h)) (gs_hint g)
      else Inl (''unknown harness git op: '' @ py_quote op))"

definition dispatch_harness_git :: "dispatch_world \<Rightarrow> outside \<Rightarrow> pyval pydict \<Rightarrow> dispatch_state \<Rightarrow> dispatched" where
  "dispatch_harness_git X q d =
     with_agent X q
       (case ou_git q of
          None \<Rightarrow>
            reply X [tool_failed (''harness/git unavailable (requires agent store + harness '' @ em_dash @ '' omit --no-harness)'')]
        | Some g \<Rightarrow>
            (case git_report (fld d ''op'') g of
               Inl m \<Rightarrow> reply X [tool_failed m]
             | Inr (ok, t) \<Rightarrow> reply_or X (emit_runtime_tool_result ok (PyStr t) None None) tool_failed))"

definition plan_steps :: "plan_analysis \<Rightarrow> string list" where
  "plan_steps a =
     (let steps = map (\<lambda>(i, w, t). digits (i + 1) @ ''. ['' @ w @ ''] '' @ t)
                    (zip [0..<length (pl_subtasks a)] (pl_subtasks a))
            @ map (\<lambda>(i, p). ''H'' @ digits (i + 1) @ ''. ['' @ pt_task_id p @ ''] '' @ pt_description p)
                (zip [0..<length (pl_harness a)] (pl_harness a))
      in if steps = [] then [''1. Run as '' @ pl_pattern a @ '' (no worker subtasks returned).''] else steps)"

definition plan_unavailable :: string where
  "plan_unavailable =
     ''plan.preview requires a running agent (model + credentials). Bootstrap the session first; ''
     @ ''if the agent never started, check API keys and model flags.''"

definition dispatch_plan_preview :: "dispatch_world \<Rightarrow> outside \<Rightarrow> pyval pydict \<Rightarrow> dispatch_state \<Rightarrow> dispatched" where
  "dispatch_plan_preview X q d s =
     (let fail = (\<lambda>m. transient m ''plan.preview'')
      in if blank (fld d ''prompt'') then reply X [fail ''command.plan.preview requires a non-empty prompt''] s
         else case agent_or_skip X q False s of
                (Inl e, s1) \<Rightarrow> (Inl e, s1)
              | (Inr False, s1) \<Rightarrow> reply X [fail plan_unavailable] s1
              | (Inr True, s1) \<Rightarrow>
                  (case ou_plan q of
                     Plan_no_config \<Rightarrow> reply X [fail ''agent is missing a config dict (cannot run plan preview)''] s1
                   | Plan_no_llm \<Rightarrow> reply X [fail ''no LLM configured''] s1
                   | Plan_result (Inl m) \<Rightarrow> reply X [fail m] s1
                   | Plan_result (Inr a) \<Rightarrow>
                       reply_or X (emit_plan_preview (pl_pattern a) (pl_complexity a) (pl_reasoning a) (Some (plan_steps a))
                                     (non_empty (py_strip (pl_work_kind a))) (Some (pl_harness a)) None) fail s1))"

section \<open>The dispatcher\<close>

definition dispatch_shutdown :: "dispatch_state \<Rightarrow> dispatched" where
  "dispatch_shutdown s = (Inr Shut_down, s\<lparr>ds_shutdown := True\<rparr>)"

definition dispatch_table :: "dispatch_world \<Rightarrow> outside \<Rightarrow> command \<Rightarrow> (string \<times> (dispatch_state \<Rightarrow> dispatched)) list" where
  "dispatch_table X q c =
     (let d = cm_data c
      in [(''command.runtime.shutdown'', dispatch_shutdown), (''command.hitl.respond'', dispatch_hitl_respond d),
          (''command.invoke'', dispatch_invoke X q d), (''command.cancel'', dispatch_cancel d),
          (''command.worker.assign'', dispatch_worker_assign X q d), (''command.session.resume'', dispatch_session_resume X d),
          (''command.feedback'', dispatch_feedback X q d), (''command.snapshot.request'', dispatch_snapshot X q d),
          (''command.ping'', reply X [emit_runtime_pong (opt_fld d ''ping_id'') None]),
          (''command.schema.request'', reply X [emit_runtime_schema (ou_schema q) None]),
          (''command.providers.list'', reply X [emit_runtime_providers (ou_providers q) None]),
          (''command.tool.list'', dispatch_tool_list X q), (''command.subscribe'', dispatch_subscribe d),
          (''command.unsubscribe'', dispatch_unsubscribe), (''command.session.list'', dispatch_session_list X),
          (''command.session.create'', dispatch_session_create X q d), (''command.session.delete'', dispatch_session_delete X d),
          (''command.session.rename'', dispatch_session_rename X d), (''command.attach.file'', dispatch_attach_file X q d),
          (''command.tool.invoke'', dispatch_tool_invoke X q d), (''command.config.set'', dispatch_config_set X q c),
          (''command.memory.clear'', dispatch_memory_clear X q d), (''command.memory.pop_last_turn'', dispatch_memory_pop X q d),
          (''command.harness.git'', dispatch_harness_git X q d), (''command.plan.preview'', dispatch_plan_preview X q d)])"

definition dispatch_command :: "dispatch_world \<Rightarrow> outside \<Rightarrow> command \<Rightarrow> dispatch_state \<Rightarrow> dispatched" where
  "dispatch_command X q c s =
     (case map_of (dispatch_table X q c) (cm_type c) of Some h \<Rightarrow> h s | None \<Rightarrow> (Inr Go_on, s))"

section \<open>The tasks of the runs\<close>

definition invocation_of :: "nat \<Rightarrow> run_task \<Rightarrow> stream_end \<Rightarrow> int \<Rightarrow> string \<Rightarrow> invocation" where
  "invocation_of i r e ms uid =
     \<lparr>iv_task = i, iv_emitter = rn_emitter r, iv_prompt = rn_prompt r, iv_summaries = rn_summaries r, iv_stream = [],
      iv_end = e, iv_elapsed = ms, iv_uid = uid\<rparr>"

definition put_run :: "nat \<Rightarrow> run_task \<Rightarrow> turn_state \<Rightarrow> dispatch_state \<Rightarrow> dispatch_state" where
  "put_run i r t s = s\<lparr>ds_turn := t, ds_runs := (ds_runs s)[i := r]\<rparr>"

text \<open>
  The first step of a task: a task that was cancelled before ends at once, without its body
  (\<open>asyncio\<close> throws \<open>CancelledError\<close> into a coroutine that has not begun).
\<close>

definition run_start :: "dispatch_world \<Rightarrow> nat \<Rightarrow> dispatch_state \<Rightarrow> dispatch_state" where
  "run_start X i s =
     (let r = ds_runs s ! i; t = ds_turn s; v = invocation_of i r Stream_ended 0 []
      in if rn_phase r \<noteq> Run_new then s
         else if rn_cancel r then put_run i (r\<lparr>rn_phase := Run_over Turn_cancelled\<rparr>) t s
         else let t1 = t\<lparr>tu_bridge := bind_task_emitter i (rn_emitter r) (rn_thread r) (tu_bridge t)\<rparr>; r1 = r\<lparr>rn_bound := True\<rparr>
              in case open_on (xw_turn X) (rn_emitter r) t1 of
                   (Some e, t2) \<Rightarrow> put_run i (r1\<lparr>rn_phase := Run_over (Turn_raised e)\<rparr>) t2 s
                 | (None, t2) \<Rightarrow>
                     (case emit_all (xw_turn X) (rn_emitter r) (opening_requests v t2) t2 of
                        (Some e, t3) \<Rightarrow> put_run i (r1\<lparr>rn_phase := Run_over (Turn_raised e)\<rparr>) t3 s
                      | (None, t3) \<Rightarrow> put_run i (r1\<lparr>rn_phase := Run_live (False, None)\<rparr>) t3 s))"

text \<open>One event of the agent.\<close>

definition run_event ::
    "dispatch_world \<Rightarrow> nat \<Rightarrow> string \<times> pyval pydict \<Rightarrow> string \<Rightarrow> int \<Rightarrow> dispatch_state \<Rightarrow> dispatch_state" where
  "run_event X i ev uid ms s =
     (let r = ds_runs s ! i; v = invocation_of i r Stream_ended ms uid
      in case rn_phase r of
           Run_live f \<Rightarrow>
             (case take_event (xw_turn X) v ev f (ds_turn s) of
                (Inr f1, t) \<Rightarrow> put_run i (r\<lparr>rn_phase := Run_live f1\<rparr>) t s
              | (Inl e, t) \<Rightarrow>
                  (let (y, t1) = turn_on_error (xw_turn X) v (iw_error (xw_turn X) e) t
                   in put_run i (r\<lparr>rn_phase := Run_over y\<rparr>) t1 s))
         | _ \<Rightarrow> s)"

text \<open>The end of the agent's stream.\<close>

definition run_end :: "dispatch_world \<Rightarrow> nat \<Rightarrow> stream_end \<Rightarrow> int \<Rightarrow> dispatch_state \<Rightarrow> dispatch_state" where
  "run_end X i e ms s =
     (let r = ds_runs s ! i; v = invocation_of i r e ms []
      in case rn_phase r of
           Run_live f \<Rightarrow>
             (let (y, t) = (case e of
                  Stream_ended \<Rightarrow> turn_on_success (xw_turn X) v f (ds_turn s)
                | Stream_raised cls msg rep \<Rightarrow> turn_on_error (xw_turn X) v (cls, msg, rep) (ds_turn s)
                | Stream_cancelled \<Rightarrow> turn_on_cancel (xw_turn X) v (ds_turn s))
              in put_run i (r\<lparr>rn_phase := Run_over y\<rparr>) t s)
         | _ \<Rightarrow> s)"

text \<open>The done callbacks: \<open>_on_done_invocation\<close> (or \<open>_on_done_worker\<close>), then the one of the bridge.\<close>

definition run_callbacks :: "nat \<Rightarrow> dispatch_state \<Rightarrow> dispatch_state" where
  "run_callbacks i s =
     (let r = ds_runs s ! i; t = ds_turn s
      in if \<not> run_done r \<or> rn_called r then s
         else s\<lparr>ds_turn := (if rn_bound r then t\<lparr>tu_bridge := task_done i (tu_bridge t)\<rparr> else t),
                ds_runs := (ds_runs s)[i := r\<lparr>rn_called := True\<rparr>],
                ds_invocations := filter (\<lambda>j. j \<noteq> i) (ds_invocations s),
                ds_threads := AList.delete (rn_thread r) (ds_threads s)\<rparr>)"

text \<open>What happens to a session: commands, steps of tasks, and steps of waiting gates.\<close>

datatype dispatch_op =
    D_command outside command
  | D_start nat
  | D_event nat "string \<times> pyval pydict" string int
  | D_end nat stream_end int
  | D_callbacks nat
  | D_gate bridge_op

definition dispatch_step :: "dispatch_world \<Rightarrow> dispatch_op \<Rightarrow> dispatch_state \<Rightarrow> dispatch_state" where
  "dispatch_step X op s =
     (let n = length (ds_runs s)
      in case op of
           D_command q c \<Rightarrow> snd (dispatch_command X q c s)
         | D_start i \<Rightarrow> if i < n then run_start X i s else s
         | D_event i ev uid ms \<Rightarrow> if i < n then run_event X i ev uid ms s else s
         | D_end i e ms \<Rightarrow> if i < n then run_end X i e ms s else s
         | D_callbacks i \<Rightarrow> if i < n then run_callbacks i s else s
         | D_gate g \<Rightarrow>
             (let t = ds_turn s; (_, b, sy) = bridge_step (iw_hitl (xw_turn X)) (iw_version (xw_turn X)) g (tu_bridge t, tu_sys t)
              in s\<lparr>ds_turn := t\<lparr>tu_bridge := b, tu_sys := sy\<rparr>\<rparr>))"

section \<open>What a payload weighs\<close>

text \<open>The depth and the size of a value, without limits.\<close>

fun nesting :: "pyval \<Rightarrow> nat" and dict_nesting :: "pyval pydict \<Rightarrow> nat" and list_nesting :: "pyval list \<Rightarrow> nat" where
  "nesting PyNone = 0"
| "nesting (PyBool b) = 0"
| "nesting (PyInt n) = 0"
| "nesting (PyFloat f) = 0"
| "nesting (PyStr s) = 0"
| "nesting (PyDict d) = dict_nesting d"
| "nesting (PyList xs) = list_nesting xs"
| "dict_nesting [] = 0"
| "dict_nesting ((k, v) # d) = max (nesting v + 1) (dict_nesting d)"
| "list_nesting [] = 0"
| "list_nesting (v # xs) = max (nesting v + 1) (list_nesting xs)"

fun weight :: "(pyval \<Rightarrow> nat) \<Rightarrow> pyval \<Rightarrow> nat"
  and dict_weight :: "(pyval \<Rightarrow> nat) \<Rightarrow> pyval pydict \<Rightarrow> nat"
  and list_weight :: "(pyval \<Rightarrow> nat) \<Rightarrow> pyval list \<Rightarrow> nat" where
  "weight r PyNone = 4"
| "weight r (PyBool b) = (if b then 4 else 5)"
| "weight r (PyInt n) = r (PyInt n)"
| "weight r (PyFloat f) = r (PyFloat f)"
| "weight r (PyStr s) = length s + 2"
| "weight r (PyDict d) = 2 + dict_weight r d"
| "weight r (PyList xs) = 2 + list_weight r xs"
| "dict_weight r [] = 0"
| "dict_weight r ((k, v) # d) = length k + 4 + weight r v + dict_weight r d"
| "list_weight r [] = 0"
| "list_weight r (v # xs) = weight r v + 1 + list_weight r xs"

text \<open>\<open>m\<close> is the walk over something of weight \<open>w\<close> that is too deep or not.\<close>

definition measured :: "nat \<Rightarrow> bool \<Rightarrow> nat \<Rightarrow> nat \<Rightarrow> bool" where
  "measured limit deep w m \<longleftrightarrow> (if deep \<or> limit < w then limit < m else m = w)"

lemma walk_measured:
  "measured limit (max_walk_depth < depth + nesting v) (weight r v) (walk r limit v depth)"
  "depth \<le> max_walk_depth \<Longrightarrow>
     measured limit (max_walk_depth < depth + dict_nesting d) (acc + dict_weight r d) (walk_dict r limit d depth acc)"
  "depth \<le> max_walk_depth \<Longrightarrow>
     measured limit (max_walk_depth < depth + list_nesting xs) (acc + list_weight r xs) (walk_list r limit xs depth acc)"
proof (induction r limit v depth and r limit d depth acc and r limit xs depth acc rule: walk_walk_dict_walk_list.induct)
  case (6 r limit d depth)
  then show ?case by (auto simp: measured_def split: if_splits)
next
  case (7 r limit xs depth)
  then show ?case by (auto simp: measured_def split: if_splits)
next
  case (9 r limit k v d depth acc)
  then show ?case by (auto simp: measured_def Let_def split: if_splits)
next
  case (11 r limit v xs depth acc)
  then show ?case by (auto simp: measured_def Let_def split: if_splits)
qed (auto simp: measured_def guarded_def)

text \<open>C28. The estimate that stops early refuses exactly the arguments that are nested too deeply or
  weigh more than the limit.\<close>

theorem payload_limit_exact:
  "json_payload_over_limit r v limit = (v \<noteq> PyNone \<and> (max_walk_depth < nesting v \<or> limit < weight r v))"
  using walk_measured(1) [of limit 0 v r] by (auto simp: json_payload_over_limit_def measured_def split: if_splits)

section \<open>What the handlers leave alone\<close>

text \<open>The runs of a state with their two tables.\<close>

definition runs_of :: "dispatch_state \<Rightarrow> run_task list \<times> nat list \<times> (string \<times> nat) list" where
  "runs_of s = (ds_runs s, ds_invocations s, ds_threads s)"

lemma runs_of_update [simp]:
  "runs_of (s\<lparr>ds_turn := t\<rparr>) = runs_of s" "runs_of (s\<lparr>ds_store := st\<rparr>) = runs_of s"
  "runs_of (s\<lparr>ds_stage := g\<rparr>) = runs_of s" "runs_of (s\<lparr>ds_shutdown := b\<rparr>) = runs_of s" "runs_of (put_sys sy s) = runs_of s"
  by (simp_all add: runs_of_def put_sys_def)

lemma put_sys_store [simp]: "ds_store (put_sys sy s) = ds_store s"
  by (simp add: put_sys_def)

lemma on_root_frame [simp]:
  "runs_of (snd (on_root X rqs s)) = runs_of s" "ds_store (snd (on_root X rqs s)) = ds_store s"
  by (simp_all add: on_root_def Let_def split: prod.splits)

lemma reply_frame [simp]: "runs_of (snd (reply X rqs s)) = runs_of s" "ds_store (snd (reply X rqs s)) = ds_store s"
  by (simp_all add: reply_def split_beta split: option.splits)

lemma reply_or_frame [simp]:
  "runs_of (snd (reply_or X rq f s)) = runs_of s" "ds_store (snd (reply_or X rq f s)) = ds_store s"
  by (simp_all add: reply_or_def split_beta split: option.splits)

lemma agent_or_skip_frame [simp]:
  "runs_of (snd (agent_or_skip X q b s)) = runs_of s" "ds_store (snd (agent_or_skip X q b s)) = ds_store s"
  by (simp_all add: agent_or_skip_def split_beta split: agent_answer.splits option.splits)

text \<open>Whatever the handler after \<open>_agent_or_skip\<close> leaves alone.\<close>

lemma with_agent_frame:
  assumes "f (snd (agent_or_skip X q True s)) = f s" and "\<And>s. f (snd (k s)) = f s"
  shows "f (snd (with_agent X q k s)) = f s"
  using assms by (simp add: with_agent_def split_beta split: sum.splits)

lemma fork_root_frame [simp]: "runs_of (snd (fork_root t s)) = runs_of s" "ds_store (snd (fork_root t s)) = ds_store s"
  by (auto simp: fork_root_def Let_def split: prod.splits sum.splits)

lemma on_bridge_frame [simp]: "runs_of (snd (on_bridge f s)) = runs_of s" "ds_store (snd (on_bridge f s)) = ds_store s"
  by (auto simp: on_bridge_def Let_def split: prod.splits)

lemma resume_root_frame [simp]:
  "runs_of (snd (resume_root X t n s)) = runs_of s" "ds_store (snd (resume_root X t n s)) = ds_store s"
  by (auto simp: resume_root_def Let_def split: prod.splits sum.splits)

lemma reply_on_fork_frame [simp]:
  "runs_of (snd (reply_on_fork X t rq s)) = runs_of s" "ds_store (snd (reply_on_fork X t rq s)) = ds_store s"
  by (simp_all add: reply_on_fork_def split_beta split: sum.splits option.splits)

named_theorems frame \<open>what a handler leaves alone\<close>

text \<open>The handlers that start and cancel no run.\<close>

lemma session_handlers_runs [frame]:
  "runs_of (snd (dispatch_session_resume X d s)) = runs_of s"
  "runs_of (snd (dispatch_subscribe d s)) = runs_of s"
  "runs_of (snd (dispatch_unsubscribe s)) = runs_of s"
  "runs_of (snd (dispatch_session_list X s)) = runs_of s"
  "runs_of (snd (dispatch_session_create X q d s)) = runs_of s"
  "runs_of (snd (dispatch_session_delete X d s)) = runs_of s"
  "runs_of (snd (dispatch_session_rename X d s)) = runs_of s"
  by (simp_all add: dispatch_session_resume_def dispatch_subscribe_def dispatch_unsubscribe_def dispatch_session_list_def
      dispatch_session_create_def dispatch_session_delete_def dispatch_session_rename_def Let_def split_beta
      split: option.splits sum.splits)

lemma agent_handlers_runs [frame]:
  "runs_of (snd (dispatch_feedback X q d s)) = runs_of s"
  "runs_of (snd (dispatch_snapshot X q d s)) = runs_of s"
  "runs_of (snd (dispatch_tool_list X q s)) = runs_of s"
  "runs_of (snd (dispatch_tool_invoke X q d s)) = runs_of s"
  "runs_of (snd (dispatch_attach_file X q d s)) = runs_of s"
  "runs_of (snd (dispatch_config_set X q c s)) = runs_of s"
  "runs_of (snd (dispatch_memory_clear X q d s)) = runs_of s"
  "runs_of (snd (dispatch_memory_pop X q d s)) = runs_of s"
  "runs_of (snd (dispatch_harness_git X q d s)) = runs_of s"
  unfolding dispatch_feedback_def dispatch_snapshot_def dispatch_tool_list_def dispatch_tool_invoke_def
      dispatch_attach_file_def dispatch_config_set_def dispatch_memory_clear_def dispatch_memory_pop_def dispatch_harness_git_def
  by (rule with_agent_frame; simp add: Let_def split_beta split: option.splits sum.splits answer.splits)+

lemma other_handlers_runs [frame]:
  "runs_of (snd (dispatch_plan_preview X q d s)) = runs_of s"
  "runs_of (snd (dispatch_shutdown s)) = runs_of s"
  "runs_of (snd (dispatch_hitl_respond d s)) = runs_of s"
  by (simp_all add: dispatch_plan_preview_def dispatch_shutdown_def dispatch_hitl_respond_def Let_def split_beta
      split: sum.splits bool.splits plan_answer.splits)

text \<open>The handlers that do not write the store of events.\<close>

lemma session_handlers_store [frame]:
  "ds_store (snd (dispatch_session_resume X d s)) = ds_store s"
  "ds_store (snd (dispatch_subscribe d s)) = ds_store s"
  "ds_store (snd (dispatch_unsubscribe s)) = ds_store s"
  "ds_store (snd (dispatch_session_list X s)) = ds_store s"
  "ds_store (snd (dispatch_session_create X q d s)) = ds_store s"
  by (simp_all add: dispatch_session_resume_def dispatch_subscribe_def dispatch_unsubscribe_def dispatch_session_list_def
      dispatch_session_create_def Let_def split_beta split: option.splits sum.splits)

lemma agent_handlers_store [frame]:
  "ds_store (snd (dispatch_feedback X q d s)) = ds_store s"
  "ds_store (snd (dispatch_snapshot X q d s)) = ds_store s"
  "ds_store (snd (dispatch_tool_list X q s)) = ds_store s"
  "ds_store (snd (dispatch_tool_invoke X q d s)) = ds_store s"
  "ds_store (snd (dispatch_attach_file X q d s)) = ds_store s"
  "ds_store (snd (dispatch_config_set X q c s)) = ds_store s"
  "ds_store (snd (dispatch_memory_clear X q d s)) = ds_store s"
  "ds_store (snd (dispatch_memory_pop X q d s)) = ds_store s"
  "ds_store (snd (dispatch_harness_git X q d s)) = ds_store s"
  "ds_store (snd (dispatch_worker_assign X q d s)) = ds_store s"
  unfolding dispatch_feedback_def dispatch_snapshot_def dispatch_tool_list_def dispatch_tool_invoke_def
      dispatch_attach_file_def dispatch_config_set_def dispatch_memory_clear_def dispatch_memory_pop_def dispatch_harness_git_def
      dispatch_worker_assign_def
  by (rule with_agent_frame;
      simp add: Let_def split_beta create_run_def split: option.splits sum.splits answer.splits)+

lemma cancel_run_store [simp]: "ds_store (cancel_run i s) = ds_store s"
  by (simp add: cancel_run_def)

lemma cancel_runs_store [simp]: "ds_store (fold cancel_run xs s) = ds_store s"
  by (induction xs arbitrary: s) simp_all

lemma other_handlers_store [frame]:
  "ds_store (snd (dispatch_plan_preview X q d s)) = ds_store s"
  "ds_store (snd (dispatch_shutdown s)) = ds_store s"
  "ds_store (snd (dispatch_hitl_respond d s)) = ds_store s"
  "ds_store (snd (dispatch_cancel d s)) = ds_store s"
  by (simp_all add: dispatch_plan_preview_def dispatch_shutdown_def dispatch_hitl_respond_def dispatch_cancel_def Let_def
      split_beta split: sum.splits bool.splits plan_answer.splits option.splits)

lemma invoke_store [frame]: "ds_store (snd (dispatch_invoke X q d s)) = ds_store s"
  by (simp add: dispatch_invoke_def start_invoke_def create_run_def Let_def split_beta
      split: sum.splits bool.splits pyerror.splits content.splits)

section \<open>The tables of the runs\<close>

text \<open>
  Both tables hold exactly the runs whose done callbacks have not run, and the callbacks of a run
  come after its end.
\<close>

definition runs_ok :: "dispatch_state \<Rightarrow> bool" where
  "runs_ok s \<longleftrightarrow>
     (\<forall>th i. map_of (ds_threads s) th = Some i \<longleftrightarrow>
        i < length (ds_runs s) \<and> rn_thread (ds_runs s ! i) = th \<and> \<not> rn_called (ds_runs s ! i))
     \<and> (\<forall>i. i \<in> set (ds_invocations s) \<longleftrightarrow> i < length (ds_runs s) \<and> \<not> rn_called (ds_runs s ! i))
     \<and> (\<forall>i<length (ds_runs s). rn_called (ds_runs s ! i) \<longrightarrow> run_done (ds_runs s ! i))
     \<and> distinct (map fst (ds_threads s))"

text \<open>Every run that has ended has had its callbacks.\<close>

definition callbacks_run :: "dispatch_state \<Rightarrow> bool" where
  "callbacks_run s \<longleftrightarrow> list_all (\<lambda>r. run_done r \<longrightarrow> rn_called r) (ds_runs s)"

lemma runs_ok_of: "runs_of s = runs_of s' \<Longrightarrow> runs_ok s = runs_ok s'"
  by (simp add: runs_of_def runs_ok_def)

lemma runs_ok_frame: "runs_ok s \<Longrightarrow> runs_of s' = runs_of s \<Longrightarrow> runs_ok s'"
  using runs_ok_of by blast

text \<open>The entry of a run whose callbacks have not run.\<close>

lemma runs_ok_entry:
  "runs_ok s \<Longrightarrow> i < length (ds_runs s) \<Longrightarrow> \<not> rn_called (ds_runs s ! i) \<Longrightarrow>
     map_of (ds_threads s) (rn_thread (ds_runs s ! i)) = Some i"
  by (simp add: runs_ok_def)

lemma runs_ok_update:
  assumes "runs_ok s" and "i < length (ds_runs s)" and "rn_thread r = rn_thread (ds_runs s ! i)"
    and "rn_called r = rn_called (ds_runs s ! i)" and "rn_called r \<Longrightarrow> run_done r"
    and "runs_of s' = ((ds_runs s)[i := r], ds_invocations s, ds_threads s)"
  shows "runs_ok s'"
proof -
  have s': "ds_runs s' = (ds_runs s)[i := r]" "ds_invocations s' = ds_invocations s" "ds_threads s' = ds_threads s"
    using assms(6) by (simp_all add: runs_of_def)
  have same: "rn_thread ((ds_runs s)[i := r] ! j) = rn_thread (ds_runs s ! j)"
    "rn_called ((ds_runs s)[i := r] ! j) = rn_called (ds_runs s ! j)" for j
    using assms(2-4) by (simp_all add: nth_list_update)
  have "run_done ((ds_runs s)[i := r] ! j)" if "j < length (ds_runs s)" "rn_called (ds_runs s ! j)" for j
    using assms that unfolding runs_ok_def by (cases "j = i") simp_all
  then show ?thesis using assms(1) unfolding runs_ok_def s' same by simp
qed

lemma put_run_ok:
  assumes "runs_ok s" and "i < length (ds_runs s)" and "rn_thread r = rn_thread (ds_runs s ! i)"
    and "rn_called r = rn_called (ds_runs s ! i)" and "\<not> run_done (ds_runs s ! i)"
  shows "runs_ok (put_run i r t s)"
proof (rule runs_ok_update [OF assms(1-4)])
  show "run_done r" if "rn_called r" using assms that by (auto simp: runs_ok_def)
qed (simp add: runs_of_def put_run_def)

lemma cancel_run_ok:
  assumes "runs_ok s" and "i < length (ds_runs s)"
  shows "runs_ok (cancel_run i s) \<and> length (ds_runs (cancel_run i s)) = length (ds_runs s)"
proof -
  have "runs_ok (cancel_run i s)"
  proof (cases "run_done (ds_runs s ! i)")
    case False
    show ?thesis
      by (rule runs_ok_update [OF assms, of "(ds_runs s ! i)\<lparr>rn_cancel := True\<rparr>"])
         (use False assms in \<open>auto simp: cancel_run_def runs_of_def runs_ok_def run_done_def\<close>)
  qed (use assms in \<open>simp add: cancel_run_def\<close>)
  then show ?thesis by (simp add: cancel_run_def)
qed

lemma cancel_runs_ok:
  "runs_ok s \<Longrightarrow> \<forall>i\<in>set xs. i < length (ds_runs s) \<Longrightarrow> runs_ok (fold cancel_run xs s)"
  by (induction xs arbitrary: s) (auto simp: cancel_run_ok)

text \<open>Where the callbacks have run, a thread without a live run is not in the table.\<close>

lemma idle_unregistered:
  assumes "runs_ok s" and "callbacks_run s" and "\<not> thread_busy th s"
  shows "map_of (ds_threads s) th = None"
proof (rule ccontr)
  assume "\<not> ?thesis"
  then obtain i where i: "map_of (ds_threads s) th = Some i" by blast
  then have "i < length (ds_runs s)" "\<not> rn_called (ds_runs s ! i)" using assms(1) unfolding runs_ok_def by blast+
  then have "\<not> run_done (ds_runs s ! i)" using assms(2) by (auto simp: callbacks_run_def list_all_length)
  then show False using assms(3) i by (simp add: thread_busy_def)
qed

lemma create_run_ok:
  assumes ok: "runs_ok s" and new: "map_of (ds_threads s) th = None"
  shows "runs_ok (create_run th i p us s)"
proof -
  let ?n = "length (ds_runs s)" and ?s = "create_run th i p us s"
  have len: "length (ds_runs ?s) = ?n + 1" by (simp add: create_run_def Let_def)
  have nth: "ds_runs ?s ! j = (if j < ?n then ds_runs s ! j else ds_runs ?s ! ?n)" if "j < ?n + 1" for j
    using that by (auto simp: create_run_def Let_def nth_append less_Suc_eq)
  have last: "rn_thread (ds_runs ?s ! ?n) = th" "\<not> rn_called (ds_runs ?s ! ?n)"
    by (simp_all add: create_run_def Let_def nth_append)
  have tables: "map_of (ds_threads ?s) = (map_of (ds_threads s))(th \<mapsto> ?n)" "set (ds_invocations ?s) = insert ?n (set (ds_invocations s))"
    by (simp_all add: create_run_def Let_def update_conv')
  have other: "rn_thread (ds_runs s ! j) \<noteq> th" if "j < ?n" "\<not> rn_called (ds_runs s ! j)" for j
    using runs_ok_entry [OF ok that] new by auto
  have threads: "map_of (ds_threads ?s) t = Some j \<longleftrightarrow>
      j < ?n + 1 \<and> rn_thread (ds_runs ?s ! j) = t \<and> \<not> rn_called (ds_runs ?s ! j)" for t j
  proof (cases "j < ?n")
    case True
    then have e: "ds_runs ?s ! j = ds_runs s ! j" "j < ?n + 1" "j \<noteq> ?n" using nth [of j] by simp_all
    have "map_of (ds_threads s) t = Some j \<longleftrightarrow> j < ?n \<and> rn_thread (ds_runs s ! j) = t \<and> \<not> rn_called (ds_runs s ! j)"
      using ok unfolding runs_ok_def by blast
    then show ?thesis unfolding tables e(1) using e(2,3) True other [OF True] by auto
  next
    case False
    then have "map_of (ds_threads s) t \<noteq> Some j" using ok unfolding runs_ok_def by blast
    then show ?thesis unfolding tables using False last by (cases "j = ?n") auto
  qed
  have invs: "j \<in> set (ds_invocations ?s) \<longleftrightarrow> j < ?n + 1 \<and> \<not> rn_called (ds_runs ?s ! j)" for j
  proof (cases "j < ?n")
    case True
    then have e: "ds_runs ?s ! j = ds_runs s ! j" "j < ?n + 1" "j \<noteq> ?n" using nth [of j] by simp_all
    show ?thesis unfolding tables e(1) using ok e True unfolding runs_ok_def by simp
  next
    case False
    then have "j \<notin> set (ds_invocations s)" using ok unfolding runs_ok_def by blast
    then show ?thesis unfolding tables using False last by (cases "j = ?n") auto
  qed
  have "run_done (ds_runs ?s ! j)" if "j < ?n + 1" "rn_called (ds_runs ?s ! j)" for j
  proof (cases "j < ?n")
    case True
    then show ?thesis using ok nth [OF that(1)] that(2) unfolding runs_ok_def by simp
  next
    case False
    then have "j = ?n" using that(1) by simp
    then show ?thesis using that(2) last by simp
  qed
  moreover have "distinct (map fst (ds_threads ?s))"
    using ok by (simp add: runs_ok_def create_run_def Let_def distinct_update)
  ultimately show ?thesis using threads invs unfolding runs_ok_def len by blast
qed

lemma callbacks_ok:
  assumes "runs_ok s" and "i < length (ds_runs s)"
  shows "runs_ok (run_callbacks i s)"
proof (cases "run_done (ds_runs s ! i) \<and> \<not> rn_called (ds_runs s ! i)")
  case True
  then have i: "map_of (ds_threads s) (rn_thread (ds_runs s ! i)) = Some i" using assms by (simp add: runs_ok_def)
  let ?s = "run_callbacks i s"
  have runs: "ds_runs ?s = (ds_runs s)[i := (ds_runs s ! i)\<lparr>rn_called := True\<rparr>]"
    "set (ds_invocations ?s) = set (ds_invocations s) - {i}"
    "map_of (ds_threads ?s) = (map_of (ds_threads s))(rn_thread (ds_runs s ! i) := None)"
    using True by (auto simp: run_callbacks_def Let_def delete_conv')
  have other: "j = i" if "j < length (ds_runs s)" "rn_thread (ds_runs s ! j) = rn_thread (ds_runs s ! i)"
      "\<not> rn_called (ds_runs s ! j)" for j
    using runs_ok_entry [OF assms(1) that(1,3)] i that(2) by (metis option.inject)
  have len: "length (ds_runs ?s) = length (ds_runs s)" by (simp add: runs)
  have nth: "ds_runs ?s ! j = (if j = i then (ds_runs s ! i)\<lparr>rn_called := True\<rparr> else ds_runs s ! j)" for j
    using assms(2) by (simp add: runs nth_list_update)
  have called: "rn_called (ds_runs ?s ! j) \<longleftrightarrow> j = i \<or> rn_called (ds_runs s ! j)"
    "rn_thread (ds_runs ?s ! j) = rn_thread (ds_runs s ! j)" "run_done (ds_runs ?s ! j) = run_done (ds_runs s ! j)" for j
    by (simp_all add: nth run_done_def)
  have "map_of (ds_threads ?s) th = Some j \<longleftrightarrow>
      j < length (ds_runs s) \<and> rn_thread (ds_runs s ! j) = th \<and> \<not> (j = i \<or> rn_called (ds_runs s ! j))" for th j
    unfolding runs(3) using assms(1) other [of j] i unfolding runs_ok_def by auto
  moreover have "j \<in> set (ds_invocations ?s) \<longleftrightarrow> j < length (ds_runs s) \<and> \<not> (j = i \<or> rn_called (ds_runs s ! j))" for j
    unfolding runs(2) using assms(1) unfolding runs_ok_def by auto
  moreover have "run_done (ds_runs s ! j)" if "j < length (ds_runs s)" "j = i \<or> rn_called (ds_runs s ! j)" for j
    using assms(1) True that unfolding runs_ok_def by blast
  moreover have "distinct (map fst (ds_threads ?s))"
    using assms(1) True by (simp add: runs_ok_def run_callbacks_def Let_def distinct_delete)
  ultimately show ?thesis unfolding runs_ok_def len called by blast
qed (use assms in \<open>auto simp: run_callbacks_def Let_def\<close>)

lemma frame_tables:
  assumes "runs_of s' = runs_of s"
  shows "runs_ok s' = runs_ok s" "callbacks_run s' = callbacks_run s" "thread_busy th s' = thread_busy th s"
    "ds_threads s' = ds_threads s" "ds_runs s' = ds_runs s" "ds_invocations s' = ds_invocations s"
  using assms runs_ok_of [OF assms] by (auto simp: runs_of_def callbacks_run_def thread_busy_def split: option.splits)

text \<open>A fork, and then a run on it.\<close>

lemma forked_run_ok:
  assumes "runs_ok s" and "map_of (ds_threads s) th = None" and "fork_root t s = (Inr j, s1)" and "runs_of s2 = runs_of s1"
  shows "runs_ok (create_run th i p us s2)"
proof -
  have "runs_of s2 = runs_of s" using fork_root_frame(1) [of t s] assms(3,4) by simp
  then show ?thesis using create_run_ok assms(1,2) frame_tables(1,4) by metis
qed

lemma start_invoke_ok:
  assumes ok: "runs_ok s" and new: "map_of (ds_threads s) th = None"
  shows "runs_ok (snd (start_invoke X q d th s))"
proof -
  obtain r g where p: "prepare_invoke_attachments (xw_stage X) (fld d ''prompt'') (attachments_of d) th (xw_wd X)
      (ou_model q) (ds_stage s) = (r, g)" by (metis surj_pair)
  show ?thesis
  proof (cases r)
    case (Inl e)
    have "runs_of (snd (start_invoke X q d th s)) = runs_of s"
      using p Inl by (simp add: start_invoke_def split: pyerror.splits)
    then show ?thesis using ok frame_tables(1) by blast
  next
    case (Inr pu)
    obtain y s1 where f: "fork_root th (s\<lparr>ds_stage := g\<rparr>) = (y, s1)" by (metis surj_pair)
    have s1: "runs_of s1 = runs_of s" using fork_root_frame(1) [of th "s\<lparr>ds_stage := g\<rparr>"] f by simp
    have "snd (start_invoke X q d th s) = (case y of Inl _ \<Rightarrow> s1 | Inr i \<Rightarrow> create_run th i (fst pu) (snd pu) s1)"
      using p Inr f by (simp add: start_invoke_def split_beta split: sum.splits)
    moreover have "runs_ok s1" "map_of (ds_threads s1) th = None" using frame_tables(1,4) [OF s1] ok new by simp_all
    ultimately show ?thesis using create_run_ok by (simp split: sum.splits)
  qed
qed

lemma invoke_ok:
  assumes "runs_ok s" and "callbacks_run s"
  shows "runs_ok (snd (dispatch_invoke X q d s))"
proof -
  obtain r s1 where a: "agent_or_skip X q True s = (r, s1)" by (metis surj_pair)
  have s1: "runs_of s1 = runs_of s" using agent_or_skip_frame(1) [of X q True s] a by simp
  have s1': "runs_ok s1" "callbacks_run s1" using assms frame_tables [OF s1] by simp_all
  let ?th = "thread_or d (''thread_'' @ take 16 (ou_uid q))"
  have quiet: "runs_ok (snd (reply X rqs s1))" for rqs using s1'(1) frame_tables(1) [OF reply_frame(1)] by blast
  have start: "runs_ok (snd (start_invoke X q d ?th s1))" if "\<not> thread_busy ?th s1"
    using start_invoke_ok idle_unregistered s1' that by blast
  show ?thesis using s1'(1) a quiet start by (simp add: dispatch_invoke_def Let_def split: sum.splits bool.splits)
qed

lemma worker_assign_ok:
  assumes "runs_ok s" and "callbacks_run s"
  shows "runs_ok (snd (dispatch_worker_assign X q d s))"
proof -
  let ?th = "thread_or d (''wt_'' @ take 12 (ou_uid q))" and ?w = "fld d ''worker_id''"
  let ?rq = "emit_worker_spawned ?w (Some ?w) (opt_fld d ''pattern'') (Some (fld d ''task'')) None None"
  obtain r s1 where a: "agent_or_skip X q True s = (r, s1)" by (metis surj_pair)
  have s1: "runs_of s1 = runs_of s" using agent_or_skip_frame(1) [of X q True s] a by simp
  have s1': "runs_ok s1" "callbacks_run s1" using assms frame_tables [OF s1] by simp_all
  have quiet: "runs_ok (snd (reply X rqs s1))" for rqs using s1'(1) frame_tables(1) [OF reply_frame(1)] by blast
  obtain y s2 where f: "fork_root ?th s1 = (y, s2)" by (metis surj_pair)
  have s2: "runs_of s2 = runs_of s1" using f by (metis fork_root_frame(1) snd_conv)
  have turn: "runs_ok (s2\<lparr>ds_turn := t\<rparr>)" for t using s1'(1) frame_tables(1) s2 runs_of_update(1) by metis
  have made: "runs_ok (create_run ?th i p us (s2\<lparr>ds_turn := t\<rparr>))" if "y = Inr i" "\<not> thread_busy ?th s1" for i p us t
    using forked_run_ok [OF s1'(1) idle_unregistered [OF s1' that(2)] f [unfolded that(1)]] by simp
  have k: "runs_ok s2" using s1'(1) frame_tables(1) [OF s2] by simp
  show ?thesis
    using a quiet f turn made k s1'(1)
    by (auto simp: dispatch_worker_assign_def with_agent_def Let_def split: sum.splits prod.splits option.splits)
qed

text \<open>The runs a cancel without a thread looks at are those whose callbacks have not run.\<close>

lemma tracked_runs:
  assumes "runs_ok s"
  shows "set (remdups (ds_invocations s @ map snd (ds_threads s))) = {i. i < length (ds_runs s) \<and> \<not> rn_called (ds_runs s ! i)}"
proof -
  have "i < length (ds_runs s) \<and> \<not> rn_called (ds_runs s ! i)" if "(th, i) \<in> set (ds_threads s)" for th i
  proof -
    have "map_of (ds_threads s) th = Some i" using assms that unfolding runs_ok_def by simp
    then show ?thesis using assms unfolding runs_ok_def by blast
  qed
  then have "set (map snd (ds_threads s)) \<subseteq> {i. i < length (ds_runs s) \<and> \<not> rn_called (ds_runs s ! i)}" by auto
  moreover have "set (ds_invocations s) = {i. i < length (ds_runs s) \<and> \<not> rn_called (ds_runs s ! i)}"
    using assms unfolding runs_ok_def by auto
  ultimately show ?thesis by auto
qed

lemma busy_bound: "runs_ok s \<Longrightarrow> map_of (ds_threads s) th = Some i \<Longrightarrow> i < length (ds_runs s) \<and> rn_thread (ds_runs s ! i) = th"
  unfolding runs_ok_def by blast

lemma on_bridge_ok [simp]: "runs_ok (snd (on_bridge f s)) = runs_ok s"
  by (rule frame_tables(1) [OF on_bridge_frame(1)])

lemma cancel_ok:
  assumes "runs_ok s"
  shows "runs_ok (snd (dispatch_cancel d s))"
proof (cases "opt_fld d ''thread''")
  case None
  have "runs_ok (fold cancel_run (remdups (ds_invocations s @ map snd (ds_threads s))) s)"
    using cancel_runs_ok [OF assms] tracked_runs [OF assms] by auto
  then show ?thesis using None by (simp add: dispatch_cancel_def)
next
  case (Some th)
  show ?thesis
  proof (cases "map_of (ds_threads s) th")
    case None
    then show ?thesis using Some assms by (simp add: dispatch_cancel_def thread_busy_def)
  next
    case (Some i)
    have "runs_ok (cancel_run i s)" using cancel_run_ok [OF assms] busy_bound [OF assms Some] by blast
    then show ?thesis
      using Some \<open>opt_fld d ''thread'' = _\<close> assms by (simp add: dispatch_cancel_def)
  qed
qed

lemma quiet_command:
  "cm_type c \<notin> {''command.invoke'', ''command.worker.assign'', ''command.cancel''} \<Longrightarrow>
     runs_of (snd (dispatch_command X q c s)) = runs_of s"
  by (simp add: dispatch_command_def dispatch_table_def Let_def frame split: option.splits)

lemma command_cases:
  "cm_type c = ''command.invoke'' \<Longrightarrow> dispatch_command X q c s = dispatch_invoke X q (cm_data c) s"
  "cm_type c = ''command.worker.assign'' \<Longrightarrow> dispatch_command X q c s = dispatch_worker_assign X q (cm_data c) s"
  "cm_type c = ''command.cancel'' \<Longrightarrow> dispatch_command X q c s = dispatch_cancel (cm_data c) s"
  by (simp_all add: dispatch_command_def dispatch_table_def Let_def)

lemma command_ok: "runs_ok s \<Longrightarrow> callbacks_run s \<Longrightarrow> runs_ok (snd (dispatch_command X q c s))"
  using command_cases [of c X q s] invoke_ok worker_assign_ok cancel_ok frame_tables(1) [OF quiet_command [of c X q s]]
  by (cases "cm_type c \<in> {''command.invoke'', ''command.worker.assign'', ''command.cancel''}") auto

section \<open>The steps of the runs\<close>

lemma run_steps_ok:
  assumes "runs_ok s" and "i < length (ds_runs s)"
  shows "runs_ok (run_start X i s)" "runs_ok (run_event X i ev uid ms s)" "runs_ok (run_end X i e ms s)"
  using assms
  by (auto simp: run_start_def run_event_def run_end_def Let_def run_done_def split: prod.splits option.splits run_phase.splits sum.splits
      intro!: put_run_ok)

lemma dispatch_step_ok:
  assumes "runs_ok s" and "case op of D_command q c \<Rightarrow> callbacks_run s | _ \<Rightarrow> True"
  shows "runs_ok (dispatch_step X op s)"
proof (cases op)
  case (D_command q c)
  then show ?thesis using assms command_ok by (simp add: dispatch_step_def)
next
  case (D_gate g)
  then show ?thesis
    using assms(1) frame_tables(1) [OF runs_of_update(1)] by (simp add: dispatch_step_def Let_def split: prod.splits)
qed (use assms(1) run_steps_ok callbacks_ok in \<open>auto simp: dispatch_step_def Let_def\<close>)

fun dispatch_run :: "dispatch_world \<Rightarrow> dispatch_op list \<Rightarrow> dispatch_state \<Rightarrow> dispatch_state" where
  "dispatch_run X [] s = s"
| "dispatch_run X (op # ops) s = dispatch_run X ops (dispatch_step X op s)"

text \<open>The done callbacks of a run that has ended come before the next command.\<close>

fun callbacks_first :: "dispatch_world \<Rightarrow> dispatch_op list \<Rightarrow> dispatch_state \<Rightarrow> bool" where
  "callbacks_first X [] s = True"
| "callbacks_first X (op # ops) s =
     ((case op of D_command q c \<Rightarrow> callbacks_run s | _ \<Rightarrow> True) \<and> callbacks_first X ops (dispatch_step X op s))"

lemma dispatch_run_ok: "runs_ok s \<Longrightarrow> callbacks_first X ops s \<Longrightarrow> runs_ok (dispatch_run X ops s)"
  by (induction ops arbitrary: s) (auto intro: dispatch_step_ok)

definition dispatch_init :: "turn_state \<Rightarrow> mem_store option \<Rightarrow> stage \<Rightarrow> dispatch_state" where
  "dispatch_init t st g =
     \<lparr>ds_turn = t, ds_store = st, ds_stage = g, ds_runs = [], ds_invocations = [], ds_threads = [], ds_shutdown = False\<rparr>"

lemma init_ok: "runs_ok (dispatch_init t st g)"
  by (simp add: dispatch_init_def runs_ok_def)
text \<open>C4. If done callbacks come before the next command, at most one run of a thread is live, whatever
  commands a client sends and however its runs go.\<close>

theorem one_run_per_thread:
  assumes "callbacks_first X ops (dispatch_init t st g)" and "rs = ds_runs (dispatch_run X ops (dispatch_init t st g))"
    and "i < length rs" and "j < length rs" and "\<not> run_done (rs ! i)" and "\<not> run_done (rs ! j)"
    and "rn_thread (rs ! i) = rn_thread (rs ! j)"
  shows "i = j"
proof -
  have ok: "runs_ok (dispatch_run X ops (dispatch_init t st g))" by (rule dispatch_run_ok [OF init_ok assms(1)])
  have live: "\<not> rn_called (rs ! k)" if "k < length rs" "\<not> run_done (rs ! k)" for k
    using ok that assms(2) unfolding runs_ok_def by blast
  show ?thesis
    using runs_ok_entry [OF ok, folded assms(2)] live [OF assms(3,5)] live [OF assms(4,6)] assms(3,4,7) by (metis option.inject)
qed

section \<open>Cancelling\<close>

text \<open>The runs a cancel command is for.\<close>

definition aimed :: "pyval pydict \<Rightarrow> run_task \<Rightarrow> bool" where
  "aimed d r \<longleftrightarrow> \<not> run_done r \<and> (case opt_fld d ''thread'' of None \<Rightarrow> True | Some th \<Rightarrow> rn_thread r = th)"

definition cancelled_in :: "nat set \<Rightarrow> dispatch_state \<Rightarrow> dispatch_state \<Rightarrow> bool" where
  "cancelled_in A s s' \<longleftrightarrow>
     length (ds_runs s') = length (ds_runs s)
     \<and> (\<forall>i<length (ds_runs s). ds_runs s' ! i = (if i \<in> A then (ds_runs s ! i)\<lparr>rn_cancel := True\<rparr> else ds_runs s ! i))
     \<and> (\<forall>i. map_of (br_cancel_reason (tu_bridge (ds_turn s'))) i
           = (if i \<in> A then Some Reason_user else map_of (br_cancel_reason (tu_bridge (ds_turn s))) i))
     \<and> tu_sys (ds_turn s') = tu_sys (ds_turn s)"

lemma cancel_run_in:
  "i < length (ds_runs s) \<Longrightarrow> cancelled_in (if run_done (ds_runs s ! i) then {} else {i}) s (cancel_run i s)"
  by (simp add: cancelled_in_def cancel_run_def prepare_invocation_cancel_def update_conv' nth_list_update)

lemma cancelled_in_done:
  "cancelled_in A s s' \<Longrightarrow> i < length (ds_runs s) \<Longrightarrow> run_done (ds_runs s' ! i) = run_done (ds_runs s ! i)"
  by (auto simp: cancelled_in_def run_done_def)

lemma cancelled_in_trans: "cancelled_in A s s1 \<Longrightarrow> cancelled_in B s1 s2 \<Longrightarrow> cancelled_in (A \<union> B) s s2"
  by (auto simp: cancelled_in_def)

lemma cancel_runs_in:
  "\<forall>i\<in>set xs. i < length (ds_runs s) \<Longrightarrow>
     cancelled_in {i \<in> set xs. \<not> run_done (ds_runs s ! i)} s (fold cancel_run xs s)"
proof (induction xs arbitrary: s)
  case Nil
  then show ?case by (simp add: cancelled_in_def)
next
  case (Cons x xs)
  let ?s = "cancel_run x s"
  have x: "cancelled_in (if run_done (ds_runs s ! x) then {} else {x}) s ?s" using cancel_run_in Cons.prems by simp
  then have len: "length (ds_runs ?s) = length (ds_runs s)" by (simp add: cancelled_in_def)
  have rest: "cancelled_in {i \<in> set xs. \<not> run_done (ds_runs ?s ! i)} ?s (fold cancel_run xs ?s)"
    using Cons.IH [of ?s] Cons.prems len by simp
  have same: "{i \<in> set xs. \<not> run_done (ds_runs ?s ! i)} = {i \<in> set xs. \<not> run_done (ds_runs s ! i)}"
    using cancelled_in_done [OF x] Cons.prems by auto
  have "{i \<in> set (x # xs). \<not> run_done (ds_runs s ! i)}
      = (if run_done (ds_runs s ! x) then {} else {x}) \<union> {i \<in> set xs. \<not> run_done (ds_runs s ! i)}" by auto
  then show ?case using cancelled_in_trans [OF x rest] same by simp
qed

lemma gates_cancelled:
  "br_cancel_reason (snd (cancel_all b)) = br_cancel_reason b"
  "br_cancel_reason (snd (cancel_for_thread th b)) = br_cancel_reason b"
  by (simp_all add: cancel_all_def cancel_for_thread_def cancel_where_def Let_def)

lemma on_bridge_cancelled:
  assumes "\<And>b. br_cancel_reason (snd (f b)) = br_cancel_reason b"
  shows "cancelled_in A s (snd (on_bridge f s')) = cancelled_in A s s'"
  using assms [of "tu_bridge (ds_turn s')"] by (simp add: cancelled_in_def on_bridge_def Let_def split_beta)

lemma live_entry:
  "runs_ok s \<Longrightarrow> i < length (ds_runs s) \<Longrightarrow> \<not> run_done (ds_runs s ! i) \<Longrightarrow>
     map_of (ds_threads s) (rn_thread (ds_runs s ! i)) = Some i"
  using runs_ok_entry unfolding runs_ok_def by blast

lemma busy_iff: "runs_ok s \<Longrightarrow> thread_busy th s \<longleftrightarrow> (\<exists>i<length (ds_runs s). rn_thread (ds_runs s ! i) = th \<and> \<not> run_done (ds_runs s ! i))"
proof
  assume ok: "runs_ok s" and "thread_busy th s"
  then obtain i where "map_of (ds_threads s) th = Some i" "\<not> run_done (ds_runs s ! i)"
    by (auto simp: thread_busy_def split: option.splits)
  then show "\<exists>i<length (ds_runs s). rn_thread (ds_runs s ! i) = th \<and> \<not> run_done (ds_runs s ! i)"
    using busy_bound [OF ok] by blast
next
  assume ok: "runs_ok s" and "\<exists>i<length (ds_runs s). rn_thread (ds_runs s ! i) = th \<and> \<not> run_done (ds_runs s ! i)"
  then obtain i where i: "i < length (ds_runs s)" "rn_thread (ds_runs s ! i) = th" "\<not> run_done (ds_runs s ! i)" by blast
  then have "\<not> rn_called (ds_runs s ! i)" using ok unfolding runs_ok_def by blast
  then show "thread_busy th s" using runs_ok_entry [OF ok i(1)] i by (simp add: thread_busy_def)
qed


section \<open>The store of events\<close>

definition store_get :: "string \<Rightarrow> dispatch_state \<Rightarrow> event list option" where
  "store_get sid s = map_option (mem_get sid) (ds_store s)"

text \<open>The sessions a step may change in the store.\<close>

definition written_sessions :: "dispatch_world \<Rightarrow> dispatch_op \<Rightarrow> string set" where
  "written_sessions X op =
     (case op of
        D_command q c \<Rightarrow>
          if cm_type c = ''command.session.delete'' then {xw_session X}
          else if cm_type c = ''command.session.rename'' then {xw_session X, py_strip (fld (cm_data c) ''to_session_id'')}
          else {}
      | _ \<Rightarrow> {})"

lemma quiet_store:
  "cm_type c \<notin> {''command.session.delete'', ''command.session.rename''} \<Longrightarrow>
     ds_store (snd (dispatch_command X q c s)) = ds_store s"
  by (simp add: dispatch_command_def dispatch_table_def Let_def frame split: option.splits)

lemma store_cases:
  "cm_type c = ''command.session.delete'' \<Longrightarrow> dispatch_command X q c s = dispatch_session_delete X (cm_data c) s"
  "cm_type c = ''command.session.rename'' \<Longrightarrow> dispatch_command X q c s = dispatch_session_rename X (cm_data c) s"
  by (simp_all add: dispatch_command_def dispatch_table_def Let_def)

lemma renamed_other:
  "mem_rename fr target st = Inr st' \<Longrightarrow> sid \<noteq> fr \<Longrightarrow> sid \<noteq> target \<Longrightarrow> mem_get sid st' = mem_get sid st"
  by (auto simp: mem_rename_def Let_def mem_get_update mem_get_delete split: sum.splits if_splits)

lemma delete_other: "sid \<noteq> xw_session X \<Longrightarrow> store_get sid (snd (dispatch_session_delete X d s)) = store_get sid s"
  by (auto simp: dispatch_session_delete_def store_get_def Let_def mem_clear_def mem_get_delete split: option.splits)

lemma rename_other:
  assumes "sid \<noteq> xw_session X" and "sid \<noteq> py_strip (fld d ''to_session_id'')"
  shows "store_get sid (snd (dispatch_session_rename X d s)) = store_get sid s"
proof (cases "ds_store s")
  case None
  then show ?thesis by (simp add: dispatch_session_rename_def store_get_def)
next
  case (Some st)
  let ?fr = "py_strip (fld d ''from_session_id'')" and ?to = "py_strip (fld d ''to_session_id'')"
  show ?thesis
  proof (cases "mem_rename ?fr ?to st")
    case (Inl e)
    then show ?thesis
      using Some by (cases "?fr = xw_session X") (simp_all add: dispatch_session_rename_def store_get_def Let_def)
  next
    case (Inr st')
    then show ?thesis
      using Some renamed_other [OF Inr, of sid] assms by (auto simp: dispatch_session_rename_def store_get_def Let_def)
  qed
qed

lemma run_steps_store:
  "ds_store (run_start X i s) = ds_store s" "ds_store (run_event X i ev uid ms s) = ds_store s"
  "ds_store (run_end X i e ms s) = ds_store s" "ds_store (run_callbacks i s) = ds_store s"
  by (simp_all add: run_start_def run_event_def run_end_def run_callbacks_def put_run_def Let_def split_beta
      split: option.splits run_phase.splits sum.splits)

lemma step_store:
  assumes "sid \<notin> written_sessions X op"
  shows "store_get sid (dispatch_step X op s) = store_get sid s"
proof (cases op)
  case (D_command q c)
  show ?thesis
  proof (cases "cm_type c \<in> {''command.session.delete'', ''command.session.rename''}")
    case True
    then show ?thesis
      using assms D_command delete_other rename_other
      by (auto simp: dispatch_step_def written_sessions_def store_cases)
  next
    case False
    then show ?thesis using D_command by (simp add: dispatch_step_def store_get_def quiet_store)
  qed
qed (simp_all add: dispatch_step_def store_get_def run_steps_store Let_def split_beta)


section \<open>Memory and admission\<close>


lemma transient_certain: "certain (transient m stage)" "rq_type (transient m stage) = ''error.transient''"
  unfolding certain_def transient_def
  by (auto intro!: typed_request.intros)
     (simp_all add: literals_ok_def emit_error_def error_data_def request_data_first_def error_severity_def)

lemma reply_transient:
  assumes "ready (xw_turn X) 0 (ds_turn s)"
  shows "\<exists>s'. reply X [transient m stage] s = (Inr Go_on, s') \<and> advanced 0 [''error.transient''] (ds_turn s) (ds_turn s')"
proof -
  have "list_all certain [transient m stage]" by (simp add: transient_certain)
  from emit_all_certain [OF assms this] show ?thesis
    by (fastforce simp: reply_def on_root_def Let_def transient_certain(2))
qed

lemma ready_fork:
  assumes "ready W 0 (ds_turn s)"
  shows "\<exists>em. fork_root th s = (Inr (length (fst (tu_sys (ds_turn s)))),
     put_sys (fst (tu_sys (ds_turn s)) @ [em], snd (tu_sys (ds_turn s))) s)"
proof -
  obtain ems ss where sy: "tu_sys (ds_turn s) = (ems, ss)" by (metis surj_pair)
  obtain sid where w: "whole sid (ems ! 0)" using assms sy by (auto simp: ready_def)
  then obtain em where "fork_for_thread th (ems ! 0) = Inr em"
    by (cases "em_last_open (ems ! 0)"; cases "em_last_resume (ems ! 0)") (auto simp: fork_for_thread_def whole_def Let_def)
  then show ?thesis using sy by (intro exI [of _ em]) (simp add: fork_root_def put_sys_def Let_def)
qed

definition staged_for :: "dispatch_world \<Rightarrow> outside \<Rightarrow> pyval pydict \<Rightarrow> string \<Rightarrow> dispatch_state \<Rightarrow> pyerror + content \<times> summary list" where
  "staged_for X q d th s =
     fst (prepare_invoke_attachments (xw_stage X) (fld d ''prompt'') (attachments_of d) th (xw_wd X) (ou_model q) (ds_stage s))"

lemma start_outcome:
  assumes rd: "ready (xw_turn X) 0 (ds_turn s)"
  shows "case staged_for X q d th s of
       Inr (p, us) \<Rightarrow>
         fst (start_invoke X q d th s) = Inr Go_on
         \<and> (\<exists>r. ds_runs (snd (start_invoke X q d th s)) = ds_runs s @ [r] \<and> rn_thread r = th \<and> rn_prompt r = p
              \<and> rn_phase r = Run_new)
         \<and> snd (tu_sys (ds_turn (snd (start_invoke X q d th s)))) = snd (tu_sys (ds_turn s))
     | Inl e \<Rightarrow>
         ds_runs (snd (start_invoke X q d th s)) = ds_runs s
         \<and> (advanced 0 [''error.transient''] (ds_turn s) (ds_turn (snd (start_invoke X q d th s)))
            \<or> fst (start_invoke X q d th s) = Inl e)"
proof -
  obtain y g where p: "prepare_invoke_attachments (xw_stage X) (fld d ''prompt'') (attachments_of d) th (xw_wd X)
      (ou_model q) (ds_stage s) = (y, g)" by (metis surj_pair)
  let ?s = "s\<lparr>ds_stage := g\<rparr>"
  have rd1: "ready (xw_turn X) 0 (ds_turn ?s)" using rd by simp
  show ?thesis
  proof (cases y)
    case (Inr z)
    obtain pr us where z: "z = (pr, us)" by (cases z)
    show ?thesis
      using ready_fork [OF rd1, of th] p Inr z
      by (auto simp: staged_for_def start_invoke_def create_run_def put_sys_def Let_def)
  next
    case (Inl e)
    show ?thesis
    proof (cases "\<exists>m. e = ValueError m")
      case True
      then obtain m where m: "e = ValueError m" by blast
      obtain s' where "reply X [transient m ''invoke.attachments''] ?s = (Inr Go_on, s')"
        "advanced 0 [''error.transient''] (ds_turn ?s) (ds_turn s')" using reply_transient [OF rd1] by blast
      moreover have "ds_runs (snd (reply X [transient m ''invoke.attachments''] ?s)) = ds_runs s"
        using frame_tables(5) [OF reply_frame(1)] by simp
      ultimately show ?thesis using p Inl m by (simp add: staged_for_def start_invoke_def)
    next
      case False
      then show ?thesis using p Inl by (cases e) (simp_all add: staged_for_def start_invoke_def)
    qed
  qed
qed
text \<open>Whether an invocation is admitted: budget, no live run of the thread, attachments staged.\<close>

definition admitted :: "dispatch_world \<Rightarrow> outside \<Rightarrow> pyval pydict \<Rightarrow> string \<Rightarrow> dispatch_state \<Rightarrow> bool" where
  "admitted X q d th s \<longleftrightarrow>
     \<not> budget_refuses s \<and> list_all (\<lambda>r. rn_thread r = th \<longrightarrow> run_done r) (ds_runs s) \<and> \<not> isl (staged_for X q d th s)"


section \<open>Concrete commands\<close>

definition demo_dispatch_world :: dispatch_world where
  "demo_dispatch_world =
     \<lparr>xw_turn = demo_turn_world, xw_stage = \<lparr>sw_resolve = (\<lambda>p. p), sw_guess = (\<lambda>_. None)\<rparr>, xw_session = ''s1'',
      xw_wd = [''w''], xw_cli = [], xw_caps = [], xw_repr_len = (\<lambda>_. 1)\<rparr>"

definition demo_outside :: outside where
  "demo_outside =
     \<lparr>ou_agent = Agent_here, ou_uid = ''0123456789abcdef'', ou_model = None, ou_root = [''w''], ou_saved = False, ou_schema = [],
      ou_providers = [], ou_mcp_error = None, ou_tools = [], ou_tool_call = Inl ''none'', ou_config = Inr None,
      ou_clear = Answered (Inr ()), ou_pop = Answered (Inr None), ou_git = None, ou_plan = Plan_no_llm\<rparr>"

definition demo_command :: "string \<Rightarrow> pyval pydict \<Rightarrow> dispatch_op" where
  "demo_command t d = D_command demo_outside \<lparr>cm_type = t, cm_data = d, cm_given = map fst d\<rparr>"

definition demo_session :: dispatch_state where
  "demo_session =
     dispatch_init \<lparr>tu_bridge = bridge_init No_allowlist (Keep_in_file ''f''), tu_sys = sys_init ''s1'' ''t0'' False, tu_budget = None\<rparr>
       (Some [(''s1'', []), (''s2'', [])]) \<lparr>st_totals = [], st_uploads = [], st_files = []\<rparr>"

definition demo_invoke :: "string \<Rightarrow> dispatch_op" where
  "demo_invoke th = demo_command ''command.invoke'' [(''prompt'', PyStr ''hi''), (''thread'', PyStr th)]"

definition demo_cancel :: "string \<Rightarrow> dispatch_op" where
  "demo_cancel th = demo_command ''command.cancel'' [(''thread'', PyStr th)]"

text \<open>A client that cancels a run, whose callbacks run, and invokes the thread again.\<close>

definition demo_polite :: "dispatch_op list" where
  "demo_polite = [demo_invoke ''t1'', demo_invoke ''t2'', demo_cancel ''t1'', D_start 0, D_callbacks 0, demo_invoke ''t1'']"

lemma demo_steps:
  "dispatch_step demo_dispatch_world (demo_invoke th) s =
     snd (dispatch_invoke demo_dispatch_world demo_outside [(''prompt'', PyStr ''hi''), (''thread'', PyStr th)] s)"
  "dispatch_step demo_dispatch_world (demo_cancel th) s = snd (dispatch_cancel [(''thread'', PyStr th)] s)"
  by (simp_all add: dispatch_step_def demo_invoke_def demo_cancel_def demo_command_def command_cases)

lemma demo_first:
  "(case demo_invoke th of D_command q c \<Rightarrow> callbacks_run s | _ \<Rightarrow> True) = callbacks_run s"
  "(case demo_cancel th of D_command q c \<Rightarrow> callbacks_run s | _ \<Rightarrow> True) = callbacks_run s"
  by (simp_all add: demo_invoke_def demo_cancel_def demo_command_def)

lemma demo_polite_callbacks: "callbacks_first demo_dispatch_world demo_polite demo_session"
  by (simp only: demo_polite_def callbacks_first.simps demo_first demo_steps) code_simp

lemma demo_polite_runs:
  "map (\<lambda>r. (rn_thread r, run_done r)) (ds_runs (dispatch_run demo_dispatch_world demo_polite demo_session))
     = [(''t1'', True), (''t2'', False), (''t1'', False)]"
  by (simp only: demo_polite_def dispatch_run.simps demo_steps) code_simp

text \<open>
  A callback that comes after the thread was invoked again takes the entry of the new run, and
  a third run can start beside it: two runs of one thread are live.
\<close>

lemma late_callback_two_runs:
  "map (\<lambda>r. (rn_thread r, run_done r)) (ds_runs (dispatch_run demo_dispatch_world
       [demo_invoke ''t1'', demo_cancel ''t1'', D_start 0, demo_invoke ''t1'', D_callbacks 0, demo_invoke ''t1''] demo_session))
     = [(''t1'', True), (''t1'', False), (''t1'', False)]"
  by (simp only: dispatch_run.simps demo_steps) code_simp

text \<open>A run that is cancelled before its first step leaves no event on the wire.\<close>

lemma early_cancel_silent:
  "(let s = dispatch_run demo_dispatch_world [demo_invoke ''t1'', demo_cancel ''t1'', D_start 0, D_callbacks 0] demo_session
    in (ss_log (snd (tu_sys (ds_turn s))), map rn_phase (ds_runs s))) = ([], [Run_over Turn_cancelled])"
  by (simp only: dispatch_run.simps demo_steps) code_simp

text \<open>Feedback is not reported on the wire when there is no agent.\<close>

lemma feedback_dropped:
  "ou_agent q = Agent_failed \<Longrightarrow> dispatch_feedback X q d s = (Inr Go_on, s)"
  by (simp add: dispatch_feedback_def with_agent_def agent_or_skip_def)

definition demo_rs :: "run_task list" where
  "demo_rs = ds_runs (dispatch_run demo_dispatch_world demo_polite demo_session)"

lemma demo_rs_are: "map (\<lambda>r. (rn_thread r, run_done r)) demo_rs = [(''t1'', True), (''t2'', False), (''t1'', False)]"
  using demo_polite_runs by (simp add: demo_rs_def)

lemma demo_rs_nth:
  "length demo_rs = 3" "rn_thread (demo_rs ! 2) = ''t1''" "\<not> run_done (demo_rs ! 2)"
proof -
  have "length (map (\<lambda>r. (rn_thread r, run_done r)) demo_rs) = 3" unfolding demo_rs_are by simp
  then show l: "length demo_rs = 3" by simp
  have "map (\<lambda>r. (rn_thread r, run_done r)) demo_rs ! 2 = (''t1'', False)" unfolding demo_rs_are by simp
  then show "rn_thread (demo_rs ! 2) = ''t1''" "\<not> run_done (demo_rs ! 2)" using l by simp_all
qed

theorem one_run_per_thread_witness:
  "{j. j < length demo_rs \<and> rn_thread (demo_rs ! j) = ''t1'' \<and> \<not> run_done (demo_rs ! j)} = {2}"
proof -
  note cf = demo_polite_callbacks [unfolded demo_session_def]
  have "j = 2" if "j < length demo_rs" "rn_thread (demo_rs ! j) = ''t1''" "\<not> run_done (demo_rs ! j)" for j
    by (rule one_run_per_thread [OF cf, of demo_rs]) (use that demo_rs_nth in \<open>simp_all add: demo_rs_def demo_session_def\<close>)
  then show ?thesis using demo_rs_nth by auto
qed

definition demo_cancelled :: "dispatch_op list" where
  "demo_cancelled = [demo_invoke ''t1'', demo_cancel ''t1'', D_start 0, D_callbacks 0]"

lemma demo_cancelled_facts:
  "callbacks_first demo_dispatch_world demo_cancelled demo_session"
  "map rn_thread (ds_runs (dispatch_run demo_dispatch_world demo_cancelled demo_session)) = [''t1'']"
  "memory_target [(''thread'', PyStr ''t1'')] (dispatch_run demo_dispatch_world demo_cancelled demo_session) [] [] = Inr ''t1''"
  by (simp only: demo_cancelled_def callbacks_first.simps dispatch_run.simps demo_first demo_steps, code_simp)+


definition demo_two :: dispatch_state where
  "demo_two = dispatch_run demo_dispatch_world [demo_invoke ''t1'', demo_invoke ''t2''] demo_session"

lemma demo_two_facts:
  "map (\<lambda>r. (rn_thread r, run_done r)) (ds_runs demo_two) = [(''t1'', False), (''t2'', False)]"
  "callbacks_first demo_dispatch_world [demo_invoke ''t1'', demo_invoke ''t2''] demo_session"
  by (simp only: demo_two_def callbacks_first.simps dispatch_run.simps demo_first demo_steps, code_simp)+




end
