(* ===== verification/Spec2Isabelle.thy ===== *)
theory Spec2Isabelle
  imports Worker_Pool Circuit_Breaker Budget_Tracker Agp_Emit Hitl_Bridge Progress_Ledger Blackboard Swarm Reflection
    Agp_Commands Attachment_Stage Translator Command_Dispatch
begin

text \<open>
  Verification library of agloom, an agent runtime in Python. This theory imports the library
  and describes it; files are named relative to \<open>src/agloom\<close>.

  \<^bold>\<open>The program.\<close> A frontend sends commands of the protocol AGP to the runtime; the runtime runs
  the agent and writes events back. A turn of the agent is classified, given a pattern (a single
  agent, a pipeline, a dependency graph of workers, a swarm, a board, a reflection loop) and
  dispatched; the pattern's handler runs workers, each of them calls of a model, and may spawn
  further patterns. Tool calls may have to wait for the user's approval. What must survive (the
  events of a session, the tasks of a project, the permissions) goes to stores.

  \<^bold>\<open>Theories.\<close>
  \<^item> \<open>Agloom_Prelude\<close>: Python values, dictionaries, strings and errors as the other theories use
    them, and the lemmas and simplification sets they share.
  \<^item> Orchestration of patterns. \<open>Worker_Dag\<close> (\<open>src/models.py\<close>, \<open>patterns/_dag.py\<close>): workers and the
    levels of a dependency graph. \<open>Orchestration\<close> (\<open>orchestrator/\<close>): limits, budget and cycle
    checks, escalation, \<open>dispatch_pattern\<close>. \<open>Topo_Sort\<close> (\<open>patterns/_sequential.py\<close>): the order
    of a chain. \<open>Worker_Runs\<close> (\<open>src/worker.py\<close>, \<open>patterns/_resolve.py\<close>, \<open>worker_gates.py\<close>): the
    attempts of one worker. \<open>Sequential_Patterns\<close> (\<open>patterns/pipeline.py\<close>,
    \<open>planner_executor.py\<close>), \<open>Parallel_Workers\<close> (\<open>patterns/hitl.py\<close>), \<open>Dag_Patterns\<close>
    (\<open>patterns/hybrid_dag.py\<close>, \<open>supervisor.py\<close>), \<open>Swarm\<close>, \<open>Blackboard\<close> and \<open>Reflection\<close> (the
    files of the same names): the handlers.
  \<^item> The protocol. \<open>Session_Emitter\<close> (\<open>protocol/emitter.py\<close>, \<open>envelope.py\<close>): numbering, filter,
    wire and storage of events. \<open>Agp_Schema\<close>: what a pydantic class declares. \<open>Agp_Events\<close>
    (\<open>protocol/events.py\<close>) and \<open>Agp_Commands\<close> (\<open>protocol/commands.py\<close>): the two catalogues.
    \<open>Agp_Emit\<close> (the \<open>emit_*\<close> methods). \<open>Event_Store\<close> (\<open>protocol/store.py\<close>): replay.
  \<^item> A turn on the wire. \<open>Translator\<close> (\<open>runtime/translator.py\<close>, \<open>protocol/harness_wire.py\<close>,
    \<open>llm/rough_cost.py\<close>): from events of the agent to events of the protocol. \<open>Attachment_Stage\<close>
    (\<open>runtime/attachment_stage.py\<close>, \<open>path_safety.py\<close>, \<open>upload.py\<close>): files of a client.
    \<open>Invocation\<close> (\<open>runtime/bridge.py\<close>): a whole invocation. \<open>Command_Dispatch\<close>
    (\<open>runtime/command_dispatch.py\<close>): the commands of a client and the runs they start.
  \<^item> Approval. \<open>Hitl_Policy\<close> (\<open>runtime/hitl_allowlist.py\<close>, \<open>patterns/hitl_tool_coalesce.py\<close>): what
    needs no prompt. \<open>Hitl_Bridge\<close> (\<open>runtime/hitl.py\<close>): a gate between the agent and the user.
  \<^item> Resources. \<open>Circuit_Breaker\<close> (\<open>src/llm_utils.py\<close>): breakers, rate limits, structured calls.
    \<open>Budget_Tracker\<close> (\<open>runtime/budget_tracker.py\<close>). \<open>Worker_Registry\<close> and \<open>Worker_Pool\<close>
    (\<open>runtime/registry\<close>, \<open>runtime/workers\<close>, \<open>runtime/scheduler\<close>, \<open>runtime/pool.py\<close>).
  \<^item> The harness. \<open>Progress_Ledger\<close> (\<open>harness/progress.py\<close>, \<open>seed.py\<close>, \<open>planning.py\<close>): tasks with
    verification steps and the trackers that share them.

  \<^bold>\<open>State and operations.\<close> An object is a record with the attributes of its class; a method is a
  function that takes the object and returns it changed. Objects that several tasks share are one
  state, and what the tasks do to it between two awaits is one step: of \<open>gate_step\<close> for the calls
  through a breaker, of \<open>bridge_step\<close> for gates, of \<open>sys_step\<close> for the emitters of a session, of
  \<open>dispatch_step\<close> for the commands and runs of a session, of the inductive relation of
  \<open>Parallel_Workers\<close> for the tasks of a batch. The lemmas over those are invariants of every
  sequence of steps. An exception is a value of \<open>pyerror\<close> on the
  left of a sum. Clocks, fresh identifiers, models, agents, and pydantic's validation of plain
  types are arguments; what is relied on is a hypothesis with a name (\<open>pydantic_laws\<close>).

  \<^bold>\<open>What the lemmas show.\<close> For the patterns, that dispatch ends and runs handlers only where the
  limits admit them, that every order of workers respects the dependencies, and that every worker
  of a plan gives exactly one result or is reported as skipped. For the protocol, that events are
  numbered without gap, read back as they were written, and replayed completely to a client that
  reconnects. For a turn, that it always closes its session in one of the documented ways, and that
  commands start, cancel and keep apart the runs of a session as they should. For
  approval, that the agent goes on only after a yes of the user or within what was allowed. For
  the resources, that the breaker, the budget, the scheduler and the registry keep their bounds. For
  the harness, that a task passes only with verified steps and that no update is lost.

  \<^bold>\<open>Interfaces.\<close> The locales are \<open>event_log\<close> (both stores), \<open>worker_registry\<close> (the in-memory
  registry) and \<open>lru_registry\<close> (breakers and structured runnables). Each is interpreted where its
  provider is modelled.

  \<^bold>\<open>Fuel.\<close> \<open>dispatch_pattern\<close> takes one unit for each level of spawned patterns, and
  \<open>dispatch_terminates\<close> shows that as many as the depth limit are enough. \<open>group_by_level\<close> sweeps
  at most once for each worker and once more. The pages of a replay are as many as the rows. The
  other loops are structural or have a termination proof by a measure.

  \<^bold>\<open>Not modelled.\<close> The agent itself (\<open>src/unified_agent.py\<close>, \<open>patterns/react.py\<close> and its
  middleware) is a graph of LangGraph and LangChain: what it does is decided by those packages and
  by the model. The classifier, the skills, the context plane and the judges of the
  feedback are prompts to a model and repairs of its answers. The model resolver, MCP, the tools
  of the command line, git and the semantic cache are calls of third-party packages and of the
  operating system. The entry points of the runtime parse arguments and move lines
  between standard input or a socket and the parts that are modelled. Log lines, metrics, traces and the
  texts of prompts are left out throughout, and IEEE rounding: floats are rationals and the three
  non-finite values. The clients in TypeScript are not part of the package.
\<close>

end
